(* ===== verification/Prelude.thy ===== *)
theory Prelude
  imports Main "HOL-Library.Word" "HOL-Library.Sublist" "HOL-Library.Multiset"
begin

text \<open>
  Shared vocabulary of the development: fact collections, the result monad that
  stands for Go's \<open>(value, error)\<close> returns, 64-bit signed integers, and the
  generic list and map lemmas the component theories share.
\<close>

subsection \<open>Fact collections\<close>

named_theorems go_simps \<open>characteristic equations of the modelled Go library functions\<close>
named_theorems res_simps \<open>equations and splits of the result monad\<close>
named_theorems tbl_simps \<open>lookup-after-update laws of database tables\<close>
named_theorems frame_simps \<open>which parts of the state an operation leaves alone\<close>

subsection \<open>Results: a Go call that returns a value or an error\<close>

type_synonym ('e, 'a) res = "'e + 'a"

abbreviation Err :: "'e \<Rightarrow> ('e, 'a) res" where "Err \<equiv> Inl"
abbreviation Ok :: "'a \<Rightarrow> ('e, 'a) res" where "Ok \<equiv> Inr"

text \<open>The idiom \<open>if err != nil { return err }\<close>.\<close>

definition bind_res :: "('e, 'a) res \<Rightarrow> ('a \<Rightarrow> ('e, 'b) res) \<Rightarrow> ('e, 'b) res" where
  "bind_res m f = (case m of Err e \<Rightarrow> Err e | Ok x \<Rightarrow> f x)"

lemma bind_res_Err [simp, res_simps]: "bind_res (Err e) f = Err e"
  by (simp add: bind_res_def)

lemma bind_res_Ok [simp, res_simps]: "bind_res (Ok x) f = f x"
  by (simp add: bind_res_def)

lemma bind_res_eq_Ok: "bind_res m f = Ok y \<longleftrightarrow> (\<exists>x. m = Ok x \<and> f x = Ok y)"
  by (cases m) auto

lemma bind_res_assoc: "bind_res (bind_res m f) g = bind_res m (\<lambda>x. bind_res (f x) g)"
  by (cases m) auto

definition is_ok :: "('e, 'a) res \<Rightarrow> bool" where
  "is_ok r = (case r of Err _ \<Rightarrow> False | Ok _ \<Rightarrow> True)"

lemma is_ok_simps [simp, res_simps]: "is_ok (Ok x)" "\<not> is_ok (Err e)"
  by (simp_all add: is_ok_def)

lemma is_ok_iff: "is_ok r \<longleftrightarrow> (\<exists>x. r = Ok x)"
  by (cases r) auto

text \<open>Apply a fallible function to each element, stopping at the first error.\<close>

fun mapM_res :: "('a \<Rightarrow> ('e, 'b) res) \<Rightarrow> 'a list \<Rightarrow> ('e, 'b list) res" where
  "mapM_res f [] = Ok []"
| "mapM_res f (x # xs) = bind_res (f x) (\<lambda>y. bind_res (mapM_res f xs) (\<lambda>ys. Ok (y # ys)))"

lemma mapM_res_length: "mapM_res f xs = Ok ys \<Longrightarrow> length ys = length xs"
  by (induction xs arbitrary: ys) (auto simp: bind_res_eq_Ok)

subsection \<open>Signed 64-bit integers\<close>

definition max_int64 :: int where "max_int64 = 9223372036854775807"
definition min_int64 :: int where "min_int64 = -9223372036854775808"

definition in_int64 :: "int \<Rightarrow> bool" where
  "in_int64 n \<longleftrightarrow> min_int64 \<le> n \<and> n \<le> max_int64"

text \<open>Go's \<open>int\<close> arithmetic wraps around in two's complement.\<close>

definition wrap64 :: "int \<Rightarrow> int" where
  "wrap64 n = (n + 9223372036854775808) mod 18446744073709551616 - 9223372036854775808"

lemma wrap64_id: "in_int64 n \<Longrightarrow> wrap64 n = n"
  by (simp add: in_int64_def wrap64_def min_int64_def max_int64_def)

lemma wrap64_in [simp]: "in_int64 (wrap64 n)"
  using pos_mod_bound [of 18446744073709551616 "n + 9223372036854775808"]
    pos_mod_sign [of 18446744073709551616 "n + 9223372036854775808"]
  by (simp add: in_int64_def wrap64_def min_int64_def max_int64_def)

definition sub64 :: "int \<Rightarrow> int \<Rightarrow> int" where
  "sub64 a b = wrap64 (a - b)"

lemma sub64_self [simp]: "sub64 a a = 0"
  by (simp add: sub64_def wrap64_def)

lemma sub64_exact: "in_int64 (a - b) \<Longrightarrow> sub64 a b = a - b"
  by (simp add: sub64_def wrap64_id)

lemma sub64_nonneg_sgn:
  assumes "0 \<le> a" "0 \<le> b" "in_int64 a" "in_int64 b"
  shows "sub64 a b = a - b"
  using assms by (intro sub64_exact) (auto simp: in_int64_def min_int64_def max_int64_def)

subsection \<open>Lists and maps\<close>

text \<open>The first element with a property, as a Go loop with an early return.\<close>

fun find_first :: "('a \<Rightarrow> bool) \<Rightarrow> 'a list \<Rightarrow> 'a option" where
  "find_first p [] = None"
| "find_first p (x # xs) = (if p x then Some x else find_first p xs)"

lemma find_first_Some: "find_first p xs = Some x \<Longrightarrow> x \<in> set xs \<and> p x"
  by (induction xs) (auto split: if_splits)

lemma find_first_None: "find_first p xs = None \<longleftrightarrow> (\<forall>x \<in> set xs. \<not> p x)"
  by (induction xs) auto

lemma find_first_cong:
  "(\<And>x. x \<in> set xs \<Longrightarrow> p x = q x) \<Longrightarrow> find_first p xs = find_first q xs"
  by (induction xs) auto

lemma find_first_filter: "find_first p xs = (case filter p xs of [] \<Rightarrow> None | y # _ \<Rightarrow> Some y)"
  by (induction xs) auto

text \<open>Order-preserving removal of duplicates (\<open>infra.Dedup\<close>), keeping first occurrences.\<close>

fun dedup_from :: "'a list \<Rightarrow> 'a list \<Rightarrow> 'a list" where
  "dedup_from seen [] = []"
| "dedup_from seen (x # xs) =
     (if x \<in> set seen then dedup_from seen xs else x # dedup_from (x # seen) xs)"

lemma set_dedup_from: "set (dedup_from seen xs) = set xs - set seen"
  by (induction xs arbitrary: seen) auto

lemma distinct_dedup_from: "distinct (dedup_from seen xs)"
  by (induction xs arbitrary: seen) (auto simp: set_dedup_from)

lemma map_option_case_None [simp]: "(map_option f x = None) = (x = None)"
  by (cases x) auto

lemma filter_all_False: "(\<And>x. x \<in> set xs \<Longrightarrow> \<not> p x) \<Longrightarrow> filter p xs = []"
  by (induction xs) auto

lemma foldl_append_map: "foldl (\<lambda>acc x. acc @ f x) a xs = a @ concat (map f xs)"
  by (induction xs arbitrary: a) auto

lemma concat_last: "xs \<noteq> [] \<Longrightarrow> concat xs = concat (butlast xs) @ last xs"
  by (induction xs) auto

lemma subseq_set: "subseq xs ys \<Longrightarrow> set xs \<subseteq> set ys"
  by (induction rule: list_emb.induct) auto

lemma subseq_distinct: "subseq xs ys \<Longrightarrow> distinct ys \<Longrightarrow> distinct xs"
  by (induction rule: list_emb.induct) (auto dest: subseq_set)

end
