(* ===== verification/Dag.thy ===== *)
theory Dag
  imports Prelude
begin

text \<open>
  The dependency graph of a workflow (\<open>internal/lib/workflow/dag.go\<close>): the duplicate and
  missing-dependency checks, Kahn's queue loop that assigns every step a level, and the
  depth-first search that names a cycle when the loop leaves steps over.
\<close>

subsection \<open>Steps\<close>

text \<open>
  A step as the graph code sees it (the descriptive fields of \<open>StepFunc\<close>); its Apply and
  Destroy functions are arguments of the pipeline operations.
\<close>

record step =
  st_name :: string
  st_type :: string
  st_deps :: "string list"
  st_removes :: "string list"
  st_spec_hash :: string

definition NewStepFunc :: "string \<Rightarrow> string \<Rightarrow> string list \<Rightarrow> string list \<Rightarrow> step" where
  "NewStepFunc ty n ds rs =
     \<lparr>st_name = n, st_type = ty, st_deps = ds, st_removes = rs, st_spec_hash = ''''\<rparr>"

definition names :: "step list \<Rightarrow> string list" where
  "names steps = map st_name steps"

lemma set_names: "set (names steps) = st_name ` set steps"
  by (simp add: names_def)

datatype dag_error =
    DuplicateStep string
  | MissingDependency string string
  | CycleDetected "string list"
  | CycleUnresolved "string list"

subsection \<open>Validation loops\<close>

text \<open>The step-by-name map is filled in order; the first name met twice is reported.\<close>

fun find_duplicate :: "string list \<Rightarrow> step list \<Rightarrow> string option" where
  "find_duplicate seen [] = None"
| "find_duplicate seen (s # ss) =
     (if st_name s \<in> set seen then Some (st_name s) else find_duplicate (st_name s # seen) ss)"

fun find_missing :: "string list \<Rightarrow> step list \<Rightarrow> (string \<times> string) option" where
  "find_missing known [] = None"
| "find_missing known (s # ss) =
     (case find_first (\<lambda>d. d \<notin> set known) (st_deps s) of
        Some d \<Rightarrow> Some (st_name s, d)
      | None \<Rightarrow> find_missing known ss)"

lemma find_duplicate_None:
  "find_duplicate seen ss = None \<longleftrightarrow> distinct (names ss) \<and> set seen \<inter> set (names ss) = {}"
  by (induction ss arbitrary: seen) (auto simp: names_def)

lemma find_missing_None:
  "find_missing known ss = None \<longleftrightarrow> (\<forall>s \<in> set ss. set (st_deps s) \<subseteq> set known)"
  by (induction ss) (auto simp: find_first_None split: option.splits dest: find_first_Some)

lemma find_missing_Some:
  "find_missing known ss = Some (n, d) \<Longrightarrow>
     \<exists>s \<in> set ss. st_name s = n \<and> d \<in> set (st_deps s) \<and> d \<notin> set known"
  by (induction ss) (auto split: option.splits dest: find_first_Some)

subsection \<open>In-degrees and adjacency\<close>

definition in_degree :: "step list \<Rightarrow> string \<Rightarrow> int" where
  "in_degree steps =
     foldl (\<lambda>m s. m(st_name s := m (st_name s) + int (length (st_deps s)))) (\<lambda>_. 0) steps"

definition adjacency :: "step list \<Rightarrow> string \<Rightarrow> step list" where
  "adjacency steps =
     foldl (\<lambda>adj s. foldl (\<lambda>adj d. adj(d := adj d @ [s])) adj (st_deps s)) (\<lambda>_. []) steps"

lemma foldl_degree:
  "foldl (\<lambda>m s. m(st_name s := m (st_name s) + int (length (st_deps s)))) m steps n =
     m n + (\<Sum>s \<leftarrow> filter (\<lambda>s. st_name s = n) steps. int (length (st_deps s)))"
  by (induction steps arbitrary: m) auto

lemma in_degree_step:
  assumes "distinct (names steps)" "s \<in> set steps"
  shows "in_degree steps (st_name s) = int (length (st_deps s))"
proof -
  have "filter (\<lambda>t. st_name t = st_name s) steps = [s]"
    using assms
  proof (induction steps)
    case (Cons t ts)
    show ?case
    proof (cases "t = s")
      case True
      with Cons.prems have "filter (\<lambda>u. st_name u = st_name s) ts = []"
        by (auto simp: names_def filter_empty_conv image_iff)
      with True show ?thesis by simp
    next
      case False
      with Cons.prems have "s \<in> set ts" "st_name t \<noteq> st_name s" by (auto simp: names_def)
      with Cons show ?thesis by (simp add: names_def)
    qed
  qed simp
  then show ?thesis by (simp add: in_degree_def foldl_degree)
qed

lemma foldl_adj_deps:
  "foldl (\<lambda>adj d. adj(d := adj d @ [s])) adj ds n = adj n @ replicate (count_list ds n) s"
  by (induction ds arbitrary: adj) (auto simp: replicate_append_same)

lemma adjacency_eq:
  "adjacency steps n = concat (map (\<lambda>s. replicate (count_list (st_deps s) n) s) steps)"
proof -
  have "foldl (\<lambda>adj s. foldl (\<lambda>adj d. adj(d := adj d @ [s])) adj (st_deps s)) adj ss n =
      adj n @ concat (map (\<lambda>s. replicate (count_list (st_deps s) n) s) ss)" for adj and ss :: "step list"
    by (induction ss arbitrary: adj) (auto simp: foldl_adj_deps)
  then show ?thesis by (simp add: adjacency_def)
qed

lemma set_adjacency: "set (adjacency steps n) = {s \<in> set steps. n \<in> set (st_deps s)}"
  by (auto simp: adjacency_eq count_list_0_iff set_replicate_conv_if split: if_splits)

lemma count_adjacency:
  assumes "distinct (names steps)" "s \<in> set steps"
  shows "count_list (names (adjacency steps n)) (st_name s) = count_list (st_deps s) n"
proof -
  have rep: "count_list (replicate k x) y = (if x = y then k else 0)" for k and x y :: string
    by (induction k) auto
  have app: "count_list (xs @ ys) m = count_list xs m + count_list ys m" for xs ys :: "string list" and m
    by (induction xs) auto
  have none: "st_name s \<notin> set (names ts) \<Longrightarrow>
      count_list (names (concat (map (\<lambda>s. replicate (count_list (st_deps s) n) s) ts))) (st_name s) = 0"
    for ts :: "step list"
    by (induction ts) (auto simp: names_def app rep)
  have "count_list (names (concat (map (\<lambda>s. replicate (count_list (st_deps s) n) s) steps)))
      (st_name s) = count_list (st_deps s) n"
    using assms
  proof (induction steps)
    case (Cons t ts)
    show ?case
    proof (cases "t = s")
      case True
      with Cons.prems none [of ts] show ?thesis by (simp add: names_def app rep)
    next
      case False
      with Cons.prems have "s \<in> set ts" "st_name t \<noteq> st_name s" by (auto simp: names_def)
      with Cons show ?thesis by (simp add: names_def app rep)
    qed
  qed simp
  then show ?thesis by (simp add: adjacency_eq)
qed

subsection \<open>Kahn's loop\<close>

text \<open>Decrement the in-degree of each dependent; one that reaches zero is queued.\<close>

fun relax :: "nat \<Rightarrow> step list \<Rightarrow> (string \<Rightarrow> int) \<Rightarrow> (string \<Rightarrow> int) \<times> (step \<times> nat) list" where
  "relax d [] ind = (ind, [])"
| "relax d (t # ts) ind =
     (let ind' = ind(st_name t := ind (st_name t) - 1);
          r = relax d ts ind'
      in (fst r, (if ind' (st_name t) = 0 then [(t, d)] else []) @ snd r))"

text \<open>\<open>levels[depth] = append(levels[depth], step)\<close> after growing the slice.\<close>

definition add_level :: "step list list \<Rightarrow> nat \<Rightarrow> step \<Rightarrow> step list list" where
  "add_level lev d s =
     (let lev' = lev @ replicate (Suc d - length lev) [] in lev'[d := lev' ! d @ [s]])"

lemma relax_push_set: "(t, e) \<in> set (snd (relax d ts ind)) \<Longrightarrow> t \<in> set ts \<and> e = d"
  by (induction ts arbitrary: ind) (auto simp: Let_def split: if_splits)

function kahn :: "step list \<Rightarrow> (step \<times> nat) list \<Rightarrow> string list \<Rightarrow> step list list \<Rightarrow> (string \<Rightarrow> int)
    \<Rightarrow> string list \<times> step list list" where
  "kahn steps [] vis lev ind = (vis, lev)"
| "kahn steps ((s, d) # q) vis lev ind =
     (if st_name s \<in> set vis then kahn steps q vis lev ind
      else kahn steps (q @ snd (relax (Suc d) (adjacency steps (st_name s)) ind))
             (st_name s # vis) (add_level lev d s)
             (fst (relax (Suc d) (adjacency steps (st_name s)) ind)))"
  by pat_completeness auto
termination
proof (relation "measures [\<lambda>(steps, q, vis, lev, ind).
      card ((st_name ` set steps \<union> (st_name \<circ> fst) ` set q) - set vis),
    \<lambda>(steps, q, vis, lev, ind). length q]", goal_cases)
  case 1
  show ?case by simp
next
  case (2 steps s d q vis lev ind)
  have "card (st_name ` set steps \<union> (st_name \<circ> fst) ` set q - set vis)
      \<le> card (st_name ` set steps \<union> (st_name \<circ> fst) ` set ((s, d) # q) - set vis)"
    by (rule card_mono) auto
  then show ?case by (auto simp: le_less)
next
  case (3 steps s d q vis lev ind)
  let ?p = "snd (relax (Suc d) (adjacency steps (st_name s)) ind)"
  have "(st_name \<circ> fst) ` set ?p \<subseteq> st_name ` set steps"
    by (auto dest!: relax_push_set simp: set_adjacency)
  then have sub: "st_name ` set steps \<union> (st_name \<circ> fst) ` set (q @ ?p)
      \<subseteq> st_name ` set steps \<union> (st_name \<circ> fst) ` set ((s, d) # q)"
    by auto
  have "card (st_name ` set steps \<union> (st_name \<circ> fst) ` set (q @ ?p) - set (st_name s # vis))
      < card (st_name ` set steps \<union> (st_name \<circ> fst) ` set ((s, d) # q) - set vis)"
  proof (rule psubset_card_mono)
    show "finite (st_name ` set steps \<union> (st_name \<circ> fst) ` set ((s, d) # q) - set vis)" by simp
    show "st_name ` set steps \<union> (st_name \<circ> fst) ` set (q @ ?p) - set (st_name s # vis)
        \<subset> st_name ` set steps \<union> (st_name \<circ> fst) ` set ((s, d) # q) - set vis"
      using sub 3 by auto
  qed
  then show ?case by simp
qed


lemma relax_degree: "fst (relax d ts ind) n = ind n - int (count_list (names ts) n)"
  by (induction ts arbitrary: ind) (auto simp: Let_def names_def)

lemma count_relax_push:
  "count_list (map (st_name \<circ> fst) (snd (relax d ts ind))) n =
     (if 0 < ind n \<and> ind n \<le> int (count_list (names ts) n) then 1 else 0)"
  by (induction ts arbitrary: ind) (auto simp: Let_def names_def)

lemma relax_push_iff:
  "n \<in> (st_name \<circ> fst) ` set (snd (relax d ts ind)) \<longleftrightarrow>
     0 < ind n \<and> ind n \<le> int (count_list (names ts) n)"
  using count_relax_push [of d ts ind n] count_list_0_iff [of "map (st_name \<circ> fst) (snd (relax d ts ind))" n]
  by (auto split: if_splits)

lemma distinct_count: "(\<And>n. count_list xs n \<le> 1) \<Longrightarrow> distinct xs"
proof (induction xs)
  case (Cons x xs)
  have "count_list xs n \<le> 1" for n
    using Cons.prems [of n] by (auto split: if_splits)
  moreover have "x \<notin> set xs"
    using Cons.prems [of x] by (auto simp: count_list_0_iff)
  ultimately show ?case using Cons.IH by simp
qed simp

lemma distinct_relax_push: "distinct (map (st_name \<circ> fst) (snd (relax d ts ind)))"
  by (rule distinct_count) (simp add: count_relax_push)

definition at_level :: "step list list \<Rightarrow> string \<Rightarrow> nat \<Rightarrow> bool" where
  "at_level lev n i \<longleftrightarrow> i < length lev \<and> n \<in> set (names (lev ! i))"

lemma at_level_add: "at_level (add_level lev d s) n i \<longleftrightarrow> at_level lev n i \<or> (n = st_name s \<and> i = d)"
  by (auto simp: at_level_def add_level_def Let_def nth_list_update nth_append names_def
      split: if_splits)

lemma mset_add_level: "mset (concat (add_level lev d s)) = add_mset s (mset (concat lev))"
proof -
  let ?l = "lev @ replicate (Suc d - length lev) []"
  have "d < length ?l" by simp
  then have split: "?l = take d ?l @ ?l ! d # drop (Suc d) ?l" by (rule id_take_nth_drop)
  have "add_level lev d s = take d ?l @ (?l ! d @ [s]) # drop (Suc d) ?l"
    using upd_conv_take_nth_drop [OF \<open>d < length ?l\<close>] by (simp add: add_level_def Let_def)
  then have "mset (concat (add_level lev d s))
      = add_mset s (mset (concat (take d ?l @ ?l ! d # drop (Suc d) ?l)))"
    by (simp only: concat_append mset_append concat.simps) simp
  also have "concat (take d ?l @ ?l ! d # drop (Suc d) ?l) = concat ?l"
    using split by (simp only:)
  also have "concat ?l = concat lev" by simp
  finally show ?thesis .
qed

lemma set_add_level: "set (concat (add_level lev d s)) = insert s (set (concat lev))"
  using mset_add_level [of lev d s] by (metis set_mset_add_mset_insert set_mset_mset)

text \<open>
  The level of a step is exactly one more than the deepest of its dependencies:
  \<open>depth_ok lev s i\<close> says so of step \<open>s\<close> at level \<open>i\<close>.
\<close>

definition depth_ok :: "step list list \<Rightarrow> step \<Rightarrow> nat \<Rightarrow> bool" where
  "depth_ok lev s i \<longleftrightarrow>
     (\<forall>d \<in> set (st_deps s). \<exists>j < i. at_level lev d j) \<and>
     (i = 0 \<or> (\<exists>d \<in> set (st_deps s). at_level lev d (i - 1)))"

lemma depth_ok_add: "depth_ok lev s i \<Longrightarrow> depth_ok (add_level lev d t) s i"
  by (auto simp: depth_ok_def at_level_add)

text \<open>The loop invariant of Kahn's algorithm.\<close>

definition pending :: "string list \<Rightarrow> step \<Rightarrow> nat" where
  "pending vis s = length (filter (\<lambda>d. d \<notin> set vis) (st_deps s))"

definition ready :: "step list \<Rightarrow> string list \<Rightarrow> step set" where
  "ready steps vis = {s \<in> set steps. st_name s \<notin> set vis \<and> set (st_deps s) \<subseteq> set vis}"

definition visit_inv :: "step list \<Rightarrow> string list \<Rightarrow> step list list \<Rightarrow> (string \<Rightarrow> int) \<Rightarrow> bool" where
  "visit_inv steps vis lev ind \<longleftrightarrow>
     distinct vis \<and> (\<forall>s \<in> set steps. ind (st_name s) = int (pending vis s)) \<and>
     set (concat lev) \<subseteq> set steps \<and> mset (names (concat lev)) = mset vis \<and>
     (\<forall>s \<in> set steps. \<forall>i. at_level lev (st_name s) i \<longrightarrow> depth_ok lev s i) \<and>
     [] \<notin> set lev"

definition queue_inv :: "step list \<Rightarrow> (step \<times> nat) list \<Rightarrow> string list \<Rightarrow> step list list \<Rightarrow> bool" where
  "queue_inv steps q vis lev \<longleftrightarrow>
     fst ` set q = ready steps vis \<and> distinct (map (st_name \<circ> fst) q) \<and>
     (\<forall>(s, e) \<in> set q. depth_ok lev s e \<and> (\<forall>n i. at_level lev n i \<longrightarrow> i \<le> e)) \<and>
     sorted (map snd q) \<and> (\<forall>(s, e) \<in> set q. e \<le> Suc (snd (hd q)))"

lemma at_level_concat: "(\<exists>i. at_level lev n i) \<longleftrightarrow> n \<in> set (names (concat lev))"
  by (force simp: at_level_def names_def in_set_conv_nth)

lemma distinct_concat_level:
  assumes "distinct (names (concat lev))" "at_level lev n i" "at_level lev n j"
  shows "i = j"
  using assms
proof (induction lev arbitrary: i j)
  case (Cons l lev)
  have d: "distinct (names (concat lev))" "set (names l) \<inter> set (names (concat lev)) = {}"
    using Cons.prems(1) by (auto simp: names_def)
  have tl: "at_level lev n k" if "at_level (l # lev) n (Suc k)" for k
    using that by (auto simp: at_level_def)
  have notin: "n \<notin> set (names l)" if "at_level lev n k" for k
    using that at_level_concat [of lev n] d(2) by blast
  have zero: "n \<in> set (names l)" if "at_level (l # lev) n 0"
    using that by (auto simp: at_level_def)
  show ?case
    using Cons.IH [OF d(1)] Cons.prems(2,3) tl notin zero
    by (cases i; cases j) blast+
qed (simp add: at_level_def)

lemma visit_inv_vis:
  assumes "visit_inv steps vis lev ind"
  shows "(\<exists>i. at_level lev n i) \<longleftrightarrow> n \<in> set vis"
  using assms at_level_concat [of lev n] unfolding visit_inv_def by (metis set_mset_mset)

lemma visit_inv_names:
  assumes "visit_inv steps vis lev ind"
  shows "set vis \<subseteq> set (names steps)"
proof -
  have "set vis = set (names (concat lev))"
    using assms unfolding visit_inv_def by (metis set_mset_mset)
  then show ?thesis using assms by (auto simp: visit_inv_def names_def)
qed

lemma pending_Cons:
  "n \<notin> set vis \<Longrightarrow> pending vis s = pending (n # vis) s + count_list (st_deps s) n"
proof -
  assume "n \<notin> set vis"
  then have "length (filter (\<lambda>d. d \<notin> set vis) ds)
      = length (filter (\<lambda>d. d \<notin> set (n # vis)) ds) + count_list ds n" for ds
    by (induction ds) auto
  then show ?thesis by (simp add: pending_def)
qed

lemma pending_0: "pending vis s = 0 \<longleftrightarrow> set (st_deps s) \<subseteq> set vis"
  by (auto simp: pending_def filter_empty_conv)


text \<open>Popping an unvisited entry: the visited part of the invariant.\<close>

lemma visit_inv_step:
  assumes dn: "distinct (names steps)" and vi: "visit_inv steps vis lev ind"
    and s: "s \<in> ready steps vis" and dep: "depth_ok lev s e"
    and nv: "e \<le> length lev"
  shows "visit_inv steps (st_name s # vis) (add_level lev e s)
           (fst (relax d (adjacency steps (st_name s)) ind))"
proof -
  let ?n = "st_name s" and ?lev = "add_level lev e s"
  have sS: "s \<in> set steps" and sv: "?n \<notin> set vis" using s by (auto simp: ready_def)
  have deg: "fst (relax d (adjacency steps ?n) ind) (st_name t) = int (pending (?n # vis) t)"
    if "t \<in> set steps" for t
    using that vi pending_Cons [OF sv, of t] count_adjacency [OF dn that]
    by (simp add: relax_degree visit_inv_def)
  have lvl: "depth_ok ?lev t i" if "t \<in> set steps" "at_level ?lev (st_name t) i" for t i
  proof (cases "at_level lev (st_name t) i")
    case True
    with vi that(1) show ?thesis by (auto simp: visit_inv_def intro: depth_ok_add)
  next
    case False
    with that(2) have "st_name t = ?n" "i = e" by (auto simp: at_level_add)
    moreover from this have "t = s"
      using dn sS that(1) by (auto simp: names_def distinct_map dest: inj_onD)
    ultimately show ?thesis using dep by (auto intro: depth_ok_add)
  qed
  have ms: "mset (names (concat ?lev)) = add_mset ?n (mset (names (concat lev)))"
    by (simp only: names_def mset_map mset_add_level image_mset_add_mset)
  have ne: "[] \<notin> set ?lev"
  proof
    assume "[] \<in> set ?lev"
    then obtain i where i: "i < length ?lev" "?lev ! i = []" by (auto simp: in_set_conv_nth)
    have "[] \<notin> set lev" using vi by (simp add: visit_inv_def)
    then have "\<And>j. j < length lev \<Longrightarrow> lev ! j \<noteq> []" by (metis nth_mem)
    with i nv show False
      by (auto simp: add_level_def Let_def nth_list_update nth_append split: if_splits)
  qed
  have sub: "set (concat ?lev) \<subseteq> set steps"
    unfolding set_add_level using vi sS by (simp add: visit_inv_def)
  show ?thesis
    unfolding visit_inv_def
    using vi sv deg lvl ne ms sub by (simp add: visit_inv_def del: set_concat)
qed

lemma depth_le_length: "depth_ok lev s e \<Longrightarrow> e \<le> length lev"
  by (auto simp: depth_ok_def at_level_def)

text \<open>The queued entries after the pop are exactly the steps whose dependencies are now visited.\<close>

lemma ready_step:
  assumes dn: "distinct (names steps)" and vi: "visit_inv steps vis lev ind"
    and s: "s \<in> ready steps vis"
  shows "ready steps (st_name s # vis) =
     (ready steps vis - {s}) \<union> fst ` set (snd (relax d (adjacency steps (st_name s)) ind))"
    (is "?R' = ?R \<union> ?P")
proof (rule set_eqI)
  fix t
  let ?n = "st_name s" and ?a = "adjacency steps (st_name s)"
  have sv: "?n \<notin> set vis" and sd: "set (st_deps s) \<subseteq> set vis" and sS: "s \<in> set steps"
    using s by (auto simp: ready_def)
  have inP: "t \<in> ?P \<longleftrightarrow> t \<in> set steps \<and> ?n \<in> set (st_deps t) \<and> set (st_deps t) \<subseteq> set (?n # vis)"
  proof (cases "t \<in> set steps")
    case False
    then show ?thesis by (auto dest!: relax_push_set simp: set_adjacency)
  next
    case True
    have inj: "u \<in> set steps \<Longrightarrow> st_name u = st_name t \<Longrightarrow> u = t" for u
      using dn True by (auto simp: names_def distinct_map dest: inj_onD)
    have "t \<in> ?P \<longleftrightarrow> st_name t \<in> (st_name \<circ> fst) ` set (snd (relax d ?a ind))"
    proof
      assume "st_name t \<in> (st_name \<circ> fst) ` set (snd (relax d ?a ind))"
      then obtain u c where u: "(u, c) \<in> set (snd (relax d ?a ind))" "st_name u = st_name t" by auto
      then have "u \<in> set steps" by (auto dest!: relax_push_set simp: set_adjacency)
      with u inj show "t \<in> ?P" by force
    qed auto
    also have "\<dots> \<longleftrightarrow> 0 < pending vis t \<and> pending vis t \<le> count_list (st_deps t) ?n"
      unfolding relax_push_iff using vi True count_adjacency [OF dn True]
      by (simp add: visit_inv_def)
    also have "\<dots> \<longleftrightarrow> ?n \<in> set (st_deps t) \<and> pending (?n # vis) t = 0"
      using pending_Cons [OF sv, of t] count_list_0_iff [of "st_deps t" ?n] by auto
    finally show ?thesis using True pending_0 [of "?n # vis" t] by simp
  qed
  have tv: "st_name t \<notin> set vis" if "t \<in> set steps" "?n \<in> set (st_deps t)"
  proof
    assume "st_name t \<in> set vis"
    then obtain i where "at_level lev (st_name t) i" using visit_inv_vis [OF vi] by blast
    with vi that(1) have "depth_ok lev t i" by (auto simp: visit_inv_def)
    with that(2) obtain j where "at_level lev ?n j" by (auto simp: depth_ok_def)
    with visit_inv_vis [OF vi] sv show False by blast
  qed
  have "t = s \<Longrightarrow> ?n \<notin> set (st_deps t)" using sv sd by auto
  moreover have "t \<in> set steps \<Longrightarrow> st_name t = ?n \<Longrightarrow> t = s"
    using dn sS by (auto simp: names_def distinct_map dest: inj_onD)
  ultimately show "t \<in> ?R' \<longleftrightarrow> t \<in> ?R \<union> ?P"
    using inP tv sd by (auto simp: ready_def)
qed

lemma queue_inv_step:
  assumes dn: "distinct (names steps)" and vi: "visit_inv steps vis lev ind"
    and qi: "queue_inv steps ((s, e) # q) vis lev"
  shows "queue_inv steps (q @ snd (relax (Suc e) (adjacency steps (st_name s)) ind))
           (st_name s # vis) (add_level lev e s)"
proof -
  let ?p = "snd (relax (Suc e) (adjacency steps (st_name s)) ind)" and ?n = "st_name s"
  let ?lev = "add_level lev e s"
  have s: "s \<in> ready steps vis" and fq: "fst ` set ((s, e) # q) = ready steps vis"
    using qi by (auto simp: queue_inv_def)
  have dq: "distinct (map (st_name \<circ> fst) ((s, e) # q))" using qi by (simp add: queue_inv_def)
  have "s \<notin> fst ` set q" using dq by (auto simp: image_iff)
  then have fst_q: "fst ` set q = ready steps vis - {s}" using fq by auto
  have below: "i \<le> e" if "at_level lev n i" for n i
    using qi that by (auto simp: queue_inv_def)
  have pe: "(t, d) \<in> set ?p \<Longrightarrow> d = Suc e" for t d by (auto dest: relax_push_set)
  have fst_p: "fst ` set (q @ ?p) = ready steps (?n # vis)"
    using ready_step [OF dn vi s, of "Suc e"] fst_q by auto
  have disj: "(st_name \<circ> fst) ` set q \<inter> (st_name \<circ> fst) ` set ?p = {}"
  proof -
    have "m \<notin> (st_name \<circ> fst) ` set ?p" if "m \<in> (st_name \<circ> fst) ` set q" for m
    proof -
      from that fst_q obtain t where t: "t \<in> ready steps vis" "m = st_name t" by force
      with vi have "ind m = 0" by (auto simp: ready_def visit_inv_def pending_0)
      then show ?thesis by (simp only: relax_push_iff) simp
    qed
    then show ?thesis by blast
  qed
  have dist: "distinct (map (st_name \<circ> fst) (q @ ?p))"
    using dq disj distinct_relax_push [of "Suc e" "adjacency steps ?n" ind] by auto
  have low: "\<And>t d. (t, d) \<in> set (q @ ?p) \<Longrightarrow> e \<le> d \<and> d \<le> Suc e"
    using qi pe by (fastforce simp: queue_inv_def)
  have dep: "depth_ok ?lev t d" if td: "(t, d) \<in> set (q @ ?p)" for t d
  proof (cases "(t, d) \<in> set q")
    case True
    with qi show ?thesis by (auto simp: queue_inv_def intro: depth_ok_add)
  next
    case False
    with td have tp: "(t, d) \<in> set ?p" by simp
    then have d: "d = Suc e" and nt: "?n \<in> set (st_deps t)"
      by (auto dest!: relax_push_set simp: set_adjacency)
    from tp fst_p have "t \<in> ready steps (?n # vis)" by force
    then have sub: "set (st_deps t) \<subseteq> insert ?n (set vis)" by (simp add: ready_def)
    have "\<exists>j < d. at_level ?lev x j" if "x \<in> set (st_deps t)" for x
    proof (cases "x = ?n")
      case True
      then show ?thesis using d by (auto simp: at_level_add)
    next
      case False
      with sub that visit_inv_vis [OF vi, of x] obtain j where j: "at_level lev x j" by blast
      with below d have "j < d" by fastforce
      with j show ?thesis by (auto simp: at_level_add)
    qed
    moreover have "at_level ?lev ?n (d - 1)" using d by (simp add: at_level_add)
    ultimately show ?thesis using nt by (auto simp: depth_ok_def)
  qed
  have srt: "sorted (map snd (q @ ?p))"
  proof -
    have "sorted (map snd q)" using qi by (simp add: queue_inv_def)
    moreover have "map snd ?p = replicate (length ?p) (Suc e)"
      by (rule replicate_eqI) (auto dest: pe)
    ultimately show ?thesis using low by (fastforce simp: sorted_append sorted_replicate)
  qed
  have lev_le: "i \<le> d" if "(t, d) \<in> set (q @ ?p)" "at_level ?lev n i" for t d n i
    using low [OF that(1)] that(2) below by (fastforce simp: at_level_add)
  have hd_le: "d \<le> Suc (snd (hd (q @ ?p)))" if "(t, d) \<in> set (q @ ?p)" for t d
  proof -
    have "hd (q @ ?p) \<in> set (q @ ?p)" using that by (intro hd_in_set) auto
    then have "e \<le> snd (hd (q @ ?p))" using low by (metis prod.collapse)
    with low [OF that] show ?thesis by simp
  qed
  show ?thesis
    unfolding queue_inv_def using fst_p dist dep srt lev_le hd_le by (auto simp del: set_append)
qed

text \<open>The whole loop: the invariant holds of its result, with an empty queue.\<close>

lemma kahn_result:
  "distinct (names steps) \<Longrightarrow> visit_inv steps vis lev ind \<Longrightarrow> queue_inv steps q vis lev \<Longrightarrow>
   \<exists>ind'. visit_inv steps (fst (kahn steps q vis lev ind)) (snd (kahn steps q vis lev ind)) ind' \<and>
     ready steps (fst (kahn steps q vis lev ind)) = {}"
proof (induction steps q vis lev ind rule: kahn.induct)
  case (1 steps vis lev ind)
  then have "ready steps vis = {}" by (auto simp: queue_inv_def)
  with "1.prems" show ?case by auto
next
  case (2 steps s e q vis lev ind)
  have s: "s \<in> ready steps vis" and d: "depth_ok lev s e"
    using "2.prems"(3) by (auto simp: queue_inv_def)
  then have nv: "st_name s \<notin> set vis" by (simp add: ready_def)
  have vi: "visit_inv steps (st_name s # vis) (add_level lev e s)
      (fst (relax (Suc e) (adjacency steps (st_name s)) ind))"
    by (rule visit_inv_step [OF "2.prems"(1,2) s d depth_le_length [OF d]])
  have qi: "queue_inv steps (q @ snd (relax (Suc e) (adjacency steps (st_name s)) ind))
      (st_name s # vis) (add_level lev e s)"
    by (rule queue_inv_step [OF "2.prems"])
  show ?case using "2.IH"(2) [OF nv "2.prems"(1) vi qi] nv by simp
qed


subsection \<open>Naming a cycle: depth-first search over the dependents\<close>

text \<open>
  The search state: \<open>visited\<close> is shared with the queue loop and grows when a node is
  finished (newest first), \<open>on_path\<close> and \<open>path\<close> are local to one search. \<open>fuel\<close>
  bounds the recursion depth; \<open>dfs_enough\<close> shows how much is enough.
\<close>

record dfs_state =
  visited :: "string list"
  on_path :: "string set"
  path :: "string list"

definition successors :: "step list \<Rightarrow> string \<Rightarrow> string list" where
  "successors steps n = names (adjacency steps n)"

fun dfs :: "nat \<Rightarrow> step list \<Rightarrow> string \<Rightarrow> dfs_state \<Rightarrow> (bool \<times> dfs_state) option"
  and dfs_list :: "nat \<Rightarrow> step list \<Rightarrow> string list \<Rightarrow> dfs_state \<Rightarrow> (bool \<times> dfs_state) option" where
  "dfs 0 steps n st = None"
| "dfs (Suc k) steps n st =
     (if n \<in> on_path st then Some (True, st\<lparr>path := path st @ [n]\<rparr>)
      else if n \<in> set (visited st) then Some (False, st)
      else case dfs_list k steps (successors steps n)
                  (st\<lparr>on_path := insert n (on_path st), path := path st @ [n]\<rparr>) of
             None \<Rightarrow> None
           | Some (True, st') \<Rightarrow> Some (True, st')
           | Some (False, st') \<Rightarrow>
               Some (False, st'\<lparr>on_path := on_path st' - {n}, path := butlast (path st'),
                                visited := n # visited st'\<rparr>))"
| "dfs_list k steps [] st = Some (False, st)"
| "dfs_list k steps (m # ms) st =
     (case dfs k steps m st of
        None \<Rightarrow> None
      | Some (True, st') \<Rightarrow> Some (True, st')
      | Some (False, st') \<Rightarrow> dfs_list k steps ms st')"

text \<open>\<open>detectCycle\<close>: the path trimmed to start at the first visit of its last node.\<close>

definition detect_cycle :: "step list \<Rightarrow> string \<Rightarrow> string list \<Rightarrow> (string list option \<times> string list) option" where
  "detect_cycle steps start vis =
     (if start \<in> set vis then Some (None, vis)
      else case dfs (Suc (length steps)) steps start \<lparr>visited = vis, on_path = {}, path = []\<rparr> of
             None \<Rightarrow> None
           | Some (True, st) \<Rightarrow> Some (Some (dropWhile (\<lambda>n. n \<noteq> last (path st)) (path st)), visited st)
           | Some (False, st) \<Rightarrow> Some (None, visited st))"

fun find_cycle :: "step list \<Rightarrow> string list \<Rightarrow> string list \<Rightarrow> string list option option" where
  "find_cycle steps [] vis = Some None"
| "find_cycle steps (n # ns) vis =
     (if n \<in> set vis then find_cycle steps ns vis
      else case detect_cycle steps n vis of
             None \<Rightarrow> None
           | Some (Some p, _) \<Rightarrow> Some (Some p)
           | Some (None, vis') \<Rightarrow> find_cycle steps ns vis')"

text \<open>\<open>None\<close> stands for a search that does not return; \<open>build_dag_terminates\<close> excludes it.\<close>

definition build_dag :: "step list \<Rightarrow> (dag_error, step list list) res option" where
  "build_dag steps =
     (if steps = [] then Some (Ok [])
      else case find_duplicate [] steps of
        Some n \<Rightarrow> Some (Err (DuplicateStep n))
      | None \<Rightarrow>
       (case find_missing (names steps) steps of
          Some (n, d) \<Rightarrow> Some (Err (MissingDependency n d))
        | None \<Rightarrow>
           (let ind = in_degree steps;
                q = map (\<lambda>s. (s, 0)) (filter (\<lambda>s. ind (st_name s) = 0) steps);
                r = kahn steps q [] [] ind
            in if length (fst r) \<noteq> length steps
               then (let unvisited = filter (\<lambda>n. n \<notin> set (fst r)) (names steps)
                     in case find_cycle steps unvisited (fst r) of
                          None \<Rightarrow> None
                        | Some None \<Rightarrow> Some (Err (CycleUnresolved unvisited))
                        | Some (Some p) \<Rightarrow> Some (Err (CycleDetected p)))
               else Some (Ok (snd r)))))"

lemma set_successors:
  "m \<in> set (successors steps n) \<longleftrightarrow> (\<exists>s \<in> set steps. st_name s = m \<and> n \<in> set (st_deps s))"
  by (auto simp: successors_def set_names set_adjacency)

lemma successors_names: "set (successors steps n) \<subseteq> set (names steps)"
  by (auto simp: set_successors names_def)

text \<open>A search without a hit leaves the path set as it found it.\<close>

lemma dfs_on_path:
  "dfs k steps n st = Some (False, st') \<Longrightarrow> on_path st' = on_path st"
  "dfs_list k steps ms st = Some (False, st') \<Longrightarrow> on_path st' = on_path st"
proof (induction k steps n st and k steps ms st arbitrary: st' and st' rule: dfs_dfs_list.induct)
  case (2 k steps n st)
  then show ?case by (auto split: if_splits option.splits bool.splits)
next
  case (4 k steps m ms st)
  from "4.prems" obtain s' where r: "dfs k steps m st = Some (False, s')"
    and tail: "dfs_list k steps ms s' = Some (False, st')"
    by (auto split: option.splits bool.splits)
  from "4.IH"(2) [of "(False, s')" False s', OF r _ _ tail] "4.IH"(1) [OF r] show ?case by simp
qed auto

text \<open>Enough fuel: one unit more than the nodes that are not yet on the path.\<close>

lemma dfs_enough:
  "n \<in> set (names steps) \<Longrightarrow> card (set (names steps) - on_path st) < k \<Longrightarrow>
     \<exists>r. dfs k steps n st = Some r"
  "set ms \<subseteq> set (names steps) \<Longrightarrow> card (set (names steps) - on_path st) < k \<Longrightarrow>
     \<exists>r. dfs_list k steps ms st = Some r"
proof (induction k steps n st and k steps ms st rule: dfs_dfs_list.induct)
  case (2 k steps n st)
  let ?st = "st\<lparr>on_path := insert n (on_path st), path := path st @ [n]\<rparr>"
  show ?case
  proof (cases "n \<in> on_path st \<or> n \<in> set (visited st)")
    case False
    have "card (set (names steps) - on_path ?st) < card (set (names steps) - on_path st)"
      using False "2.prems"(1) by (intro psubset_card_mono) auto
    with "2.prems"(2) have "card (set (names steps) - on_path ?st) < k" by simp
    with "2.IH" False successors_names obtain r where
      r: "dfs_list k steps (successors steps n) ?st = Some r"
      by blast
    then show ?thesis using False by (cases r) (auto split: bool.splits)
  qed auto
next
  case (4 k steps m ms st)
  then obtain b st' where r: "dfs k steps m st = Some (b, st')" by auto
  show ?case
  proof (cases b)
    case False
    with r have "on_path st' = on_path st" by (auto dest: dfs_on_path)
    then have "\<exists>r. dfs_list k steps ms st' = Some r"
      using "4.IH"(2) [of "(False, st')" False st'] r False "4.prems" by simp
    with r False show ?thesis by simp
  next
    case True
    with r show ?thesis by auto
  qed
qed auto

text \<open>Soundness: the path is a walk along dependents, and a hit closes it.\<close>

definition walk :: "step list \<Rightarrow> string list \<Rightarrow> bool" where
  "walk steps p \<longleftrightarrow> successively (\<lambda>a b. b \<in> set (successors steps a)) p"

lemma walk_snoc: "walk steps (p @ [n]) \<longleftrightarrow> walk steps p \<and> (p = [] \<or> n \<in> set (successors steps (last p)))"
  by (auto simp: walk_def successively_append_iff)

definition closing :: "step list \<Rightarrow> string list \<Rightarrow> bool" where
  "closing steps p \<longleftrightarrow> walk steps p \<and> p \<noteq> [] \<and> last p \<in> set (butlast p)"

definition dfs_ok :: "step list \<Rightarrow> dfs_state \<Rightarrow> bool" where
  "dfs_ok steps st \<longleftrightarrow> walk steps (path st) \<and> set (path st) = on_path st"

lemma dfs_sound:
  "dfs k steps n st = Some (b, st') \<Longrightarrow> dfs_ok steps st \<Longrightarrow>
     (path st = [] \<or> n \<in> set (successors steps (last (path st)))) \<Longrightarrow>
     (if b then closing steps (path st') else path st' = path st \<and> on_path st' = on_path st)"
  "dfs_list k steps ms st = Some (b, st') \<Longrightarrow> dfs_ok steps st \<Longrightarrow> path st \<noteq> [] \<Longrightarrow>
     set ms \<subseteq> set (successors steps (last (path st))) \<Longrightarrow>
     (if b then closing steps (path st') else path st' = path st \<and> on_path st' = on_path st)"
proof (induction k steps n st and k steps ms st arbitrary: b st' and b st' rule: dfs_dfs_list.induct)
  case (2 k steps n st)
  let ?st = "st\<lparr>on_path := insert n (on_path st), path := path st @ [n]\<rparr>"
  show ?case
  proof (cases "n \<in> on_path st")
    case True
    with "2.prems" show ?thesis by (auto simp: closing_def dfs_ok_def walk_snoc)
  next
    case off: False
    show ?thesis
    proof (cases "n \<in> set (visited st)")
      case True
      with off "2.prems" show ?thesis by auto
    next
      case False
      have ok: "dfs_ok steps ?st" using "2.prems" by (auto simp: dfs_ok_def walk_snoc)
      from off False "2.prems"(1) obtain b' s' where
        r: "dfs_list k steps (successors steps n) ?st = Some (b', s')"
        by (auto split: option.splits)
      have "if b' then closing steps (path s') else path s' = path ?st \<and> on_path s' = on_path ?st"
        using "2.IH" [OF off False r ok] by simp
      with off False "2.prems"(1) r show ?thesis by (auto split: if_splits bool.splits)
    qed
  qed
next
  case (4 k steps m ms st)
  from "4.prems"(1) obtain b' s' where r: "dfs k steps m st = Some (b', s')"
    by (auto split: option.splits)
  have one: "if b' then closing steps (path s') else path s' = path st \<and> on_path s' = on_path st"
    using "4.IH"(1) [OF r] "4.prems" by auto
  show ?case
  proof (cases b')
    case True
    with r one "4.prems"(1) show ?thesis by auto
  next
    case False
    with one have same: "path s' = path st" "on_path s' = on_path st" by auto
    have tail: "dfs_list k steps ms s' = Some (b, st')" using r False "4.prems"(1) by simp
    have "dfs_ok steps s'" using same "4.prems"(2) by (simp add: dfs_ok_def)
    with "4.IH"(2) [of "(b', s')" b' s', OF r _ _ tail] False same "4.prems" show ?thesis by simp
  qed
qed auto


text \<open>
  Completeness: nodes are finished in an order in which every successor of a node was
  finished before it, so a set of nodes in which each has a predecessor in the set cannot
  be finished without a hit.
\<close>

definition finished_ok :: "step list \<Rightarrow> string list \<Rightarrow> string list \<Rightarrow> bool" where
  "finished_ok steps base vis \<longleftrightarrow>
     (\<exists>new. vis = new @ base \<and> distinct new \<and> set new \<inter> set base = {} \<and>
        (\<forall>a n b. new = a @ n # b \<longrightarrow> set (successors steps n) \<subseteq> set (b @ base)))"

lemma finished_ok_refl: "finished_ok steps base base"
  by (auto simp: finished_ok_def)

lemma finished_ok_Cons:
  assumes "finished_ok steps base vis" "n \<notin> set vis" "set (successors steps n) \<subseteq> set vis"
  shows "finished_ok steps base (n # vis)"
proof -
  from assms(1) obtain new where new: "vis = new @ base" "distinct new" "set new \<inter> set base = {}"
    "\<forall>a m b. new = a @ m # b \<longrightarrow> set (successors steps m) \<subseteq> set (b @ base)"
    by (auto simp: finished_ok_def)
  have "set (successors steps m) \<subseteq> set (b @ base)" if "n # new = a @ m # b" for a m b
    using that new(1,4) assms(3) by (cases a) auto
  with new assms(2) show ?thesis
    unfolding finished_ok_def by (intro exI [of _ "n # new"]) auto
qed

lemma dfs_finishes:
  "dfs k steps n st = Some (False, st') \<Longrightarrow> finished_ok steps base (visited st) \<Longrightarrow>
     finished_ok steps base (visited st') \<and> n \<in> set (visited st') \<and>
     set (visited st) \<subseteq> set (visited st') \<and> set (visited st') \<inter> on_path st \<subseteq> set (visited st)"
  "dfs_list k steps ms st = Some (False, st') \<Longrightarrow> finished_ok steps base (visited st) \<Longrightarrow>
     finished_ok steps base (visited st') \<and> set ms \<subseteq> set (visited st') \<and>
     set (visited st) \<subseteq> set (visited st') \<and> set (visited st') \<inter> on_path st \<subseteq> set (visited st)"
proof (induction k steps n st and k steps ms st arbitrary: st' and st' rule: dfs_dfs_list.induct)
  case (2 k steps n st)
  let ?st = "st\<lparr>on_path := insert n (on_path st), path := path st @ [n]\<rparr>"
  from "2.prems"(1) have off: "n \<notin> on_path st" by (auto split: if_splits)
  show ?case
  proof (cases "n \<in> set (visited st)")
    case True
    with off "2.prems" show ?thesis by auto
  next
    case False
    with off "2.prems"(1) obtain s' where
      r: "dfs_list k steps (successors steps n) ?st = Some (False, s')"
      and st': "visited st' = n # visited s'"
      by (auto split: option.splits bool.splits)
    have IH: "finished_ok steps base (visited s')" "set (successors steps n) \<subseteq> set (visited s')"
      "set (visited st) \<subseteq> set (visited s')"
      "set (visited s') \<inter> insert n (on_path st) \<subseteq> set (visited st)"
      using "2.IH" [OF off False r] "2.prems"(2) by auto
    from IH(4) False have "n \<notin> set (visited s')" by auto
    from finished_ok_Cons [OF IH(1) this IH(2)] IH(3,4) off st' show ?thesis by auto
  qed
next
  case (4 k steps m ms st)
  from "4.prems"(1) obtain s' where r: "dfs k steps m st = Some (False, s')"
    and tail: "dfs_list k steps ms s' = Some (False, st')"
    by (auto split: option.splits bool.splits)
  have IH1: "finished_ok steps base (visited s')" "m \<in> set (visited s')"
    "set (visited st) \<subseteq> set (visited s')" "set (visited s') \<inter> on_path st \<subseteq> set (visited st)"
    using "4.IH"(1) [OF r "4.prems"(2)] by auto
  have IH2: "finished_ok steps base (visited st')" "set ms \<subseteq> set (visited st')"
    "set (visited s') \<subseteq> set (visited st')" "set (visited st') \<inter> on_path s' \<subseteq> set (visited s')"
    using "4.IH"(2) [of "(False, s')" False s', OF r _ _ tail IH1(1)] by auto
  have "on_path s' = on_path st" using r by (rule dfs_on_path)
  with IH1 IH2 show ?case by auto
qed auto


lemma find_cycle_sound:
  "find_cycle steps ns vis = Some (Some p) \<Longrightarrow>
     walk steps p \<and> 2 \<le> length p \<and> hd p = last p"
proof (induction steps ns vis rule: find_cycle.induct)
  case (2 steps n ns vis)
  show ?case
  proof (cases "n \<in> set vis")
    case True
    with 2 show ?thesis by simp
  next
    case False
    let ?st = "\<lparr>visited = vis, on_path = {}, path = []\<rparr> :: dfs_state"
    from False "2.prems" obtain b st where d: "dfs (Suc (length steps)) steps n ?st = Some (b, st)"
      by (auto simp: detect_cycle_def split: option.splits)
    show ?thesis
    proof (cases b)
      case False
      with \<open>n \<notin> set vis\<close> d have "detect_cycle steps n vis = Some (None, visited st)"
        by (simp add: detect_cycle_def)
      with \<open>n \<notin> set vis\<close> 2 show ?thesis by simp
    next
      case True
      from dfs_sound(1) [OF d] True have cl: "closing steps (path st)"
        by (simp add: dfs_ok_def walk_def)
      from cl obtain us z where us: "path st = us @ [z]" "z \<in> set us"
        by (metis append_butlast_last_id closing_def)
      let ?d = "dropWhile (\<lambda>m. m \<noteq> z) us"
      have p: "p = ?d @ [z]"
        using True \<open>n \<notin> set vis\<close> d "2.prems" us by (auto simp: detect_cycle_def)
      have ne: "?d \<noteq> []" using us(2) by (auto simp: dropWhile_eq_Nil_conv)
      have "hd ?d = z" using hd_dropWhile [OF ne] by simp
      moreover have "walk steps (takeWhile (\<lambda>m. m \<noteq> z) us @ p)"
        using cl us by (simp add: closing_def p flip: append_assoc)
      then have "walk steps p" unfolding walk_def successively_append_iff by blast
      ultimately show ?thesis using ne by (cases ?d) (auto simp: p)
    qed
  qed
qed simp

lemma find_cycle_complete:
  "find_cycle steps ns vis = Some None \<Longrightarrow> finished_ok steps base vis \<Longrightarrow>
     \<exists>vis'. finished_ok steps base vis' \<and> set ns \<union> set vis \<subseteq> set vis'"
proof (induction steps ns vis rule: find_cycle.induct)
  case (2 steps n ns vis)
  show ?case
  proof (cases "n \<in> set vis")
    case True
    with 2 show ?thesis by fastforce
  next
    case False
    let ?st = "\<lparr>visited = vis, on_path = {}, path = []\<rparr> :: dfs_state"
    from False "2.prems"(1) obtain st where d: "dfs (Suc (length steps)) steps n ?st = Some (False, st)"
      by (auto simp: detect_cycle_def split: option.splits bool.splits)
    then have dc: "detect_cycle steps n vis = Some (None, visited st)"
      using False by (simp add: detect_cycle_def)
    from dfs_finishes(1) [OF d, of base] "2.prems"(2)
    have fin: "finished_ok steps base (visited st)" "n \<in> set (visited st)"
      "set vis \<subseteq> set (visited st)" by auto
    from "2.IH"(2) [OF False dc] dc False "2.prems"(1) fin(1)
    obtain vis' where "finished_ok steps base vis'" "set ns \<union> set (visited st) \<subseteq> set vis'" by auto
    with fin show ?thesis by (intro exI [of _ vis']) auto
  qed
qed auto

lemma find_cycle_terminates:
  "set ns \<subseteq> set (names steps) \<Longrightarrow> find_cycle steps ns vis \<noteq> None"
proof (induction steps ns vis rule: find_cycle.induct)
  case (2 steps n ns vis)
  have "card (set (names steps)) < Suc (length steps)"
    using card_length [of "names steps"] by (simp add: names_def)
  then obtain r where "dfs (Suc (length steps)) steps n
      \<lparr>visited = vis, on_path = {}, path = []\<rparr> = Some r"
    using dfs_enough(1) [of n steps "\<lparr>visited = vis, on_path = {}, path = []\<rparr>" "Suc (length steps)"]
      "2.prems" by auto
  then obtain b st where d: "dfs (Suc (length steps)) steps n
      \<lparr>visited = vis, on_path = {}, path = []\<rparr> = Some (b, st)" by (cases r) auto
  show ?case
  proof (cases "n \<in> set vis")
    case True
    with 2 show ?thesis by simp
  next
    case False
    with 2 d show ?thesis by (cases b) (auto simp: detect_cycle_def)
  qed
qed simp


subsection \<open>The result of \<open>BuildDAG\<close>\<close>

text \<open>\<open>(d, n)\<close> is in the relation when step \<open>n\<close> declares a dependency on \<open>d\<close>.\<close>

definition dep_rel :: "step list \<Rightarrow> (string \<times> string) set" where
  "dep_rel steps = {(d, st_name s) | s d. s \<in> set steps \<and> d \<in> set (st_deps s)}"

lemma dep_rel_successors: "(a, b) \<in> dep_rel steps \<longleftrightarrow> b \<in> set (successors steps a)"
  by (auto simp: dep_rel_def set_successors)

definition initial_queue :: "step list \<Rightarrow> (step \<times> nat) list" where
  "initial_queue steps = map (\<lambda>s. (s, 0)) (filter (\<lambda>s. in_degree steps (st_name s) = 0) steps)"

abbreviation kahn_run :: "step list \<Rightarrow> string list \<times> step list list" where
  "kahn_run steps \<equiv> kahn steps (initial_queue steps) [] [] (in_degree steps)"

lemma kahn_run_inv:
  assumes "distinct (names steps)"
  obtains ind where "visit_inv steps (fst (kahn_run steps)) (snd (kahn_run steps)) ind"
    and "ready steps (fst (kahn_run steps)) = {}"
proof -
  have vi: "visit_inv steps [] [] (in_degree steps)"
    using in_degree_step [OF assms]
    by (auto simp: visit_inv_def pending_def names_def at_level_def)
  have deg0: "in_degree steps (st_name s) = 0 \<longleftrightarrow> st_deps s = []" if "s \<in> set steps" for s
    using in_degree_step [OF assms that] by simp
  have "fst ` set (initial_queue steps) = ready steps []"
    using deg0 by (force simp: initial_queue_def ready_def)
  moreover have "distinct (map (st_name \<circ> fst) (initial_queue steps))"
  proof -
    have "map (st_name \<circ> fst) (initial_queue steps)
        = map st_name (filter (\<lambda>s. in_degree steps (st_name s) = 0) steps)"
      by (simp add: initial_queue_def comp_def)
    then show ?thesis using assms by (simp add: names_def distinct_map_filter)
  qed
  moreover have "map snd (initial_queue steps) = replicate (length (initial_queue steps)) 0"
    by (rule replicate_eqI) (auto simp: initial_queue_def)
  ultimately have qi: "queue_inv steps (initial_queue steps) [] []"
    using deg0 by (auto simp: queue_inv_def depth_ok_def at_level_def initial_queue_def)
  from kahn_result [OF assms vi qi] that show thesis by blast
qed

lemma build_dag_unfold:
  assumes "steps \<noteq> []" "distinct (names steps)" "\<forall>s \<in> set steps. set (st_deps s) \<subseteq> set (names steps)"
  shows "build_dag steps =
    (if length (fst (kahn_run steps)) = length steps then Some (Ok (snd (kahn_run steps)))
     else map_option (\<lambda>r. case r of
            None \<Rightarrow> Err (CycleUnresolved (filter (\<lambda>n. n \<notin> set (fst (kahn_run steps))) (names steps)))
          | Some p \<Rightarrow> Err (CycleDetected p))
        (find_cycle steps (filter (\<lambda>n. n \<notin> set (fst (kahn_run steps))) (names steps))
           (fst (kahn_run steps))))"
proof -
  have "find_duplicate [] steps = None" using assms(2) by (simp add: find_duplicate_None)
  moreover have "find_missing (names steps) steps = None" using assms(3) by (simp add: find_missing_None)
  ultimately show ?thesis
    using assms(1)
    by (simp add: build_dag_def Let_def initial_queue_def split: option.splits)
qed

lemma build_dag_checked:
  assumes "build_dag steps = Some r" "steps \<noteq> []"
    and "\<And>n. r \<noteq> Err (DuplicateStep n)" "\<And>n d. r \<noteq> Err (MissingDependency n d)"
  shows "distinct (names steps)" "\<forall>s \<in> set steps. set (st_deps s) \<subseteq> set (names steps)"
proof -
  have "find_duplicate [] steps = None"
    using assms by (auto simp: build_dag_def split: option.splits)
  then show "distinct (names steps)" by (simp add: find_duplicate_None)
  have "find_missing (names steps) steps = None"
    using assms \<open>find_duplicate [] steps = None\<close> by (auto simp: build_dag_def split: option.splits)
  then show "\<forall>s \<in> set steps. set (st_deps s) \<subseteq> set (names steps)" by (simp add: find_missing_None)
qed

text \<open>When the loop visits everything, its levels hold each step once.\<close>

lemma kahn_run_complete:
  assumes "distinct (names steps)" "length (fst (kahn_run steps)) = length steps"
    and "visit_inv steps (fst (kahn_run steps)) (snd (kahn_run steps)) ind"
  shows "mset (concat (snd (kahn_run steps))) = mset steps"
proof -
  let ?v = "fst (kahn_run steps)" and ?l = "snd (kahn_run steps)"
  have dv: "distinct ?v" and ms: "mset (names (concat ?l)) = mset ?v"
    and sub: "set (concat ?l) \<subseteq> set steps"
    using assms(3) by (auto simp: visit_inv_def)
  have dl: "distinct (concat ?l)"
    using dv ms by (metis distinct_map mset_eq_imp_distinct_iff names_def)
  have "length (concat ?l) = length steps"
    using ms assms(2) by (metis length_map mset_eq_length names_def)
  then have "card (set (concat ?l)) = card (set steps)"
    using dl assms(1) by (metis distinct_card distinct_map names_def)
  then have "set (concat ?l) = set steps"
    using sub by (simp add: card_subset_eq)
  then show ?thesis
    using dl assms(1) by (metis distinct_map names_def set_eq_iff_mset_eq_distinct)
qed

lemma at_level_Ok_acyclic:
  assumes vi: "visit_inv steps vis lev ind" and all: "set (names steps) \<subseteq> set vis"
  shows "acyclic (dep_rel steps)"
proof -
  define f where "f n = (LEAST i. at_level lev n i)" for n
  have less: "f d < f n" if dn: "(d, n) \<in> dep_rel steps" for d n
  proof -
    from dn obtain s where s: "s \<in> set steps" "n = st_name s" "d \<in> set (st_deps s)"
      by (auto simp: dep_rel_def)
    have "n \<in> set vis" using s all by (auto simp: names_def)
    then have "\<exists>i. at_level lev n i" using visit_inv_vis [OF vi] by blast
    then have "at_level lev n (f n)" unfolding f_def by (rule LeastI_ex)
    then have "depth_ok lev s (f n)" using vi s by (auto simp: visit_inv_def)
    with s obtain j where "j < f n" "at_level lev d j" by (auto simp: depth_ok_def)
    then show ?thesis unfolding f_def by (meson Least_le le_less_trans)
  qed
  have "dep_rel steps \<subseteq> measure f" using less by auto
  then show ?thesis by (meson acyclic_subset wf_acyclic wf_measure)
qed

text \<open>A non-empty leftover has, for each of its steps, a dependency in the leftover.\<close>

lemma leftover_dep:
  assumes "distinct (names steps)" "\<forall>s \<in> set steps. set (st_deps s) \<subseteq> set (names steps)"
    and "ready steps vis = {}" "n \<in> set (names steps) - set vis"
  shows "\<exists>d \<in> set (names steps) - set vis. (d, n) \<in> dep_rel steps"
  using assms by (fastforce simp: ready_def dep_rel_def names_def)

lemma acyclic_no_leftover:
  assumes "distinct (names steps)" "\<forall>s \<in> set steps. set (st_deps s) \<subseteq> set (names steps)"
    and "ready steps vis = {}" "acyclic (dep_rel steps)"
  shows "set (names steps) \<subseteq> set vis"
proof (rule ccontr)
  assume "\<not> ?thesis"
  then have ne: "set (names steps) - set vis \<noteq> {}" by blast
  have "finite (dep_rel steps)"
  proof (rule finite_subset)
    show "dep_rel steps \<subseteq> (\<Union>s \<in> set steps. set (st_deps s) \<times> {st_name s})"
      by (auto simp: dep_rel_def)
  qed simp
  then have "wf (dep_rel steps)" using assms(4) by (simp add: finite_acyclic_wf)
  then obtain z where "z \<in> set (names steps) - set vis"
    "\<And>y. (y, z) \<in> dep_rel steps \<Longrightarrow> y \<notin> set (names steps) - set vis"
    using ne by (meson wfE_min')
  with leftover_dep [OF assms(1-3)] show False by blast
qed

text \<open>The fallback message of the cycle branch is unreachable.\<close>

lemma find_cycle_hits:
  assumes "distinct (names steps)" "\<forall>s \<in> set steps. set (st_deps s) \<subseteq> set (names steps)"
    and "ready steps vis = {}" "\<not> set (names steps) \<subseteq> set vis"
  shows "find_cycle steps (filter (\<lambda>n. n \<notin> set vis) (names steps)) vis \<noteq> Some None"
proof
  let ?U = "filter (\<lambda>n. n \<notin> set vis) (names steps)"
  assume "find_cycle steps ?U vis = Some None"
  from find_cycle_complete [OF this finished_ok_refl] obtain vis' where
    vis': "finished_ok steps vis vis'" "set ?U \<subseteq> set vis'" by auto
  then obtain new where new: "vis' = new @ vis" "distinct new" "set new \<inter> set vis = {}"
    "\<forall>a n b. new = a @ n # b \<longrightarrow> set (successors steps n) \<subseteq> set (b @ vis)"
    by (auto simp: finished_ok_def)
  have U: "set ?U \<subseteq> set new" using vis'(2) new(1) by auto
  have "set ?U \<noteq> {}" using assms(4) by auto
  define k where "k = (LEAST k. k < length new \<and> new ! k \<in> set ?U)"
  have ex: "\<exists>k. k < length new \<and> new ! k \<in> set ?U"
    using U \<open>set ?U \<noteq> {}\<close> by (metis all_not_in_conv in_set_conv_nth subsetD)
  then have k: "k < length new" "new ! k \<in> set ?U"
    unfolding k_def by (metis (mono_tags, lifting) LeastI)+
  from k(2) have "new ! k \<in> set (names steps) - set vis" by auto
  from leftover_dep [OF assms(1-3) this] obtain d where
    d: "d \<in> set ?U" "new ! k \<in> set (successors steps d)"
    by (auto simp: dep_rel_successors)
  from d(1) U obtain i where i: "i < length new" "new ! i = d" by (metis in_set_conv_nth subsetD)
  have "k \<le> i" unfolding k_def using i d(1) by (intro Least_le) auto
  have "new = take i new @ d # drop (Suc i) new" using i by (metis id_take_nth_drop)
  with new(4) d(2) have "new ! k \<in> set (drop (Suc i) new @ vis)" by blast
  with k new(3) have "new ! k \<in> set (drop (Suc i) new)" using nth_mem by fastforce
  then obtain j where "j < length (drop (Suc i) new)" "drop (Suc i) new ! j = new ! k"
    unfolding in_set_conv_nth by blast
  then have "Suc i + j < length new" "new ! (Suc i + j) = new ! k" using i(1) by simp_all
  with new(2) k(1) \<open>k \<le> i\<close> show False by (simp add: nth_eq_iff_index_eq)
qed

text \<open>The four ways \<open>build_dag\<close> can end.\<close>

lemma build_dag_ok_facts:
  assumes "build_dag steps = Some (Ok lev)" "steps \<noteq> []"
  shows "distinct (names steps)" "\<forall>s \<in> set steps. set (st_deps s) \<subseteq> set (names steps)"
    and "lev = snd (kahn_run steps)" "length (fst (kahn_run steps)) = length steps"
proof -
  show dn: "distinct (names steps)"
    and cl: "\<forall>s \<in> set steps. set (st_deps s) \<subseteq> set (names steps)"
    using build_dag_checked [OF assms] by auto
  from assms(1) show "lev = snd (kahn_run steps)" "length (fst (kahn_run steps)) = length steps"
    unfolding build_dag_unfold [OF assms(2) dn cl] by (auto split: if_splits option.splits)
qed

lemma visited_all:
  assumes dn: "distinct (names steps)" and vi: "visit_inv steps vis lev ind"
  shows "length vis = length steps \<longleftrightarrow> set (names steps) \<subseteq> set vis"
proof -
  have dv: "distinct vis" and sub: "set vis \<subseteq> set (names steps)"
    using vi visit_inv_names [OF vi] by (auto simp: visit_inv_def)
  have "length vis = card (set vis)" "length steps = card (set (names steps))"
    using dv dn by (simp_all add: distinct_card flip: length_map [of st_name steps] names_def)
  with sub show ?thesis by (metis List.finite_set card_subset_eq subset_antisym)
qed

lemma build_dag_ok_iff:
  "(\<exists>lev. build_dag steps = Some (Ok lev)) \<longleftrightarrow>
     distinct (names steps) \<and> (\<forall>s \<in> set steps. set (st_deps s) \<subseteq> set (names steps)) \<and>
     acyclic (dep_rel steps)"
proof (cases "steps = []")
  case True
  then show ?thesis by (simp add: build_dag_def names_def dep_rel_def acyclic_def)
next
  case ne: False
  show ?thesis
  proof
    assume "\<exists>lev. build_dag steps = Some (Ok lev)"
    then obtain lev where lev: "build_dag steps = Some (Ok lev)" ..
    note f = build_dag_ok_facts [OF lev ne]
    obtain ind where vi: "visit_inv steps (fst (kahn_run steps)) (snd (kahn_run steps)) ind"
      using kahn_run_inv [OF f(1)] .
    have "acyclic (dep_rel steps)"
      using at_level_Ok_acyclic [OF vi] visited_all [OF f(1) vi] f(4) by simp
    with f show "distinct (names steps) \<and> (\<forall>s \<in> set steps. set (st_deps s) \<subseteq> set (names steps)) \<and>
       acyclic (dep_rel steps)" by simp
  next
    assume r: "distinct (names steps) \<and> (\<forall>s \<in> set steps. set (st_deps s) \<subseteq> set (names steps)) \<and>
       acyclic (dep_rel steps)"
    obtain ind where vi: "visit_inv steps (fst (kahn_run steps)) (snd (kahn_run steps)) ind"
      and re: "ready steps (fst (kahn_run steps)) = {}"
      using kahn_run_inv r by blast
    have "length (fst (kahn_run steps)) = length steps"
      using acyclic_no_leftover [OF _ _ re] visited_all [OF _ vi] r by simp
    with build_dag_unfold [OF ne] r show "\<exists>lev. build_dag steps = Some (Ok lev)" by simp
  qed
qed

text \<open>Where the steps of a successful build sit.\<close>

lemma build_dag_layout:
  assumes "build_dag steps = Some (Ok lev)"
  shows "mset (concat lev) = mset steps \<and> [] \<notin> set lev \<and>
     (\<forall>s \<in> set steps. \<exists>!i. at_level lev (st_name s) i) \<and>
     (\<forall>s \<in> set steps. \<forall>i. at_level lev (st_name s) i \<longrightarrow> depth_ok lev s i)"
proof (cases "steps = []")
  case True
  with assms show ?thesis by (simp add: build_dag_def)
next
  case False
  note f = build_dag_ok_facts [OF assms False]
  obtain ind where vi: "visit_inv steps (fst (kahn_run steps)) lev ind"
    using kahn_run_inv [OF f(1)] f(3) by blast
  have ms: "mset (concat lev) = mset steps"
    using kahn_run_complete [OF f(1) f(4)] vi f(3) by blast
  have one: "\<exists>!i. at_level lev (st_name s) i" if "s \<in> set steps" for s
  proof -
    have "set (concat lev) = set steps" using ms by (metis set_mset_mset)
    then have "st_name s \<in> set (names (concat lev))" using that by (auto simp: names_def)
    then have "\<exists>i. at_level lev (st_name s) i" by (simp only: at_level_concat)
    moreover have "i = j" if ij: "at_level lev (st_name s) i" "at_level lev (st_name s) j" for i j
    proof (rule distinct_concat_level)
      have "mset (names (concat lev)) = mset (names steps)" by (simp add: names_def ms)
      then show "distinct (names (concat lev))" using f(1) by (metis mset_eq_imp_distinct_iff)
    qed (use ij in auto)
    ultimately show ?thesis by blast
  qed
  from vi ms one show ?thesis by (simp add: visit_inv_def)
qed

text \<open>
  C1: a successful \<open>BuildDAG\<close> puts every step into exactly one level, leaves no level
  empty, and the level of a step is exactly one more than the level of its deepest
  dependency (zero without dependencies): every dependency sits at a smaller level and a
  step above level zero has a dependency in the level directly below.
\<close>

theorem build_dag_levels:
  assumes "build_dag steps = Some (Ok lev)"
  shows "mset (concat lev) = mset steps \<and> [] \<notin> set lev \<and>
     (\<forall>s \<in> set steps. \<exists>!i. at_level lev (st_name s) i) \<and>
     (\<forall>s \<in> set steps. \<forall>i. at_level lev (st_name s) i \<longrightarrow>
        (\<forall>d \<in> set (st_deps s). \<exists>j < i. at_level lev d j) \<and>
        (i = 0 \<or> (\<exists>d \<in> set (st_deps s). at_level lev d (i - 1))))"
  using build_dag_layout [OF assms] unfolding depth_ok_def by blast

text \<open>
  C2: \<open>BuildDAG\<close> succeeds exactly when the step names are distinct, every declared
  dependency names a step, and the dependency relation is acyclic.
\<close>

theorem build_dag_succeeds_iff:
  "(\<exists>lev. build_dag steps = Some (Ok lev)) \<longleftrightarrow>
     distinct (map st_name steps) \<and>
     (\<forall>s \<in> set steps. set (st_deps s) \<subseteq> st_name ` set steps) \<and>
     acyclic {(d, st_name s) | s d. s \<in> set steps \<and> d \<in> set (st_deps s)}"
  using build_dag_ok_iff [of steps] by (simp add: names_def dep_rel_def)

text \<open>
  the cycle that \<open>BuildDAG\<close> reports is one: a path of at least two names, equal at both
  ends, in which every name is a step that declares its predecessor as a dependency.
\<close>

lemma build_dag_reports_cycle:
  assumes "build_dag steps = Some (Err (CycleDetected p))"
  shows "2 \<le> length p \<and> hd p = last p \<and>
     (\<forall>i. Suc i < length p \<longrightarrow>
        (\<exists>s \<in> set steps. st_name s = p ! Suc i \<and> p ! i \<in> set (st_deps s)))"
proof -
  have ne: "steps \<noteq> []" using assms by (auto simp: build_dag_def)
  note c = build_dag_checked [OF assms ne]
  have c': "distinct (names steps)" "\<forall>s \<in> set steps. set (st_deps s) \<subseteq> set (names steps)"
    using c by auto
  from assms obtain ns vis where "find_cycle steps ns vis = Some (Some p)"
    unfolding build_dag_unfold [OF ne c'] by (auto split: if_splits option.splits)
  from find_cycle_sound [OF this] show ?thesis
    by (auto simp: walk_def successively_conv_nth set_successors)
qed

text \<open>
  \<open>BuildDAG\<close> always returns, and when names and dependencies check out, its only
  failure is a cycle that the search has found; the fallback that lists the unvisited steps
  is never used.
\<close>

lemma build_dag_terminates:
  "\<exists>r. build_dag steps = Some r \<and> (\<forall>ns. r \<noteq> Err (CycleUnresolved ns))"
proof (cases "steps \<noteq> [] \<and> distinct (names steps) \<and>
    (\<forall>s \<in> set steps. set (st_deps s) \<subseteq> set (names steps))")
  case False
  then consider "steps = []"
    | n where "steps \<noteq> []" "find_duplicate [] steps = Some n"
    | n d where "steps \<noteq> []" "find_duplicate [] steps = None"
        "find_missing (names steps) steps = Some (n, d)"
    using find_duplicate_None [of "[]" steps] find_missing_None [of "names steps" steps]
    by (cases "find_duplicate [] steps"; cases "find_missing (names steps) steps") auto
  then show ?thesis by cases (auto simp: build_dag_def)
next
  case True
  let ?v = "fst (kahn_run steps)" and ?u = "filter (\<lambda>n. n \<notin> set (fst (kahn_run steps))) (names steps)"
  obtain ind where vi: "visit_inv steps ?v (snd (kahn_run steps)) ind" and re: "ready steps ?v = {}"
    using kahn_run_inv True by blast
  have t: "find_cycle steps ?u ?v \<noteq> None" by (rule find_cycle_terminates) auto
  have h: "find_cycle steps ?u ?v \<noteq> Some None" if "length ?v \<noteq> length steps"
    using find_cycle_hits [OF _ _ re] visited_all [OF _ vi] that True by simp
  show ?thesis
  proof (cases "length ?v = length steps")
    case True
    with \<open>steps \<noteq> [] \<and> _\<close> show ?thesis by (simp add: build_dag_unfold)
  next
    case False
    from t h [OF False] obtain p where "find_cycle steps ?u ?v = Some (Some p)" by auto
    with False True show ?thesis by (simp add: build_dag_unfold)
  qed
qed

subsection \<open>Concrete runs\<close>

definition demo_steps :: "step list" where
  "demo_steps =
     [NewStepFunc ''vm'' ''web'' [''net'', ''img''] [],
      NewStepFunc ''network'' ''net'' [] [],
      NewStepFunc ''image'' ''img'' [''net''] []]"

definition loop_steps :: "step list" where
  "loop_steps =
     [NewStepFunc ''vm'' ''c'' [''b''] [], NewStepFunc ''vm'' ''a'' [''b''] [],
      NewStepFunc ''vm'' ''b'' [''a''] []]"

lemma demo_run:
  "build_dag demo_steps = Some (Ok [[demo_steps ! 1], [demo_steps ! 2], [demo_steps ! 0]])"
  by code_simp

lemma loop_run: "build_dag loop_steps = Some (Err (CycleDetected [''a'', ''b'', ''a'']))"
  by code_simp

theorem build_dag_levels_witness:
  "mset (concat [[demo_steps ! 1], [demo_steps ! 2], [demo_steps ! 0]]) = mset demo_steps"
  using build_dag_levels [OF demo_run] by blast

theorem build_dag_reports_cycle_witness:
  "2 \<le> length [''a'', ''b'', ''a''] \<and> hd [''a'', ''b'', ''a''] = last [''a'', ''b'', ''a'']"
  using build_dag_reports_cycle [OF loop_run] by blast

theorem build_dag_succeeds_iff_witness:
  "acyclic {(d, st_name s) | s d. s \<in> set demo_steps \<and> d \<in> set (st_deps s)}"
  using build_dag_succeeds_iff [of demo_steps] demo_run by blast

end
