(* ===== verification/Pipeline.thy ===== *)
theory Pipeline
  imports Dag
begin

text \<open>
  The concurrent pipeline engine (\<open>internal/lib/workflow/pipeline.go\<close>) over the records of
  \<open>internal/lib/model/workflow.go\<close>: Execute walks the levels of the graph, Destroy walks
  them backwards; within a level every step has a goroutine of its own. The engine is a
  step relation whose labels are the moves of the goroutines, of the main loop, and of the
  environment (a call returning, a step persisting its state, the context being cancelled).
\<close>

subsection \<open>Resource data\<close>

datatype any = ANil | ABool bool | AStr string | AInt int | AList "any list"
  | AMap "(string \<times> any) list" | AFloat string

type_synonym resource_map = "string \<rightharpoonup> any"

definition GetString :: "resource_map \<Rightarrow> string \<Rightarrow> string" where
  "GetString r k = (case r k of Some (AStr s) \<Rightarrow> s | _ \<Rightarrow> '''')"

definition GetBool :: "resource_map \<Rightarrow> string \<Rightarrow> bool" where
  "GetBool r k = (case r k of Some (ABool b) \<Rightarrow> b
     | Some (AStr s) \<Rightarrow> s = ''true'' \<or> s = ''yes'' \<or> s = ''1'' | _ \<Rightarrow> False)"

definition GetInt :: "resource_map \<Rightarrow> string \<Rightarrow> int" where
  "GetInt r k = (case r k of Some (AInt i) \<Rightarrow> i | _ \<Rightarrow> 0)"

fun as_string :: "any \<Rightarrow> string option" where
  "as_string (AStr s) = Some s"
| "as_string _ = None"

definition GetStringList :: "resource_map \<Rightarrow> string \<Rightarrow> string list" where
  "GetStringList r k = (case r k of Some (AList xs) \<Rightarrow> List.map_filter as_string xs | _ \<Rightarrow> [])"

record resource_meta =
  rm_was_created :: bool
  rm_spec_hash :: string

record resource_state =
  rs_spec :: "resource_map option"
  rs_output :: "resource_map option"
  rs_meta :: resource_meta

record applied_resource =
  ar_name :: string
  ar_type :: string
  ar_deps :: "string list"
  ar_state :: resource_state

definition zero_state :: resource_state where
  "zero_state = \<lparr>rs_spec = None, rs_output = None,
     rs_meta = \<lparr>rm_was_created = False, rm_spec_hash = ''''\<rparr>\<rparr>"

text \<open>\<open>savedByStep\<close>: a later resource of the same name replaces an earlier one; a missing
  name reads as the zero value.\<close>

definition saved_by_step :: "applied_resource list \<Rightarrow> string \<Rightarrow> resource_state" where
  "saved_by_step rs = foldl (\<lambda>m r. m(ar_name r := ar_state r)) (\<lambda>_. zero_state) rs"

lemma saved_by_step_eq:
  "saved_by_step rs n =
     (case find_first (\<lambda>r. ar_name r = n) (rev rs) of Some r \<Rightarrow> ar_state r | None \<Rightarrow> zero_state)"
proof -
  have app: "find_first p (xs @ ys) = (case find_first p xs of Some x \<Rightarrow> Some x | None \<Rightarrow> find_first p ys)"
    for p :: "applied_resource \<Rightarrow> bool" and xs ys
    by (induction xs) auto
  have "foldl (\<lambda>m r. m(ar_name r := ar_state r)) m rs n =
      (case find_first (\<lambda>r. ar_name r = n) (rev rs) of Some r \<Rightarrow> ar_state r | None \<Rightarrow> m n)" for m
    by (induction rs arbitrary: m) (auto simp: app split: option.splits)
  then show ?thesis by (simp add: saved_by_step_def)
qed

subsection \<open>Construction\<close>

record pipeline =
  p_steps :: "step list"
  p_levels :: "step list list"

definition NewPipeline :: "step list \<Rightarrow> (dag_error, pipeline) res option" where
  "NewPipeline steps = map_option (\<lambda>r. bind_res r (\<lambda>lev. Ok \<lparr>p_steps = steps, p_levels = lev\<rparr>))
     (build_dag steps)"

text \<open>\<open>stepDepOverride\<close>: the wrapped step with another dependency list.\<close>

definition override_deps :: "(string \<Rightarrow> bool) \<Rightarrow> step \<Rightarrow> step" where
  "override_deps existing s = s\<lparr>st_deps := filter existing (st_deps s)\<rparr>"

definition NewDestroyPipeline :: "step list \<Rightarrow> (string \<Rightarrow> bool) \<Rightarrow> (dag_error, pipeline) res option" where
  "NewDestroyPipeline steps existing = NewPipeline (map (override_deps existing) steps)"

subsection \<open>The engine\<close>

datatype mode = Executing | Destroying

datatype event =
    Progress string string string
  | Called string resource_state
  | Wrote string resource_state
  | Returned string "string option"

text \<open>The program counter of a goroutine.\<close>

datatype phase = Ready | Announced | InCall | Back "string option" | Recording string | Finished

datatype outcome = Nil | Failed string string | Cancelled

record config =
  c_mode :: mode
  c_saved :: "string \<Rightarrow> resource_state"
  c_writer :: bool

record engine =
  e_todo :: "step list list"
  e_gos :: "(step \<times> phase) list option"
  e_err :: "(string \<times> string) option"
  e_cancelled :: bool
  e_result :: "outcome option"
  e_log :: "event list"

fun start_msg :: "mode \<Rightarrow> string" where
  "start_msg Executing = ''starting''"
| "start_msg Destroying = ''destroying''"

fun done_msg :: "mode \<Rightarrow> string" where
  "done_msg Executing = ''done''"
| "done_msg Destroying = ''destroyed''"

fun level_order :: "mode \<Rightarrow> step list list \<Rightarrow> step list list" where
  "level_order Executing lev = lev"
| "level_order Destroying lev = rev lev"

definition outcome_of :: "(string \<times> string) option \<Rightarrow> outcome" where
  "outcome_of e = (case e of None \<Rightarrow> Nil | Some (n, m) \<Rightarrow> Failed n m)"

definition start_engine :: "mode \<Rightarrow> step list list \<Rightarrow> engine" where
  "start_engine m lev = \<lparr>e_todo = level_order m lev, e_gos = None, e_err = None,
     e_cancelled = False, e_result = None, e_log = []\<rparr>"

text \<open>
  Moves of one goroutine: announce the step, enter its Apply or Destroy with the saved
  state, and after the call report the result; an error is then recorded under the mutex,
  where the first one wins.
\<close>

datatype move = Announce | Enter | Return "string option" | Write resource_state | Report | Record

fun go_move :: "config \<Rightarrow> step \<Rightarrow> phase \<Rightarrow> move \<Rightarrow> (phase \<times> event list) option" where
  "go_move c s Ready Announce =
     Some (Announced, [Progress (st_name s) ''running'' (start_msg (c_mode c))])"
| "go_move c s Announced Enter = Some (InCall, [Called (st_name s) (c_saved c (st_name s))])"
| "go_move c s InCall (Return r) = Some (Back r, [Returned (st_name s) r])"
| "go_move c s InCall (Write d) = (if c_writer c then Some (InCall, [Wrote (st_name s) d]) else None)"
| "go_move c s (Back None) Report =
     Some (Finished, [Progress (st_name s) ''complete'' (done_msg (c_mode c))])"
| "go_move c s (Back (Some e)) Report = Some (Recording e, [Progress (st_name s) ''failed'' e])"
| "go_move c s (Recording e) Record = Some (Finished, [])"
| "go_move c s _ _ = None"

fun_cases go_moveE: "go_move c s ph m = Some r"

definition record_err :: "step \<Rightarrow> phase \<Rightarrow> (string \<times> string) option \<Rightarrow> (string \<times> string) option" where
  "record_err s ph err = (case (ph, err) of (Recording e, None) \<Rightarrow> Some (st_name s, e) | _ \<Rightarrow> err)"

datatype label = Cancel | Boundary | Join | Go nat move

inductive estep :: "config \<Rightarrow> engine \<Rightarrow> label \<Rightarrow> engine \<Rightarrow> bool" for c where
  cancel: "estep c p Cancel (p\<lparr>e_cancelled := True\<rparr>)"
| finish: "\<lbrakk>e_result p = None; e_gos p = None; e_todo p = []\<rbrakk> \<Longrightarrow>
    estep c p Boundary (p\<lparr>e_result := Some (outcome_of (e_err p))\<rparr>)"
| stopped: "\<lbrakk>e_result p = None; e_gos p = None; e_todo p = l # ls; e_cancelled p\<rbrakk> \<Longrightarrow>
    estep c p Boundary (p\<lparr>e_result := Some Cancelled\<rparr>)"
| launch: "\<lbrakk>e_result p = None; e_gos p = None; e_todo p = l # ls; \<not> e_cancelled p\<rbrakk> \<Longrightarrow>
    estep c p Boundary (p\<lparr>e_todo := ls, e_gos := Some (map (\<lambda>s. (s, Ready)) l)\<rparr>)"
| go: "\<lbrakk>e_result p = None; e_gos p = Some gs; i < length gs; gs ! i = (s, ph);
      go_move c s ph m = Some (ph', evs)\<rbrakk> \<Longrightarrow>
    estep c p (Go i m) (p\<lparr>e_gos := Some (gs[i := (s, ph')]),
       e_err := record_err s ph (e_err p), e_log := e_log p @ evs\<rparr>)"
| join_err: "\<lbrakk>e_result p = None; e_gos p = Some gs; \<forall>g \<in> set gs. snd g = Finished;
      c_mode c = Executing; e_err p \<noteq> None\<rbrakk> \<Longrightarrow>
    estep c p Join (p\<lparr>e_result := Some (outcome_of (e_err p))\<rparr>)"
| join: "\<lbrakk>e_result p = None; e_gos p = Some gs; \<forall>g \<in> set gs. snd g = Finished;
      c_mode c = Destroying \<or> e_err p = None\<rbrakk> \<Longrightarrow>
    estep c p Join (p\<lparr>e_gos := None\<rparr>)"

inductive_cases estepE: "estep c p l p'"

inductive_simps estep_Cancel [simp]: "estep c p Cancel p'"

text \<open>The same relation as a function of the label, for running schedules.\<close>

fun fire :: "config \<Rightarrow> engine \<Rightarrow> label \<Rightarrow> engine option" where
  "fire c p Cancel = Some (p\<lparr>e_cancelled := True\<rparr>)"
| "fire c p Boundary =
     (if e_result p \<noteq> None \<or> e_gos p \<noteq> None then None
      else case e_todo p of
        [] \<Rightarrow> Some (p\<lparr>e_result := Some (outcome_of (e_err p))\<rparr>)
      | l # ls \<Rightarrow>
          if e_cancelled p then Some (p\<lparr>e_result := Some Cancelled\<rparr>)
          else Some (p\<lparr>e_todo := ls, e_gos := Some (map (\<lambda>s. (s, Ready)) l)\<rparr>))"
| "fire c p (Go i m) =
     (case (e_result p, e_gos p) of
        (None, Some gs) \<Rightarrow>
          (if i < length gs
           then map_option (\<lambda>(ph', evs). p\<lparr>e_gos := Some (gs[i := (fst (gs ! i), ph')]),
                  e_err := record_err (fst (gs ! i)) (snd (gs ! i)) (e_err p), e_log := e_log p @ evs\<rparr>)
                  (go_move c (fst (gs ! i)) (snd (gs ! i)) m)
           else None)
      | _ \<Rightarrow> None)"
| "fire c p Join =
     (case (e_result p, e_gos p) of
        (None, Some gs) \<Rightarrow>
          (if list_all (\<lambda>g. snd g = Finished) gs
           then if c_mode c = Executing \<and> e_err p \<noteq> None
                then Some (p\<lparr>e_result := Some (outcome_of (e_err p))\<rparr>)
                else Some (p\<lparr>e_gos := None\<rparr>)
           else None)
      | _ \<Rightarrow> None)"

lemma estep_fire: "estep c p l p' \<longleftrightarrow> fire c p l = Some p'"
proof
  assume "estep c p l p'"
  then show "fire c p l = Some p'"
    by cases (auto simp: list_all_iff split: list.splits)
next
  assume f: "fire c p l = Some p'"
  show "estep c p l p'"
  proof (cases l)
    case Cancel
    with f show ?thesis by simp
  next
    case Boundary
    with f show ?thesis by (auto split: if_splits list.splits intro: estep.intros)
  next
    case Join
    with f obtain gs where gs: "e_result p = None" "e_gos p = Some gs" "\<forall>g \<in> set gs. snd g = Finished"
      by (auto simp: list_all_iff split: if_splits option.splits)
    show ?thesis
    proof (cases "c_mode c = Executing \<and> e_err p \<noteq> None")
      case True
      with f gs Join have "p' = p\<lparr>e_result := Some (outcome_of (e_err p))\<rparr>"
        by (auto simp: list_all_iff)
      with estep.join_err gs True Join show ?thesis by blast
    next
      case False
      with f gs Join have "p' = p\<lparr>e_gos := None\<rparr>" by (auto simp: list_all_iff split: if_splits)
      moreover have "c_mode c = Destroying \<or> e_err p = None" using False by (metis mode.exhaust)
      ultimately show ?thesis using estep.join gs Join by blast
    qed
  next
    case (Go i m)
    with f obtain gs ph' evs where "e_result p = None" "e_gos p = Some gs" "i < length gs"
      "go_move c (fst (gs ! i)) (snd (gs ! i)) m = Some (ph', evs)"
      "p' = p\<lparr>e_gos := Some (gs[i := (fst (gs ! i), ph')]),
         e_err := record_err (fst (gs ! i)) (snd (gs ! i)) (e_err p), e_log := e_log p @ evs\<rparr>"
      by (auto split: if_splits option.splits)
    with Go show ?thesis by (auto intro: estep.go)
  qed
qed

fun fires :: "config \<Rightarrow> engine \<Rightarrow> label list \<Rightarrow> engine option" where
  "fires c p [] = Some p"
| "fires c p (l # ls) = (case fire c p l of None \<Rightarrow> None | Some p' \<Rightarrow> fires c p' ls)"

text \<open>Runs from the state in which the method starts.\<close>

inductive reach :: "config \<Rightarrow> step list list \<Rightarrow> engine \<Rightarrow> bool" for c lev where
  init: "reach c lev (start_engine (c_mode c) lev)"
| step: "\<lbrakk>reach c lev p; estep c p l p'\<rbrakk> \<Longrightarrow> reach c lev p'"

lemma reach_fires: "reach c lev p \<Longrightarrow> fires c p ls = Some p' \<Longrightarrow> reach c lev p'"
proof (induction ls arbitrary: p)
  case (Cons l ls)
  then obtain q where "fire c p l = Some q" "fires c q ls = Some p'" by (auto split: option.splits)
  with Cons show ?case by (meson estep_fire reach.step)
qed simp

definition run_schedule :: "config \<Rightarrow> step list list \<Rightarrow> label list \<Rightarrow> engine option" where
  "run_schedule c lev ls = fires c (start_engine (c_mode c) lev) ls"

lemma reach_schedule: "run_schedule c lev ls = Some p \<Longrightarrow> reach c lev p"
  unfolding run_schedule_def by (rule reach_fires [OF reach.init])

subsection \<open>The invariant\<close>

fun is_call :: "string \<Rightarrow> event \<Rightarrow> bool" where
  "is_call n (Called m _) = (m = n)"
| "is_call n _ = False"

fun is_return :: "string \<Rightarrow> event \<Rightarrow> bool" where
  "is_return n (Returned m _) = (m = n)"
| "is_return n _ = False"

definition calls :: "event list \<Rightarrow> string \<Rightarrow> nat" where
  "calls evs n = length (filter (is_call n) evs)"

definition returns :: "event list \<Rightarrow> string \<Rightarrow> nat" where
  "returns evs n = length (filter (is_return n) evs)"

lemma calls_append [simp]: "calls (xs @ ys) n = calls xs n + calls ys n"
  by (simp add: calls_def)

lemma returns_append [simp]: "returns (xs @ ys) n = returns xs n + returns ys n"
  by (simp add: returns_def)

lemma no_calls: "calls evs n = 0 \<longleftrightarrow> (\<forall>d. Called n d \<notin> set evs)"
proof
  assume "calls evs n = 0"
  then show "\<forall>d. Called n d \<notin> set evs" by (auto simp: calls_def filter_empty_conv)
next
  assume none: "\<forall>d. Called n d \<notin> set evs"
  have "\<not> is_call n e" if "e \<in> set evs" for e
    using none that by (cases "(n, e)" rule: is_call.cases) auto
  then show "calls evs n = 0" by (simp add: calls_def filter_empty_conv)
qed

lemma one_return:
  "returns evs n = 1 \<Longrightarrow> Returned n r \<in> set evs \<Longrightarrow> Returned n r' \<in> set evs \<Longrightarrow> r = r'"
proof (induction evs)
  case (Cons e evs)
  have "Returned n q \<in> set evs \<Longrightarrow> returns evs n \<noteq> 0" for q
    by (force simp: returns_def filter_empty_conv)
  with Cons show ?case by (cases e) (auto simp: returns_def split: if_splits)
qed simp

text \<open>What the log says of a step whose goroutine is at a given point.\<close>

fun tracked :: "event list \<Rightarrow> (string \<times> string) option \<Rightarrow> step \<Rightarrow> phase \<Rightarrow> bool" where
  "tracked log err s Ready = (calls log (st_name s) = 0 \<and> returns log (st_name s) = 0)"
| "tracked log err s Announced = (calls log (st_name s) = 0 \<and> returns log (st_name s) = 0)"
| "tracked log err s InCall = (calls log (st_name s) = 1 \<and> returns log (st_name s) = 0)"
| "tracked log err s (Back r) =
     (calls log (st_name s) = 1 \<and> returns log (st_name s) = 1 \<and> Returned (st_name s) r \<in> set log)"
| "tracked log err s (Recording e) =
     (calls log (st_name s) = 1 \<and> returns log (st_name s) = 1 \<and>
        Returned (st_name s) (Some e) \<in> set log)"
| "tracked log err s Finished =
     (calls log (st_name s) = 1 \<and> returns log (st_name s) = 1 \<and>
        (\<exists>r. Returned (st_name s) r \<in> set log \<and> (r = None \<or> err \<noteq> None)))"

definition settled :: "mode \<Rightarrow> event list \<Rightarrow> (string \<times> string) option \<Rightarrow> step \<Rightarrow> bool" where
  "settled m log err s \<longleftrightarrow> tracked log err s Finished \<and>
     (m = Executing \<longrightarrow> Returned (st_name s) None \<in> set log)"

text \<open>Every call comes after the return of all calls of the earlier levels.\<close>

definition ordered :: "mode \<Rightarrow> step list list \<Rightarrow> event list \<Rightarrow> bool" where
  "ordered m order log \<longleftrightarrow>
     (\<forall>pre n d post before l after. log = pre @ Called n d # post \<longrightarrow>
        order = before @ l # after \<longrightarrow> n \<in> set (names l) \<longrightarrow>
        (\<forall>s \<in> set (concat before). \<exists>r. Returned (st_name s) r \<in> set pre \<and> (m = Executing \<longrightarrow> r = None)))"

definition gos_ok :: "mode \<Rightarrow> event list \<Rightarrow> (string \<times> string) option
    \<Rightarrow> (step \<times> phase) list option \<Rightarrow> step list list \<Rightarrow> bool" where
  "gos_ok m log err g past =
     (case g of
        None \<Rightarrow> (\<forall>s \<in> set (concat past). settled m log err s) \<and> (m = Executing \<longrightarrow> err = None)
      | Some gs \<Rightarrow> past \<noteq> [] \<and> map fst gs = last past \<and>
          (\<forall>s \<in> set (concat (butlast past)). settled m log err s) \<and>
          (\<forall>(s, ph) \<in> set gs. tracked log err s ph))"

definition result_ok :: "mode \<Rightarrow> engine \<Rightarrow> bool" where
  "result_ok m p = (case e_result p of
      None \<Rightarrow> True
    | Some Cancelled \<Rightarrow> e_cancelled p \<and> e_gos p = None
    | Some Nil \<Rightarrow> e_todo p = [] \<and> e_gos p = None \<and> e_err p = None
    | Some (Failed n e) \<Rightarrow> e_err p = Some (n, e) \<and> (m = Destroying \<longrightarrow> e_todo p = [] \<and> e_gos p = None) \<and>
        (\<forall>gs. e_gos p = Some gs \<longrightarrow> (\<forall>g \<in> set gs. snd g = Finished)))"

definition einv :: "mode \<Rightarrow> step list list \<Rightarrow> engine \<Rightarrow> bool" where
  "einv m order p \<longleftrightarrow>
     (\<exists>past. order = past @ e_todo p \<and> gos_ok m (e_log p) (e_err p) (e_gos p) past \<and>
        (\<forall>n. n \<notin> set (names (concat past)) \<longrightarrow> calls (e_log p) n = 0 \<and> returns (e_log p) n = 0)) \<and>
     (\<forall>n e. e_err p = Some (n, e) \<longrightarrow> Returned n (Some e) \<in> set (e_log p)) \<and>
     ordered m order (e_log p) \<and> result_ok m p"

subsection \<open>The invariant is preserved\<close>

lemma go_move_other:
  assumes "go_move c s ph m = Some (ph', evs)" "n \<noteq> st_name s"
  shows "calls evs n = 0" "returns evs n = 0" "Called n d \<notin> set evs" "Returned n r \<notin> set evs"
  using assms by (auto elim!: go_moveE simp: calls_def returns_def split: if_splits)

lemma tracked_other:
  assumes "go_move c s ph m = Some (ph', evs)" "st_name t \<noteq> st_name s" "tracked log err t pt"
    and "err \<noteq> None \<longrightarrow> err' \<noteq> None"
  shows "tracked (log @ evs) err' t pt"
  using assms(3,4) go_move_other [OF assms(1), of "st_name t"] assms(2) by (cases pt) auto

lemma tracked_go:
  assumes "go_move c s ph m = Some (ph', evs)" "tracked log err s ph"
  shows "tracked (log @ evs) (record_err s ph err) s ph'"
  using assms
  by (auto elim!: go_moveE simp: calls_def returns_def record_err_def split: if_splits option.splits)

lemma record_err_mono: "err \<noteq> None \<longrightarrow> record_err s ph err \<noteq> None"
  by (auto simp: record_err_def split: phase.splits option.splits)

lemma record_err_new:
  "record_err s ph err = Some (n, e) \<Longrightarrow> err = Some (n, e) \<or> (n = st_name s \<and> ph = Recording e)"
  by (auto simp: record_err_def split: phase.splits option.splits)

lemma settled_other:
  assumes "go_move c s ph m = Some (ph', evs)" "st_name t \<noteq> st_name s" "settled md log err t"
    and "err \<noteq> None \<longrightarrow> err' \<noteq> None"
  shows "settled md (log @ evs) err' t"
  using tracked_other [OF assms(1,2) _ assms(4), of log Finished] assms(3) by (auto simp: settled_def)

lemma level_split_unique:
  assumes "distinct (names (concat order))" "order = a @ l # b" "order = a' @ l' # b'"
    and "n \<in> set (names l)" "n \<in> set (names l')"
  shows "a = a'"
proof -
  have "at_level order n (length a)" using assms(2,4) by (simp add: at_level_def)
  moreover have "at_level order n (length a')" using assms(3,5) by (simp add: at_level_def)
  ultimately have "length a = length a'" using distinct_concat_level [OF assms(1)] by blast
  with assms(2,3) show ?thesis by simp
qed

lemma go_move_call:
  assumes "go_move c s ph m = Some (ph', evs)" "Called n d \<in> set evs"
  shows "evs = [Called n d] \<and> n = st_name s"
  using assms by (auto elim!: go_moveE split: if_splits)

lemma ordered_append:
  assumes o: "ordered m order log" and no: "\<And>n d. Called n d \<notin> set evs"
  shows "ordered m order (log @ evs)"
  unfolding ordered_def
proof (intro allI impI ballI)
  fix pre n d post before l after s
  assume log: "log @ evs = pre @ Called n d # post" and l: "order = before @ l # after"
    "n \<in> set (names l)" "s \<in> set (concat before)"
  moreover have "Called n d \<notin> set evs" by (rule no)
  ultimately obtain post' where "log = pre @ Called n d # post'"
    by (auto simp: append_eq_append_conv2 append_eq_Cons_conv Cons_eq_append_conv)
  with o l show "\<exists>r. Returned (st_name s) r \<in> set pre \<and> (m = Executing \<longrightarrow> r = None)"
    unfolding ordered_def by blast
qed

lemma ordered_call:
  assumes o: "ordered m order log" and dn: "distinct (names (concat order))"
    and sp: "order = before @ l # after" "n \<in> set (names l)"
    and st: "\<forall>s \<in> set (concat before). settled m log err s"
  shows "ordered m order (log @ [Called n d])"
  unfolding ordered_def
proof (intro allI impI ballI)
  fix pre n' d' post before' l' after' s
  assume log: "log @ [Called n d] = pre @ Called n' d' # post" and l: "order = before' @ l' # after'"
    "n' \<in> set (names l')" "s \<in> set (concat before')"
  show "\<exists>r. Returned (st_name s) r \<in> set pre \<and> (m = Executing \<longrightarrow> r = None)"
  proof (cases "post = []")
    case True
    with log have e: "log = pre" "n = n'" by auto
    have "before = before'" using level_split_unique [OF dn sp(1) l(1)] sp(2) l(2) e by auto
    with st l(3) e have "settled m pre err s" by auto
    then show ?thesis by (auto simp: settled_def)
  next
    case False
    then have "log = pre @ Called n' d' # butlast post"
      using log by (metis append_butlast_last_id butlast_append butlast_snoc list.simps(3)
          butlast.simps(2))
    with o l show ?thesis unfolding ordered_def by blast
  qed
qed

lemma tracked_next_distinct:
  assumes "distinct (map (st_name \<circ> fst) gs)" "i < length gs" "j < length gs" "i \<noteq> j"
  shows "st_name (fst (gs ! j)) \<noteq> st_name (fst (gs ! i))"
  using assms by (auto simp: distinct_conv_nth)

lemma gos_ok_go:
  assumes g: "gos_ok md log err (Some gs) past" and dn: "distinct (names (concat past))"
    and i: "i < length gs" "gs ! i = (s, ph)"
    and mv: "go_move c s ph m = Some (ph', evs)"
  shows "gos_ok md (log @ evs) (record_err s ph err) (Some (gs[i := (s, ph')])) past"
proof -
  note mono = record_err_mono [of err s ph]
  have pa: "past \<noteq> []" "map fst gs = last past" and
    old: "\<forall>s \<in> set (concat (butlast past)). settled md log err s" and
    tr: "\<forall>(s, ph) \<in> set gs. tracked log err s ph"
    using g by (auto simp: gos_ok_def)
  have dn': "distinct (names (concat (butlast past) @ last past))"
    using dn concat_last [OF pa(1)] by simp
  then have dg: "distinct (map (st_name \<circ> fst) gs)"
    by (simp add: names_def flip: pa(2))
  have s: "s \<in> set (last past)" using i pa(2) by (metis fst_conv length_map nth_map nth_mem)
  have "settled md (log @ evs) (record_err s ph err) t" if t: "t \<in> set (concat (butlast past))" for t
  proof (rule settled_other [OF mv _ _ mono])
    show "st_name t \<noteq> st_name s" using dn' t s by (force simp: names_def)
    show "settled md log err t" using old t by blast
  qed
  moreover have "tracked (log @ evs) (record_err s ph err) (fst g) (snd g)"
    if "g \<in> set (gs[i := (s, ph')])" for g
  proof -
    from that obtain j where j: "j < length gs" "g = gs[i := (s, ph')] ! j"
      by (metis in_set_conv_nth length_list_update)
    show ?thesis
    proof (cases "j = i")
      case True
      have "tracked log err s ph" using tr i by (metis (mono_tags, lifting) case_prodD nth_mem)
      from tracked_go [OF mv this] True j i show ?thesis by simp
    next
      case False
      then have "g = gs ! j" using j by simp
      moreover have "tracked log err (fst (gs ! j)) (snd (gs ! j))"
        using tr j(1) by (auto simp: case_prod_beta)
      moreover have "st_name (fst (gs ! j)) \<noteq> st_name s"
        using tracked_next_distinct [OF dg i(1) j(1)] False i(2) by simp
      ultimately show ?thesis using tracked_other [OF mv _ _ mono] by simp
    qed
  qed
  moreover have "map fst (gs[i := (s, ph')]) = last past"
    using pa(2) i by (metis fst_conv list_update_id map_update nth_map)
  ultimately show ?thesis using pa(1) by (auto simp: gos_ok_def)
qed

lemma einv_go:
  assumes inv: "einv (c_mode c) order p" and dn: "distinct (names (concat order))"
    and r: "e_result p = None" and gs: "e_gos p = Some gs"
    and i: "i < length gs" "gs ! i = (s, ph)" and mv: "go_move c s ph m = Some (ph', evs)"
  shows "einv (c_mode c) order (p\<lparr>e_gos := Some (gs[i := (s, ph')]),
       e_err := record_err s ph (e_err p), e_log := e_log p @ evs\<rparr>)"
proof -
  from inv gs obtain past where past: "order = past @ e_todo p"
    and g: "gos_ok (c_mode c) (e_log p) (e_err p) (Some gs) past"
    and none: "\<And>n. n \<notin> set (names (concat past)) \<Longrightarrow> calls (e_log p) n = 0 \<and> returns (e_log p) n = 0"
    and er: "\<And>n e. e_err p = Some (n, e) \<Longrightarrow> Returned n (Some e) \<in> set (e_log p)"
    and o: "ordered (c_mode c) order (e_log p)"
    unfolding einv_def by auto
  have dp: "distinct (names (concat past))" using dn past by (simp add: names_def)
  note g' = gos_ok_go [OF g dp i mv]
  have pa: "past \<noteq> []" "map fst gs = last past" and
    old: "\<forall>s \<in> set (concat (butlast past)). settled (c_mode c) (e_log p) (e_err p) s"
    using g i by (auto simp: gos_ok_def)
  have "(s, ph) \<in> set gs" using i by (metis nth_mem)
  then have tr: "tracked (e_log p) (e_err p) s ph" using g by (auto simp: gos_ok_def)
  have s: "s \<in> set (last past)" using i pa(2) by (metis fst_conv length_map nth_map nth_mem)
  have sp: "order = butlast past @ last past # e_todo p"
    using past pa(1) by (metis append_Cons append_Nil append_assoc append_butlast_last_id)
  have sn: "st_name s \<in> set (names (concat past))"
    using s pa(1) by (auto simp: names_def intro!: last_in_set)
  have "calls (e_log p @ evs) n = 0 \<and> returns (e_log p @ evs) n = 0"
    if "n \<notin> set (names (concat past))" for n
    using none [OF that] go_move_other [OF mv, of n] that sn by auto
  moreover have "Returned n (Some e) \<in> set (e_log p @ evs)"
    if e: "record_err s ph (e_err p) = Some (n, e)" for n e
    using record_err_new [OF e] er tr by auto
  moreover have "ordered (c_mode c) order (e_log p @ evs)"
  proof (cases "\<exists>n d. Called n d \<in> set evs")
    case True
    then obtain d where "evs = [Called (st_name s) d]" using go_move_call [OF mv] by blast
    with ordered_call [OF o dn sp _ old] s show ?thesis by (auto simp: names_def)
  next
    case False
    with ordered_append [OF o] show ?thesis by blast
  qed
  ultimately show ?thesis
    unfolding einv_def result_ok_def using past g' r by (auto intro!: exI [of _ past])
qed

lemma einv_step:
  assumes inv: "einv (c_mode c) order p" and dn: "distinct (names (concat order))"
    and st: "estep c p l p'"
  shows "einv (c_mode c) order p'"
  using st
proof cases
  case cancel
  with inv show ?thesis by (auto simp: einv_def result_ok_def split: option.splits outcome.splits)
next
  case finish
  with inv show ?thesis
    by (fastforce simp: einv_def result_ok_def outcome_of_def split: option.splits outcome.splits)
next
  case (stopped l ls)
  with inv show ?thesis by (auto simp: einv_def result_ok_def)
next
  case (launch l ls)
  from inv launch obtain past where past: "order = past @ l # ls"
    and st: "\<forall>s \<in> set (concat past). settled (c_mode c) (e_log p) (e_err p) s"
    and none: "\<And>n. n \<notin> set (names (concat past)) \<Longrightarrow> calls (e_log p) n = 0 \<and> returns (e_log p) n = 0"
    unfolding einv_def gos_ok_def by auto
  have "distinct (names (concat past) @ names l @ names (concat ls))"
    using dn past by (simp add: names_def)
  then have "set (names (concat past)) \<inter> set (names l) = {}"
    by (simp only: distinct_append set_append) blast
  then have "st_name s \<notin> set (names (concat past))" if "s \<in> set l" for s
    using that unfolding names_def by (auto simp: disjoint_iff)
  then have "\<forall>(s, ph) \<in> set (map (\<lambda>s. (s, Ready)) l). tracked (e_log p) (e_err p) s ph"
    using none by auto
  then have gos: "gos_ok (c_mode c) (e_log p) (e_err p) (Some (map (\<lambda>s. (s, Ready)) l)) (past @ [l])"
    using st by (auto simp: gos_ok_def comp_def)
  have zero: "\<forall>n. n \<notin> set (names (concat (past @ [l]))) \<longrightarrow>
      calls (e_log p) n = 0 \<and> returns (e_log p) n = 0"
    using none by (simp add: names_def)
  have sp: "order = (past @ [l]) @ ls" using past by simp
  have rest: "\<forall>n e. e_err p = Some (n, e) \<longrightarrow> Returned n (Some e) \<in> set (e_log p)"
    "ordered (c_mode c) order (e_log p)"
    using inv by (simp_all add: einv_def)
  have p': "p' = p\<lparr>e_todo := ls, e_gos := Some (map (\<lambda>s. (s, Ready)) l)\<rparr>" and r: "e_result p = None"
    using launch by simp_all
  show ?thesis
    unfolding einv_def
  proof (intro conjI exI [of _ "past @ [l]"])
    show "order = (past @ [l]) @ e_todo p'" using sp p' by simp
    show "gos_ok (c_mode c) (e_log p') (e_err p') (e_gos p') (past @ [l])" using gos p' by simp
    show "\<forall>n. n \<notin> set (names (concat (past @ [l]))) \<longrightarrow>
        calls (e_log p') n = 0 \<and> returns (e_log p') n = 0"
      using zero p' by simp
    show "\<forall>n e. e_err p' = Some (n, e) \<longrightarrow> Returned n (Some e) \<in> set (e_log p')"
      "ordered (c_mode c) order (e_log p')"
      using rest p' by simp_all
    show "result_ok (c_mode c) p'" using r p' by (simp add: result_ok_def)
  qed
next
  case (go gs i s ph m ph' evs)
  with einv_go [OF inv dn] show ?thesis by blast
next
  case (join_err gs)
  with inv show ?thesis
    by (auto simp: einv_def result_ok_def outcome_of_def split: option.splits outcome.splits)
next
  case (join gs)
  from inv join obtain past where past: "order = past @ e_todo p"
    and g: "gos_ok (c_mode c) (e_log p) (e_err p) (Some gs) past"
    and none: "\<And>n. n \<notin> set (names (concat past)) \<Longrightarrow> calls (e_log p) n = 0 \<and> returns (e_log p) n = 0"
    unfolding einv_def by auto
  have pa: "past \<noteq> []" "map fst gs = last past" using g by (auto simp: gos_ok_def)
  have "settled (c_mode c) (e_log p) (e_err p) s" if "s \<in> set (last past)" for s
  proof -
    from that obtain ph where "(s, ph) \<in> set gs" unfolding pa(2) [symmetric] by auto
    with join g have "tracked (e_log p) (e_err p) s Finished" by (force simp: gos_ok_def)
    with join show ?thesis by (auto simp: settled_def split: mode.splits)
  qed
  then have "gos_ok (c_mode c) (e_log p) (e_err p) None past"
    using g join unfolding gos_ok_def concat_last [OF pa(1)] by auto
  then show ?thesis
    using inv join past none unfolding einv_def result_ok_def by auto
qed

lemma einv_start: "einv m (level_order m lev) (start_engine m lev)"
  by (auto simp: einv_def start_engine_def gos_ok_def ordered_def result_ok_def calls_def returns_def
      intro!: exI [of _ "[]"])

lemma reach_inv:
  assumes "reach c lev p" "distinct (names (concat (level_order (c_mode c) lev)))"
  shows "einv (c_mode c) (level_order (c_mode c) lev) p"
  using assms by (induction rule: reach.induct) (auto intro: einv_start einv_step)

subsection \<open>Consequences for the log\<close>

lemma counts_le_1:
  assumes "einv m order p" "distinct (names (concat order))"
  shows "calls (e_log p) n \<le> 1 \<and> returns (e_log p) n \<le> 1"
proof -
  from assms obtain past where past: "order = past @ e_todo p"
    and g: "gos_ok m (e_log p) (e_err p) (e_gos p) past"
    and none: "\<And>n. n \<notin> set (names (concat past)) \<Longrightarrow> calls (e_log p) n = 0 \<and> returns (e_log p) n = 0"
    unfolding einv_def by auto
  have tr: "tracked (e_log p) (e_err p) s ph \<Longrightarrow>
      calls (e_log p) (st_name s) \<le> 1 \<and> returns (e_log p) (st_name s) \<le> 1" for s ph
    by (cases ph) auto
  show ?thesis
  proof (cases "n \<in> set (names (concat past))")
    case False
    with none show ?thesis by simp
  next
    case True
    then obtain s where s: "s \<in> set (concat past)" "st_name s = n" by (auto simp: names_def)
    have "\<exists>ph. tracked (e_log p) (e_err p) s ph"
    proof (cases "e_gos p")
      case None
      with g s have "settled m (e_log p) (e_err p) s" by (auto simp: gos_ok_def)
      then show ?thesis unfolding settled_def by blast
    next
      case (Some gs)
      with g have pa: "past \<noteq> []" "map fst gs = last past" by (auto simp: gos_ok_def)
      then have "concat past = concat (butlast past) @ map fst gs"
        using concat_last [of past] by simp
      with s(1) have "s \<in> set (concat (butlast past)) \<or> s \<in> fst ` set gs" by auto
      then consider "settled m (e_log p) (e_err p) s" | ph where "tracked (e_log p) (e_err p) s ph"
        using g Some by (force simp: gos_ok_def)
      then show ?thesis unfolding settled_def by cases blast+
    qed
    with tr s(2) show ?thesis by blast
  qed
qed

lemma called_known:
  assumes "einv m order p" "calls (e_log p) n \<noteq> 0"
  shows "n \<in> set (names (concat order))"
  using assms by (fastforce simp: einv_def names_def)

lemma called_saved: "reach c lev p \<Longrightarrow> Called n d \<in> set (e_log p) \<Longrightarrow> d = c_saved c n"
proof (induction rule: reach.induct)
  case init
  then show ?case by (simp add: start_engine_def)
next
  case (step p l p')
  from step.hyps(2) show ?case
    using step.IH step.prems by cases (auto elim!: go_moveE split: if_splits)
qed

text \<open>Calls of a later level come after the returns of an earlier one.\<close>

lemma called_after:
  assumes inv: "einv m order p" and log: "e_log p = pre @ Called n d # post"
    and lv: "at_level order n i" "at_level order k j" "j < i"
  shows "\<exists>r. Returned k r \<in> set pre \<and> (m = Executing \<longrightarrow> r = None)"
proof -
  have o: "ordered m order (e_log p)" using inv by (simp add: einv_def)
  from lv have "order = take i order @ order ! i # drop (Suc i) order"
    by (simp add: at_level_def id_take_nth_drop)
  moreover have "n \<in> set (names (order ! i))" using lv(1) by (simp add: at_level_def)
  ultimately have all: "\<forall>s \<in> set (concat (take i order)).
      \<exists>r. Returned (st_name s) r \<in> set pre \<and> (m = Executing \<longrightarrow> r = None)"
    using o log unfolding ordered_def by blast
  from lv(2) obtain s where s: "j < length order" "s \<in> set (order ! j)" "st_name s = k"
    by (auto simp: at_level_def names_def)
  from s(1) lv(3) have "order ! j \<in> set (take i order)" by (auto simp: in_set_conv_nth)
  with s(2) have "s \<in> set (concat (take i order))" by auto
  with all s(3) show ?thesis by blast
qed

lemma at_level_rev: "at_level (rev lev) n i \<longleftrightarrow> i < length lev \<and> at_level lev n (length lev - 1 - i)"
  by (auto simp: at_level_def rev_nth)

lemma names_levels:
  assumes "build_dag steps = Some (Ok lev)"
  shows "distinct (names (concat (level_order m lev)))"
    and "set (concat (level_order m lev)) = set steps"
proof -
  have ms: "mset (concat lev) = mset steps" using build_dag_layout [OF assms] by simp
  have "distinct (names steps)" using build_dag_ok_iff assms by blast
  then have d: "distinct (names (concat lev))"
    using ms by (metis mset_eq_imp_distinct_iff mset_map names_def)
  have "mset (concat (rev lev)) = mset (concat lev)"
    by (induction lev) auto
  then show "distinct (names (concat (level_order m lev)))"
    using d by (cases m) (simp_all, metis mset_eq_imp_distinct_iff mset_map names_def)
  show "set (concat (level_order m lev)) = set steps"
    using ms by (cases m) (simp_all, (metis set_concat set_mset_mset)+)
qed

text \<open>A step and one of its dependencies sit at levels in that order.\<close>

lemma dep_levels:
  assumes "build_dag steps = Some (Ok lev)" "s \<in> set steps" "d \<in> set (st_deps s)"
  obtains i j where "at_level lev (st_name s) i" "at_level lev d j" "j < i"
proof -
  from build_dag_layout [OF assms(1)] assms(2) obtain i where
    "at_level lev (st_name s) i" "depth_ok lev s i" by blast
  with assms(3) that show thesis by (auto simp: depth_ok_def)
qed

lemma settled_tracked: "settled m log err s \<Longrightarrow> tracked log err s Finished"
  unfolding settled_def by blast

text \<open>When the method has returned, no goroutine is inside a call.\<close>

lemma finished_all_returned:
  assumes inv: "einv m order p" and r: "e_result p = Some r"
  obtains past where "order = past @ e_todo p"
    and "\<forall>s \<in> set (concat past). tracked (e_log p) (e_err p) s Finished"
    and "\<And>n. n \<notin> set (names (concat past)) \<Longrightarrow> calls (e_log p) n = 0 \<and> returns (e_log p) n = 0"
proof -
  from inv obtain past where past: "order = past @ e_todo p"
    and g: "gos_ok m (e_log p) (e_err p) (e_gos p) past"
    and none: "\<And>n. n \<notin> set (names (concat past)) \<Longrightarrow> calls (e_log p) n = 0 \<and> returns (e_log p) n = 0"
    and ro: "result_ok m p"
    unfolding einv_def by auto
  have "tracked (e_log p) (e_err p) s Finished" if "s \<in> set (concat past)" for s
  proof (cases "e_gos p")
    case None
    with g that have "settled m (e_log p) (e_err p) s" by (auto simp: gos_ok_def)
    then show ?thesis by (rule settled_tracked)
  next
    case (Some gs)
    then obtain n e where "r = Failed n e" using ro r by (cases r) (auto simp: result_ok_def)
    then have fin: "\<forall>g \<in> set gs. snd g = Finished" using ro r Some by (simp add: result_ok_def)
    have pa: "past \<noteq> []" "map fst gs = last past" using g Some by (auto simp: gos_ok_def)
    from that have "s \<in> set (concat (butlast past)) \<or> s \<in> fst ` set gs"
      unfolding concat_last [OF pa(1)] pa(2) [symmetric] by simp
    then show ?thesis
    proof
      assume "s \<in> fst ` set gs"
      then obtain ph where "(s, ph) \<in> set gs" by auto
      with fin g Some show ?thesis by (force simp: gos_ok_def)
    next
      assume "s \<in> set (concat (butlast past))"
      with g Some have "settled m (e_log p) (e_err p) s" by (auto simp: gos_ok_def)
      then show ?thesis by (rule settled_tracked)
    qed
  qed
  with past none that show thesis by blast
qed

lemma finished_balanced:
  assumes "einv m order p" "e_result p = Some r"
  shows "calls (e_log p) n = returns (e_log p) n"
proof -
  from finished_all_returned [OF assms] obtain past where
    "\<forall>s \<in> set (concat past). tracked (e_log p) (e_err p) s Finished"
    "\<And>n. n \<notin> set (names (concat past)) \<Longrightarrow> calls (e_log p) n = 0 \<and> returns (e_log p) n = 0"
    by blast
  then show ?thesis by (cases "n \<in> set (names (concat past))") (auto simp: names_def)
qed

subsection \<open>Execute\<close>

text \<open>
  C3: whenever Execute calls a step's Apply, under any interleaving of the goroutines and
  wherever errors and cancellations fall, each of the step's dependencies has already been
  applied successfully, the call gets the state saved for that step, and it is the only
  call of that step.
\<close>

theorem execute_respects_dependencies:
  assumes "build_dag steps = Some (Ok lev)" "c_mode c = Executing" "reach c lev p"
    and "e_log p = pre @ Called (st_name s) d # post" "s \<in> set steps"
  shows "(\<forall>k \<in> set (st_deps s). Returned k None \<in> set pre) \<and>
     d = c_saved c (st_name s) \<and> calls (pre @ post) (st_name s) = 0"
proof (intro conjI ballI)
  have dn: "distinct (names (concat (level_order (c_mode c) lev)))"
    by (rule names_levels [OF assms(1)])
  have inv: "einv Executing lev p" using reach_inv [OF assms(3) dn] assms(2) by simp
  show "Returned k None \<in> set pre" if k: "k \<in> set (st_deps s)" for k
  proof -
    obtain i j where "at_level lev (st_name s) i" "at_level lev k j" "j < i"
      using dep_levels [OF assms(1,5) k] .
    from called_after [OF inv assms(4) this] show ?thesis by auto
  qed
  show "d = c_saved c (st_name s)" using called_saved [OF assms(3)] assms(4) by simp
  have "calls (e_log p) (st_name s) \<le> 1" using counts_le_1 [OF inv] dn assms(2) by simp
  then show "calls (pre @ post) (st_name s) = 0" by (simp add: assms(4) calls_def)
qed

lemma returned_count: "Returned n r \<in> set log \<Longrightarrow> returns log n \<noteq> 0"
  by (force simp: returns_def filter_empty_conv)

lemma execute_call_dep:
  assumes "build_dag steps = Some (Ok lev)" "c_mode c = Executing" "reach c lev p"
    and "(k, n) \<in> dep_rel steps" "calls (e_log p) n \<noteq> 0"
  shows "Returned k None \<in> set (e_log p)"
proof -
  from assms(4) obtain s where s: "s \<in> set steps" "n = st_name s" "k \<in> set (st_deps s)"
    by (auto simp: dep_rel_def)
  from assms(5) obtain d where "Called n d \<in> set (e_log p)" by (metis no_calls)
  then obtain pre post where log: "e_log p = pre @ Called n d # post" by (meson split_list)
  have dn: "distinct (names (concat (level_order (c_mode c) lev)))"
    by (rule names_levels [OF assms(1)])
  have inv: "einv Executing lev p" using reach_inv [OF assms(3) dn] assms(2) by simp
  obtain i j where "at_level lev (st_name s) i" "at_level lev k j" "j < i"
    using dep_levels [OF assms(1) s(1,3)] .
  with called_after [OF inv log] s(2) log show ?thesis by auto
qed

text \<open>A nil result: every step was called and returned without an error.\<close>

lemma nil_returned:
  assumes "build_dag steps = Some (Ok lev)" "reach c lev p" "e_result p = Some Nil" "s \<in> set steps"
  shows "Returned (st_name s) None \<in> set (e_log p)"
proof -
  have dn: "distinct (names (concat (level_order (c_mode c) lev)))" by (rule names_levels [OF assms(1)])
  have inv: "einv (c_mode c) (level_order (c_mode c) lev) p" by (rule reach_inv [OF assms(2) dn])
  obtain past where past: "level_order (c_mode c) lev = past @ e_todo p"
    and tr: "\<forall>s \<in> set (concat past). tracked (e_log p) (e_err p) s Finished"
    by (rule finished_all_returned [OF inv assms(3)]) (rule that)
  have ok: "result_ok (c_mode c) p" using inv unfolding einv_def by blast
  have end_state: "e_todo p = []" using ok assms(3) unfolding result_ok_def by simp
  have no_err: "e_err p = None" using ok assms(3) unfolding result_ok_def by simp
  have "s \<in> set (concat (level_order (c_mode c) lev))" using names_levels(2) [OF assms(1)] assms(4) by blast
  then have "s \<in> set (concat past)" by (simp only: past end_state append_Nil2)
  with tr no_err have "tracked (e_log p) None s Finished" by metis
  then show ?thesis unfolding tracked.simps by blast
qed

text \<open>
  C4: when Execute has returned, every call it made has returned. A nil result means that
  every step was applied successfully; an error is the error of a step, and no step that
  depends on it, directly or through others, was called; the context's error is returned
  only after a cancellation.
\<close>

theorem execute_outcome:
  assumes "build_dag steps = Some (Ok lev)" "c_mode c = Executing" "reach c lev p"
    and "e_result p = Some r"
  shows "(\<forall>n. calls (e_log p) n = returns (e_log p) n) \<and>
     (case r of
        Nil \<Rightarrow> \<forall>s \<in> set steps. Returned (st_name s) None \<in> set (e_log p)
      | Failed n e \<Rightarrow> Returned n (Some e) \<in> set (e_log p) \<and>
          (\<forall>k. (n, k) \<in> (dep_rel steps)\<^sup>+ \<longrightarrow> calls (e_log p) k = 0)
      | Cancelled \<Rightarrow> e_cancelled p)"
proof
  have dn: "distinct (names (concat (level_order (c_mode c) lev)))"
    by (rule names_levels [OF assms(1)])
  have inv: "einv Executing lev p" using reach_inv [OF assms(3) dn] assms(2) by simp
  show "\<forall>n. calls (e_log p) n = returns (e_log p) n" using finished_balanced [OF inv assms(4)] by blast
  have ro: "result_ok Executing p" and er: "\<And>n e. e_err p = Some (n, e) \<Longrightarrow> Returned n (Some e) \<in> set (e_log p)"
    using inv by (auto simp: einv_def)
  obtain past where past: "lev = past @ e_todo p"
    and tr: "\<forall>s \<in> set (concat past). tracked (e_log p) (e_err p) s Finished"
    using finished_all_returned [OF inv assms(4)] by blast
  show "case r of Nil \<Rightarrow> \<forall>s \<in> set steps. Returned (st_name s) None \<in> set (e_log p)
      | Failed n e \<Rightarrow> Returned n (Some e) \<in> set (e_log p) \<and>
          (\<forall>k. (n, k) \<in> (dep_rel steps)\<^sup>+ \<longrightarrow> calls (e_log p) k = 0)
      | Cancelled \<Rightarrow> e_cancelled p"
  proof (cases r)
    case Nil
    with assms(4) nil_returned [OF assms(1,3)] show ?thesis by simp
  next
    case Cancelled
    with ro assms(4) show ?thesis by (simp add: result_ok_def)
  next
    case (Failed n e)
    then have ret: "Returned n (Some e) \<in> set (e_log p)"
      using ro assms(4) er by (auto simp: result_ok_def)
    have one: "returns (e_log p) m \<le> 1" for m using counts_le_1 [OF inv] dn assms(2) by simp
    have "calls (e_log p) k = 0" if "(n, k) \<in> (dep_rel steps)\<^sup>+" for k
      using that
    proof (induction rule: trancl_induct)
      case (base k)
      have "Returned n None \<notin> set (e_log p)"
        using one_return [of "e_log p" n] ret one [of n] returned_count [OF ret] by fastforce
      with execute_call_dep [OF assms(1-3) base] show ?case by blast
    next
      case (step k l)
      then have "returns (e_log p) k = 0" using finished_balanced [OF inv assms(4), of k] by simp
      then have "Returned k None \<notin> set (e_log p)" using returned_count by blast
      with execute_call_dep [OF assms(1-3) step(2)] show ?case by blast
    qed
    with Failed ret show ?thesis by simp
  qed
qed

subsection \<open>Destroy\<close>

text \<open>
  C6: Destroy walks the levels backwards. It calls a step's Destroy once, after the Destroy
  of every step that depends on it has returned, whether that failed or not; when it
  returns without having been cancelled, every step was called, and the result is nil
  exactly when no Destroy failed, otherwise the error of a step that failed.
\<close>

theorem destroy_reverse_order:
  assumes "build_dag steps = Some (Ok lev)" "c_mode c = Destroying" "reach c lev p"
  shows "(\<forall>pre n d post. e_log p = pre @ Called n d # post \<longrightarrow> calls (pre @ post) n = 0 \<and>
            (\<forall>t \<in> set steps. n \<in> set (st_deps t) \<longrightarrow> (\<exists>r. Returned (st_name t) r \<in> set pre))) \<and>
         (\<forall>r. e_result p = Some r \<longrightarrow> r \<noteq> Cancelled \<longrightarrow>
            (\<forall>s \<in> set steps. calls (e_log p) (st_name s) = 1 \<and> returns (e_log p) (st_name s) = 1) \<and>
            (case r of Failed n e \<Rightarrow> Returned n (Some e) \<in> set (e_log p)
                     | _ \<Rightarrow> \<forall>s \<in> set steps. Returned (st_name s) None \<in> set (e_log p)))"
proof (intro conjI allI impI)
  have dn: "distinct (names (concat (level_order (c_mode c) lev)))"
    by (rule names_levels [OF assms(1)])
  have inv: "einv Destroying (rev lev) p" using reach_inv [OF assms(3) dn] assms(2) by simp
  have one: "calls (e_log p) n \<le> 1" for n using counts_le_1 [OF inv] dn assms(2) by simp
  {
    fix pre n d post
    assume log: "e_log p = pre @ Called n d # post"
    show "calls (pre @ post) n = 0" using one [of n] by (simp add: log calls_def)
    show "\<forall>t \<in> set steps. n \<in> set (st_deps t) \<longrightarrow> (\<exists>r. Returned (st_name t) r \<in> set pre)"
    proof (intro ballI impI)
      fix t assume t: "t \<in> set steps" "n \<in> set (st_deps t)"
      obtain i j where ij: "at_level lev (st_name t) i" "at_level lev n j" "j < i"
        using dep_levels [OF assms(1) t] .
      then have b: "i < length lev" by (simp add: at_level_def)
      with ij have rl: "at_level (rev lev) (st_name t) (length lev - 1 - i)"
        "at_level (rev lev) n (length lev - 1 - j)" "length lev - 1 - i < length lev - 1 - j"
        unfolding at_level_rev by simp_all
      from called_after [OF inv log rl(2,1,3)] show "\<exists>r. Returned (st_name t) r \<in> set pre"
        by (elim exE conjE) (rule exI)
    qed
  }
  fix r assume r: "e_result p = Some r" "r \<noteq> Cancelled"
  obtain past where past: "rev lev = past @ e_todo p"
    and tr: "\<forall>s \<in> set (concat past). tracked (e_log p) (e_err p) s Finished"
    by (rule finished_all_returned [OF inv r(1)])
  have ro: "result_ok Destroying p" and er: "\<And>n e. e_err p = Some (n, e) \<Longrightarrow> Returned n (Some e) \<in> set (e_log p)"
    using inv by (auto simp: einv_def)
  have "e_todo p = []" using ro r by (auto simp: result_ok_def split: outcome.splits)
  then have "set (concat past) = set steps"
    using past names_levels(2) [OF assms(1), of Destroying] by simp
  with tr have tr: "\<forall>s \<in> set steps. tracked (e_log p) (e_err p) s Finished" by (simp only:)
  then show "\<forall>s \<in> set steps. calls (e_log p) (st_name s) = 1 \<and> returns (e_log p) (st_name s) = 1"
    by simp
  show "case r of Failed n e \<Rightarrow> Returned n (Some e) \<in> set (e_log p)
        | _ \<Rightarrow> \<forall>s \<in> set steps. Returned (st_name s) None \<in> set (e_log p)"
    using ro r er tr by (auto simp: result_ok_def split: outcome.splits)
qed

text \<open>
  the destroy pipeline of a part of a valid spec can always be built: when the steps
  left in the state are some of the steps of a spec that builds, dropping the dependencies
  that are no longer there leaves a graph that builds, with the remaining steps in its
  levels.
\<close>

lemma destroy_pipeline_builds:
  assumes "build_dag spec = Some (Ok lev)" "subseq steps spec"
  shows "\<exists>p. NewDestroyPipeline steps (\<lambda>n. n \<in> set (names steps)) = Some (Ok p) \<and>
     set (names (concat (p_levels p))) = set (names steps)"
proof -
  let ?ov = "override_deps (\<lambda>n. n \<in> set (names steps))"
  have nm: "names (map ?ov steps) = names steps" by (simp add: names_def override_deps_def)
  have ok: "distinct (names spec)" "acyclic (dep_rel spec)" using build_dag_ok_iff assms(1) by blast+
  have "distinct (names (map ?ov steps))"
    unfolding nm using ok(1) subseq_map [OF assms(2), of st_name] by (metis names_def subseq_distinct)
  moreover have "\<forall>s \<in> set (map ?ov steps). set (st_deps s) \<subseteq> set (names (map ?ov steps))"
    unfolding nm by (auto simp: override_deps_def)
  moreover have "dep_rel (map ?ov steps) \<subseteq> dep_rel spec"
    using subseq_set [OF assms(2)] by (fastforce simp: dep_rel_def override_deps_def)
  with ok(2) have "acyclic (dep_rel (map ?ov steps))" by (rule acyclic_subset)
  ultimately obtain l where l: "build_dag (map ?ov steps) = Some (Ok l)"
    using build_dag_ok_iff by blast
  have "mset (concat l) = mset (map ?ov steps)" using build_dag_layout [OF l] by simp
  then have "set (names (concat l)) = set (names (map ?ov steps))"
    by (metis mset_map names_def set_mset_mset)
  with l nm show ?thesis by (auto simp: NewDestroyPipeline_def NewPipeline_def)
qed

subsection \<open>Termination\<close>

text \<open>
  Labels of the engine itself; a step persisting its state and the cancellation belong to
  the environment.
\<close>

fun engine_label :: "label \<Rightarrow> bool" where
  "engine_label Cancel = False"
| "engine_label (Go i (Write d)) = False"
| "engine_label _ = True"

fun phase_work :: "phase \<Rightarrow> nat" where
  "phase_work Ready = 5"
| "phase_work Announced = 4"
| "phase_work InCall = 3"
| "phase_work (Back r) = 2"
| "phase_work (Recording e) = 1"
| "phase_work Finished = 0"

definition work :: "engine \<Rightarrow> nat" where
  "work p = (\<Sum>l \<leftarrow> e_todo p. 2 + 6 * length l)
     + (case e_gos p of None \<Rightarrow> 0 | Some gs \<Rightarrow> 1 + (\<Sum>g \<leftarrow> gs. phase_work (snd g)))
     + (if e_result p = None then 1 else 0)"

lemma go_move_work:
  assumes "go_move c s ph m = Some (ph', evs)"
  shows "if engine_label (Go i m) then phase_work ph' < phase_work ph else ph' = ph"
  using assms by (auto elim!: go_moveE split: if_splits)

lemma sum_update:
  assumes "i < length gs"
  shows "(\<Sum>g \<leftarrow> gs[i := (s, ph')]. phase_work (snd g)) + phase_work (snd (gs ! i))
       = (\<Sum>g \<leftarrow> gs. phase_work (snd g)) + phase_work ph'"
  using assms by (induction gs arbitrary: i) (auto split: nat.splits)

lemma estep_work:
  assumes "estep c p l p'"
  shows "if engine_label l then work p' < work p else work p' = work p"
  using assms
proof cases
  case (go gs i s ph m ph' evs)
  with go_move_work [of c s ph m ph' evs i] sum_update [of i gs s ph'] show ?thesis
    by (auto simp: work_def split: if_splits)
qed (auto simp: work_def comp_def sum_list_triv)

lemma fires_work:
  "fires c p ls = Some p' \<Longrightarrow> work p' + length (filter engine_label ls) \<le> work p"
proof (induction ls arbitrary: p)
  case (Cons l ls)
  then obtain q where q: "fire c p l = Some q" "fires c q ls = Some p'" by (auto split: option.splits)
  then have "if engine_label l then work q < work p else work q = work p"
    using estep_work estep_fire by blast
  with Cons.IH [OF q(2)] show ?case by (auto split: if_splits)
qed simp

lemma start_work: "work (start_engine m lev) = 2 * length lev + 6 * length (concat lev) + 1"
proof -
  have "(\<Sum>l \<leftarrow> lev. 2 + 6 * length l) = 2 * length lev + 6 * length (concat lev)"
    for lev :: "step list list"
    by (induction lev) auto
  from this [of lev] this [of "rev lev"] show ?thesis
    by (cases m) (simp_all add: work_def start_engine_def length_concat rev_map sum_list_rev
        flip: rev_map)
qed

lemma engine_not_stuck:
  assumes "e_result p = None"
  shows "\<exists>l. engine_label l \<and> fire c p l \<noteq> None"
proof (cases "e_gos p")
  case None
  with assms have "fire c p Boundary \<noteq> None" by (simp split: list.splits)
  then show ?thesis by (metis engine_label.simps(3))
next
  case (Some gs)
  show ?thesis
  proof (cases "list_all (\<lambda>g. snd g = Finished) gs")
    case True
    with assms Some have "fire c p Join \<noteq> None" by simp
    then show ?thesis by (metis engine_label.simps(4))
  next
    case False
    then obtain i where i: "i < length gs" "snd (gs ! i) \<noteq> Finished"
      by (auto simp: list_all_length)
    have move: "\<exists>m r. engine_label (Go i m) \<and> go_move c s ph m = Some r" if "ph \<noteq> Finished" for s ph
    proof (cases ph)
      case Ready
      then show ?thesis by (intro exI [of _ Announce]) auto
    next
      case Announced
      then show ?thesis by (intro exI [of _ Enter]) auto
    next
      case InCall
      then show ?thesis by (intro exI [of _ "Return None"]) auto
    next
      case (Back r)
      then show ?thesis by (intro exI [of _ Report]) (cases r; auto)
    next
      case (Recording e)
      then show ?thesis by (intro exI [of _ Record]) auto
    qed (use that in simp)
    from move [OF i(2)] obtain m r where
      "engine_label (Go i m)" "go_move c (fst (gs ! i)) (snd (gs ! i)) m = Some r" by blast
    with assms Some i(1) have "fire c p (Go i m) \<noteq> None" by simp
    with \<open>engine_label (Go i m)\<close> show ?thesis by blast
  qed
qed

text \<open>
  C5: provided that the calls of the steps return, Execute and Destroy return: under every
  schedule the engine makes at most two moves per level, six per step and one more, and as
  long as the method has not returned one of its moves is possible.
\<close>

theorem engine_terminates:
  assumes "run_schedule c lev ls = Some p"
  shows "length (filter engine_label ls) \<le> 2 * length lev + 6 * length (concat lev) + 1 \<and>
     (e_result p = None \<longrightarrow> (\<exists>l. engine_label l \<and> fire c p l \<noteq> None))"
proof
  have "work p + length (filter engine_label ls) \<le> work (start_engine (c_mode c) lev)"
    using fires_work assms unfolding run_schedule_def .
  then show "length (filter engine_label ls) \<le> 2 * length lev + 6 * length (concat lev) + 1"
    by (simp add: start_work)
  show "e_result p = None \<longrightarrow> (\<exists>l. engine_label l \<and> fire c p l \<noteq> None)"
    using engine_not_stuck by blast
qed

subsection \<open>Concrete runs\<close>

definition demo_levels :: "step list list" where
  "demo_levels = [[demo_steps ! 1], [demo_steps ! 2], [demo_steps ! 0]]"

definition demo_cfg :: "mode \<Rightarrow> config" where
  "demo_cfg m = \<lparr>c_mode = m, c_saved = saved_by_step [], c_writer = True\<rparr>"

definition one_step :: "string option \<Rightarrow> label list" where
  "one_step r = [Boundary, Go 0 Announce, Go 0 Enter, Go 0 (Return r), Go 0 Report]"

lemma demo_levels_run: "build_dag demo_steps = Some (Ok demo_levels)"
  unfolding demo_levels_def by (rule demo_run)

lemmas run_simps = run_schedule_def start_engine_def demo_levels_def demo_steps_def NewStepFunc_def
  demo_cfg_def one_step_def record_err_def outcome_of_def

text \<open>The network and the image are applied, then the machine's Apply is entered.\<close>

definition mid_schedule :: "label list" where
  "mid_schedule = one_step None @ [Join] @ one_step None @ [Join, Boundary, Go 0 Announce, Go 0 Enter]"

definition mid_log :: "event list" where
  "mid_log = [Progress ''net'' ''running'' ''starting'', Called ''net'' (saved_by_step [] ''net''),
     Returned ''net'' None, Progress ''net'' ''complete'' ''done'',
     Progress ''img'' ''running'' ''starting'', Called ''img'' (saved_by_step [] ''img''),
     Returned ''img'' None, Progress ''img'' ''complete'' ''done'',
     Progress ''web'' ''running'' ''starting'']"

definition mid_state :: engine where
  "mid_state = \<lparr>e_todo = [], e_gos = Some [(demo_steps ! 0, InCall)], e_err = None,
     e_cancelled = False, e_result = None,
     e_log = mid_log @ Called ''web'' (saved_by_step [] ''web'') # []\<rparr>"

lemma mid_run: "run_schedule (demo_cfg Executing) demo_levels mid_schedule = Some mid_state"
  by (simp add: run_simps mid_schedule_def mid_state_def mid_log_def)

theorem execute_respects_dependencies_witness:
  "Returned ''net'' None \<in> set mid_log \<and> Returned ''img'' None \<in> set mid_log"
  using execute_respects_dependencies [OF demo_levels_run _ reach_schedule [OF mid_run],
      of mid_log "demo_steps ! 0" "saved_by_step [] ''web''" "[]"]
  by (simp add: mid_state_def demo_cfg_def demo_steps_def NewStepFunc_def)

text \<open>The network fails, and the run ends with its error.\<close>

definition fail_state :: engine where
  "fail_state = \<lparr>e_todo = [[demo_steps ! 2], [demo_steps ! 0]],
     e_gos = Some [(demo_steps ! 1, Finished)], e_err = Some (''net'', ''no bridge''),
     e_cancelled = False, e_result = Some (Failed ''net'' ''no bridge''),
     e_log = [Progress ''net'' ''running'' ''starting'', Called ''net'' (saved_by_step [] ''net''),
       Returned ''net'' (Some ''no bridge''), Progress ''net'' ''failed'' ''no bridge'']\<rparr>"

lemma fail_run:
  "run_schedule (demo_cfg Executing) demo_levels
     (one_step (Some ''no bridge'') @ [Go 0 Record, Join]) = Some fail_state"
  by (simp add: run_simps fail_state_def)

theorem execute_outcome_witness: "calls (e_log fail_state) ''web'' = 0"
proof -
  have "(''net'', ''web'') \<in> (dep_rel demo_steps)\<^sup>+"
    by (rule r_into_trancl) (simp add: dep_rel_def demo_steps_def NewStepFunc_def
        conj_disj_distribL conj_disj_distribR ex_disj_distrib)
  then show ?thesis
    using execute_outcome [OF demo_levels_run _ reach_schedule [OF fail_run], THEN conjunct2]
    by (simp add: demo_cfg_def fail_state_def)
qed

theorem engine_terminates_witness: "length (filter engine_label mid_schedule) \<le> 25"
  using engine_terminates [OF mid_run] by (simp add: demo_levels_def)

text \<open>Destroy of the same graph, stopped inside the first call.\<close>

definition down_state :: engine where
  "down_state = \<lparr>e_todo = [[demo_steps ! 1]], e_gos = Some [(demo_steps ! 2, InCall)],
     e_err = Some (''web'', ''busy''), e_cancelled = False, e_result = None,
     e_log = [Progress ''web'' ''running'' ''destroying'', Called ''web'' (saved_by_step [] ''web''),
       Returned ''web'' (Some ''busy''), Progress ''web'' ''failed'' ''busy'',
       Progress ''img'' ''running'' ''destroying''] @ Called ''img'' (saved_by_step [] ''img'') # []\<rparr>"

lemma down_run:
  "run_schedule (demo_cfg Destroying) demo_levels
     (one_step (Some ''busy'') @ [Go 0 Record, Join, Boundary, Go 0 Announce, Go 0 Enter])
   = Some down_state"
  by (simp add: run_simps down_state_def)

theorem destroy_reverse_order_witness:
  "\<exists>r. Returned ''web'' r \<in> set (butlast (e_log down_state))"
  using destroy_reverse_order [OF demo_levels_run _ reach_schedule [OF down_run]]
  by (force simp: demo_cfg_def down_state_def demo_steps_def NewStepFunc_def)

theorem destroy_pipeline_builds_witness:
  "\<exists>p. NewDestroyPipeline [demo_steps ! 0, demo_steps ! 1] (\<lambda>n. n \<in> {''web'', ''net''}) = Some (Ok p)"
  using destroy_pipeline_builds [OF demo_levels_run, of "[demo_steps ! 0, demo_steps ! 1]"]
  by (auto simp: demo_steps_def NewStepFunc_def names_def)

end
