(* ===== verification/GoStrings.thy ===== *)
theory GoStrings
  imports Prelude "HOL-Library.Char_ord" "HOL-Library.List_Lexorder"
begin

text \<open>
  The functions of Go's \<open>strings\<close>, \<open>strconv\<close> and \<open>sort\<close> packages that the modelled code
  calls, on strings as lists of bytes, with the facts the component theories use.
\<close>

subsection \<open>Prefixes, suffixes, splitting\<close>

definition HasPrefix :: "string \<Rightarrow> string \<Rightarrow> bool" where
  "HasPrefix s p \<longleftrightarrow> take (length p) s = p"

definition HasSuffix :: "string \<Rightarrow> string \<Rightarrow> bool" where
  "HasSuffix s p \<longleftrightarrow> HasPrefix (rev s) (rev p)"

definition TrimPrefix :: "string \<Rightarrow> string \<Rightarrow> string" where
  "TrimPrefix s p = (if HasPrefix s p then drop (length p) s else s)"

definition TrimSuffix :: "string \<Rightarrow> string \<Rightarrow> string" where
  "TrimSuffix s p = (if HasSuffix s p then take (length s - length p) s else s)"

fun Index :: "string \<Rightarrow> string \<Rightarrow> nat option" where
  "Index [] p = (if p = [] then Some 0 else None)"
| "Index (c # s) p = (if HasPrefix (c # s) p then Some 0 else map_option Suc (Index s p))"

definition Contains :: "string \<Rightarrow> string \<Rightarrow> bool" where
  "Contains s p \<longleftrightarrow> Index s p \<noteq> None"

fun LastIndex :: "string \<Rightarrow> string \<Rightarrow> nat option" where
  "LastIndex [] p = (if p = [] then Some 0 else None)"
| "LastIndex (c # s) p =
     (case LastIndex s p of Some i \<Rightarrow> Some (Suc i) | None \<Rightarrow> if HasPrefix (c # s) p then Some 0 else None)"

text \<open>\<open>strings.Cut\<close> at a one-byte separator.\<close>

fun Cut :: "string \<Rightarrow> char \<Rightarrow> string \<times> string \<times> bool" where
  "Cut [] c = ([], [], False)"
| "Cut (d # s) c = (if d = c then ([], s, True) else (case Cut s c of (b, a, f) \<Rightarrow> (d # b, a, f)))"

text \<open>\<open>strings.Split\<close> at a one-byte separator.\<close>

fun Split :: "string \<Rightarrow> char \<Rightarrow> string list" where
  "Split [] c = [[]]"
| "Split (d # s) c =
     (if d = c then [] # Split s c
      else case Split s c of [] \<Rightarrow> [[d]] | w # ws \<Rightarrow> (d # w) # ws)"

fun Join :: "string list \<Rightarrow> string \<Rightarrow> string" where
  "Join [] sep = []"
| "Join [w] sep = w"
| "Join (w # ws) sep = w @ sep @ Join ws sep"

lemma Split_not_Nil [simp]: "Split s c \<noteq> []"
  by (induction s) (auto split: list.splits)

lemma Split_no_sep: "c \<notin> set s \<Longrightarrow> Split s c = [s]"
  by (induction s) auto

lemma Split_append: "c \<notin> set w \<Longrightarrow> Split (w @ c # s) c = w # Split s c"
  by (induction w) auto

lemma Split_Join [go_simps]:
  "ws \<noteq> [] \<Longrightarrow> (\<forall>w \<in> set ws. c \<notin> set w) \<Longrightarrow> Split (Join ws [c]) c = ws"
  by (induction ws "[c]" rule: Join.induct) (simp_all add: Split_no_sep Split_append)

lemma Split_set: "w \<in> set (Split s c) \<Longrightarrow> set w \<subseteq> set s - {c}"
proof (induction s arbitrary: w)
  case (Cons d s)
  obtain v vs where v: "Split s c = v # vs" by (cases "Split s c") auto
  have "x \<in> set (Split s c) \<Longrightarrow> set x \<subseteq> set s - {c}" for x using Cons.IH .
  with v have "set v \<subseteq> set s - {c}" "\<And>x. x \<in> set vs \<Longrightarrow> set x \<subseteq> set s - {c}" by auto
  with v Cons.prems show ?case by (auto split: if_splits)
qed simp

lemma Join_Split [go_simps]: "Join (Split s c) [c] = s"
proof (induction s)
  case (Cons d s)
  obtain v vs where v: "Split s c = v # vs" by (cases "Split s c") auto
  with Cons show ?case by (cases vs) auto
qed simp

lemma Cut_before: "fst (Cut s c) = takeWhile (\<lambda>d. d \<noteq> c) s"
  by (induction s) (auto split: prod.splits)

lemma Cut_no_sep: "c \<notin> set (fst (Cut s c))"
  by (auto simp: Cut_before dest: set_takeWhileD)

lemma Cut_after_set: "set (fst (snd (Cut s c))) \<subseteq> set s"
  by (induction s) (auto split: prod.splits)

subsection \<open>White space\<close>

text \<open>The UTF-8 encodings of the code points for which \<open>unicode.IsSpace\<close> holds.\<close>

definition spaces :: "string list" where
  "spaces =
     [[CHR 0x09], [CHR 0x0A], [CHR 0x0B], [CHR 0x0C], [CHR 0x0D], [CHR 0x20],
      [CHR 0xC2, CHR 0x85], [CHR 0xC2, CHR 0xA0], [CHR 0xE1, CHR 0x9A, CHR 0x80]]
     @ map (\<lambda>n. [CHR 0xE2, CHR 0x80, char_of (n :: nat)]) ([0x80 ..< 0x8B] @ [0xA8, 0xA9, 0xAF])
     @ [[CHR 0xE2, CHR 0x81, CHR 0x9F], [CHR 0xE3, CHR 0x80, CHR 0x80]]"

function trim_left :: "string list \<Rightarrow> string \<Rightarrow> string" where
  "trim_left sp s =
     (case find_first (\<lambda>p. p \<noteq> [] \<and> s \<noteq> [] \<and> HasPrefix s p) sp of
        None \<Rightarrow> s | Some p \<Rightarrow> trim_left sp (drop (length p) s))"
  by pat_completeness auto
termination
  by (relation "measure (\<lambda>(sp, s). length s)") (auto dest: find_first_Some)

declare trim_left.simps [simp del]

definition TrimSpace :: "string \<Rightarrow> string" where
  "TrimSpace s = rev (trim_left (map rev spaces) (rev (trim_left spaces s)))"

subsection \<open>Decimal numbers\<close>

definition to_lower :: "char \<Rightarrow> char" where
  "to_lower c = (if CHR ''A'' \<le> c \<and> c \<le> CHR ''Z'' then char_of (of_char c + 32 :: nat) else c)"

definition is_digit :: "char \<Rightarrow> bool" where
  "is_digit c \<longleftrightarrow> 48 \<le> (of_char c :: nat) \<and> (of_char c :: nat) \<le> 57"

definition digit_val :: "char \<Rightarrow> int" where
  "digit_val c = int (of_char c) - 48"

datatype num_error = ErrSyntax | ErrRange

definition max_uint64 :: int where "max_uint64 = 18446744073709551615"

text \<open>The digit loop of \<open>ParseUint\<close>: an overflow is reported before a later bad byte is seen.\<close>

fun parse_uint :: "int \<Rightarrow> string \<Rightarrow> num_error + int" where
  "parse_uint n [] = Inr n"
| "parse_uint n (c # s) =
     (if \<not> is_digit c then Inl ErrSyntax
      else if 10 * n + digit_val c > max_uint64 then Inl ErrRange
      else parse_uint (10 * n + digit_val c) s)"

text \<open>\<open>strconv.Atoi\<close>: the value, clamped on a range error and 0 on a syntax error, and the error.\<close>

definition Atoi :: "string \<Rightarrow> int \<times> num_error option" where
  "Atoi s =
     (let neg = (s \<noteq> [] \<and> hd s = CHR ''-'');
          ds = (if s \<noteq> [] \<and> hd s \<in> {CHR ''-'', CHR ''+''} then tl s else s)
      in if ds = [] then (0, Some ErrSyntax)
         else case parse_uint 0 ds of
           Inl ErrSyntax \<Rightarrow> (0, Some ErrSyntax)
         | Inl ErrRange \<Rightarrow> (if neg then min_int64 else max_int64, Some ErrRange)
         | Inr un \<Rightarrow>
             if \<not> neg \<and> un > max_int64 then (max_int64, Some ErrRange)
             else if neg \<and> un > - min_int64 then (min_int64, Some ErrRange)
             else (if neg then - un else un, None))"

definition digit_char :: "nat \<Rightarrow> char" where
  "digit_char d = char_of (48 + d)"

fun utoa :: "nat \<Rightarrow> string" where
  "utoa n = (if n < 10 then [digit_char n] else utoa (n div 10) @ [digit_char (n mod 10)])"

declare utoa.simps [simp del]

definition Itoa :: "int \<Rightarrow> string" where
  "Itoa n = (if n < 0 then CHR ''-'' # utoa (nat (- n)) else utoa (nat n))"

lemma digit_char: "d < 10 \<Longrightarrow> is_digit (digit_char d) \<and> digit_val (digit_char d) = int d"
  by (simp add: digit_char_def is_digit_def digit_val_def)

lemma utoa_not_Nil [simp]: "utoa n \<noteq> []"
  by (subst utoa.simps) simp

lemma utoa_digits: "c \<in> set (utoa n) \<Longrightarrow> is_digit c"
proof (induction n rule: utoa.induct)
  case (1 n)
  show ?case
  proof (cases "n < 10")
    case True
    then have "utoa n = [digit_char n]" by (subst utoa.simps) simp
    with "1.prems" True digit_char show ?thesis by simp
  next
    case False
    then have "utoa n = utoa (n div 10) @ [digit_char (n mod 10)]" by (subst utoa.simps) simp
    with "1.prems" "1.IH" [OF False] digit_char [of "n mod 10"] show ?thesis by auto
  qed
qed

lemma digit_val_nonneg: "is_digit c \<Longrightarrow> 0 \<le> digit_val c"
proof -
  assume "is_digit c"
  then show ?thesis by (simp add: is_digit_def digit_val_def)
qed

lemma parse_uint_append:
  "parse_uint n (s @ t) = (case parse_uint n s of Inl e \<Rightarrow> Inl e | Inr m \<Rightarrow> parse_uint m t)"
  by (induction s arbitrary: n) auto

lemma parse_uint_utoa: "int n \<le> max_uint64 \<Longrightarrow> parse_uint 0 (utoa n) = Inr (int n)"
proof (induction n rule: utoa.induct)
  case (1 n)
  show ?case
  proof (cases "n < 10")
    case True
    then have "utoa n = [digit_char n]" by (subst utoa.simps) simp
    with 1 True show ?thesis by (simp add: digit_char)
  next
    case False
    with 1 have "parse_uint 0 (utoa (n div 10)) = Inr (int (n div 10))"
      by (simp add: zdiv_int)
    moreover have "10 * int (n div 10) + int (n mod 10) = int n"
      by (metis mult_div_mod_eq of_nat_add of_nat_mult of_nat_numeral)
    ultimately show ?thesis
      using False 1(2) digit_char [of "n mod 10"]
      by (subst utoa.simps) (simp add: parse_uint_append)
  qed
qed

lemma parse_uint_bounds: "parse_uint n s = Inr m \<Longrightarrow> 0 \<le> n \<Longrightarrow> n \<le> max_uint64 \<Longrightarrow> 0 \<le> m \<and> m \<le> max_uint64"
proof (induction s arbitrary: n)
  case (Cons c s)
  then show ?case using digit_val_nonneg [of c] by (auto split: if_splits)
qed simp

lemma is_digit_not_sign: "is_digit c \<Longrightarrow> c \<noteq> CHR ''-'' \<and> c \<noteq> CHR ''+'' \<and> c \<noteq> CHR ''.''"
  by (auto simp: is_digit_def)

lemma Atoi_utoa: "int n \<le> max_int64 \<Longrightarrow> Atoi (utoa n) = (int n, None)"
proof -
  assume n: "int n \<le> max_int64"
  have "hd (utoa n) \<in> set (utoa n)" by simp
  then have "hd (utoa n) \<notin> {CHR ''-'', CHR ''+''}"
    using utoa_digits is_digit_not_sign by blast
  moreover have "parse_uint 0 (utoa n) = Inr (int n)"
    using n by (intro parse_uint_utoa) (simp add: max_int64_def max_uint64_def)
  ultimately show ?thesis using n by (simp add: Atoi_def Let_def)
qed

lemma Atoi_Itoa [go_simps]: "0 \<le> n \<Longrightarrow> n \<le> max_int64 \<Longrightarrow> Atoi (Itoa n) = (n, None)"
  using Atoi_utoa [of "nat n"] by (simp add: Itoa_def)

lemma Itoa_digits: "0 \<le> n \<Longrightarrow> c \<in> set (Itoa n) \<Longrightarrow> is_digit c"
  by (auto simp: Itoa_def dest: utoa_digits)

lemma Atoi_in_int64: "in_int64 (fst (Atoi s))"
proof -
  have "0 \<le> un" if "parse_uint 0 ds = Inr un" for ds un
    using parse_uint_bounds [OF that] by (simp add: max_uint64_def)
  then show ?thesis
    by (auto simp: Atoi_def Let_def in_int64_def min_int64_def max_int64_def
        split: sum.splits num_error.splits if_splits)
      (fastforce+)?
qed

lemma Atoi_nonneg: "CHR ''-'' \<notin> set s \<Longrightarrow> 0 \<le> fst (Atoi s)"
proof -
  assume s: "CHR ''-'' \<notin> set s"
  then have "\<not> (s \<noteq> [] \<and> hd s = CHR ''-'')" by (metis hd_in_set)
  moreover have "0 \<le> un" if "parse_uint 0 ds = Inr un" for ds un
    using parse_uint_bounds [OF that] by (simp add: max_uint64_def)
  ultimately show ?thesis
    by (auto simp: Atoi_def Let_def max_int64_def split: sum.splits num_error.splits)
qed

subsection \<open>Fields\<close>

text \<open>\<open>strings.FieldsSeq\<close>: the white space at the head of a text, and the words between.\<close>

definition space_at :: "string \<Rightarrow> string option" where
  "space_at s = find_first (\<lambda>p. HasPrefix s p) spaces"

lemma no_empty_space: "[] \<notin> set spaces"
  by (auto simp: spaces_def)

lemma space_at_Some: "space_at s = Some p \<Longrightarrow> p \<noteq> [] \<and> p \<in> set spaces \<and> HasPrefix s p"
  using no_empty_space by (auto simp: space_at_def dest!: find_first_Some)

definition word_of :: "string \<Rightarrow> string list" where
  "word_of acc = (if acc = [] then [] else [rev acc])"

function fields_from :: "string \<Rightarrow> string \<Rightarrow> string list" where
  "fields_from acc [] = word_of acc"
| "fields_from acc (c # s) = (case space_at (c # s) of
     None \<Rightarrow> fields_from (c # acc) s
   | Some p \<Rightarrow> word_of acc @ fields_from [] (drop (length p) (c # s)))"
  by pat_completeness auto
termination
  by (relation "measure (\<lambda>(acc, s). length s)") (auto dest: space_at_Some)

definition Fields :: "string \<Rightarrow> string list" where
  "Fields s = fields_from [] s"

subsection \<open>Words\<close>

fun clean :: "string \<Rightarrow> bool" where
  "clean [] = True"
| "clean (c # s) \<longleftrightarrow> space_at (c # s) = None \<and> clean s"

lemma clean_drop: "clean w \<longleftrightarrow> (\<forall>i < length w. space_at (drop i w) = None)"
  by (induction w) (simp_all add: All_less_Suc2)

lemma HasPrefix_append: "HasPrefix x p \<Longrightarrow> HasPrefix (x @ y) p"
  unfolding HasPrefix_def take_append by (metis append_Nil2 diff_is_0_eq length_take min.cobounded1 take0)

lemma space_at_mono: "space_at (x @ y) = None \<Longrightarrow> space_at x = None"
  using HasPrefix_append by (auto simp: space_at_def find_first_None)

lemma blank_not_inside: "p \<in> set spaces \<Longrightarrow> CHR 0x20 \<notin> set (tl p)"
proof -
  have "list_all (\<lambda>p. CHR 0x20 \<notin> set (tl p)) spaces" by code_simp
  then show "p \<in> set spaces \<Longrightarrow> ?thesis" by (auto simp: list_all_iff)
qed

lemma blank_space: "space_at (CHR 0x20 # s) = Some [CHR 0x20]"
  by (simp add: space_at_def spaces_def HasPrefix_def)

lemma space_before_blank:
  assumes "space_at (c # s) = None"
  shows "space_at ((c # s) @ CHR 0x20 # r) = None"
proof -
  have "\<not> HasPrefix ((c # s) @ CHR 0x20 # r) p" if p: "p \<in> set spaces" for p
  proof
    assume pre: "HasPrefix ((c # s) @ CHR 0x20 # r) p"
    show False
    proof (cases "length p \<le> length (c # s)")
      case True
      with pre have "HasPrefix (c # s) p" unfolding HasPrefix_def take_append by simp
      with assms p show False by (simp add: space_at_def find_first_None)
    next
      case False
      then have "length (c # s) < length p" by simp
      moreover from this pre have "p ! length (c # s) = CHR 0x20"
        unfolding HasPrefix_def by (metis nth_append_length nth_take)
      ultimately have "tl p ! length s = CHR 0x20" "length s < length (tl p)" by (simp_all add: nth_tl)
      with blank_not_inside [OF p] show False by (metis nth_mem)
    qed
  qed
  then show ?thesis by (simp add: space_at_def find_first_None)
qed

lemma fields_blank: "clean w \<Longrightarrow> fields_from acc (w @ CHR 0x20 # r) = word_of (rev w @ acc) @ fields_from [] r"
proof (induction w arbitrary: acc)
  case (Cons c w)
  then have "space_at (c # w @ CHR 0x20 # r) = None" using space_before_blank [of c w r] by simp
  with Cons show ?case by simp
qed (simp add: blank_space)

lemma fields_end: "clean w \<Longrightarrow> fields_from acc w = word_of (rev w @ acc)"
  by (induction w arbitrary: acc) simp_all

lemma Fields_Join: "(\<forall>w \<in> set ws. clean w \<and> w \<noteq> []) \<Longrightarrow> Fields (Join ws '' '') = ws"
  unfolding Fields_def
  by (induction ws "'' ''" rule: Join.induct) (simp_all add: fields_end fields_blank, simp_all add: word_of_def)

lemma fields_clean:
  "(\<forall>i < length acc. space_at (drop i (rev acc @ s)) = None) \<Longrightarrow> w \<in> set (fields_from acc s) \<Longrightarrow> clean w \<and> w \<noteq> []"
proof (induction acc s arbitrary: w rule: fields_from.induct)
  case (1 acc)
  then show ?case by (auto simp: word_of_def clean_drop split: if_splits)
next
  case (2 acc c s)
  have here: "clean (rev acc)"
    using "2.prems"(1) space_at_mono [where y = "c # s"] by (auto simp: clean_drop)
  show ?case
  proof (cases "space_at (c # s)")
    case None
    have "\<forall>i < length (c # acc). space_at (drop i (rev (c # acc) @ s)) = None"
      using "2.prems"(1) None by (auto simp: less_Suc_eq)
    with None "2.IH"(1) "2.prems"(2) show ?thesis by simp
  next
    case (Some p)
    with "2.prems"(2) consider "w \<in> set (word_of acc)" | "w \<in> set (fields_from [] (drop (length p) (c # s)))" by auto
    then show ?thesis
    proof cases
      case 1
      with here show ?thesis by (auto simp: word_of_def split: if_splits)
    next
      case 2
      with "2.IH"(2) [OF Some] show ?thesis by simp
    qed
  qed
qed

lemma Fields_clean: "w \<in> set (Fields s) \<Longrightarrow> clean w \<and> w \<noteq> []"
  using fields_clean [of "[]" s w] by (simp add: Fields_def)

text \<open>A text that trimming empties has no words, so the check before parsing changes nothing.\<close>

lemma trim_left_eq:
  "trim_left sp s = (case find_first (\<lambda>p. p \<noteq> [] \<and> s \<noteq> [] \<and> HasPrefix s p) sp of
     None \<Rightarrow> s | Some p \<Rightarrow> trim_left sp (drop (length p) s))"
  by (subst trim_left.simps) (rule refl)

lemma prefix_drop: "HasPrefix s p \<Longrightarrow> s = p @ drop (length p) s"
  unfolding HasPrefix_def by (metis append_take_drop_id)

lemma trim_left_Nil: "trim_left sp s = [] \<Longrightarrow> \<exists>ps. set ps \<subseteq> set sp - {[]} \<and> s = concat ps"
proof (induction sp s rule: trim_left.induct)
  case (1 sp s)
  show ?case
  proof (cases "find_first (\<lambda>p. p \<noteq> [] \<and> s \<noteq> [] \<and> HasPrefix s p) sp")
    case None
    with "1.prems" have "s = []" by (subst (asm) trim_left_eq) simp
    then show ?thesis by (intro exI [of _ "[]"]) simp
  next
    case (Some p)
    from find_first_Some [OF Some] have p: "p \<in> set sp" "p \<noteq> []" "HasPrefix s p" by auto
    from "1.prems" Some have "trim_left sp (drop (length p) s) = []" by (subst (asm) trim_left_eq) simp
    from "1.IH" [OF Some this] obtain ps where "set ps \<subseteq> set sp - {[]}" "drop (length p) s = concat ps" by blast
    with p prefix_drop [OF p(3)] show ?thesis by (intro exI [of _ "p # ps"]) auto
  qed
qed

lemma trim_left_stops: "trim_left spaces s = t \<Longrightarrow> t = [] \<or> space_at t = None"
proof (induction s rule: measure_induct_rule [of length])
  case (less s)
  show ?case
  proof (cases "find_first (\<lambda>p. p \<noteq> [] \<and> s \<noteq> [] \<and> HasPrefix s p) spaces")
    case None
    with less.prems have "t = s" by (subst (asm) trim_left_eq) simp
    with None no_empty_space show ?thesis by (auto simp: space_at_def find_first_None)
  next
    case (Some p)
    with less.prems have "trim_left spaces (drop (length p) s) = t" by (subst (asm) trim_left_eq) simp
    with less.IH [of "drop (length p) s"] find_first_Some [OF Some] show ?thesis by simp
  qed
qed

lemma space_at_concat: "set ps \<subseteq> set spaces \<Longrightarrow> ps \<noteq> [] \<Longrightarrow> space_at (concat ps) \<noteq> None"
proof (cases ps)
  case (Cons p qs)
  moreover assume "set ps \<subseteq> set spaces"
  ultimately show ?thesis by (auto simp: space_at_def find_first_None HasPrefix_def intro!: bexI [of _ p])
qed simp

lemma TrimSpace_Nil: "TrimSpace s = [] \<Longrightarrow> trim_left spaces s = []"
proof (rule ccontr)
  let ?t = "trim_left spaces s"
  assume trim: "TrimSpace s = []" and t: "?t \<noteq> []"
  from trim have "trim_left (map rev spaces) (rev ?t) = []" by (simp add: TrimSpace_def)
  from trim_left_Nil [OF this] obtain ps where ps: "set ps \<subseteq> rev ` set spaces" "rev ?t = concat ps" by auto
  from arg_cong [OF this(2), of rev] have "?t = rev (concat ps)" by (simp only: rev_rev_ident)
  then have eq: "?t = concat (rev (map rev ps))" by (simp only: rev_concat rev_map)
  have "space_at (concat (rev (map rev ps))) \<noteq> None"
    by (rule space_at_concat) (use t ps in auto)
  then have "space_at ?t \<noteq> None" by (simp only: eq [symmetric] not_False_eq_True)
  moreover have "?t = [] \<or> space_at ?t = None" by (rule trim_left_stops [OF refl])
  ultimately show False using t by (simp only: simp_thms)
qed

lemma fields_trimmed: "trim_left spaces s = [] \<Longrightarrow> fields_from [] s = []"
proof (induction s rule: measure_induct_rule [of length])
  case (less s)
  show ?case
  proof (cases s)
    case Nil
    then show ?thesis by (simp add: word_of_def)
  next
    case (Cons c r)
    with no_empty_space have same: "find_first (\<lambda>p. p \<noteq> [] \<and> s \<noteq> [] \<and> HasPrefix s p) spaces = space_at s"
      unfolding space_at_def by (intro find_first_cong) auto
    show ?thesis
    proof (cases "space_at s")
      case None
      with less.prems same Cons show ?thesis by (subst (asm) trim_left_eq) simp
    next
      case (Some p)
      with less.prems same have "trim_left spaces (drop (length p) s) = []" by (subst (asm) trim_left_eq) simp
      with less.IH [of "drop (length p) s"] space_at_Some [OF Some] Cons have "fields_from [] (drop (length p) s) = []" by simp
      with Cons Some show ?thesis by (simp add: word_of_def)
    qed
  qed
qed

end
