(* ===== verification/Sorting.thy ===== *)
theory Sorting
  imports Prelude
begin

text \<open>
  The stable sort of \<open>sort.SliceStable\<close> under a caller's less function, with its contract as
  a locale: for a strict weak order the result is the sorted permutation of the input that
  keeps equivalent elements in their order.
\<close>

fun insert_by :: "('a \<Rightarrow> 'a \<Rightarrow> bool) \<Rightarrow> 'a \<Rightarrow> 'a list \<Rightarrow> 'a list" where
  "insert_by lt x [] = [x]"
| "insert_by lt x (y # ys) = (if lt y x then y # insert_by lt x ys else x # y # ys)"

fun sort_by :: "('a \<Rightarrow> 'a \<Rightarrow> bool) \<Rightarrow> 'a list \<Rightarrow> 'a list" where
  "sort_by lt [] = []"
| "sort_by lt (x # xs) = insert_by lt x (sort_by lt xs)"

lemma mset_insert_by: "mset (insert_by lt x xs) = add_mset x (mset xs)"
  by (induction xs) auto

lemma mset_sort_by: "mset (sort_by lt xs) = mset xs"
  by (induction xs) (auto simp: mset_insert_by)

lemma set_sort_by [simp]: "set (sort_by lt xs) = set xs"
  by (metis mset_sort_by set_mset_mset)

lemma sort_by_Nil [simp]: "sort_by lt xs = [] \<longleftrightarrow> xs = []"
  by (metis mset_sort_by mset_zero_iff)

locale weak_order =
  fixes lt :: "'a \<Rightarrow> 'a \<Rightarrow> bool"
  assumes irrefl: "\<not> lt x x"
    and trans: "lt x y \<Longrightarrow> lt y z \<Longrightarrow> lt x z"
    and neg_trans: "lt x z \<Longrightarrow> lt x y \<or> lt y z"
begin

lemma set_insert_by: "set (insert_by lt x xs) = insert x (set xs)"
  by (metis mset_insert_by set_mset_add_mset_insert set_mset_mset)

lemma asym: "lt x y \<Longrightarrow> \<not> lt y x"
  using irrefl trans by blast

lemma sorted_insert: "sorted_wrt (\<lambda>x y. \<not> lt y x) xs \<Longrightarrow> sorted_wrt (\<lambda>x y. \<not> lt y x) (insert_by lt x xs)"
proof (induction xs)
  case (Cons y ys)
  show ?case
  proof (cases "lt y x")
    case True
    with Cons asym [OF True] show ?thesis by (auto simp: set_insert_by)
  next
    case False
    with Cons.prems neg_trans show ?thesis by auto
  qed
qed simp

theorem sorted_sort: "sorted_wrt (\<lambda>x y. \<not> lt y x) (sort_by lt xs)"
  by (induction xs) (auto intro: sorted_insert)

lemma stable_insert:
  "(\<And>z. P z \<Longrightarrow> P x \<Longrightarrow> \<not> lt z x \<and> \<not> lt x z) \<Longrightarrow>
     filter P (insert_by lt x xs) = (if P x then x # filter P xs else filter P xs)"
  by (induction xs) auto

text \<open>A class of equivalent elements keeps its order.\<close>

lemma stable_sort:
  assumes "\<And>x y. P x \<Longrightarrow> P y \<Longrightarrow> \<not> lt x y"
  shows "filter P (sort_by lt xs) = filter P xs"
  by (induction xs) (use assms in \<open>auto simp: stable_insert\<close>)

text \<open>The first hit of a search in the sorted list is minimal among all hits.\<close>

lemma find_first_least:
  assumes "find_first P (sort_by lt xs) = Some v"
  shows "v \<in> set xs \<and> P v \<and> (\<forall>w \<in> set xs. P w \<longrightarrow> \<not> lt w v)"
proof -
  have "find_first P ys = Some v \<Longrightarrow> sorted_wrt (\<lambda>x y. \<not> lt y x) ys \<Longrightarrow>
      \<forall>w \<in> set ys. P w \<longrightarrow> \<not> lt w v" for ys
    by (induction ys) (auto simp: irrefl split: if_splits)
  with assms sorted_sort have "\<forall>w \<in> set (sort_by lt xs). P w \<longrightarrow> \<not> lt w v" by blast
  moreover have "v \<in> set (sort_by lt xs)" "P v" using find_first_Some [OF assms] by auto
  ultimately show ?thesis by simp
qed

lemma hd_least:
  assumes "xs \<noteq> []"
  shows "hd (sort_by lt xs) \<in> set xs \<and> (\<forall>w \<in> set xs. \<not> lt w (hd (sort_by lt xs)))"
proof -
  from assms obtain y ys where y: "sort_by lt xs = y # ys"
    by (metis neq_Nil_conv sort_by_Nil)
  then have "find_first (\<lambda>_. True) (sort_by lt xs) = Some y" by simp
  from find_first_least [OF this] y show ?thesis by simp
qed

end

end
