(* ===== verification/Semver.thy ===== *)
theory Semver
  imports GoStrings Sorting "HOL-Library.Product_Lexorder"
begin

text \<open>
  Version strings (\<open>internal/lib/version/compare.go\<close>, \<open>resolver.go\<close>): the comparison used for
  updates and sorting, the resolution of a version specification against the versions that
  are available, and the minimum-version gate.
\<close>

subsection \<open>Compare\<close>

definition splitVersion :: "string \<Rightarrow> int list" where
  "splitVersion v = map (\<lambda>p. fst (Atoi p)) (Split v (CHR ''.''))"

definition tryParseInt :: "string \<Rightarrow> int option" where
  "tryParseInt s = (case Atoi s of (n, None) \<Rightarrow> Some n | (_, Some _) \<Rightarrow> None)"

definition knownPrefixes :: "string list" where
  "knownPrefixes = [''dev'', ''alpha'', ''beta'', ''rc'']"

fun split_known :: "string list \<Rightarrow> string \<Rightarrow> (string \<times> int) option" where
  "split_known [] s = None"
| "split_known (p # ps) s =
     (if s = p then Some (p, 0)
      else if HasPrefix s p
      then (case Atoi (TrimPrefix s p) of (n, None) \<Rightarrow> Some (p, n) | (_, Some _) \<Rightarrow> split_known ps s)
      else split_known ps s)"

definition splitKnownPrefix :: "string \<Rightarrow> (string \<times> int) option" where
  "splitKnownPrefix = split_known knownPrefixes"

fun rank_loop :: "int \<Rightarrow> int \<Rightarrow> string list \<Rightarrow> string \<Rightarrow> int" where
  "rank_loop i r [] a = r"
| "rank_loop i r (p # ps) a = rank_loop (i + 1) (if p = a then i else r) ps a"

definition prefix_rank :: "string \<Rightarrow> int" where
  "prefix_rank = rank_loop 0 0 knownPrefixes"

definition comparePrefix :: "string \<Rightarrow> string \<Rightarrow> int" where
  "comparePrefix a b = prefix_rank a - prefix_rank b"

definition isHex :: "string \<Rightarrow> bool" where
  "isHex s \<longleftrightarrow> s \<noteq> [] \<and>
     list_all (\<lambda>c. CHR ''0'' \<le> c \<and> c \<le> CHR ''9'' \<or> CHR ''a'' \<le> c \<and> c \<le> CHR ''f''
       \<or> CHR ''A'' \<le> c \<and> c \<le> CHR ''F'') s"

definition stripGitMeta :: "string \<Rightarrow> string" where
  "stripGitMeta pre =
     (let pre = TrimSuffix pre ''-dirty''
      in case LastIndex pre ''-g'' of
           Some i \<Rightarrow> if isHex (drop (i + 2) pre) then take i pre else pre
         | None \<Rightarrow> pre)"

fun comparePreReleaseParts :: "string list \<Rightarrow> string list \<Rightarrow> int" where
  "comparePreReleaseParts (a # as) (b # bs) =
     (case (tryParseInt a, tryParseInt b) of
        (Some x, Some y) \<Rightarrow> if x \<noteq> y then sub64 x y else comparePreReleaseParts as bs
      | (Some x, None) \<Rightarrow> -1
      | (None, Some y) \<Rightarrow> 1
      | (None, None) \<Rightarrow>
          (case (splitKnownPrefix a, splitKnownPrefix b) of
             (Some (p, n), Some (q, k)) \<Rightarrow>
               if p \<noteq> q then comparePrefix p q
               else if n \<noteq> k then sub64 n k else comparePreReleaseParts as bs
           | _ \<Rightarrow> if a \<noteq> b then (if a > b then 1 else -1) else comparePreReleaseParts as bs))"
| "comparePreReleaseParts as bs = int (length as) - int (length bs)"

text \<open>The loop over the release parts with the length comparison after it; it is 0 only on
  equal lists.\<close>

fun compare_parts :: "int list \<Rightarrow> int list \<Rightarrow> int" where
  "compare_parts (x # xs) (y # ys) = (if x \<noteq> y then sub64 x y else compare_parts xs ys)"
| "compare_parts xs ys = int (length xs) - int (length ys)"

definition Compare :: "string \<Rightarrow> string \<Rightarrow> int" where
  "Compare a b =
     (let (ar, apre, _) = Cut (TrimPrefix a ''v'') (CHR ''-'');
          (br, bpre, _) = Cut (TrimPrefix b ''v'') (CHR ''-'');
          r = compare_parts (splitVersion ar) (splitVersion br)
      in if r \<noteq> 0 then r
         else if apre = '''' \<and> bpre = '''' then 0
         else if apre = '''' then 1
         else if bpre = '''' then -1
         else if stripGitMeta apre = stripGitMeta bpre then 0
         else comparePreReleaseParts (Split (stripGitMeta apre) (CHR ''.''))
                (Split (stripGitMeta bpre) (CHR ''.'')))"

subsection \<open>The order behind Compare\<close>

definition cmp :: "'a::linorder \<Rightarrow> 'a \<Rightarrow> int" where
  "cmp x y = (if x < y then -1 else if x = y then 0 else 1)"

lemma cmp_self [simp]: "cmp x x = 0"
  by (simp add: cmp_def)

lemma cmp_pair: "cmp (a, b) (c, d) = (if a = c then cmp b d else cmp a c)"
  by (auto simp: cmp_def less_prod_def')

lemma cmp_Cons: "cmp (x # xs) (y # ys) = (if x = y then cmp xs ys else cmp x y)"
  by (auto simp: cmp_def)

lemma cmp_Nil [simp]:
  "cmp [] ys = (if ys = [] then 0 else -1)" "cmp xs [] = (if xs = [] then 0 else 1)"
  by (cases ys; simp add: cmp_def) (cases xs; simp add: cmp_def)

lemma sgn_sub64: "0 \<le> x \<Longrightarrow> 0 \<le> y \<Longrightarrow> in_int64 x \<Longrightarrow> in_int64 y \<Longrightarrow> sgn (sub64 x y) = cmp x y"
  by (simp add: sub64_nonneg_sgn cmp_def)

text \<open>
  The key of a version: its release numbers, then whether it is a release, then a rank for
  each segment of the pre-release tag. A tag is recognised when each of its segments is a
  number or one of the known prefixes with a number.
\<close>

definition release_of :: "string \<Rightarrow> string" where
  "release_of v = fst (Cut (TrimPrefix v ''v'') (CHR ''-''))"

definition pre_of :: "string \<Rightarrow> string" where
  "pre_of v = fst (snd (Cut (TrimPrefix v ''v'') (CHR ''-'')))"

definition segment_key :: "string \<Rightarrow> int \<times> int \<times> int" where
  "segment_key s = (case tryParseInt s of Some n \<Rightarrow> (0, 0, n)
     | None \<Rightarrow> (case splitKnownPrefix s of Some (p, n) \<Rightarrow> (1, prefix_rank p, n) | None \<Rightarrow> (2, 0, 0)))"

definition recognised_segment :: "string \<Rightarrow> bool" where
  "recognised_segment s \<longleftrightarrow> (case tryParseInt s of Some n \<Rightarrow> 0 \<le> n
     | None \<Rightarrow> (case splitKnownPrefix s of Some (p, n) \<Rightarrow> 0 \<le> n | None \<Rightarrow> False))"

definition segments :: "string \<Rightarrow> string list" where
  "segments v = Split (stripGitMeta (pre_of v)) (CHR ''.'')"

definition recognised :: "string \<Rightarrow> bool" where
  "recognised v \<longleftrightarrow> pre_of v = '''' \<or> list_all recognised_segment (segments v)"

definition version_key :: "string \<Rightarrow> int list \<times> int \<times> (int \<times> int \<times> int) list" where
  "version_key v = (splitVersion (release_of v),
     if pre_of v = '''' then (1, []) else (0, map segment_key (segments v)))"

lemma tryParseInt_in_int64: "tryParseInt s = Some n \<Longrightarrow> in_int64 n"
  using Atoi_in_int64 [of s] by (auto simp: tryParseInt_def split: prod.splits option.splits)

lemma split_known_facts:
  "split_known ps s = Some (p, n) \<Longrightarrow> p \<in> set ps \<and> in_int64 n"
proof (induction ps)
  case (Cons q ps)
  have "in_int64 0" by (simp add: in_int64_def min_int64_def max_int64_def)
  with Cons Atoi_in_int64 [of "TrimPrefix s q"] show ?case
    by (auto split: if_splits prod.splits option.splits)
qed simp

lemma rank_inj:
  "p \<in> set knownPrefixes \<Longrightarrow> q \<in> set knownPrefixes \<Longrightarrow> prefix_rank p = prefix_rank q \<longleftrightarrow> p = q"
  by (auto simp: knownPrefixes_def prefix_rank_def)

lemma compare_parts_key:
  assumes "\<And>x. x \<in> set xs \<union> set ys \<Longrightarrow> 0 \<le> x \<and> in_int64 x"
  shows "sgn (compare_parts xs ys) = cmp xs ys"
  using assms
proof (induction xs ys rule: compare_parts.induct)
  case (1 x xs y ys)
  then show ?case by (auto simp: cmp_Cons sgn_sub64)
qed simp_all

lemma segment_step:
  assumes "recognised_segment a" "recognised_segment b"
  shows "sgn (comparePreReleaseParts (a # as) (b # bs)) =
     (if segment_key a = segment_key b then sgn (comparePreReleaseParts as bs)
      else cmp (segment_key a) (segment_key b))"
proof (cases "tryParseInt a")
  case (Some x)
  with assms have x: "0 \<le> x" "in_int64 x"
    by (auto simp: recognised_segment_def dest: tryParseInt_in_int64)
  show ?thesis
  proof (cases "tryParseInt b")
    case None
    with Some assms(2) show ?thesis
      by (auto simp: segment_key_def cmp_pair cmp_def recognised_segment_def split: option.splits)
  next
    case (Some y)
    with assms have "0 \<le> y" "in_int64 y"
      by (auto simp: recognised_segment_def dest: tryParseInt_in_int64)
    with x \<open>tryParseInt a = Some x\<close> Some show ?thesis
      by (auto simp: segment_key_def cmp_pair sgn_sub64)
  qed
next
  case None
  with assms(1) obtain p n where p: "splitKnownPrefix a = Some (p, n)" "0 \<le> n"
    by (auto simp: recognised_segment_def split: option.splits)
  then have p': "p \<in> set knownPrefixes" "in_int64 n"
    using split_known_facts [of knownPrefixes a] by (auto simp: splitKnownPrefix_def)
  show ?thesis
  proof (cases "tryParseInt b")
    case (Some y)
    with None p show ?thesis by (auto simp: segment_key_def cmp_pair cmp_def)
  next
    case nb: None
    with assms(2) obtain q k where q: "splitKnownPrefix b = Some (q, k)" "0 \<le> k"
      by (auto simp: recognised_segment_def split: option.splits)
    then have q': "q \<in> set knownPrefixes" "in_int64 k"
      using split_known_facts [of knownPrefixes b] by (auto simp: splitKnownPrefix_def)
    have "sgn (comparePrefix p q) = cmp (prefix_rank p) (prefix_rank q)"
      by (simp add: comparePrefix_def cmp_def)
    with None nb p q p' q' rank_inj [OF p'(1) q'(1)] show ?thesis
      by (auto simp: segment_key_def cmp_pair sgn_sub64)
  qed
qed

lemma compare_pre_key:
  "list_all recognised_segment as \<Longrightarrow> list_all recognised_segment bs \<Longrightarrow>
     sgn (comparePreReleaseParts as bs) = cmp (map segment_key as) (map segment_key bs)"
proof (induction as arbitrary: bs)
  case (Cons a as)
  then show ?case
    by (cases bs) (simp_all add: segment_step cmp_Cons del: comparePreReleaseParts.simps(1))
qed simp

lemma splitVersion_nonneg:
  "x \<in> set (splitVersion (release_of v)) \<Longrightarrow> 0 \<le> x \<and> in_int64 x"
proof -
  assume "x \<in> set (splitVersion (release_of v))"
  then obtain p where p: "p \<in> set (Split (release_of v) (CHR ''.''))" "x = fst (Atoi p)"
    by (auto simp: splitVersion_def)
  then have "CHR ''-'' \<notin> set p" using Split_set Cut_no_sep unfolding release_of_def by blast
  with p(2) show ?thesis using Atoi_nonneg Atoi_in_int64 by blast
qed

lemma cmp_sign:
  fixes c :: int
  assumes "sgn c = cmp x y"
  shows "(c \<le> 0 \<longleftrightarrow> x \<le> y) \<and> (c < 0 \<longleftrightarrow> x < y)"
  by (rule linorder_cases [of x y]) (use assms in \<open>auto simp: cmp_def sgn_if split: if_splits\<close>)

lemma cmp_swap: "cmp y x = - cmp x y"
  by (auto simp: cmp_def)

text \<open>Compare decides the order of the keys.\<close>

lemma compare_key:
  assumes "recognised a" "recognised b"
  shows "sgn (Compare a b) = cmp (version_key a) (version_key b)"
proof -
  obtain fa fb where cut: "Cut (TrimPrefix a ''v'') (CHR ''-'') = (release_of a, pre_of a, fa)"
    "Cut (TrimPrefix b ''v'') (CHR ''-'') = (release_of b, pre_of b, fb)"
    unfolding release_of_def pre_of_def by (metis prod.collapse)
  let ?r = "compare_parts (splitVersion (release_of a)) (splitVersion (release_of b))"
  have r: "sgn ?r = cmp (splitVersion (release_of a)) (splitVersion (release_of b))"
    using splitVersion_nonneg by (intro compare_parts_key) auto
  show ?thesis
  proof (cases "splitVersion (release_of a) = splitVersion (release_of b)")
    case False
    then have "?r \<noteq> 0" using r by (auto simp: cmp_def split: if_splits)
    then show ?thesis using cut r False by (simp add: Compare_def version_key_def cmp_pair)
  next
    case True
    then have r0: "?r = 0" using r by (simp add: sgn_eq_0_iff)
    have key: "cmp (version_key a) (version_key b) =
        cmp (if pre_of a = '''' then (1, []) else (0::int, map segment_key (segments a)))
          (if pre_of b = '''' then (1, []) else (0, map segment_key (segments b)))"
      using True by (simp add: version_key_def cmp_pair)
    show ?thesis
    proof (cases "pre_of a = '''' \<or> pre_of b = ''''")
      case True
      then show ?thesis using cut r0 unfolding key by (auto simp: Compare_def cmp_pair cmp_def)
    next
      case False
      then have "sgn (comparePreReleaseParts (segments a) (segments b)) =
          cmp (map segment_key (segments a)) (map segment_key (segments b))"
        using assms by (intro compare_pre_key) (auto simp: recognised_def)
      then show ?thesis using cut r0 False unfolding key
        by (auto simp: Compare_def cmp_pair segments_def)
    qed
  qed
qed

text \<open>
  C7: on versions whose pre-release segments are numbers or known prefixes (dev, alpha,
  beta, rc), Compare is a total preorder: its sign flips when the arguments are swapped, and
  "not newer" is transitive. The release numbers come first, a release is newer than its
  pre-releases, and pre-releases follow the ranks of their segments.
\<close>

theorem compare_total_preorder:
  assumes "recognised a" "recognised b" "recognised c"
  shows "sgn (Compare b a) = - sgn (Compare a b) \<and>
     (Compare a b \<le> 0 \<longrightarrow> Compare b c \<le> 0 \<longrightarrow> Compare a c \<le> 0) \<and>
     (Compare a b < 0 \<longleftrightarrow> version_key a < version_key b)"
proof -
  have k: "(Compare x y \<le> 0 \<longleftrightarrow> version_key x \<le> version_key y) \<and>
      (Compare x y < 0 \<longleftrightarrow> version_key x < version_key y)"
    if "recognised x" "recognised y" for x y
    using cmp_sign [OF compare_key [OF that]] .
  have "sgn (Compare b a) = - sgn (Compare a b)"
    using compare_key [OF assms(2,1)] compare_key [OF assms(1,2)] cmp_swap
    by metis
  moreover have "Compare a c \<le> 0" if "Compare a b \<le> 0" "Compare b c \<le> 0"
    using k [OF assms(1,2)] k [OF assms(2,3)] k [OF assms(1,3)] that order.trans by metis
  ultimately show ?thesis using k [OF assms(1,2)] by blast
qed

theorem compare_total_preorder_witness:
  "sgn (Compare ''1.2'' ''v1.2.0-rc.1'') = - sgn (Compare ''v1.2.0-rc.1'' ''1.2'')"
proof -
  have "recognised ''v1.2.0-rc.1''" "recognised ''1.2''" by code_simp+
  from compare_total_preorder [OF this this(2)] show ?thesis by blast
qed

text \<open>
  with an unknown tag Compare is not transitive: 1.0-alpha is older than 1.0-b1 and
  1.0-b1 is older than 1.0-dev by the spelling, but 1.0-dev is older than 1.0-alpha by rank,
  so a sort under Compare has no correct answer on these three.
\<close>

lemma compare_not_transitive:
  "Compare ''1.0-alpha'' ''1.0-b1'' < 0 \<and> Compare ''1.0-b1'' ''1.0-dev'' < 0 \<and>
   Compare ''1.0-dev'' ''1.0-alpha'' < 0"
  by code_simp

subsection \<open>Specifications and their resolution\<close>

record version_spec =
  vs_major :: "int option"
  vs_minor :: "int option"
  vs_patch :: "int option"
  vs_latest :: bool

datatype version_error =
    BadSpec string | NoVersions | VersionNotFound string | NoMatch version_spec
  | GateUnknown string string | GateTooOld string string string

definition empty_spec :: version_spec where
  "empty_spec = \<lparr>vs_major = None, vs_minor = None, vs_patch = None, vs_latest = False\<rparr>"

definition IsPartial :: "version_spec \<Rightarrow> bool" where
  "IsPartial s \<longleftrightarrow> vs_major s = None \<or> vs_minor s = None \<or> vs_patch s = None"

definition spec_atoi :: "string \<Rightarrow> string \<Rightarrow> (version_error, int) res" where
  "spec_atoi spec p = (case Atoi p of (n, None) \<Rightarrow> Ok n | (_, Some _) \<Rightarrow> Err (BadSpec spec))"

definition ParseSpec :: "string \<Rightarrow> (version_error, version_spec) res" where
  "ParseSpec spec =
     (let spec = TrimSpace spec
      in if spec = '''' \<or> spec = ''latest'' then Ok (empty_spec\<lparr>vs_latest := True\<rparr>)
         else
           (let spec = (if HasPrefix spec ''v'' \<or> HasPrefix spec ''V'' then tl spec else spec);
                parts = Split spec (CHR ''.'')
            in bind_res (if length parts \<ge> 1
                  then bind_res (spec_atoi spec (parts ! 0)) (\<lambda>n. Ok (empty_spec\<lparr>vs_major := Some n\<rparr>))
                  else Ok empty_spec) (\<lambda>vs.
               bind_res (if length parts \<ge> 2
                  then bind_res (spec_atoi spec (parts ! 1)) (\<lambda>n. Ok (vs\<lparr>vs_minor := Some n\<rparr>))
                  else Ok vs) (\<lambda>vs.
               if length parts \<ge> 3
                  then bind_res (spec_atoi spec (parts ! 2)) (\<lambda>n. Ok (vs\<lparr>vs_patch := Some n\<rparr>))
                  else Ok vs))))"

definition ParseSelector :: "string \<Rightarrow> string \<times> string" where
  "ParseSelector sel =
     (if \<not> Contains sel '':'' then ('''', sel)
      else case Cut sel (CHR '':'') of (pfx, val, _) \<Rightarrow>
        if pfx = '''' then ('''', val) else (pfx, val))"

fun semver_nums :: "string list \<Rightarrow> int list option" where
  "semver_nums [] = Some []"
| "semver_nums (p # ps) = (case Atoi p of (n, None) \<Rightarrow> map_option ((#) n) (semver_nums ps) | _ \<Rightarrow> None)"

definition SemverKey :: "string \<Rightarrow> int list" where
  "SemverKey v = (case semver_nums (Split (TrimPrefix v ''v'') (CHR ''.'')) of
     Some ns \<Rightarrow> ns | None \<Rightarrow> [0])"

text \<open>The less function of the sort in Resolve: true when the first version is the newer one.\<close>

fun parts_newer :: "int list \<Rightarrow> int list \<Rightarrow> bool" where
  "parts_newer (x # xs) (y # ys) = (if x \<noteq> y then x > y else parts_newer xs ys)"
| "parts_newer xs ys = (length xs > length ys)"

definition newer :: "string \<Rightarrow> string \<Rightarrow> bool" where
  "newer v w = parts_newer (SemverKey v) (SemverKey w)"

lemma nil_least: "[] < (x :: int list) \<longleftrightarrow> x \<noteq> []" "[] \<le> x" "x \<le> [] \<longleftrightarrow> x = []"
  by (cases x; simp)+

lemma parts_newer_less: "parts_newer xs ys \<longleftrightarrow> ys < xs"
  by (induction xs ys rule: parts_newer.induct) (auto simp: nil_least)

lemma newer_iff: "newer v w \<longleftrightarrow> SemverKey w < SemverKey v"
  by (simp add: newer_def parts_newer_less)

interpretation semver: weak_order newer
  by unfold_locales (auto simp: newer_iff)

fun prefix_matches :: "int list \<Rightarrow> string list \<Rightarrow> bool" where
  "prefix_matches [] ps = True"
| "prefix_matches (n # ns) (p # ps) =
     (case Atoi p of (k, None) \<Rightarrow> k = n \<and> prefix_matches ns ps | _ \<Rightarrow> False)"
| "prefix_matches (n # ns) [] = False"

definition opt_list :: "'a option \<Rightarrow> 'a list" where
  "opt_list x = (case x of None \<Rightarrow> [] | Some y \<Rightarrow> [y])"

definition spec_parts :: "version_spec \<Rightarrow> int list" where
  "spec_parts s = opt_list (vs_major s) @ opt_list (vs_minor s) @ opt_list (vs_patch s)"

definition version_matches :: "version_spec \<Rightarrow> string \<Rightarrow> bool" where
  "version_matches s v =
     (let ps = Split (TrimPrefix v ''v'') (CHR ''.'')
      in length ps \<ge> length (spec_parts s) \<and> prefix_matches (spec_parts s) ps)"

definition Resolve :: "string list \<Rightarrow> version_spec \<Rightarrow> (version_error, string) res" where
  "Resolve versions spec =
     (if versions = [] then Err NoVersions
      else let sorted = sort_by newer versions
       in if vs_latest spec then Ok (hd sorted)
          else if \<not> IsPartial spec
          then (let target = Join (map Itoa (spec_parts spec)) ''.''
                in case find_first (\<lambda>v. v = target \<or> TrimPrefix v ''v'' = target) versions of
                     Some _ \<Rightarrow> Ok target | None \<Rightarrow> Err (VersionNotFound target))
          else (case find_first (version_matches spec) sorted of
                  Some v \<Rightarrow> Ok (TrimPrefix v ''v'') | None \<Rightarrow> Err (NoMatch spec)))"

text \<open>
  For "latest" or a partial specification Resolve picks a newest version among those
  that match: the answer is an available version (without its v for a partial match), no
  matching version has a greater key, and it fails exactly when nothing matches.
\<close>

lemma resolve_newest:
  assumes "vs_latest spec \<or> IsPartial spec" "versions \<noteq> []"
  shows "case Resolve versions spec of
      Ok r \<Rightarrow> \<exists>v \<in> set versions. r = (if vs_latest spec then v else TrimPrefix v ''v'') \<and>
        (vs_latest spec \<or> version_matches spec v) \<and>
        (\<forall>w \<in> set versions. vs_latest spec \<or> version_matches spec w \<longrightarrow> SemverKey w \<le> SemverKey v)
    | Err e \<Rightarrow> \<not> vs_latest spec \<and> (\<forall>w \<in> set versions. \<not> version_matches spec w)"
proof (cases "vs_latest spec")
  case True
  with assms semver.hd_least [OF assms(2)] show ?thesis
    by (auto simp: Resolve_def newer_iff not_less intro!: bexI [of _ "hd (sort_by newer versions)"])
next
  case False
  show ?thesis
  proof (cases "find_first (version_matches spec) (sort_by newer versions)")
    case None
    then have "\<forall>w \<in> set versions. \<not> version_matches spec w" by (simp add: find_first_None)
    with None False assms show ?thesis by (simp add: Resolve_def)
  next
    case (Some v)
    from semver.find_first_least [OF Some] Some False assms show ?thesis
      by (auto simp: Resolve_def newer_iff not_less)
  qed
qed

lemma resolve_newest_witness:
  "\<exists>v. Resolve [''v1.15.0'', ''1.16.2'', ''v1.16.10'', ''nightly''] (empty_spec\<lparr>vs_major := Some 1\<rparr>) = Ok v
     \<and> SemverKey ''1.16.2'' \<le> SemverKey v"
proof -
  let ?vs = "[''v1.15.0'', ''1.16.2'', ''v1.16.10'', ''nightly'']"
    and ?s = "empty_spec\<lparr>vs_major := Some 1\<rparr>"
  have r: "Resolve ?vs ?s = Ok ''1.16.10''" by code_simp
  have "SemverKey ''1.16.2'' \<le> SemverKey ''1.16.10''" by code_simp
  moreover have "\<not> vs_latest ?s" by (simp add: empty_spec_def)
  moreover have "case Resolve ?vs ?s of
      Ok r \<Rightarrow> \<exists>v \<in> set ?vs. r = (if vs_latest ?s then v else TrimPrefix v ''v'') \<and>
        (vs_latest ?s \<or> version_matches ?s v) \<and>
        (\<forall>w \<in> set ?vs. vs_latest ?s \<or> version_matches ?s w \<longrightarrow> SemverKey w \<le> SemverKey v)
    | Err e \<Rightarrow> \<not> vs_latest ?s \<and> (\<forall>w \<in> set ?vs. \<not> version_matches ?s w)"
    by (rule resolve_newest) (simp_all add: IsPartial_def empty_spec_def)
  ultimately show ?thesis using r by blast
qed

text \<open>Version numbers written in decimal.\<close>

definition dotted :: "int list \<Rightarrow> string" where
  "dotted ns = Join (map Itoa ns) ''.''"

lemma dotted_first:
  "0 \<le> a \<Longrightarrow> \<exists>d w. Itoa a = d # w \<and> is_digit d"
  using Itoa_digits [of a] by (cases "Itoa a") (auto simp: Itoa_def split: if_splits)

lemma trim_left_digit:
  assumes "\<forall>p \<in> set sp. p \<noteq> [] \<longrightarrow> \<not> is_digit (hd p)" "is_digit d"
  shows "trim_left sp (d # s) = d # s"
proof -
  have "find_first (\<lambda>p. p \<noteq> [] \<and> d # s \<noteq> [] \<and> HasPrefix (d # s) p) sp = None"
  proof (unfold find_first_None, intro ballI notI)
    fix p assume p: "p \<in> set sp" "p \<noteq> [] \<and> d # s \<noteq> [] \<and> HasPrefix (d # s) p"
    then have "hd (take (length p) (d # s)) = hd p" by (simp add: HasPrefix_def)
    with p have "hd p = d" by (simp add: take_Cons')
    with assms p show False by auto
  qed
  then show ?thesis by (simp add: trim_left.simps)
qed

lemma TrimSpace_digits:
  assumes "s \<noteq> []" "is_digit (hd s)" "is_digit (last s)"
  shows "TrimSpace s = s"
proof -
  have sp: "\<forall>p \<in> set spaces. p \<noteq> [] \<longrightarrow> \<not> is_digit (hd p)"
    "\<forall>p \<in> set (map rev spaces). p \<noteq> [] \<longrightarrow> \<not> is_digit (hd p)"
    by code_simp+
  have l: "trim_left spaces s = s" using assms(1,2) trim_left_digit [OF sp(1)] by (cases s) auto
  have "trim_left (map rev spaces) (rev s) = rev s"
    using assms(1,3) trim_left_digit [OF sp(2)] by (cases s rule: rev_cases) auto
  with l show ?thesis by (simp add: TrimSpace_def)
qed

lemma dotted_edges:
  assumes "ns \<noteq> []" "\<forall>n \<in> set ns. 0 \<le> n"
  shows "dotted ns \<noteq> [] \<and> is_digit (hd (dotted ns)) \<and> is_digit (last (dotted ns))"
proof -
  have one: "w \<noteq> [] \<and> is_digit (hd w) \<and> is_digit (last w)" if "w \<in> set (map Itoa ns)" for w
    using that assms(2) dotted_first Itoa_digits by (auto simp: Itoa_def dest!: utoa_digits [rotated])
  have "ws \<noteq> [] \<Longrightarrow> \<forall>w \<in> set ws. w \<noteq> [] \<and> is_digit (hd w) \<and> is_digit (last w) \<Longrightarrow>
      Join ws ''.'' \<noteq> [] \<and> is_digit (hd (Join ws ''.'')) \<and> is_digit (last (Join ws ''.''))" for ws
    by (induction ws "''.''" rule: Join.induct) auto
  from this [of "map Itoa ns"] one assms(1) show ?thesis by (simp add: dotted_def)
qed

lemma Split_dotted:
  assumes "ns \<noteq> []" "\<forall>n \<in> set ns. 0 \<le> n"
  shows "Split (dotted ns) (CHR ''.'') = map Itoa ns"
  unfolding dotted_def using assms Itoa_digits is_digit_not_sign by (intro Split_Join) fastforce+

lemma digit_not_v: "is_digit c \<Longrightarrow> c \<noteq> CHR ''v'' \<and> c \<noteq> CHR ''V'' \<and> c \<noteq> CHR ''l''"
  by (auto simp: is_digit_def)

lemma ParseSpec_dotted:
  assumes "0 \<le> a" "a \<le> max_int64" "0 \<le> b" "b \<le> max_int64" "0 \<le> c" "c \<le> max_int64"
  shows "ParseSpec (dotted [a, b, c]) =
     Ok \<lparr>vs_major = Some a, vs_minor = Some b, vs_patch = Some c, vs_latest = False\<rparr>"
proof -
  let ?t = "dotted [a, b, c]"
  have e: "?t \<noteq> []" "is_digit (hd ?t)" "is_digit (last ?t)"
    using dotted_edges [of "[a, b, c]"] assms by auto
  then have "?t \<noteq> ''latest''" "\<not> HasPrefix ?t ''v''" "\<not> HasPrefix ?t ''V''"
    using digit_not_v [OF e(2)] by (cases ?t; auto simp: HasPrefix_def)+
  moreover have "Split ?t (CHR ''.'') = [Itoa a, Itoa b, Itoa c]"
    using Split_dotted [of "[a, b, c]"] assms by simp
  ultimately show ?thesis
    using e TrimSpace_digits [OF e] assms
    by (simp add: ParseSpec_def Let_def spec_atoi_def Atoi_Itoa empty_spec_def)
qed

lemma TrimPrefix_v:
  "t \<noteq> [] \<Longrightarrow> hd t \<noteq> CHR ''v'' \<Longrightarrow> TrimPrefix v ''v'' = t \<longleftrightarrow> v = t \<or> v = CHR ''v'' # t"
  by (cases v) (auto simp: TrimPrefix_def HasPrefix_def)

text \<open>
  asking for a full version "a.b.c" (in decimal, within 64 bits) resolves to exactly that
  text when it is available with or without the v prefix, and fails otherwise.
\<close>

lemma resolve_exact:
  assumes "0 \<le> a" "a \<le> max_int64" "0 \<le> b" "b \<le> max_int64" "0 \<le> c" "c \<le> max_int64"
    and "versions \<noteq> []"
  shows "bind_res (ParseSpec (dotted [a, b, c])) (Resolve versions) =
     (if dotted [a, b, c] \<in> set versions \<or> CHR ''v'' # dotted [a, b, c] \<in> set versions
      then Ok (dotted [a, b, c]) else Err (VersionNotFound (dotted [a, b, c])))"
proof -
  let ?t = "dotted [a, b, c]"
  have e: "?t \<noteq> []" "is_digit (hd ?t)" using dotted_edges [of "[a, b, c]"] assms by auto
  then have v: "TrimPrefix v ''v'' = ?t \<longleftrightarrow> v = ?t \<or> v = CHR ''v'' # ?t" for v
    using TrimPrefix_v digit_not_v by blast
  have "find_first (\<lambda>v. v = ?t \<or> TrimPrefix v ''v'' = ?t) versions = None \<longleftrightarrow>
      ?t \<notin> set versions \<and> CHR ''v'' # ?t \<notin> set versions"
    by (auto simp: find_first_None v)
  moreover have "Resolve versions \<lparr>vs_major = Some a, vs_minor = Some b, vs_patch = Some c,
      vs_latest = False\<rparr> = (case find_first (\<lambda>v. v = ?t \<or> TrimPrefix v ''v'' = ?t) versions of
        Some _ \<Rightarrow> Ok ?t | None \<Rightarrow> Err (VersionNotFound ?t))"
    using assms(7)
    by (simp add: Resolve_def spec_parts_def opt_list_def dotted_def IsPartial_def Let_def split: option.split)
  ultimately show ?thesis
    unfolding ParseSpec_dotted [OF assms(1-6)] by (auto split: option.splits)
qed

theorem resolve_exact_witness:
  "bind_res (ParseSpec (dotted [1, 16, 0])) (Resolve [''v1.16.0'']) = Ok ''1.16.0''"
proof -
  have t: "dotted [1, 16, 0] = ''1.16.0''" by code_simp
  show ?thesis using resolve_exact [of 1 16 0 "[''v1.16.0'']"] unfolding t by (simp add: max_int64_def)
qed

subsection \<open>The minimum-version gate\<close>

text \<open>
  The group of \<open>^(\d+(?:\.\d+)*).*$\<close>: digits, then further dotted groups of digits as far as
  they go. The rest must not contain a line break, which \<open>.\<close> does not match.
\<close>

function version_prefix :: "string \<Rightarrow> string option" where
  "version_prefix s =
     (let d = takeWhile is_digit s; r = dropWhile is_digit s
      in if d = [] then None
         else case r of
           [] \<Rightarrow> Some d
         | c # r' \<Rightarrow> if c = CHR ''.''
             then (case version_prefix r' of Some m \<Rightarrow> Some (d @ c # m) | None \<Rightarrow> Some d)
             else Some d)"
  by pat_completeness auto
termination
proof (relation "measure length", goal_cases)
  case (2 s d r c r')
  then have "length (dropWhile is_digit s) = Suc (length r')" by (metis length_Cons)
  with length_dropWhile_le [of is_digit s] show ?case by simp
qed simp

declare version_prefix.simps [simp del]

definition parseVersionNums :: "string \<Rightarrow> int list option" where
  "parseVersionNums v =
     (case version_prefix v of
        None \<Rightarrow> None
      | Some m \<Rightarrow> if CHR 0x0A \<in> set v then None else semver_nums (Split m (CHR ''.'')))"

fun at_least :: "int list \<Rightarrow> int list \<Rightarrow> bool" where
  "at_least (x # xs) (y # ys) = (if x > y then True else if x < y then False else at_least xs ys)"
| "at_least xs ys = (length xs \<ge> length ys)"

definition isAtLeast :: "int list option \<Rightarrow> int list option \<Rightarrow> bool" where
  "isAtLeast v m = (case (v, m) of (Some xs, Some ys) \<Rightarrow> at_least xs ys | _ \<Rightarrow> False)"

definition IsAtLeast :: "string \<Rightarrow> string \<Rightarrow> bool" where
  "IsAtLeast v m = isAtLeast (parseVersionNums v) (parseVersionNums m)"

text \<open>\<open>VersionGate.IsSatisfiedBy\<close> and \<open>Require\<close>.\<close>

definition IsSatisfiedBy :: "string \<Rightarrow> string \<Rightarrow> bool" where
  "IsSatisfiedBy v m =
     (if parseVersionNums v = None \<or> parseVersionNums m = None then False
      else isAtLeast (parseVersionNums v) (parseVersionNums m))"

definition Require :: "string \<Rightarrow> string \<Rightarrow> string \<Rightarrow> version_error option" where
  "Require binary v m =
     (if v = '''' then Some (GateUnknown binary m)
      else if HasPrefix v ''dev-'' then None
      else if \<not> IsSatisfiedBy v m then Some (GateTooOld binary m v)
      else None)"

lemma at_least_iff: "at_least xs ys \<longleftrightarrow> ys \<le> xs"
  by (induction xs ys rule: at_least.induct) (auto simp: nil_least)

text \<open>
  the gate lets a version through exactly when it is a dev build, or its leading
  numbers and those of the minimum parse and the minimum is not lexicographically greater,
  where a missing component counts as less than any present one: 1.16 does not satisfy the
  minimum 1.16.0.
\<close>

lemma gate_admits_iff:
  "(Require binary v m = None \<longleftrightarrow> v \<noteq> '''' \<and>
     (HasPrefix v ''dev-'' \<or>
      (\<exists>xs ys. parseVersionNums v = Some xs \<and> parseVersionNums m = Some ys \<and> ys \<le> xs))) \<and>
   \<not> IsSatisfiedBy ''1.16'' ''1.16.0'' \<and> IsSatisfiedBy ''1.16.0'' ''1.16''"
proof (intro conjI)
  show "Require binary v m = None \<longleftrightarrow> v \<noteq> '''' \<and>
     (HasPrefix v ''dev-'' \<or>
      (\<exists>xs ys. parseVersionNums v = Some xs \<and> parseVersionNums m = Some ys \<and> ys \<le> xs))"
    by (auto simp: Require_def IsSatisfiedBy_def isAtLeast_def at_least_iff split: option.splits)
  show "\<not> IsSatisfiedBy ''1.16'' ''1.16.0''" "IsSatisfiedBy ''1.16.0'' ''1.16''" by code_simp+
qed

end
