(* ===== verification/Errs.thy ===== *)
theory Errs
  imports Prelude
begin

text \<open>
  The error type of the program (\<open>pkg/errs/codes.go\<close>, \<open>pkg/errs/domain.go\<close>): codes as their
  strings, the tables that give a code its class and operation, the constructors, and the
  checks that look through a chain of wrapped errors.
\<close>

subsection \<open>Codes, classes and operations\<close>

type_synonym code = string

definition all_codes :: "code list" where
  "all_codes = [
     ''vm.not_found'', ''vm.already_exists'', ''vm.state.invalid'', ''vm.create.failed'',
     ''vm.create.builder_failed'', ''vm.resolve.failed'', ''vm.resource.exhausted'',
     ''vm.create.binary_not_found'', ''vm.create.image_not_found'',
     ''vm.create.kernel_not_found'', ''vm.create.network_not_found'',
     ''vm.create.ssh_key_not_found'', ''vm.name_collision'', ''vm.atomic_failed'',
     ''vm.create_failure'', ''vm.snapshot_failed'', ''vm.load_snapshot_failed'',
     ''network.subnet.overlap'', ''network.not_found'', ''network.already_exists'',
     ''network.bridge.failed'', ''network.nat.failed'', ''network.lease.failed'',
     ''network.lease.exhausted'', ''network.firewall.failed'', ''network.create_failed'',
     ''network.remove_failed'', ''network.default_set_failed'',
     ''network.default_created_failed'', ''image.not_found'', ''image.already_exists'',
     ''image.pull.failed'', ''image.import.failed'', ''image.checksum.mismatch'',
     ''image.corrupt'', ''image.empty'', ''image.format.invalid'', ''image.error'',
     ''image.compression.failed'', ''image.decompression.failed'',
     ''image.root_partition_detection'', ''image.tie_detected'', ''image.acquire_failed'',
     ''image.warm_failed'', ''kernel.not_found'', ''kernel.build.failed'',
     ''kernel.config.failed'', ''kernel.pull_failed'', ''kernel.import_failed'',
     ''kernel.default_set_failed'', ''binary.not_found'', ''binary.already_exists'',
     ''binary.version.gate'', ''binary.error'', ''binary.pull_failed'',
     ''binary.remove_failed'', ''binary.default_set_failed'', ''binary.ensure_default_failed'',
     ''binary.no_ci_version'', ''volume.not_found'', ''volume.already_exists'',
     ''volume.error'', ''volume.resize_failed'', ''key.not_found'', ''key.already_exists'',
     ''key.export.failed'', ''key.dependency.missing'', ''key.create_failed'',
     ''key.add_failed'', ''key.default_set_failed'', ''key.defaults_clear_failed'',
     ''host.init.failed'', ''host.clean.failed'', ''host.reset.failed'',
     ''host.privilege.required'', ''host.init.sudoers.failed'', ''host.info_failed'',
     ''host.capacity_failed'', ''cloudinit.provision.failed'', ''cloudinit.net_mode.failed'',
     ''cloudinit.iso_mode.failed'', ''cloudinit.inject.failed'', ''cloudinit.mode.error'',
     ''cloudinit.off_mode.error'', ''console.relay.failed'', ''console.not_running'',
     ''console.kill_failed'', ''logs.error'', ''firecracker.error'',
     ''firecracker.client.error'', ''firecracker.spawn.failed'', ''firecracker.config.failed'',
     ''firecracker.socket.not_found'', ''guestfs.error'', ''guestfs.not_available'',
     ''guestfs.write.failed'', ''loopmount.error'', ''loopmount.binary.not_found'',
     ''loopmount.timeout'', ''ssh.error'', ''cp.error'', ''cp.source.not_found'',
     ''cp.source.failed'', ''cp.copy.failed'', ''cp.destination.exists'',
     ''cp.destination.failed'', ''cp.destination.not_directory'',
     ''cp.multi_source_no_vm_destination'', ''cp.resolve_failed'', ''cp.no_vm_specified'',
     ''cp.vm_no_ip'', ''cp.vm_not_found'', ''vsock.not_found'', ''vsock.connection_failed'',
     ''vsock.handshake_failed'', ''agent.unreachable'', ''vsock.exec_failed'',
     ''vsock.upgrade_in_progress'', ''vsock.config.not_found'', ''auth.unauthorized'',
     ''vm.not_running'', ''bundled_asset.error'', ''bundled_asset.not_found'',
     ''snapshot.not_found'', ''snapshot.already_exists'', ''snapshot.create_failed'',
     ''snapshot.restore_failed'', ''snapshot.remove_failed'', ''network.error'', ''key.error'',
     ''version.resolve.failed'', ''internal'', ''not_implemented'', ''validation.failed'',
     ''database.error'', ''database.migration.failed'', ''process.error'', ''download.failed'',
     ''http.error'', ''config.error'', ''cache.clean_failed'']"

datatype err_class = ClassUnknown | ClassValidation | ClassConflict | ClassRetryable
  | ClassInternal | ClassNeedsInteraction

definition codeClassMap :: "(code \<times> err_class) list" where
  "codeClassMap = [
     (''vm.not_found'', ClassValidation), (''vm.already_exists'', ClassConflict),
     (''vm.state.invalid'', ClassValidation), (''vm.create.failed'', ClassInternal),
     (''vm.create.builder_failed'', ClassInternal), (''vm.resolve.failed'', ClassValidation),
     (''vm.resource.exhausted'', ClassValidation),
     (''vm.create.binary_not_found'', ClassValidation),
     (''vm.create.image_not_found'', ClassValidation),
     (''vm.create.kernel_not_found'', ClassValidation),
     (''vm.create.network_not_found'', ClassValidation),
     (''vm.create.ssh_key_not_found'', ClassValidation),
     (''vm.name_collision'', ClassValidation), (''vm.atomic_failed'', ClassInternal),
     (''vm.create_failure'', ClassInternal), (''vm.snapshot_failed'', ClassInternal),
     (''vm.load_snapshot_failed'', ClassInternal),
     (''network.subnet.overlap'', ClassValidation), (''network.not_found'', ClassValidation),
     (''network.already_exists'', ClassConflict), (''network.bridge.failed'', ClassInternal),
     (''network.nat.failed'', ClassInternal), (''network.lease.failed'', ClassInternal),
     (''network.lease.exhausted'', ClassRetryable),
     (''network.firewall.failed'', ClassInternal), (''network.create_failed'', ClassInternal),
     (''network.remove_failed'', ClassInternal),
     (''network.default_set_failed'', ClassInternal),
     (''network.default_created_failed'', ClassInternal),
     (''image.not_found'', ClassValidation), (''image.already_exists'', ClassConflict),
     (''image.pull.failed'', ClassInternal), (''image.import.failed'', ClassInternal),
     (''image.checksum.mismatch'', ClassValidation), (''image.corrupt'', ClassValidation),
     (''image.empty'', ClassValidation), (''image.format.invalid'', ClassValidation),
     (''image.error'', ClassInternal), (''image.compression.failed'', ClassInternal),
     (''image.decompression.failed'', ClassInternal),
     (''image.root_partition_detection'', ClassInternal),
     (''image.tie_detected'', ClassInternal), (''image.acquire_failed'', ClassInternal),
     (''image.warm_failed'', ClassInternal), (''kernel.not_found'', ClassValidation),
     (''kernel.build.failed'', ClassRetryable), (''kernel.config.failed'', ClassInternal),
     (''kernel.pull_failed'', ClassInternal), (''kernel.import_failed'', ClassInternal),
     (''kernel.default_set_failed'', ClassInternal), (''binary.not_found'', ClassValidation),
     (''binary.already_exists'', ClassConflict), (''binary.version.gate'', ClassValidation),
     (''binary.error'', ClassInternal), (''binary.pull_failed'', ClassInternal),
     (''binary.remove_failed'', ClassInternal), (''binary.default_set_failed'', ClassInternal),
     (''binary.ensure_default_failed'', ClassInternal),
     (''binary.no_ci_version'', ClassValidation), (''volume.not_found'', ClassValidation),
     (''volume.already_exists'', ClassConflict), (''volume.error'', ClassInternal),
     (''volume.resize_failed'', ClassInternal), (''key.not_found'', ClassValidation),
     (''key.already_exists'', ClassConflict), (''key.export.failed'', ClassValidation),
     (''key.dependency.missing'', ClassValidation), (''key.create_failed'', ClassInternal),
     (''key.add_failed'', ClassInternal), (''key.default_set_failed'', ClassInternal),
     (''key.defaults_clear_failed'', ClassInternal), (''host.init.failed'', ClassInternal),
     (''host.clean.failed'', ClassInternal), (''host.reset.failed'', ClassInternal),
     (''host.privilege.required'', ClassNeedsInteraction),
     (''host.init.sudoers.failed'', ClassValidation), (''host.info_failed'', ClassInternal),
     (''host.capacity_failed'', ClassInternal),
     (''cloudinit.provision.failed'', ClassInternal),
     (''cloudinit.net_mode.failed'', ClassInternal),
     (''cloudinit.iso_mode.failed'', ClassInternal),
     (''cloudinit.inject.failed'', ClassInternal), (''cloudinit.mode.error'', ClassValidation),
     (''cloudinit.off_mode.error'', ClassInternal), (''console.relay.failed'', ClassInternal),
     (''console.not_running'', ClassValidation), (''console.kill_failed'', ClassInternal),
     (''logs.error'', ClassInternal), (''firecracker.error'', ClassInternal),
     (''firecracker.client.error'', ClassInternal),
     (''firecracker.spawn.failed'', ClassInternal),
     (''firecracker.config.failed'', ClassValidation),
     (''firecracker.socket.not_found'', ClassValidation), (''guestfs.error'', ClassInternal),
     (''guestfs.not_available'', ClassInternal), (''guestfs.write.failed'', ClassInternal),
     (''loopmount.error'', ClassInternal), (''loopmount.binary.not_found'', ClassValidation),
     (''loopmount.timeout'', ClassRetryable), (''ssh.error'', ClassInternal),
     (''cp.error'', ClassInternal), (''cp.source.not_found'', ClassValidation),
     (''cp.source.failed'', ClassInternal), (''cp.copy.failed'', ClassInternal),
     (''cp.destination.exists'', ClassValidation), (''cp.destination.failed'', ClassInternal),
     (''cp.destination.not_directory'', ClassValidation),
     (''cp.multi_source_no_vm_destination'', ClassValidation),
     (''cp.resolve_failed'', ClassInternal), (''cp.no_vm_specified'', ClassValidation),
     (''cp.vm_no_ip'', ClassInternal), (''cp.vm_not_found'', ClassValidation),
     (''vsock.upgrade_in_progress'', ClassConflict), (''bundled_asset.error'', ClassInternal),
     (''bundled_asset.not_found'', ClassValidation), (''cache.clean_failed'', ClassInternal),
     (''snapshot.not_found'', ClassValidation), (''snapshot.already_exists'', ClassConflict),
     (''snapshot.create_failed'', ClassInternal), (''snapshot.restore_failed'', ClassInternal),
     (''snapshot.remove_failed'', ClassInternal), (''network.error'', ClassInternal),
     (''key.error'', ClassInternal), (''version.resolve.failed'', ClassInternal),
     (''internal'', ClassInternal), (''not_implemented'', ClassInternal),
     (''validation.failed'', ClassValidation), (''database.error'', ClassInternal),
     (''database.migration.failed'', ClassInternal), (''process.error'', ClassInternal),
     (''download.failed'', ClassInternal), (''http.error'', ClassInternal),
     (''config.error'', ClassValidation)]"

definition codeOpMap :: "(code \<times> string) list" where
  "codeOpMap = [
     (''vm.not_found'', ''vm''), (''vm.already_exists'', ''vm''),
     (''vm.state.invalid'', ''vm''), (''vm.create.failed'', ''vm''),
     (''vm.create.builder_failed'', ''vm''), (''vm.resolve.failed'', ''vm''),
     (''vm.resource.exhausted'', ''vm''), (''vm.create.binary_not_found'', ''vm''),
     (''vm.create.image_not_found'', ''vm''), (''vm.create.kernel_not_found'', ''vm''),
     (''vm.create.network_not_found'', ''vm''), (''vm.create.ssh_key_not_found'', ''vm''),
     (''vm.name_collision'', ''vm''), (''vm.atomic_failed'', ''vm''),
     (''vm.create_failure'', ''vm''), (''vm.snapshot_failed'', ''vm''),
     (''vm.load_snapshot_failed'', ''vm''), (''network.subnet.overlap'', ''network''),
     (''network.not_found'', ''network''), (''network.already_exists'', ''network''),
     (''network.bridge.failed'', ''network''), (''network.nat.failed'', ''network''),
     (''network.lease.failed'', ''network''), (''network.lease.exhausted'', ''network''),
     (''network.firewall.failed'', ''network''), (''network.create_failed'', ''network''),
     (''network.remove_failed'', ''network''), (''network.default_set_failed'', ''network''),
     (''network.default_created_failed'', ''network''), (''image.not_found'', ''image''),
     (''image.already_exists'', ''image''), (''image.pull.failed'', ''image''),
     (''image.import.failed'', ''image''), (''image.checksum.mismatch'', ''image''),
     (''image.corrupt'', ''image''), (''image.empty'', ''image''),
     (''image.format.invalid'', ''image''), (''image.error'', ''image''),
     (''image.compression.failed'', ''image''), (''image.decompression.failed'', ''image''),
     (''image.root_partition_detection'', ''image''), (''image.tie_detected'', ''image''),
     (''image.acquire_failed'', ''image''), (''image.warm_failed'', ''image''),
     (''kernel.not_found'', ''kernel''), (''kernel.build.failed'', ''kernel''),
     (''kernel.config.failed'', ''kernel''), (''kernel.pull_failed'', ''kernel''),
     (''kernel.import_failed'', ''kernel''), (''kernel.default_set_failed'', ''kernel''),
     (''binary.not_found'', ''binary''), (''binary.already_exists'', ''binary''),
     (''binary.version.gate'', ''binary''), (''binary.error'', ''binary''),
     (''binary.pull_failed'', ''binary''), (''binary.remove_failed'', ''binary''),
     (''binary.default_set_failed'', ''binary''),
     (''binary.ensure_default_failed'', ''binary''), (''binary.no_ci_version'', ''binary''),
     (''volume.not_found'', ''volume''), (''volume.already_exists'', ''volume''),
     (''volume.error'', ''volume''), (''volume.resize_failed'', ''volume''),
     (''key.not_found'', ''key''), (''key.already_exists'', ''key''),
     (''key.export.failed'', ''key''), (''key.dependency.missing'', ''key''),
     (''key.create_failed'', ''key''), (''key.add_failed'', ''key''),
     (''key.default_set_failed'', ''key''), (''key.defaults_clear_failed'', ''key''),
     (''host.init.failed'', ''host''), (''host.clean.failed'', ''host''),
     (''host.reset.failed'', ''host''), (''host.privilege.required'', ''host''),
     (''host.init.sudoers.failed'', ''host''), (''host.info_failed'', ''host''),
     (''host.capacity_failed'', ''host''), (''cloudinit.provision.failed'', ''cloudinit''),
     (''cloudinit.net_mode.failed'', ''cloudinit''),
     (''cloudinit.iso_mode.failed'', ''cloudinit''),
     (''cloudinit.inject.failed'', ''cloudinit''), (''cloudinit.mode.error'', ''cloudinit''),
     (''cloudinit.off_mode.error'', ''cloudinit''), (''console.relay.failed'', ''console''),
     (''console.not_running'', ''console''), (''console.kill_failed'', ''console''),
     (''logs.error'', ''logs''), (''firecracker.error'', ''vm''),
     (''firecracker.client.error'', ''vm''), (''firecracker.spawn.failed'', ''vm''),
     (''firecracker.config.failed'', ''vm''), (''firecracker.socket.not_found'', ''vm''),
     (''guestfs.error'', ''guestfs''), (''guestfs.not_available'', ''guestfs''),
     (''guestfs.write.failed'', ''guestfs''), (''loopmount.error'', ''loopmount''),
     (''loopmount.binary.not_found'', ''loopmount''), (''loopmount.timeout'', ''loopmount''),
     (''ssh.error'', ''ssh''), (''cp.error'', ''cp''), (''cp.source.not_found'', ''cp''),
     (''cp.source.failed'', ''cp''), (''cp.copy.failed'', ''cp''),
     (''cp.destination.exists'', ''cp''), (''cp.destination.failed'', ''cp''),
     (''cp.destination.not_directory'', ''cp''),
     (''cp.multi_source_no_vm_destination'', ''cp''), (''cp.resolve_failed'', ''cp''),
     (''cp.no_vm_specified'', ''cp''), (''cp.vm_no_ip'', ''cp''),
     (''cp.vm_not_found'', ''cp''), (''bundled_asset.error'', ''asset''),
     (''bundled_asset.not_found'', ''asset''), (''vsock.upgrade_in_progress'', ''vsock''),
     (''cache.clean_failed'', ''cache''), (''snapshot.not_found'', ''snapshot''),
     (''snapshot.already_exists'', ''snapshot''), (''snapshot.create_failed'', ''snapshot''),
     (''snapshot.restore_failed'', ''snapshot''), (''snapshot.remove_failed'', ''snapshot''),
     (''database.error'', ''db''), (''database.migration.failed'', ''db''),
     (''process.error'', ''process''), (''download.failed'', ''download''),
     (''http.error'', ''http''), (''config.error'', ''config''),
     (''network.error'', ''network''), (''key.error'', ''key''),
     (''version.resolve.failed'', ''version''), (''validation.failed'', ''''),
     (''internal'', ''''), (''not_implemented'', '''')]"

definition classForCode :: "code \<Rightarrow> err_class" where
  "classForCode c = (case map_of codeClassMap c of Some k \<Rightarrow> k | None \<Rightarrow> ClassUnknown)"

definition opForCode :: "code \<Rightarrow> string" where
  "opForCode c = (case map_of codeOpMap c of Some op \<Rightarrow> op | None \<Rightarrow> '''')"

subsection \<open>Errors and their constructors\<close>

text \<open>An error is a domain error or a plain one; either may wrap another.\<close>

datatype err =
    Domain (de_code: code) (de_message: string) (de_op: string) (de_entity: string)
      (de_class: err_class) (de_err: "err option")
  | Plain string "err option"

fun err_text :: "err \<Rightarrow> string" where
  "err_text (Domain c m op en k e) = m"
| "err_text (Plain m e) = m"

fun AsDomainError :: "err \<Rightarrow> err option" where
  "AsDomainError (Domain c m op en k e) = Some (Domain c m op en k e)"
| "AsDomainError (Plain m None) = None"
| "AsDomainError (Plain m (Some e)) = AsDomainError e"

definition classFrom :: "err \<Rightarrow> err_class" where
  "classFrom e = (case AsDomainError e of Some d \<Rightarrow> de_class d | None \<Rightarrow> ClassUnknown)"

definition New :: "code \<Rightarrow> string \<Rightarrow> err" where
  "New c m = Domain c m (opForCode c) '''' (classForCode c) None"

definition WrapMsg :: "code \<Rightarrow> string \<Rightarrow> err \<Rightarrow> err" where
  "WrapMsg c m e = Domain c m (opForCode c) '''' (classFrom e) (Some e)"

definition Wrap :: "code \<Rightarrow> err \<Rightarrow> err" where
  "Wrap c e = WrapMsg c (err_text e) e"

definition NotFound :: "code \<Rightarrow> string \<Rightarrow> err" where
  "NotFound c m = Domain c m (opForCode c) '''' ClassValidation None"

definition AlreadyExists :: "code \<Rightarrow> string \<Rightarrow> err" where
  "AlreadyExists c m = Domain c m (opForCode c) '''' ClassConflict None"

definition WithClass :: "err_class \<Rightarrow> err \<Rightarrow> err" where
  "WithClass k e = (case e of Domain c m op en k' w \<Rightarrow> Domain c m op en k w | Plain m w \<Rightarrow> Plain m w)"

definition WithEntity :: "string \<Rightarrow> err \<Rightarrow> err" where
  "WithEntity n e = (case e of Domain c m op en k w \<Rightarrow> Domain c m op n k w | Plain m w \<Rightarrow> Plain m w)"

subsection \<open>Checks\<close>

definition not_found_codes :: "code list" where
  "not_found_codes = [
     ''vm.not_found'', ''network.not_found'', ''image.not_found'', ''kernel.not_found'',
     ''binary.not_found'', ''volume.not_found'', ''key.not_found'', ''cp.source.not_found'',
     ''bundled_asset.not_found'', ''firecracker.socket.not_found'',
     ''loopmount.binary.not_found'', ''cp.vm_not_found'', ''snapshot.not_found'']"

fun IsNotFound :: "err \<Rightarrow> bool" where
  "IsNotFound (Domain c m op en k None) = (c \<in> set not_found_codes)"
| "IsNotFound (Domain c m op en k (Some e)) = (c \<in> set not_found_codes \<or> IsNotFound e)"
| "IsNotFound (Plain m None) = False"
| "IsNotFound (Plain m (Some e)) = IsNotFound e"

definition IsRetryable :: "err \<Rightarrow> bool" where
  "IsRetryable e \<longleftrightarrow> (case AsDomainError e of Some d \<Rightarrow> de_class d = ClassRetryable | None \<Rightarrow> False)"

definition IsNeedsInteraction :: "err \<Rightarrow> bool" where
  "IsNeedsInteraction e \<longleftrightarrow>
     (case AsDomainError e of Some d \<Rightarrow> de_class d = ClassNeedsInteraction | None \<Rightarrow> False)"

lemma WrapMsg_class [simp]: "classFrom (WrapMsg c m e) = classFrom e"
  by (simp add: classFrom_def WrapMsg_def)

lemma IsNotFound_WrapMsg [simp]:
  "IsNotFound (WrapMsg c m e) \<longleftrightarrow> c \<in> set not_found_codes \<or> IsNotFound e"
  by (simp add: WrapMsg_def)

lemma New_code [simp]: "de_code (New c m) = c" "de_op (New c m) = opForCode c"
  by (simp_all add: New_def)

lemma op_of_used [simp]:
  "opForCode ''network.error'' = ''network''"
  by code_simp

lemma class_of_used [simp]:
  "classForCode ''vm.not_running'' = ClassUnknown"
  by code_simp

text \<open>
  Wrapping an error any number of times keeps its class, and the not-found check sees
  through every wrap: it holds exactly when it held before or one of the wrapping codes is a
  not-found code.
\<close>

lemma wrap_chain:
  "classFrom (foldr (\<lambda>(c, m). WrapMsg c m) ws e) = classFrom e \<and>
   (IsNotFound (foldr (\<lambda>(c, m). WrapMsg c m) ws e) \<longleftrightarrow>
      IsNotFound e \<or> (\<exists>w. w \<in> set ws \<and> fst w \<in> set not_found_codes))"
  by (induction ws) (auto split: prod.splits)

end
