(* ===== verification/NetAddr.thy ===== *)
theory NetAddr
  imports GoStrings Errs
begin

text \<open>
  Addresses and subnets: the arithmetic and allocation of \<open>internal/lib/network/network.go\<close> and
  the checks of \<open>internal/lib/validators/validators.go\<close>. An IPv4 address is four bytes, an IPv6
  address a word of 128 bits. Text is parsed as Go's \<open>net.ParseIP\<close> and \<open>net.ParseCIDR\<close> do, IPv6
  and the IPv4-mapped notation included, because the code calls them on whatever it is given
  and branches on \<open>To4\<close> afterwards.
\<close>

unbundle bit_operations_syntax

subsection \<open>Addresses as bytes and as a word\<close>

type_synonym ip4 = "8 word \<times> 8 word \<times> 8 word \<times> 8 word"

definition ipToInt :: "ip4 \<Rightarrow> 32 word" where
  "ipToInt ip = (case ip of (a, b, c, d) \<Rightarrow>
     push_bit 24 (ucast a) OR push_bit 16 (ucast b) OR push_bit 8 (ucast c) OR ucast d)"

definition intToIP :: "32 word \<Rightarrow> ip4" where
  "intToIP n = (ucast (drop_bit 24 n), ucast (drop_bit 16 n), ucast (drop_bit 8 n), ucast n)"

lemma bit_ipToInt:
  "bit (ipToInt (a, b, c, d)) n \<longleftrightarrow>
     (if n < 8 then bit d n else if n < 16 then bit c (n - 8)
      else if n < 24 then bit b (n - 16) else n < 32 \<and> bit a (n - 24))"
proof -
  have "\<not> bit (x :: 8 word) m" if "8 \<le> m" for x m
    using that bit_imp_le_length [of x m] by auto
  then show ?thesis
    by (auto simp: ipToInt_def bit_or_iff bit_push_bit_iff bit_ucast_iff)
qed

lemma intToIP_ipToInt [simp]: "intToIP (ipToInt ip) = ip"
proof -
  obtain a b c d where ip: "ip = (a, b, c, d)" by (cases ip) auto
  have "ucast (drop_bit 24 (ipToInt ip)) = a"
    by (rule bit_word_eqI) (simp add: ip bit_ucast_iff bit_drop_bit_eq bit_ipToInt)
  moreover have "ucast (drop_bit 16 (ipToInt ip)) = b"
    by (rule bit_word_eqI) (simp add: ip bit_ucast_iff bit_drop_bit_eq bit_ipToInt)
  moreover have "ucast (drop_bit 8 (ipToInt ip)) = c"
    by (rule bit_word_eqI) (simp add: ip bit_ucast_iff bit_drop_bit_eq bit_ipToInt)
  moreover have "ucast (ipToInt ip) = d"
    by (rule bit_word_eqI) (simp add: ip bit_ucast_iff bit_ipToInt)
  ultimately show ?thesis by (simp add: intToIP_def ip)
qed

lemma ipToInt_intToIP [simp]: "ipToInt (intToIP n) = n"
  by (rule bit_word_eqI) (auto simp: intToIP_def bit_ipToInt bit_ucast_iff bit_drop_bit_eq)

lemma ipToInt_inj: "ipToInt x = ipToInt y \<longleftrightarrow> x = y"
  by (metis intToIP_ipToInt)

lemma unat_ipToInt:
  "unat (ipToInt (a, b, c, d)) = unat a * 2 ^ 24 + unat b * 2 ^ 16 + unat c * 2 ^ 8 + unat d"
proof -
  have e: "ipToInt (a, b, c, d) = push_bit 24 (ucast a) + push_bit 16 (ucast b) + push_bit 8 (ucast c) + ucast d"
    (is "_ = ?A + ?B + ?C + ?D")
  proof -
    have s: "\<not> bit (x :: 8 word) m" if "8 \<le> m" for x m
      using that bit_imp_le_length [of x m] by auto
    have 1: "?A + ?B = ?A OR ?B"
      by (rule disjunctive_add) (auto simp: bit_push_bit_iff bit_ucast_iff s)
    have 2: "(?A OR ?B) + ?C = ?A OR ?B OR ?C"
      by (rule trans, rule disjunctive_add)
        (auto simp: bit_push_bit_iff bit_ucast_iff bit_or_iff s ac_simps)
    have 3: "(?A OR ?B OR ?C) + ?D = ?A OR ?B OR ?C OR ?D"
      by (rule trans, rule disjunctive_add)
        (auto simp: bit_push_bit_iff bit_ucast_iff bit_or_iff s ac_simps)
    show ?thesis using 1 2 3 by (simp add: ipToInt_def)
  qed
  have b: "unat (x :: 8 word) < 256" for x using unsigned_less [of x, where ?'a = nat] by simp
  have p: "unat (push_bit n (ucast x :: 32 word)) = unat (x :: 8 word) * 2 ^ n" if "n \<le> 24" for n x
  proof -
    have "(2::nat) ^ n \<le> 2 ^ 24" using that by (intro power_increasing) auto
    then have "unat x * 2 ^ n \<le> 255 * 2 ^ 24" using b [of x] by (intro mult_le_mono) auto
    then have less: "unat x * 2 ^ n < 4294967296" by simp
    have "unat x < 2 ^ 32" using b [of x] by simp
    then have u: "unat (ucast x :: 32 word) = unat x"
      by (simp add: unsigned_ucast_eq take_bit_nat_eq_self)
    have "unat (push_bit n (ucast x :: 32 word)) = take_bit 32 (push_bit n (unat (ucast x :: 32 word)))"
      by (simp add: unsigned_push_bit_eq)
    then show ?thesis using less by (simp only: u push_bit_eq_mult) (simp add: take_bit_nat_eq_self)
  qed
  have u0: "unat (ucast d :: 32 word) = unat d"
    using p [of 0 d] by simp
  have ab: "unat a \<le> 255" "unat b \<le> 255" "unat c \<le> 255" "unat d \<le> 255"
    using b [of a] b [of b] b [of c] b [of d] by simp_all
  show ?thesis
    unfolding e using ab p [of 24 a] p [of 16 b] p [of 8 c] u0
    by (simp add: unat_word_ariths(1))
qed

lemma byte_less: "unat (x :: 8 word) < 256"
  using unsigned_less [of x, where ?'a = nat] by simp

subsection \<open>Text form\<close>

definition ip_string :: "ip4 \<Rightarrow> string" where
  "ip_string ip = (case ip of (a, b, c, d) \<Rightarrow>
     Join [utoa (unat a), utoa (unat b), utoa (unat c), utoa (unat d)] ''.'')"

text \<open>A field of dotted decimal: digits, no leading zero, at most 255.\<close>

definition octet :: "string \<Rightarrow> (8 word) option" where
  "octet s =
     (if s = [] \<or> (length s > 1 \<and> hd s = CHR ''0'') then None
      else case parse_uint 0 s of
        Inr n \<Rightarrow> if n \<le> 255 then Some (of_nat (nat n)) else None | Inl _ \<Rightarrow> None)"

definition ParseIP4 :: "string \<Rightarrow> ip4 option" where
  "ParseIP4 s = (case map octet (Split s (CHR ''.'')) of
     [Some a, Some b, Some c, Some d] \<Rightarrow> Some (a, b, c, d) | _ \<Rightarrow> None)"

lemma utoa_leading: "length (utoa n) > 1 \<Longrightarrow> hd (utoa n) \<noteq> CHR ''0''"
proof (induction n rule: utoa.induct)
  case (1 n)
  have "10 \<le> n"
  proof (rule ccontr)
    assume "\<not> 10 \<le> n"
    then have "utoa n = [digit_char n]" by (subst utoa.simps) simp
    with "1.prems" show False by simp
  qed
  then have e: "utoa n = utoa (n div 10) @ [digit_char (n mod 10)]" by (subst utoa.simps) simp
  show ?case
  proof (cases "n div 10 < 10")
    case True
    then have u: "utoa (n div 10) = [digit_char (n div 10)]" by (subst utoa.simps) simp
    have "0 < n div 10" using \<open>10 \<le> n\<close> by simp
    then have "digit_val (digit_char (n div 10)) \<noteq> 0" using digit_char [OF True] by simp
    then have "digit_char (n div 10) \<noteq> CHR ''0''" by (auto simp: digit_val_def)
    then show ?thesis by (simp add: e u)
  next
    case False
    then have "utoa (n div 10) = utoa (n div 10 div 10) @ [digit_char (n div 10 mod 10)]"
      by (subst utoa.simps) simp
    then have "length (utoa (n div 10)) > 1" by (cases "utoa (n div 10 div 10)") auto
    then have "hd (utoa (n div 10)) \<noteq> CHR ''0''" using "1.IH" \<open>10 \<le> n\<close> by simp
    then show ?thesis by (simp add: e)
  qed
qed

lemma octet_utoa [go_simps]: "octet (utoa (unat a)) = Some a"
proof -
  have "unat a < 256" by (rule byte_less)
  then have "int (unat a) \<le> max_uint64" unfolding max_uint64_def by linarith
  then have "parse_uint 0 (utoa (unat a)) = Inr (int (unat a))" by (rule parse_uint_utoa)
  moreover have "uint a < 256" using unsigned_less [of a, where ?'a = int] by simp
  ultimately show ?thesis using utoa_leading [of "unat a"] by (auto simp: octet_def)
qed

lemma utoa_no_dot: "CHR ''.'' \<notin> set (utoa n)"
  using utoa_digits is_digit_not_sign by blast

lemma ParseIP4_string [go_simps]: "ParseIP4 (ip_string ip) = Some ip"
proof -
  obtain a b c d where ip: "ip = (a, b, c, d)" by (cases ip) auto
  have "Split (ip_string ip) (CHR ''.'') =
      [utoa (unat a), utoa (unat b), utoa (unat c), utoa (unat d)]"
    unfolding ip_string_def ip prod.case by (rule Split_Join) (auto simp: utoa_no_dot)
  then show ?thesis by (simp add: ParseIP4_def octet_utoa ip)
qed

lemma ip_string_inj: "ip_string x = ip_string y \<longleftrightarrow> x = y"
  using ParseIP4_string by (metis option.inject)

subsection \<open>IPv6 addresses as Go reads them\<close>

type_synonym ip6 = "128 word"

definition hex_digit :: "char \<Rightarrow> int option" where
  "hex_digit c =
     (if CHR ''0'' \<le> c \<and> c \<le> CHR ''9'' then Some (of_char c - 48)
      else if CHR ''a'' \<le> c \<and> c \<le> CHR ''f'' then Some (of_char c - 87)
      else if CHR ''A'' \<le> c \<and> c \<le> CHR ''F'' then Some (of_char c - 55)
      else None)"

text \<open>One group: one to four hexadecimal digits, and what follows them.\<close>

definition hex_group :: "string \<Rightarrow> (int \<times> string) option" where
  "hex_group s =
     (let ds = takeWhile (\<lambda>c. hex_digit c \<noteq> None) s
      in if ds = [] \<or> length ds > 4 then None
         else Some (foldl (\<lambda>n c. 16 * n + the (hex_digit c)) 0 ds, drop (length ds) s))"

lemma hex_group_shorter: "hex_group s = Some (g, r) \<Longrightarrow> length r < length s"
  by (auto simp: hex_group_def Let_def split: if_splits)
    (metis length_greater_0_conv takeWhile.simps(1) diff_less)

definition add_group :: "8 word list \<Rightarrow> int \<Rightarrow> 8 word list" where
  "add_group bs g = bs @ [word_of_int (g div 256), word_of_int (g mod 256)]"

text \<open>
  One turn of the loop over the groups: the bytes read so far and where the double colon was. A
  group that a dot follows starts an IPv4 address, which must end the text and fill four bytes.
\<close>

datatype hex_turn = HexDone "(8 word list \<times> nat option) option" | HexMore string "8 word list" "nat option"

definition hex_turn_of :: "string \<Rightarrow> 8 word list \<Rightarrow> nat option \<Rightarrow> hex_turn" where
  "hex_turn_of s bs dc =
     (case hex_group s of
        None \<Rightarrow> HexDone None
      | Some (g, r) \<Rightarrow>
          if r \<noteq> [] \<and> hd r = CHR ''.'' then
            if dc = None \<and> length bs \<noteq> 12 \<or> length bs + 4 > 16 then HexDone None
            else (case ParseIP4 s of
                None \<Rightarrow> HexDone None
              | Some (a, b, c, d) \<Rightarrow> HexDone (Some (bs @ [a, b, c, d], dc)))
          else if r = [] then HexDone (Some (add_group bs g, dc))
          else if hd r \<noteq> CHR '':'' \<or> tl r = [] then HexDone None
          else if hd (tl r) \<noteq> CHR '':'' then HexMore (tl r) (add_group bs g) dc
          else if dc \<noteq> None then HexDone None
          else if tl (tl r) = [] then HexDone (Some (add_group bs g, Some (length bs + 2)))
          else HexMore (tl (tl r)) (add_group bs g) (Some (length bs + 2)))"

lemma hex_turn_shorter: "hex_turn_of s bs dc = HexMore s' bs' dc' \<Longrightarrow> length s' < length s"
proof (cases "hex_group s")
  case (Some x)
  assume "hex_turn_of s bs dc = HexMore s' bs' dc'"
  moreover obtain g r where "x = (g, r)" by (cases x)
  moreover have "length r < length s" using Some hex_group_shorter \<open>x = (g, r)\<close> by blast
  ultimately show ?thesis using Some
    by (cases r; cases "tl r") (auto simp: hex_turn_of_def split: if_splits option.splits)
qed (simp add: hex_turn_of_def)

function hex_groups :: "string \<Rightarrow> 8 word list \<Rightarrow> nat option \<Rightarrow> (8 word list \<times> nat option) option" where
  "hex_groups s bs dc =
     (if length bs \<ge> 16 then if s = [] then Some (bs, dc) else None
      else case hex_turn_of s bs dc of
        HexDone r \<Rightarrow> r
      | HexMore s' bs' dc' \<Rightarrow> hex_groups s' bs' dc')"
  by pat_completeness auto
termination by (relation "measure (\<lambda>(s, bs, dc). length s)") (auto dest: hex_turn_shorter)

declare hex_groups.simps [simp del]

text \<open>The double colon stands for the bytes that are missing, and for two at least.\<close>

definition fill_zeros :: "8 word list \<times> nat option \<Rightarrow> (8 word list) option" where
  "fill_zeros r = (case r of (bs, dc) \<Rightarrow>
     if length bs < 16 then
       (case dc of None \<Rightarrow> None | Some e \<Rightarrow> Some (take e bs @ replicate (16 - length bs) 0 @ drop e bs))
     else if dc \<noteq> None then None else Some bs)"

definition bytes_ip6 :: "8 word list \<Rightarrow> ip6" where
  "bytes_ip6 bs = foldl (\<lambda>x b. push_bit 8 x OR ucast b) 0 bs"

definition ParseIP6 :: "string \<Rightarrow> ip6 option" where
  "ParseIP6 s =
     (let start = (if HasPrefix s ''::'' then Some 0 else None);
          rest = (if HasPrefix s ''::'' then drop 2 s else s)
      in if start = Some 0 \<and> rest = [] then Some 0
         else map_option bytes_ip6 (Option.bind (hex_groups rest [] start) fill_zeros))"

datatype addr = V4 ip4 | V6 ip6

text \<open>
  \<open>netip.ParseAddr\<close> without the addresses that name a zone, which \<open>net.ParseIP\<close> and
  \<open>net.ParseCIDR\<close> refuse: the first dot or colon decides the family.
\<close>

definition ParseAddr :: "string \<Rightarrow> addr option" where
  "ParseAddr s =
     (if CHR ''%'' \<in> set s then None
      else case find_first (\<lambda>c. c = CHR ''.'' \<or> c = CHR '':'') s of
        None \<Rightarrow> None
      | Some c \<Rightarrow> if c = CHR ''.'' then map_option V4 (ParseIP4 s) else map_option V6 (ParseIP6 s))"

text \<open>The sixteen bytes of an address (IPv4-mapped for an IPv4 address), which \<open>Equal\<close> compares.\<close>

definition mapped :: "ip4 \<Rightarrow> ip6" where
  "mapped ip = push_bit 32 0xFFFF OR ucast (ipToInt ip)"

definition As16 :: "addr \<Rightarrow> ip6" where
  "As16 a = (case a of V4 ip \<Rightarrow> mapped ip | V6 x \<Rightarrow> x)"

definition To4 :: "ip6 \<Rightarrow> ip4 option" where
  "To4 x = (if drop_bit 32 x = 0xFFFF then Some (intToIP (ucast x)) else None)"

lemma bit_mapped: "bit (mapped ip) j \<longleftrightarrow> (if j < 32 then bit (ipToInt ip) j else j < 48)"
proof -
  have m: "(0xFFFF :: ip6) = mask 16" by (simp add: mask_eq_exp_minus_1)
  show ?thesis unfolding mapped_def m
    by (auto simp: bit_or_iff bit_push_bit_iff bit_ucast_iff bit_mask_iff dest: bit_imp_le_length)
qed

lemma To4_mapped [go_simps]: "To4 (mapped ip) = Some ip"
proof -
  have m: "(0xFFFF :: ip6) = mask 16" by (simp add: mask_eq_exp_minus_1)
  have "drop_bit 32 (mapped ip) = 0xFFFF" unfolding m
    by (rule bit_word_eqI) (auto simp: bit_drop_bit_eq bit_mapped bit_mask_iff)
  moreover have "ucast (mapped ip) = ipToInt ip"
    by (rule bit_word_eqI) (simp add: bit_ucast_iff bit_mapped)
  ultimately show ?thesis by (simp add: To4_def)
qed

lemma mapped_To4: "To4 x = Some ip \<Longrightarrow> x = mapped ip"
proof -
  assume "To4 x = Some ip"
  then have d: "drop_bit 32 x = 0xFFFF" and ip: "ipToInt ip = ucast x"
    by (auto simp: To4_def split: if_splits)
  have m: "(0xFFFF :: ip6) = mask 16" by (simp add: mask_eq_exp_minus_1)
  show ?thesis
  proof (rule bit_word_eqI)
    fix j assume "j < LENGTH(128)"
    show "bit x j = bit (mapped ip) j"
    proof (cases "j < 32")
      case True
      then show ?thesis by (simp add: bit_mapped ip bit_ucast_iff)
    next
      case False
      have "bit (drop_bit 32 x) (j - 32) \<longleftrightarrow> bit (mask 16 :: ip6) (j - 32)" using d m by simp
      with False \<open>j < LENGTH(128)\<close> show ?thesis by (auto simp: bit_drop_bit_eq bit_mapped bit_mask_iff)
    qed
  qed
qed

definition ParseIP :: "string \<Rightarrow> ip6 option" where
  "ParseIP s = map_option As16 (ParseAddr s)"

subsection \<open>Subnets\<close>

record ipnet =
  net_ip :: ip4
  net_ones :: nat

definition netmask :: "nat \<Rightarrow> 32 word" where
  "netmask ones = push_bit (32 - ones) (- 1)"

definition netmask6 :: "nat \<Rightarrow> 128 word" where
  "netmask6 ones = push_bit (128 - ones) (- 1)"

text \<open>What \<open>net.ParseCIDR\<close> returns: a masked address and a mask of its family.\<close>

datatype parsed_net = Net4 ipnet | Net6 ip6 nat

text \<open>The prefix length of a CIDR: decimal digits of a number that is at most the width.\<close>

definition prefix_len :: "nat \<Rightarrow> string \<Rightarrow> nat option" where
  "prefix_len w s = (if s = [] then None
     else case parse_uint 0 s of Inr n \<Rightarrow> if n \<le> int w then Some (nat n) else None | Inl _ \<Rightarrow> None)"

definition ParseCIDR :: "string \<Rightarrow> parsed_net option" where
  "ParseCIDR s = (case Cut s (CHR ''/'') of (addr, len, found) \<Rightarrow>
     if \<not> found then None
     else case ParseAddr addr of
       None \<Rightarrow> None
     | Some (V4 ip) \<Rightarrow>
         map_option (\<lambda>k. Net4 \<lparr>net_ip = intToIP (ipToInt ip AND netmask k), net_ones = k\<rparr>) (prefix_len 32 len)
     | Some (V6 x) \<Rightarrow> map_option (\<lambda>k. Net6 (x AND netmask6 k) k) (prefix_len 128 len))"

text \<open>\<open>ipnet.IP.To4()\<close>, \<open>ipnet.Mask.Size()\<close> and the first four bytes of the mask.\<close>

definition net_to4 :: "parsed_net \<Rightarrow> ip4 option" where
  "net_to4 p = (case p of Net4 n \<Rightarrow> Some (net_ip n) | Net6 x k \<Rightarrow> To4 x)"

definition mask_ones :: "parsed_net \<Rightarrow> nat" where
  "mask_ones p = (case p of Net4 n \<Rightarrow> net_ones n | Net6 x k \<Rightarrow> k)"

definition mask_bits :: "parsed_net \<Rightarrow> nat" where
  "mask_bits p = (case p of Net4 n \<Rightarrow> 32 | Net6 x k \<Rightarrow> 128)"

definition mask4 :: "parsed_net \<Rightarrow> ip4" where
  "mask4 p = intToIP (case p of Net4 n \<Rightarrow> netmask (net_ones n) | Net6 x k \<Rightarrow> ucast (drop_bit 96 (netmask6 k)))"

text \<open>
  The network as one of IPv4 addresses, where it is one: an IPv4-mapped IPv6 network covers the
  IPv4 addresses whose first \<open>k - 96\<close> bits are its own.
\<close>

definition net4 :: "parsed_net \<Rightarrow> ipnet option" where
  "net4 p = (case p of Net4 n \<Rightarrow> Some n
     | Net6 x k \<Rightarrow> map_option (\<lambda>ip. \<lparr>net_ip = ip, net_ones = k - 96\<rparr>) (To4 x))"

definition IPv4CIDR :: "string \<Rightarrow> ipnet option" where
  "IPv4CIDR s = Option.bind (ParseCIDR s) net4"

definition Contains_ip :: "ipnet \<Rightarrow> ip4 \<Rightarrow> bool" where
  "Contains_ip n ip \<longleftrightarrow> ipToInt (net_ip n) AND netmask (net_ones n) = ipToInt ip AND netmask (net_ones n)"

definition net_string :: "ipnet \<Rightarrow> string" where
  "net_string n = ip_string (net_ip n) @ ''/'' @ utoa (net_ones n)"

definition ComputeSubnetMask :: "string \<Rightarrow> string" where
  "ComputeSubnetMask s = (case ParseCIDR s of None \<Rightarrow> '''' | Some p \<Rightarrow> ip_string (mask4 p))"

definition ComputePrefixLength :: "string \<Rightarrow> nat" where
  "ComputePrefixLength s = (case ParseCIDR s of None \<Rightarrow> 0 | Some p \<Rightarrow> mask_ones p)"

definition CountHosts :: "parsed_net \<Rightarrow> nat" where
  "CountHosts p = (case net_to4 p of
     None \<Rightarrow> 0
   | Some _ \<Rightarrow> let tot = 2 ^ (mask_bits p - mask_ones p) in if tot \<le> 2 then tot else tot - 2)"

text \<open>\<open>ipToInt(ipnet.IP.To4())\<close>: 0 for an IPv6 network.\<close>

definition first_number :: "parsed_net \<Rightarrow> 32 word" where
  "first_number p = (case net_to4 p of None \<Rightarrow> 0 | Some ip \<Rightarrow> ipToInt ip)"

definition ComputeIPv4Gateway :: "string \<Rightarrow> (err, string) res" where
  "ComputeIPv4Gateway s = (case ParseCIDR s of
     None \<Rightarrow> Err (Plain ''invalid CIDR address'' None)
   | Some p \<Rightarrow> Ok (ip_string (intToIP (first_number p + 1))))"

definition ComputeBridgeAddress :: "string \<Rightarrow> string \<Rightarrow> string" where
  "ComputeBridgeAddress gw s = gw @ ''/'' @ utoa (ComputePrefixLength s)"

text \<open>
  \<open>1 << (bits - ones)\<close> on an \<open>int\<close> of 64 bits. From 63 bits on it is negative or zero and the
  loop below has no candidate, which is what the 0 here gives.
\<close>

definition alloc_total :: "parsed_net \<Rightarrow> nat" where
  "alloc_total p = (if mask_bits p - mask_ones p < 63 then 2 ^ (mask_bits p - mask_ones p) else 0)"

text \<open>The first candidate of the loop \<open>for i := start; i < end; i++\<close> that is free.\<close>

definition alloc_start :: "nat \<Rightarrow> nat" where
  "alloc_start tot = (if tot \<le> 2 then 0 else 1)"

definition alloc_end :: "nat \<Rightarrow> nat" where
  "alloc_end tot = (if tot \<le> 2 then tot else tot - 1)"

definition candidate :: "parsed_net \<Rightarrow> nat \<Rightarrow> string" where
  "candidate p i = ip_string (intToIP (first_number p + of_nat i))"

function first_free :: "(nat \<Rightarrow> bool) \<Rightarrow> nat \<Rightarrow> nat \<Rightarrow> nat option" where
  "first_free p i e = (if i < e then if p i then Some i else first_free p (Suc i) e else None)"
  by pat_completeness auto
termination by (relation "measure (\<lambda>(p, i, e). e - i)") auto

declare first_free.simps [simp del]

definition AllocateNextIP :: "string list \<Rightarrow> string \<Rightarrow> string \<Rightarrow> (err, string) res" where
  "AllocateNextIP existing subnet gateway =
     (case ParseCIDR subnet of
        None \<Rightarrow> Err (Plain (''invalid subnet '' @ subnet) (Some (Plain ''invalid CIDR address'' None)))
      | Some p \<Rightarrow>
          (let tot = alloc_total p
           in case first_free (\<lambda>i. \<not> (gateway \<noteq> '''' \<and> candidate p i = gateway) \<and> candidate p i \<notin> set existing)
                     (alloc_start tot) (alloc_end tot) of
                Some i \<Rightarrow> Ok (candidate p i)
              | None \<Rightarrow> Err (New ''network.error'' (''No available IPs in subnet '' @ subnet))))"

lemma first_free_step:
  "first_free p i e = (if i < e then if p i then Some i else first_free p (Suc i) e else None)"
  by (rule first_free.simps)

lemma first_free_Some:
  "first_free p i e = Some k \<Longrightarrow> i \<le> k \<and> k < e \<and> p k \<and> (\<forall>j. i \<le> j \<longrightarrow> j < k \<longrightarrow> \<not> p j)"
proof (induction p i e rule: first_free.induct)
  case (1 p i e)
  show ?case
  proof (cases "i < e \<and> \<not> p i")
    case True
    with "1.prems" have "first_free p (Suc i) e = Some k" by (simp add: first_free_step [of p i])
    with "1.IH" True have "Suc i \<le> k \<and> k < e \<and> p k \<and> (\<forall>j. Suc i \<le> j \<longrightarrow> j < k \<longrightarrow> \<not> p j)" by simp
    with True show ?thesis by (metis Suc_leD Suc_leI le_neq_implies_less)
  next
    case False
    with "1.prems" show ?thesis by (auto simp: first_free_step [of p i] split: if_splits)
  qed
qed

lemma first_free_None: "first_free p i e = None \<Longrightarrow> i \<le> j \<Longrightarrow> j < e \<Longrightarrow> \<not> p j"
proof (induction p i e rule: first_free.induct)
  case (1 p i e)
  have ie: "i < e" using "1.prems" by simp
  then have np: "\<not> p i" "first_free p (Suc i) e = None"
    using "1.prems"(1) by (auto simp: first_free_step [of p i] split: if_splits)
  with 1 ie show ?case by (cases "i = j") auto
qed

subsection \<open>Which addresses a subnet has\<close>

definition host_count :: "ipnet \<Rightarrow> nat" where
  "host_count n = 2 ^ (32 - net_ones n)"

definition base :: "ipnet \<Rightarrow> nat" where
  "base n = unat (ipToInt (net_ip n))"

definition wf_net :: "ipnet \<Rightarrow> bool" where
  "wf_net n \<longleftrightarrow> net_ones n \<le> 32 \<and> ipToInt (net_ip n) AND netmask (net_ones n) = ipToInt (net_ip n)"

lemma bit_netmask: "bit (netmask k) j \<longleftrightarrow> 32 - k \<le> j \<and> j < 32"
  by (auto simp: netmask_def bit_push_bit_iff bit_not_iff bit_mask_iff)

lemma bit_netmask6: "bit (netmask6 k) j \<longleftrightarrow> 128 - k \<le> j \<and> j < 128"
  by (auto simp: netmask6_def bit_push_bit_iff bit_not_iff bit_mask_iff)

text \<open>The mask of an IPv4-mapped network keeps the first 96 bits whole.\<close>

lemma masked_To4:
  assumes "To4 (x AND netmask6 k) = Some ip" "k \<le> 128"
  shows "96 \<le> k" "ipToInt ip AND netmask (k - 96) = ipToInt ip"
proof -
  have x: "bit (mapped ip) j \<longleftrightarrow> bit x j \<and> 128 - k \<le> j \<and> j < 128" for j
    using mapped_To4 [OF assms(1)] by (metis bit_and_iff bit_netmask6)
  have "bit (mapped ip) 32" by (simp add: bit_mapped)
  with x have "128 - k \<le> 32" by blast
  then show k: "96 \<le> k" by arith
  have "bit (ipToInt ip) j \<Longrightarrow> 128 - k \<le> j" if "j < 32" for j
    using x [of j] that by (simp add: bit_mapped)
  then show "ipToInt ip AND netmask (k - 96) = ipToInt ip"
    by (intro bit_word_eqI) (use k assms(2) in \<open>auto simp: bit_and_iff bit_netmask\<close>)
qed

lemma IPv4CIDR_wf: "IPv4CIDR s = Some n \<Longrightarrow> wf_net n"
proof -
  assume "IPv4CIDR s = Some n"
  then obtain p where p: "ParseCIDR s = Some p" "net4 p = Some n" by (auto simp: IPv4CIDR_def bind_eq_Some_conv)
  show ?thesis
  proof (cases p)
    case (Net4 m)
    with p show ?thesis
      by (auto simp: ParseCIDR_def net4_def wf_net_def prefix_len_def and.assoc
          split: prod.splits option.splits sum.splits if_splits addr.splits)
  next
    case (Net6 x k)
    with p obtain y where y: "x = y AND netmask6 k" "k \<le> 128"
      by (auto simp: ParseCIDR_def prefix_len_def
          split: prod.splits option.splits sum.splits if_splits addr.splits)
    obtain ip where ip: "To4 x = Some ip" "n = \<lparr>net_ip = ip, net_ones = k - 96\<rparr>"
      using p Net6 by (auto simp: net4_def)
    from masked_To4 [of y k ip] show ?thesis using y ip by (simp add: wf_net_def)
  qed
qed

text \<open>What the code computes of an IPv4 network, written in either notation.\<close>

lemma net4_facts:
  assumes "ParseCIDR s = Some p" "net4 p = Some n"
  shows "net_to4 p = Some (net_ip n)" "mask_bits p - mask_ones p = 32 - net_ones n"
    "alloc_total p = 2 ^ (32 - net_ones n)" "first_number p = ipToInt (net_ip n)"
proof -
  show t: "net_to4 p = Some (net_ip n)" and m: "mask_bits p - mask_ones p = 32 - net_ones n"
  proof -
    have "net_to4 p = Some (net_ip n) \<and> mask_bits p - mask_ones p = 32 - net_ones n"
    proof (cases p)
      case (Net4 m)
      with assms(2) show ?thesis by (simp add: net_to4_def net4_def mask_bits_def mask_ones_def)
    next
      case (Net6 x k)
      with assms(1) obtain y where y: "x = y AND netmask6 k" "k \<le> 128"
        by (auto simp: ParseCIDR_def prefix_len_def
            split: prod.splits option.splits sum.splits if_splits addr.splits)
      obtain ip where ip: "To4 x = Some ip" "n = \<lparr>net_ip = ip, net_ones = k - 96\<rparr>"
        using assms(2) Net6 by (auto simp: net4_def)
      from masked_To4(1) [of y k ip] show ?thesis
        using y ip Net6 by (simp add: net_to4_def mask_bits_def mask_ones_def)
    qed
    then show "net_to4 p = Some (net_ip n)" "mask_bits p - mask_ones p = 32 - net_ones n" by simp_all
  qed
  show "alloc_total p = 2 ^ (32 - net_ones n)" by (simp add: alloc_total_def m)
  show "first_number p = ipToInt (net_ip n)" by (simp add: first_number_def t)
qed

lemma and_netmask: "x AND netmask k = push_bit (32 - k) (drop_bit (32 - k) x)"
  by (rule bit_word_eqI)
    (auto simp: netmask_def bit_and_iff bit_push_bit_iff bit_drop_bit_eq bit_not_iff bit_mask_iff)

lemma and_netmask_eq:
  "x AND netmask k = y AND netmask k \<longleftrightarrow> unat x div 2 ^ (32 - k) = unat y div 2 ^ (32 - k)"
proof -
  have "x AND netmask k = y AND netmask k \<longleftrightarrow> drop_bit (32 - k) x = drop_bit (32 - k) y"
  proof
    assume "x AND netmask k = y AND netmask k"
    then have "drop_bit (32 - k) (push_bit (32 - k) (drop_bit (32 - k) x)) =
        drop_bit (32 - k) (push_bit (32 - k) (drop_bit (32 - k) y))"
      by (simp only: and_netmask)
    moreover have "drop_bit (32 - k) (push_bit (32 - k) (drop_bit (32 - k) z)) = drop_bit (32 - k) z"
      for z :: "32 word"
      by (rule bit_word_eqI)
        (auto simp: bit_push_bit_iff bit_drop_bit_eq dest: bit_imp_le_length)
    ultimately show "drop_bit (32 - k) x = drop_bit (32 - k) y" by simp
  qed (simp add: and_netmask)
  also have "\<dots> \<longleftrightarrow> unat (drop_bit (32 - k) x) = unat (drop_bit (32 - k) y)"
    using word_unat_eq_iff by blast
  also have "unat (drop_bit (32 - k) x) = unat x div 2 ^ (32 - k)"
    unfolding unat_drop_bit_eq by (simp add: drop_bit_eq_div)
  also have "unat (drop_bit (32 - k) y) = unat y div 2 ^ (32 - k)"
    unfolding unat_drop_bit_eq by (simp add: drop_bit_eq_div)
  finally show ?thesis .
qed

lemma base_dvd: "wf_net n \<Longrightarrow> host_count n dvd base n"
proof -
  assume "wf_net n"
  then have "push_bit (32 - net_ones n) (drop_bit (32 - net_ones n) (ipToInt (net_ip n))) = ipToInt (net_ip n)"
    by (simp add: wf_net_def and_netmask)
  then have "take_bit (32 - net_ones n) (ipToInt (net_ip n)) = 0"
    by (metis take_bit_push_bit diff_self_eq_0 push_bit_0_id take_bit_0 take_bit_of_0 push_bit_of_0
        diff_is_0_eq le_refl id_apply)
  then have "take_bit (32 - net_ones n) (base n) = 0"
    by (metis base_def unsigned_take_bit_eq unsigned_0)
  then show ?thesis by (simp add: host_count_def take_bit_eq_mod mod_0_imp_dvd)
qed

lemma host_count_pos: "0 < host_count n"
  by (simp add: host_count_def)

lemma host_count_le: "host_count n \<le> 4294967296"
proof -
  have "(2::nat) ^ (32 - net_ones n) \<le> 2 ^ 32" by (intro power_increasing) auto
  then show ?thesis by (simp add: host_count_def)
qed

lemma div_window: "0 < h \<Longrightarrow> q = x div h \<longleftrightarrow> h * q \<le> x \<and> x < h * q + h" for h q x :: nat
proof
  assume h: "0 < h" and q: "q = x div h"
  show "h * q \<le> x \<and> x < h * q + h"
    unfolding q using mult_div_mod_eq [of h x] mod_less_divisor [OF h, of x] by linarith
next
  assume "0 < h" "h * q \<le> x \<and> x < h * q + h"
  then have "x div h = q" by (intro div_nat_eqI) auto
  then show "q = x div h" by (rule sym)
qed

lemma contains_iff:
  assumes "wf_net n"
  shows "Contains_ip n ip \<longleftrightarrow> base n \<le> unat (ipToInt ip) \<and> unat (ipToInt ip) < base n + host_count n"
proof -
  obtain q where q: "base n = host_count n * q" using base_dvd [OF assms] by (auto elim: dvdE)
  have "Contains_ip n ip \<longleftrightarrow> base n div host_count n = unat (ipToInt ip) div host_count n"
    by (simp add: Contains_ip_def and_netmask_eq base_def host_count_def)
  also have "\<dots> \<longleftrightarrow> q = unat (ipToInt ip) div host_count n"
    using host_count_pos [of n] by (simp add: q)
  also have "\<dots> \<longleftrightarrow> base n \<le> unat (ipToInt ip) \<and> unat (ipToInt ip) < base n + host_count n"
    unfolding q using div_window [OF host_count_pos] by blast
  finally show ?thesis .
qed

lemma base_bound:
  assumes "wf_net n"
  shows "base n + host_count n \<le> 4294967296"
proof -
  have b: "base n < 4294967296" using unsigned_less [of "ipToInt (net_ip n)", where ?'a = nat]
    by (simp add: base_def)
  have "host_count n dvd 4294967296"
    using le_imp_power_dvd [of "32 - net_ones n" 32 "2 :: nat"] by (simp add: host_count_def)
  then obtain m where m: "4294967296 = host_count n * m" by (metis dvdE)
  obtain q where q: "base n = host_count n * q" using base_dvd [OF assms] by (auto elim: dvdE)
  from b have "q < m" unfolding q m using host_count_pos [of n] by simp
  then have "host_count n * Suc q \<le> host_count n * m" by (intro mult_le_mono) auto
  then show ?thesis unfolding m q by simp
qed

text \<open>The address with number \<open>i\<close> of a subnet.\<close>

definition host :: "ipnet \<Rightarrow> nat \<Rightarrow> ip4" where
  "host n i = intToIP (ipToInt (net_ip n) + of_nat i)"

lemma host_number:
  assumes "wf_net n" "i < host_count n"
  shows "unat (ipToInt (host n i)) = base n + i"
proof -
  have "base n + i < 2 ^ 32" using base_bound [OF assms(1)] assms(2) by simp
  then have "unat (of_nat i :: 32 word) = i" by (simp add: unsigned_of_nat take_bit_nat_eq_self)
  then show ?thesis
    using \<open>base n + i < 2 ^ 32\<close> by (simp add: host_def base_def unat_word_ariths(1))
qed

lemma contains_host:
  assumes "wf_net n"
  shows "Contains_ip n ip \<longleftrightarrow> (\<exists>i < host_count n. ip = host n i)"
proof
  assume "Contains_ip n ip"
  then have c: "base n \<le> unat (ipToInt ip)" "unat (ipToInt ip) < base n + host_count n"
    using contains_iff [OF assms] by auto
  let ?i = "unat (ipToInt ip) - base n"
  have "?i < host_count n" using c by simp
  moreover from this have "unat (ipToInt (host n ?i)) = unat (ipToInt ip)"
    using host_number [OF assms] c(1) by simp
  then have "ipToInt (host n ?i) = ipToInt ip" by (rule unsigned_word_eqI)
  then have "host n ?i = ip" by (simp only: ipToInt_inj)
  then have "ip = host n ?i" by (rule sym)
  ultimately show "\<exists>i < host_count n. ip = host n i" by (intro exI conjI)
next
  assume "\<exists>i < host_count n. ip = host n i"
  then show "Contains_ip n ip" using contains_iff [OF assms] host_number [OF assms] by auto
qed

text \<open>
  The addresses that can be handed out: all of a subnet with one or two addresses, otherwise
  all but the network and the broadcast address.
\<close>

definition usable :: "ipnet \<Rightarrow> ip4 \<Rightarrow> bool" where
  "usable n ip \<longleftrightarrow> Contains_ip n ip \<and>
     (net_ones n \<le> 30 \<longrightarrow> ip \<noteq> net_ip n \<and> ip \<noteq> host n (host_count n - 1))"

lemma host_0 [simp]: "host n 0 = net_ip n"
  by (simp add: host_def)

lemma host_inj:
  "wf_net n \<Longrightarrow> i < host_count n \<Longrightarrow> j < host_count n \<Longrightarrow> host n i = host n j \<longleftrightarrow> i = j"
  by (metis host_number add_left_cancel)

lemma host_count_small:
  assumes "net_ones n \<le> 32"
  shows "host_count n \<le> 2 \<longleftrightarrow> \<not> net_ones n \<le> 30"
proof (cases "net_ones n \<le> 30")
  case True
  then have "(2::nat) ^ 2 \<le> 2 ^ (32 - net_ones n)" by (intro power_increasing) auto
  with True show ?thesis by (simp add: host_count_def)
next
  case False
  then have "(2::nat) ^ (32 - net_ones n) \<le> 2 ^ 1" by (intro power_increasing) auto
  with False show ?thesis by (simp add: host_count_def)
qed

lemma usable_host:
  assumes "wf_net n"
  shows "usable n ip \<longleftrightarrow> (\<exists>i. alloc_start (host_count n) \<le> i \<and> i < alloc_end (host_count n) \<and> ip = host n i)"
proof (cases "net_ones n \<le> 30")
  case False
  then have "host_count n \<le> 2" using host_count_small assms wf_net_def by blast
  with False show ?thesis
    by (auto simp: usable_def contains_host [OF assms] alloc_start_def alloc_end_def)
next
  case True
  then have hc: "\<not> host_count n \<le> 2" using host_count_small assms wf_net_def by blast
  have "host n i \<noteq> net_ip n \<and> host n i \<noteq> host n (host_count n - 1) \<longleftrightarrow>
      1 \<le> i \<and> i < host_count n - 1" if "i < host_count n" for i
  proof -
    have "host n i = net_ip n \<longleftrightarrow> i = 0"
      using host_inj [OF assms that host_count_pos [of n]] by simp
    moreover have "host n i = host n (host_count n - 1) \<longleftrightarrow> i = host_count n - 1"
      using host_inj [OF assms that, of "host_count n - 1"] host_count_pos [of n] by simp
    ultimately show ?thesis using that by auto
  qed
  then have "usable n ip \<longleftrightarrow> (\<exists>i. i < host_count n \<and> ip = host n i \<and> 1 \<le> i \<and> i < host_count n - 1)"
    using True unfolding usable_def contains_host [OF assms] by metis
  moreover have "i < host_count n - 1 \<Longrightarrow> i < host_count n" for i by simp
  ultimately show ?thesis using hc unfolding alloc_start_def alloc_end_def by metis
qed

lemma host_less: "wf_net n \<Longrightarrow> i < host_count n \<Longrightarrow> j < host_count n \<Longrightarrow>
    ipToInt (host n i) < ipToInt (host n j) \<longleftrightarrow> i < j"
  using host_number by (simp add: word_less_nat_alt)

lemma alloc_end_le: "alloc_end t \<le> t"
  by (simp add: alloc_end_def)

subsection \<open>Allocation\<close>

definition free_ip :: "ipnet \<Rightarrow> string list \<Rightarrow> string \<Rightarrow> ip4 \<Rightarrow> bool" where
  "free_ip n existing gateway ip \<longleftrightarrow>
     usable n ip \<and> ip_string ip \<notin> set existing \<and> ip_string ip \<noteq> gateway"

lemma AllocateNextIP_spec:
  assumes "IPv4CIDR subnet = Some n"
  shows "case AllocateNextIP existing subnet gateway of
      Ok s \<Rightarrow> \<exists>ip. s = ip_string ip \<and> free_ip n existing gateway ip \<and>
        (\<forall>ip'. free_ip n existing gateway ip' \<longrightarrow> ipToInt ip \<le> ipToInt ip')
    | Err e \<Rightarrow> (\<forall>ip. \<not> free_ip n existing gateway ip) \<and> de_code e = ''network.error''"
proof -
  let ?t = "host_count n" and ?free = "free_ip n existing gateway"
  have wf: "wf_net n" using IPv4CIDR_wf [OF assms(1)] .
  obtain p where p: "ParseCIDR subnet = Some p" "net4 p = Some n"
    using assms(1) by (auto simp: IPv4CIDR_def bind_eq_Some_conv)
  have cand: "candidate p i = ip_string (host n i)" for i
    using net4_facts(4) [OF p] by (simp add: candidate_def host_def)
  define ok where "ok i \<longleftrightarrow> \<not> (gateway \<noteq> '''' \<and> candidate p i = gateway) \<and> candidate p i \<notin> set existing" for i
  have ne: "ip_string ip \<noteq> ''''" for ip
    by (cases ip) (auto simp: ip_string_def)
  have free: "?free (host n i) \<longleftrightarrow> usable n (host n i) \<and> ok i" for i
    using ne [of "host n i"] by (auto simp: free_ip_def ok_def cand)
  have run: "AllocateNextIP existing subnet gateway =
      (case first_free ok (alloc_start ?t) (alloc_end ?t) of
         Some i \<Rightarrow> Ok (candidate p i)
       | None \<Rightarrow> Err (New ''network.error'' (''No available IPs in subnet '' @ subnet)))"
    using p(1) net4_facts(3) [OF p] by (simp add: AllocateNextIP_def host_count_def ok_def [abs_def] Let_def)
  have ex: "?free ip \<Longrightarrow> \<exists>i. alloc_start ?t \<le> i \<and> i < alloc_end ?t \<and> ip = host n i \<and> ok i" for ip
    using usable_host [OF wf] free by (metis free_ip_def)
  show ?thesis
  proof (cases "first_free ok (alloc_start ?t) (alloc_end ?t)")
    case None
    then have "\<not> ?free ip" for ip using ex first_free_None [OF None] by metis
    moreover have "AllocateNextIP existing subnet gateway =
        Err (New ''network.error'' (''No available IPs in subnet '' @ subnet))"
      using None run by simp
    ultimately show ?thesis by (simp only: sum.case New_code simp_thms not_False_eq_True)
  next
    case (Some i)
    note f = first_free_Some [OF Some]
    then have i: "?free (host n i)" "i < ?t" using free usable_host [OF wf] alloc_end_le [of ?t] by auto
    have "ipToInt (host n i) \<le> ipToInt ip'" if ip': "?free ip'" for ip'
    proof -
      obtain j where j: "alloc_start ?t \<le> j" "j < alloc_end ?t" "ip' = host n j" "ok j"
        using ex [OF ip'] by blast
      then have "\<not> j < i" "j < ?t" using f alloc_end_le [of ?t] by auto
      then show ?thesis using host_less [OF wf \<open>j < ?t\<close> i(2)] j(3) by (simp add: not_less)
    qed
    moreover have "AllocateNextIP existing subnet gateway = Ok (ip_string (host n i))"
      using Some run by (simp add: cand)
    ultimately show ?thesis using i(1) by (simp only: sum.case) blast
  qed
qed

text \<open>
  C8: on a valid IPv4 subnet (in the IPv4-mapped notation too) AllocateNextIP returns the text of the lowest usable address that is
  neither leased nor the gateway (so never the network or broadcast address of a subnet of
  four or more), and it reports exhaustion exactly when no usable address is free.
\<close>

theorem allocate_lowest_free:
  assumes "IPv4CIDR subnet = Some n"
  shows "case AllocateNextIP existing subnet gateway of
      Ok s \<Rightarrow> \<exists>ip. s = ip_string ip \<and> free_ip n existing gateway ip \<and>
        (\<forall>ip'. free_ip n existing gateway ip' \<longrightarrow> ipToInt ip \<le> ipToInt ip')
    | Err e \<Rightarrow> (\<forall>ip. \<not> free_ip n existing gateway ip) \<and> de_code e = ''network.error''"
  by (rule AllocateNextIP_spec [OF assms])

theorem allocate_lowest_free_witness:
  "AllocateNextIP [''10.0.0.10''] ''10.0.0.8/29'' ''10.0.0.9'' = Ok ''10.0.0.11'' \<and>
   \<not> free_ip \<lparr>net_ip = (10, 0, 0, 8), net_ones = 29\<rparr> [''10.0.0.10''] ''10.0.0.9'' (10, 0, 0, 10)"
proof -
  have p: "IPv4CIDR ''10.0.0.8/29'' = Some \<lparr>net_ip = (10, 0, 0, 8), net_ones = 29\<rparr>" by code_simp
  have a: "AllocateNextIP [''10.0.0.10''] ''10.0.0.8/29'' ''10.0.0.9'' = Ok ''10.0.0.11''" by code_simp
  have s: "ip_string (10, 0, 0, 11) = ''10.0.0.11''" by code_simp
  have "ipToInt (10, 0, 0, 10) < ipToInt (10, 0, 0, 11)" by code_simp
  with allocate_lowest_free [OF p, of "[''10.0.0.10'']" "''10.0.0.9''"] a show ?thesis
    unfolding s [symmetric] by (auto simp: ip_string_inj dest!: leD)
qed

subsection \<open>The checks of a subnet and its gateway\<close>

definition invalid :: "string \<Rightarrow> err" where
  "invalid msg = New ''validation.failed'' msg"

text \<open>\<open>ipnet.String()\<close> of a network that \<open>To4\<close> accepts.\<close>

definition Subnet :: "string \<Rightarrow> (err, string) res" where
  "Subnet s =
     (if s = [] then Err (invalid ''invalid subnet: cannot be empty'')
      else if Contains s '' '' then Err (invalid (''invalid subnet: '' @ s @ '' cannot contain spaces''))
      else case ParseCIDR s of
        None \<Rightarrow> Err (invalid (''invalid subnet: '' @ s @ '' is not a valid IPv4 CIDR''))
      | Some p \<Rightarrow> (case net4 p of
            None \<Rightarrow> Err (invalid (''invalid subnet: '' @ s @ '' does not appear to be an IPv4 network''))
          | Some n \<Rightarrow> Ok (net_string n)))"

text \<open>\<open>IsPrivate\<close> of an IPv4 address.\<close>

definition IsPrivate :: "ip4 \<Rightarrow> bool" where
  "IsPrivate ip \<longleftrightarrow> (case ip of (a, b, c, d) \<Rightarrow>
     a = 10 \<or> a = 172 \<and> b AND 0xF0 = 16 \<or> a = 192 \<and> b = 168)"

text \<open>\<open>ipnet.Contains(ip)\<close> and \<open>ip.Equal(ipnet.IP)\<close> of an IPv4 address.\<close>

definition net_contains :: "parsed_net \<Rightarrow> ip4 \<Rightarrow> bool" where
  "net_contains p ip \<longleftrightarrow> (case net4 p of None \<Rightarrow> False | Some n \<Rightarrow> Contains_ip n ip)"

definition net_is :: "parsed_net \<Rightarrow> ip6 \<Rightarrow> bool" where
  "net_is p x \<longleftrightarrow> x = (case p of Net4 n \<Rightarrow> mapped (net_ip n) | Net6 y k \<Rightarrow> y)"

definition IPv4Gateway :: "string \<Rightarrow> string \<Rightarrow> (err, string) res" where
  "IPv4Gateway gateway subnet =
     (if gateway = [] then Err (invalid ''invalid gateway: cannot be empty'')
      else if Contains gateway '' '' then Err (invalid (''invalid gateway: '' @ gateway @ '' cannot contain spaces''))
      else case Option.bind (ParseIP gateway) To4 of
        None \<Rightarrow> Err (invalid (''invalid gateway: '' @ gateway @ '' is not a valid IPv4 address''))
      | Some ip \<Rightarrow>
          if \<not> IsPrivate ip
          then Err (invalid (''invalid gateway: '' @ gateway @ '' must be a private/internal address''))
          else case ParseCIDR subnet of
            None \<Rightarrow> Err (invalid ''invalid subnet'')
          | Some p \<Rightarrow>
              if \<not> net_contains p ip
              then Err (invalid (''invalid gateway: '' @ gateway @ '' is not within subnet '' @ subnet))
              else if net_is p (mapped ip)
              then Err (invalid (''invalid gateway: '' @ gateway @ '' is the network address of '' @ subnet))
              else Ok (ip_string ip))"

definition IPv4Address :: "string \<Rightarrow> string \<Rightarrow> bool \<Rightarrow> string \<Rightarrow> string \<Rightarrow> err option" where
  "IPv4Address ip fieldName requirePrivate subnet gateway =
     (let what = ''invalid '' @ (if fieldName = [] then ''IP address'' else fieldName) @ '': ''
      in if ip = [] then Some (invalid (what @ ''cannot be empty''))
         else if Contains ip '' '' then Some (invalid (what @ ip @ '' cannot contain spaces''))
         else case Option.bind (ParseIP ip) To4 of
           None \<Rightarrow> Some (invalid (what @ ip @ '' is not a valid IPv4 address''))
         | Some a \<Rightarrow>
             let against_gateway = (if gateway \<noteq> [] \<and> ParseIP gateway = Some (mapped a)
                 then Some (invalid (what @ ip @ '' is the gateway address'')) else None)
             in if requirePrivate \<and> \<not> IsPrivate a
                then Some (invalid (what @ ip @ '' must be a private/internal address''))
                else if subnet = [] then against_gateway
                else case ParseCIDR subnet of
                  None \<Rightarrow> Some (invalid ''invalid subnet'')
                | Some p \<Rightarrow>
                    if \<not> net_contains p a then Some (invalid (what @ ip @ '' is not within subnet '' @ subnet))
                    else if net_is p (mapped a)
                    then Some (invalid (what @ ip @ '' is the network address of '' @ subnet))
                    else against_gateway)"

text \<open>A gateway or a guest address that is accepted is an address of the subnet, not its first.\<close>

lemma address_in_subnet:
  assumes "IPv4Address ip f priv subnet gw = None" "subnet \<noteq> []"
  shows "\<exists>n a. IPv4CIDR subnet = Some n \<and> Option.bind (ParseIP ip) To4 = Some a \<and> Contains_ip n a \<and>
    a \<noteq> net_ip n \<and> ParseIP gw \<noteq> Some (mapped a)"
proof -
  obtain p a where p: "ParseCIDR subnet = Some p" "net_contains p a" "\<not> net_is p (mapped a)"
    "Option.bind (ParseIP ip) To4 = Some a" "\<not> (gw \<noteq> [] \<and> ParseIP gw = Some (mapped a))"
    using assms by (auto simp: IPv4Address_def Let_def split: if_splits option.splits)
  obtain n where n: "net4 p = Some n" "Contains_ip n a"
    using p(2) by (auto simp: net_contains_def split: option.splits)
  have "a \<noteq> net_ip n"
    using p(3) n(1) mapped_To4 by (auto simp: net_is_def net4_def split: parsed_net.splits)
  moreover have "ParseIP [] = None" by (simp add: ParseIP_def ParseAddr_def)
  then have "ParseIP gw \<noteq> Some (mapped a)" using p(5) by auto
  moreover have "IPv4CIDR subnet = Some n" using p(1) n(1) by (simp add: IPv4CIDR_def)
  ultimately show ?thesis using p(4) n(2) by blast
qed

lemma gateway_in_subnet:
  assumes "IPv4Gateway gateway subnet = Ok g"
  shows "\<exists>n ip. IPv4CIDR subnet = Some n \<and> g = ip_string ip \<and> Contains_ip n ip \<and> ip \<noteq> net_ip n \<and> IsPrivate ip"
proof -
  obtain p ip where p: "ParseCIDR subnet = Some p" "net_contains p ip" "\<not> net_is p (mapped ip)"
    "g = ip_string ip" "IsPrivate ip"
    using assms by (auto simp: IPv4Gateway_def split: if_splits option.splits)
  obtain n where n: "net4 p = Some n" "Contains_ip n ip"
    using p(2) by (auto simp: net_contains_def split: option.splits)
  have "ip \<noteq> net_ip n"
    using p(3) n(1) mapped_To4 by (auto simp: net_is_def net4_def split: parsed_net.splits)
  with p n show ?thesis unfolding IPv4CIDR_def by (metis Option.bind.bind_lunit)
qed

subsection \<open>Overlap\<close>

text \<open>First and last address of a network, byte by byte; \<open>None\<close> is the pair of nils.\<close>

definition networkRange :: "parsed_net \<Rightarrow> (ip4 \<times> ip4) option" where
  "networkRange p = (case net_to4 p of
     None \<Rightarrow> None
   | Some (a, b, c, d) \<Rightarrow> (case mask4 p of
       (m, k, q, r) \<Rightarrow> Some ((a, b, c, d), (a OR NOT m, b OR NOT k, c OR NOT q, d OR NOT r))))"

fun ipCmp :: "ip4 \<Rightarrow> ip4 \<Rightarrow> int" where
  "ipCmp (a, b, c, d) (a', b', c', d') =
     (if a < a' then -1 else if a > a' then 1 else if b < b' then -1 else if b > b' then 1
      else if c < c' then -1 else if c > c' then 1 else if d < d' then -1 else if d > d' then 1 else 0)"

definition cidrsOverlap :: "parsed_net \<Rightarrow> parsed_net \<Rightarrow> bool" where
  "cidrsOverlap p q = (case (networkRange p, networkRange q) of
     (Some (pf, pl), Some (qf, ql)) \<Rightarrow> ipCmp pf ql \<le> 0 \<and> ipCmp qf pl \<le> 0
   | _ \<Rightarrow> False)"

fun overlaps_any :: "string \<Rightarrow> parsed_net \<Rightarrow> string list \<Rightarrow> err option" where
  "overlaps_any subnet p [] = None"
| "overlaps_any subnet p (x # xs) =
     (case ParseCIDR x of
        None \<Rightarrow> overlaps_any subnet p xs
      | Some e \<Rightarrow> if cidrsOverlap p e
          then Some (New ''network.subnet.overlap'' (''subnet '' @ subnet @ '' overlaps with '' @ x))
          else overlaps_any subnet p xs)"

definition SubnetNoOverlap :: "string \<Rightarrow> string list \<Rightarrow> err option" where
  "SubnetNoOverlap subnet existing =
     (case ParseCIDR subnet of
        None \<Rightarrow> Some (invalid ''invalid subnet'')
      | Some p \<Rightarrow>
          (case ParseIP (fst (Cut subnet (CHR ''/''))) of
             Some x \<Rightarrow> if \<not> net_is p x
               then Some (invalid (''invalid subnet: '' @ subnet @ '' has host bits set''))
               else overlaps_any subnet p existing
           | None \<Rightarrow> overlaps_any subnet p existing))"

lemma ipCmp_le: "ipCmp x y \<le> 0 \<longleftrightarrow> ipToInt x \<le> ipToInt y"
proof (cases "(x, y)" rule: ipCmp.cases)
  case (1 a b c d a' b' c' d')
  have "unat a \<le> 255" "unat b \<le> 255" "unat c \<le> 255" "unat d \<le> 255"
    "unat a' \<le> 255" "unat b' \<le> 255" "unat c' \<le> 255" "unat d' \<le> 255"
    using byte_less [of a] byte_less [of b] byte_less [of c] byte_less [of d]
      byte_less [of a'] byte_less [of b'] byte_less [of c'] byte_less [of d'] by simp_all
  with 1 show ?thesis
    unfolding word_le_nat_alt [of "ipToInt x"]
    by (simp add: unat_ipToInt word_less_nat_alt)
qed

lemma range_bytes:
  assumes "networkRange p = Some (f, l)"
  shows "net_to4 p = Some f" "ipToInt l = ipToInt f OR NOT (ipToInt (mask4 p))"
proof -
  obtain a b c d m k q r where b: "net_to4 p = Some (a, b, c, d)" "mask4 p = (m, k, q, r)"
    "f = (a, b, c, d)" "l = (a OR NOT m, b OR NOT k, c OR NOT q, d OR NOT r)"
    using assms by (auto simp: networkRange_def split: option.splits prod.splits)
  then show "net_to4 p = Some f" by simp
  show "ipToInt l = ipToInt f OR NOT (ipToInt (mask4 p))"
    unfolding b by (rule bit_word_eqI) (auto simp: bit_ipToInt bit_or_iff bit_not_iff)
qed

lemma unat_last:
  assumes "wf_net n"
  shows "unat (ipToInt (net_ip n) OR NOT (netmask (net_ones n))) = base n + host_count n - 1"
proof -
  let ?x = "ipToInt (net_ip n)" and ?k = "32 - net_ones n"
  have k: "net_ones n \<le> 32" using assms by (simp add: wf_net_def)
  have nm: "NOT (netmask (net_ones n)) = mask ?k"
    by (rule bit_word_eqI) (use k in \<open>auto simp: bit_netmask bit_not_iff bit_mask_iff\<close>)
  have "bit ?x j \<Longrightarrow> ?k \<le> j" for j
    using assms k by (metis bit_and_iff bit_netmask wf_net_def)
  then have "\<not> bit ?x j \<or> \<not> bit (mask ?k :: 32 word) j" for j
    unfolding bit_mask_iff using not_le by blast
  then have "?x OR mask ?k = ?x + mask ?k" by (rule disjunctive_add [symmetric])
  moreover have "unat (mask ?k :: 32 word) = host_count n - 1"
  proof -
    have "(mask ?k :: 32 word) = of_nat (mask ?k)" by (rule of_nat_mask_eq [symmetric])
    then have "unat (mask ?k :: 32 word) = take_bit 32 (mask ?k)" by (simp only: unsigned_of_nat) simp
    also have "\<dots> = mask ?k"
      using host_count_le [of n] host_count_pos [of n]
      by (intro take_bit_nat_eq_self) (simp add: mask_eq_exp_minus_1 host_count_def)
    finally show ?thesis by (simp add: mask_eq_exp_minus_1 host_count_def)
  qed
  moreover have "base n + (host_count n - 1) < 4294967296"
    using base_bound [OF assms] host_count_pos [of n] by simp
  ultimately show ?thesis
    using host_count_pos [of n] by (simp add: nm base_def unat_word_ariths(1))
qed

text \<open>
  The addresses that the check takes a network to have: those it contains, of an IPv4
  network; only its first one, of a network in the IPv4-mapped notation, because the loop over
  the mask looks at the first four of its sixteen bytes; none, of any other IPv6 network.
\<close>

definition checked :: "parsed_net \<Rightarrow> ip4 \<Rightarrow> bool" where
  "checked p ip \<longleftrightarrow> (case p of Net4 n \<Rightarrow> Contains_ip n ip | Net6 x k \<Rightarrow> To4 x = Some ip)"

lemma range_checked:
  assumes "ParseCIDR s = Some p" "networkRange p = Some (f, l)"
  shows "ipToInt f \<le> ipToInt l" "checked p ip \<longleftrightarrow> ipToInt f \<le> ipToInt ip \<and> ipToInt ip \<le> ipToInt l"
proof -
  note r = range_bytes [OF assms(2)]
  have "ipToInt f \<le> ipToInt l \<and> (checked p ip \<longleftrightarrow> ipToInt f \<le> ipToInt ip \<and> ipToInt ip \<le> ipToInt l)"
  proof (cases p)
    case (Net4 n)
    then have wf: "wf_net n" using IPv4CIDR_wf [of s n] assms(1) by (simp add: IPv4CIDR_def net4_def)
    have f: "f = net_ip n" using r(1) Net4 by (simp add: net_to4_def)
    have l: "unat (ipToInt l) = base n + host_count n - 1"
      using r(2) unat_last [OF wf] Net4 f by (simp add: mask4_def)
    have b: "unat (ipToInt f) = base n" by (simp add: f base_def)
    have "checked p ip \<longleftrightarrow> base n \<le> unat (ipToInt ip) \<and> unat (ipToInt ip) < base n + host_count n"
      using contains_iff [OF wf] Net4 by (simp add: checked_def)
    then show ?thesis
      using host_count_pos [of n] unfolding word_le_nat_alt b l by linarith
  next
    case (Net6 x k)
    with assms(1) obtain y where y: "x = y AND netmask6 k" "k \<le> 128"
      by (auto simp: ParseCIDR_def prefix_len_def
          split: prod.splits option.splits sum.splits if_splits addr.splits)
    have t: "To4 x = Some f" using r(1) Net6 by (simp add: net_to4_def)
    then have k: "96 \<le> k" using masked_To4(1) [of y k f] y by simp
    have "ucast (drop_bit 96 (netmask6 k)) = (- 1 :: 32 word)"
      by (rule bit_word_eqI) (use k in \<open>auto simp: bit_ucast_iff bit_drop_bit_eq bit_netmask6\<close>)
    then have "ipToInt l = ipToInt f" using r(2) Net6 by (simp add: mask4_def)
    with t Net6 show ?thesis by (auto simp: checked_def ipToInt_inj)
  qed
  then show "ipToInt f \<le> ipToInt l" "checked p ip \<longleftrightarrow> ipToInt f \<le> ipToInt ip \<and> ipToInt ip \<le> ipToInt l"
    by simp_all
qed

lemma no_range: "networkRange p = None \<Longrightarrow> \<not> checked p ip"
  by (auto simp: networkRange_def checked_def net_to4_def split: option.splits parsed_net.splits prod.splits)

lemma overlap_common:
  assumes "ParseCIDR s = Some p" "ParseCIDR t = Some q"
  shows "cidrsOverlap p q \<longleftrightarrow> (\<exists>ip. checked p ip \<and> checked q ip)"
proof (cases "networkRange p = None \<or> networkRange q = None")
  case True
  then show ?thesis
    by (cases "networkRange p"; cases "networkRange q") (auto simp: cidrsOverlap_def no_range)
next
  case False
  then obtain f l f' l' where r: "networkRange p = Some (f, l)" "networkRange q = Some (f', l')" by auto
  note P = range_checked [OF assms(1) r(1)] and Q = range_checked [OF assms(2) r(2)]
  have o: "cidrsOverlap p q \<longleftrightarrow> ipToInt f \<le> ipToInt l' \<and> ipToInt f' \<le> ipToInt l"
    by (simp add: cidrsOverlap_def r ipCmp_le)
  show ?thesis
  proof
    assume "cidrsOverlap p q"
    then have "checked p (intToIP (max (ipToInt f) (ipToInt f'))) \<and> checked q (intToIP (max (ipToInt f) (ipToInt f')))"
      using P(1) Q(1) unfolding o P(2) Q(2) by simp
    then show "\<exists>ip. checked p ip \<and> checked q ip" by blast
  next
    assume "\<exists>ip. checked p ip \<and> checked q ip"
    then show "cidrsOverlap p q" unfolding o P(2) Q(2) by (meson order.trans)
  qed
qed

lemma overlaps_any_None:
  "overlaps_any s p xs = None \<longleftrightarrow> (\<forall>x \<in> set xs. \<forall>e. ParseCIDR x = Some e \<longrightarrow> \<not> cidrsOverlap p e)"
  by (induction xs) (auto split: option.splits)

text \<open>
  C9: the overlap check accepts a subnet exactly when it parses as a CIDR, is written without
  host bits, and has no address in common with an existing one, where an existing entry that
  does not parse is skipped and the addresses counted are all those of an IPv4 network, the
  first one of an IPv4-mapped network and none of any other IPv6 network.
\<close>

theorem subnet_accepted_iff_disjoint:
  "SubnetNoOverlap subnet existing = None \<longleftrightarrow>
     (\<exists>p x. ParseCIDR subnet = Some p \<and> ParseIP (fst (Cut subnet (CHR ''/''))) = Some x \<and> net_is p x \<and>
        (\<forall>y \<in> set existing. \<forall>e. ParseCIDR y = Some e \<longrightarrow> \<not> (\<exists>ip. checked p ip \<and> checked e ip)))"
proof (cases "ParseCIDR subnet")
  case None
  then show ?thesis by (simp add: SubnetNoOverlap_def)
next
  case (Some p)
  then obtain x where x: "ParseIP (fst (Cut subnet (CHR ''/''))) = Some x"
    by (auto simp: ParseCIDR_def ParseIP_def split: prod.splits option.splits if_splits)
  have "overlaps_any subnet p existing = None \<longleftrightarrow>
      (\<forall>y \<in> set existing. \<forall>e. ParseCIDR y = Some e \<longrightarrow> \<not> (\<exists>ip. checked p ip \<and> checked e ip))"
    unfolding overlaps_any_None using overlap_common [OF Some] by blast
  with Some x show ?thesis by (auto simp: SubnetNoOverlap_def)
qed

theorem subnet_accepted_iff_disjoint_witness:
  "\<not> (\<exists>n e ip. ParseCIDR ''10.0.1.0/24'' = Some (Net4 n) \<and> ParseCIDR ''10.0.0.0/24'' = Some (Net4 e) \<and>
       Contains_ip n ip \<and> Contains_ip e ip)"
proof -
  have "SubnetNoOverlap ''10.0.1.0/24'' [''10.0.0.0/24''] = None" by code_simp
  from iffD1 [OF subnet_accepted_iff_disjoint this] show ?thesis
    by (auto simp: checked_def)
qed

text \<open>
  So IPv6 networks are never found to overlap, not even with themselves, and a subnet in the
  IPv4-mapped notation passes both checks of a new network although it contains an existing one.
\<close>

lemma ipv6_never_overlaps: "To4 x = None \<Longrightarrow> \<not> cidrsOverlap (Net6 x k) q"
  by (simp add: cidrsOverlap_def networkRange_def net_to4_def)

lemma mapped_subnet_passes:
  "Subnet ''::ffff:10.0.0.0/104'' = Ok ''10.0.0.0/8''"
  "SubnetNoOverlap ''::ffff:10.0.0.0/104'' [''10.1.0.0/16''] = None"
  "IPv4CIDR ''::ffff:10.0.0.0/104'' = Some \<lparr>net_ip = (10, 0, 0, 0), net_ones = 8\<rparr>"
  "IPv4CIDR ''10.1.0.0/16'' = Some \<lparr>net_ip = (10, 1, 0, 0), net_ones = 16\<rparr>"
  "Contains_ip \<lparr>net_ip = (10, 0, 0, 0), net_ones = 8\<rparr> (10, 1, 0, 0)"
  "Contains_ip \<lparr>net_ip = (10, 1, 0, 0), net_ones = 16\<rparr> (10, 1, 0, 0)"
  by code_simp+

end
