(* ===== verification/Validators.thy ===== *)
theory Validators
  imports NetAddr
begin

text \<open>
  Name validation (\<open>internal/lib/validators/validators.go\<close> with the tables of
  \<open>internal/infra/constants.go\<close>) and the names derived from a network's name: its bridge and
  the TAP devices of its machines. Each refusal, a validation error in the code, is a
  constructor. SHA-256 is a parameter, in hexadecimal.
\<close>

datatype name_error = NameEmpty | NameTooLong | NameHyphen | NameReserved | NameIsIP
  | NameDangerous | NameFormat | NameDot | NameInterface | NameBridgePrefix | BridgeExists

definition CLIName :: string where "CLIName = ''mvm''"

definition ReservedNames :: "string list" where
  "ReservedNames = [
     ''create'', ''delete'', ''remove'', ''rm'', ''update'', ''set'', ''clear'', ''unset'',
     ''get'', ''list'', ''ls'', ''show'', ''describe'', ''inspect'', ''find'', ''search'',
     ''edit'', ''rename'', ''move'', ''copy'', ''clone'', ''import'', ''export'', ''backup'',
     ''restore'', ''save'', ''load'', ''sync'', ''merge'', ''split'', ''convert'',
     ''transform'', ''start'', ''stop'', ''pause'', ''resume'', ''restart'', ''reboot'',
     ''shutdown'', ''halt'', ''poweroff'', ''poweron'', ''reset'', ''init'', ''clean'',
     ''prune'', ''purge'', ''wipe'', ''attach'', ''detach'', ''mount'', ''unmount'',
     ''connect'', ''disconnect'', ''link'', ''unlink'', ''lock'', ''unlock'', ''freeze'',
     ''unfreeze'', ''enable'', ''disable'', ''enabled'', ''disabled'', ''activate'',
     ''deactivate'', ''register'', ''unregister'', ''ping'', ''traceroute'', ''dns'', ''dhcp'',
     ''nat'', ''forward'', ''route'', ''bridge'', ''firewall'', ''proxy'', ''tunnel'', ''vpn'',
     ''log'', ''logs'', ''tail'', ''follow'', ''watch'', ''monitor'', ''trace'', ''debug'',
     ''profile'', ''metrics'', ''stats'', ''health'', ''status'', ''info'', ''version'',
     ''audit'', ''login'', ''logout'', ''auth'', ''token'', ''secret'', ''certificate'',
     ''cert'', ''key'', ''role'', ''user'', ''group'', ''permission'', ''policy'', ''build'',
     ''deploy'', ''install'', ''uninstall'', ''upgrade'', ''rollback'', ''release'',
     ''publish'', ''compile'', ''validate'', ''verify'', ''check'', ''lint'', ''format'',
     ''test'', ''benchmark'', ''snapshot'', ''migrate'', ''live-migrate'', ''takeover'',
     ''failover'', ''switchover'', ''schedule'', ''suspend'', ''reschedule'', ''job'',
     ''task'', ''cron'', ''queue'', ''alert'', ''notification'', ''notify'', ''webhook'',
     ''hook'', ''callback'', ''event'', ''vm'', ''network'', ''image'', ''kernel'', ''binary'',
     ''volume'', ''config'', ''cache'', ''host'', ''console'', ''ssh'', ''template'', ''tag'',
     ''label'', ''annotation'', ''quota'', ''limit'', ''setting'', ''preference'', ''string'',
     ''int'', ''int8'', ''int16'', ''int32'', ''int64'', ''uint'', ''uint8'', ''uint16'',
     ''uint32'', ''uint64'', ''float'', ''float32'', ''float64'', ''bool'', ''byte'', ''rune'',
     ''any'', ''interface'', ''struct'', ''map'', ''slice'', ''array'', ''chan'', ''func'',
     ''pointer'', ''none'', ''nonetype'', ''bytes'', ''bytearray'', ''tuple'', ''object'',
     ''type'', ''class'', ''enum'', ''all'', ''default'', ''new'', ''old'', ''empty'',
     ''root'', ''self'', ''system'', ''parent'', ''force'', ''help'', ''true'', ''false'',
     ''yes'', ''no'', ''on'', ''off'', ''nil'', ''null'', ''0'', ''1'']"

definition IsReservedName :: "string \<Rightarrow> bool" where
  "IsReservedName n \<longleftrightarrow> map to_lower n \<in> set ReservedNames"

text \<open>The one-byte members of the table; the others are multi-byte code points.\<close>

definition dangerous_bytes :: "char list" where
  "dangerous_bytes =
     [CHR '';'', CHR ''|'', CHR ''&'', CHR ''$'', CHR 0x60, CHR 0x5C, CHR 0x22, CHR 0x27,
      CHR ''<'', CHR ''>'', CHR ''{'', CHR ''}'', CHR ''['', CHR '']'', CHR ''('', CHR '')'',
      CHR ''.'', CHR ''/'', CHR ''~'', CHR 0x7F]
     @ map char_of [0 ..< (32 :: nat)]"

text \<open>Zero-width space, non-joiner and joiner, and the byte order mark, in UTF-8.\<close>

definition dangerous_runes :: "string list" where
  "dangerous_runes = [[CHR 0xE2, CHR 0x80, CHR 0x8B], [CHR 0xE2, CHR 0x80, CHR 0x8C],
     [CHR 0xE2, CHR 0x80, CHR 0x8D], [CHR 0xEF, CHR 0xBB, CHR 0xBF]]"

definition ContainsDangerousChars :: "string \<Rightarrow> bool" where
  "ContainsDangerousChars s \<longleftrightarrow>
     list_ex (\<lambda>c. c \<in> set dangerous_bytes) s \<or> list_ex (Contains s) dangerous_runes"

definition name_char :: "char \<Rightarrow> bool" where
  "name_char c \<longleftrightarrow> CHR ''a'' \<le> c \<and> c \<le> CHR ''z'' \<or> CHR ''0'' \<le> c \<and> c \<le> CHR ''9''"

text \<open>\<open>^[a-z0-9][a-z0-9._-]{0,62}$\<close>\<close>

definition validName :: "string \<Rightarrow> bool" where
  "validName s \<longleftrightarrow> (case s of [] \<Rightarrow> False
     | c # cs \<Rightarrow> name_char c \<and> length cs \<le> 62 \<and>
         list_all (\<lambda>d. name_char d \<or> d = CHR ''.'' \<or> d = CHR ''_'' \<or> d = CHR ''-'') cs)"

text \<open>\<open>^[a-z0-9_-]+$\<close>\<close>

definition validInterfaceName :: "string \<Rightarrow> bool" where
  "validInterfaceName s \<longleftrightarrow> s \<noteq> [] \<and> list_all (\<lambda>d. name_char d \<or> d = CHR ''_'' \<or> d = CHR ''-'') s"

definition IsIPAddress :: "string \<Rightarrow> bool" where
  "IsIPAddress s \<longleftrightarrow> ParseIP s \<noteq> None"

definition EntityName :: "string \<Rightarrow> int \<Rightarrow> name_error option" where
  "EntityName name maxLength =
     (let mx = (if maxLength \<le> 0 then 63 else maxLength)
      in if name = '''' then Some NameEmpty
         else if int (length name) > mx then Some NameTooLong
         else if HasPrefix name ''-'' then Some NameHyphen
         else if IsReservedName name then Some NameReserved
         else if IsIPAddress name then Some NameIsIP
         else if ContainsDangerousChars name then Some NameDangerous
         else if \<not> validName name then Some NameFormat
         else None)"

definition ReservedInterfaces :: "string list" where
  "ReservedInterfaces = [''lo'', ''eth0'', ''eth1'', ''wlan0'', ''virbr0'', ''docker0'']"

definition NetworkName :: "string \<Rightarrow> name_error option" where
  "NetworkName name =
     (case EntityName name 31 of
        Some e \<Rightarrow> Some e
      | None \<Rightarrow>
          if Contains name ''.'' then Some NameDot
          else if map to_lower name \<in> set ReservedInterfaces then Some NameInterface
          else if HasPrefix name (CLIName @ ''-'') then Some NameBridgePrefix
          else None)"

text \<open>\<open>exists\<close> is the answer of the host to whether a device of that name is there.\<close>

definition BridgeName :: "(string \<Rightarrow> bool) \<Rightarrow> string \<Rightarrow> name_error option" where
  "BridgeName exists bridge =
     (if bridge = '''' then Some NameEmpty
      else if length bridge > 15 then Some NameTooLong
      else if HasPrefix bridge ''-'' then Some NameHyphen
      else if ContainsDangerousChars bridge then Some NameDangerous
      else if \<not> validInterfaceName bridge then Some NameFormat
      else if exists bridge then Some BridgeExists
      else None)"

subsection \<open>Derived names\<close>

text \<open>
  The library's ComputeBridgeName; \<open>None\<close> is the panic of slicing with a negative bound,
  which a long program name would cause.
\<close>

definition lib_bridge_name :: "(string \<Rightarrow> string) \<Rightarrow> string \<Rightarrow> string \<Rightarrow> string option" where
  "lib_bridge_name sha cli name =
     (let raw = cli @ ''-'' @ name
      in if length raw \<le> 15 then Some raw
         else let pfx = cli @ ''-''; maxName = 15 - int (length pfx) - 8 - 1
          in if int (length name) > maxName
             then if maxName < 0 then None
                  else Some (pfx @ take (nat maxName) name @ ''-'' @ take 8 (sha name))
             else Some (pfx @ name @ ''-'' @ take 8 (sha name)))"

text \<open>The network domain's own ComputeBridgeName.\<close>

definition ComputeBridgeName :: "(string \<Rightarrow> string) \<Rightarrow> string \<Rightarrow> string" where
  "ComputeBridgeName sha name =
     (let raw = CLIName @ ''-'' @ name
      in if length raw \<le> 15 then raw
         else let pfx = CLIName @ ''-''; maxName = 15 - int (length pfx) - 8 - 1
          in pfx @ (if maxName > 0 \<and> int (length name) > maxName then take (nat maxName) name else name)
               @ ''-'' @ take 8 (sha name))"

definition GenerateTAPName :: "(string \<Rightarrow> string) \<Rightarrow> string \<Rightarrow> string \<Rightarrow> string" where
  "GenerateTAPName sha net vm = CLIName @ ''-'' @ take 11 (sha (net @ ''-'' @ vm))"

text \<open>What the code relies on of \<open>fmt.Sprintf("%x", sha256.Sum256(...))\<close>.\<close>

definition hex_digest :: "(string \<Rightarrow> string) \<Rightarrow> bool" where
  "hex_digest sha \<longleftrightarrow> (\<forall>s. length (sha s) = 64 \<and>
     (\<forall>c \<in> set (sha s). CHR ''0'' \<le> c \<and> c \<le> CHR ''9'' \<or> CHR ''a'' \<le> c \<and> c \<le> CHR ''f''))"

lemma hex_name_char:
  assumes "hex_digest sha" "c \<in> set (take k (sha s))"
  shows "name_char c"
proof -
  have "c \<in> set (sha s)" using assms(2) by (rule in_set_takeD)
  then have "CHR ''0'' \<le> c \<and> c \<le> CHR ''9'' \<or> CHR ''a'' \<le> c \<and> c \<le> CHR ''f''"
    using assms(1) unfolding hex_digest_def by blast
  moreover have "CHR ''f'' \<le> CHR ''z''" by (simp add: less_eq_char_def)
  ultimately show ?thesis
    using order.trans [of c "CHR ''f''" "CHR ''z''"] unfolding name_char_def by blast
qed

lemma HasPrefix_single: "HasPrefix (c # s) [d] \<longleftrightarrow> c = d"
  by (auto simp: HasPrefix_def)

lemma Contains_single: "Contains s [d] \<longleftrightarrow> d \<in> set s"
proof -
  have "Index s [d] = None \<longleftrightarrow> d \<notin> set s"
    by (induction s) (auto simp: HasPrefix_single)
  then show ?thesis by (simp add: Contains_def)
qed

definition iface_char :: "char \<Rightarrow> bool" where
  "iface_char c \<longleftrightarrow> name_char c \<or> c = CHR ''_'' \<or> c = CHR ''-''"

lemma NetworkName_chars:
  assumes "NetworkName n = None" "c \<in> set n"
  shows "iface_char c"
proof -
  have e: "EntityName n 31 = None" and d: "\<not> Contains n ''.''"
    using assms(1) by (auto simp: NetworkName_def split: option.splits if_splits)
  have "CHR ''.'' \<notin> set n" using d by (simp add: Contains_single)
  moreover have "validName n" using e by (auto simp: EntityName_def Let_def split: if_splits)
  ultimately show ?thesis using assms(2)
    by (auto simp: validName_def iface_char_def list_all_iff split: list.splits)
qed

lemma iface_not_dangerous:
  assumes "list_all iface_char s"
  shows "\<not> ContainsDangerousChars s"
proof -
  have b: "list_all (\<lambda>c. \<not> iface_char c) dangerous_bytes" by code_simp
  have r: "list_all (\<lambda>p. p \<noteq> [] \<and> \<not> iface_char (hd p)) dangerous_runes" by code_simp
  have pf: "HasPrefix t p \<Longrightarrow> p \<noteq> [] \<Longrightarrow> hd p \<in> set t" for t p
    by (cases p; cases t) (auto simp: HasPrefix_def)
  have "Index t p \<noteq> None \<Longrightarrow> p \<noteq> [] \<Longrightarrow> hd p \<in> set t" for t p
  proof (induction t)
    case (Cons a t)
    then show ?case using pf [of "a # t" p] by (cases "HasPrefix (a # t) p") auto
  qed simp
  then have "Contains s p \<Longrightarrow> p \<noteq> [] \<Longrightarrow> iface_char (hd p)" for p
    using assms by (auto simp: Contains_def list_all_iff)
  with b r assms show ?thesis
    by (auto simp: ContainsDangerousChars_def list_ex_iff list_all_iff)
qed

text \<open>
  For a network name that the validator accepts, the two implementations of the bridge
  name agree, and the bridge passes every format check of the bridge validator: at most 15
  bytes, no leading hyphen, only interface characters. The TAP name of a machine on it has
  at most 15 bytes as well. (SHA-256 enters as 64 hexadecimal digits.)
\<close>

lemma derived_names_valid:
  assumes "hex_digest sha" "NetworkName n = None"
  shows "lib_bridge_name sha CLIName n = Some (ComputeBridgeName sha n) \<and>
     BridgeName (\<lambda>_. False) (ComputeBridgeName sha n) = None \<and>
     length (GenerateTAPName sha n vm) = 15"
proof -
  let ?b = "ComputeBridgeName sha n"
  have l: "length (sha s) = 64" for s using assms(1) by (simp add: hex_digest_def)
  have eq: "lib_bridge_name sha CLIName n = Some ?b"
    by (simp add: lib_bridge_name_def ComputeBridgeName_def CLIName_def Let_def)
  have len: "length ?b \<le> 15"
    by (auto simp: ComputeBridgeName_def CLIName_def Let_def l)
  have hx: "iface_char c" if "c \<in> set (take 8 (sha n))" for c
    using hex_name_char [OF assms(1) that] by (simp add: iface_char_def)
  have pre: "list_all iface_char ''mvm-''" by code_simp
  have "list_all iface_char ?b"
    using pre NetworkName_chars [OF assms(2)] hx
    by (auto simp: ComputeBridgeName_def CLIName_def Let_def list_all_iff iface_char_def dest: in_set_takeD)
  moreover have "?b \<noteq> []" "\<not> HasPrefix ?b ''-''"
    by (auto simp: ComputeBridgeName_def CLIName_def Let_def HasPrefix_single)
  ultimately have "BridgeName (\<lambda>_. False) ?b = None"
    using len iface_not_dangerous [of ?b]
    by (auto simp: BridgeName_def validInterfaceName_def iface_char_def [abs_def])
  with eq show ?thesis by (simp add: GenerateTAPName_def CLIName_def l)
qed

lemma derived_names_valid_witness:
  "BridgeName (\<lambda>_. False) (ComputeBridgeName (\<lambda>_. replicate 64 (CHR ''0'')) ''frontend-network'') = None"
proof -
  have "hex_digest (\<lambda>_. replicate 64 (CHR ''0''))"
    by (auto simp: hex_digest_def less_eq_char_def)
  moreover have "NetworkName ''frontend-network'' = None" by code_simp
  ultimately show ?thesis using derived_names_valid by blast
qed

end
