(* ===== verification/Statements.thy ===== *)
theory Statements
  imports Errs GoStrings
begin

text \<open>
  Programs that talk to the database one statement at a time. The process shares the database
  with other processes (every command of the tool is one), so a program runs in an
  environment that may change the stored state before each statement, may make a statement
  fail, and gives the clock that CURRENT_TIMESTAMP reads. The state is paired with the number
  of statements made so far. Pattern matching of SQLite (\<open>LIKE\<close> and \<open>GLOB\<close>) is here as well.
\<close>

subsection \<open>Programs\<close>

record 's env =
  e_step :: "nat \<Rightarrow> 's \<Rightarrow> 's"
  e_fault :: "nat \<Rightarrow> err option"
  e_now :: "nat \<Rightarrow> string"

type_synonym ('s, 'a) prog = "'s env \<Rightarrow> 's \<times> nat \<Rightarrow> (err, 'a) res \<times> 's \<times> nat"

definition ret :: "'a \<Rightarrow> ('s, 'a) prog" where
  "ret x = (\<lambda>E w. (Ok x, w))"

definition throw :: "err \<Rightarrow> ('s, 'a) prog" where
  "throw e = (\<lambda>E w. (Err e, w))"

definition bind_prog :: "('s, 'a) prog \<Rightarrow> ('a \<Rightarrow> ('s, 'b) prog) \<Rightarrow> ('s, 'b) prog" where
  "bind_prog m k = (\<lambda>E w. case m E w of (r, w') \<Rightarrow> (case r of Inl e \<Rightarrow> (Err e, w') | Inr x \<Rightarrow> k x E w'))"

definition attempt :: "('s, 'a) prog \<Rightarrow> ('s, (err, 'a) res) prog" where
  "attempt m = (\<lambda>E w. case m E w of (r, w') \<Rightarrow> (Ok r, w'))"

text \<open>\<open>fmt.Errorf("what: %w", err)\<close> around an error.\<close>

definition annotate :: "string \<Rightarrow> ('s, 'a) prog \<Rightarrow> ('s, 'a) prog" where
  "annotate what m = (\<lambda>E w. case m E w of (r, w') \<Rightarrow>
     (case r of Inl e \<Rightarrow> Err (Plain (what @ '': '' @ err_text e) (Some e)) | Inr x \<Rightarrow> Ok x, w'))"

definition stmt :: "(string \<Rightarrow> 's \<Rightarrow> (err, 'a) res \<times> 's) \<Rightarrow> ('s, 'a) prog" where
  "stmt f = (\<lambda>E w. case w of (s, n) \<Rightarrow>
     (let s1 = e_step E n s
      in case e_fault E n of
           Some e \<Rightarrow> (Err e, s1, Suc n)
         | None \<Rightarrow> (case f (e_now E n) s1 of (r, s2) \<Rightarrow> (r, s2, Suc n))))"

definition query :: "('s \<Rightarrow> 'a) \<Rightarrow> ('s, 'a) prog" where
  "query f = stmt (\<lambda>now s. (Ok (f s), s))"

definition exec :: "(string \<Rightarrow> 's \<Rightarrow> 's) \<Rightarrow> ('s, unit) prog" where
  "exec f = stmt (\<lambda>now s. (Ok (), f now s))"

text \<open>Something other than the database: it has no statement to fail, but the world moves on all the same.\<close>

definition host :: "('s \<Rightarrow> 'a \<times> 's) \<Rightarrow> ('s, 'a) prog" where
  "host f = (\<lambda>E w. case w of (s, n) \<Rightarrow> (case f (e_step E n s) of (x, s') \<Rightarrow> (Ok x, s', Suc n)))"

named_theorems prog_simps

lemma ret_run [simp, prog_simps]: "ret x E w = (Ok x, w)"
  by (simp add: ret_def)

lemma throw_run [simp, prog_simps]: "throw e E w = (Err e, w)"
  by (simp add: throw_def)

lemma bind_run [prog_simps]:
  "bind_prog m k E w = (case m E w of (r, w') \<Rightarrow> (case r of Inl e \<Rightarrow> (Err e, w') | Inr x \<Rightarrow> k x E w'))"
  by (simp add: bind_prog_def)

lemma bind_Ok:
  "bind_prog m k E w = (Ok y, w'') \<longleftrightarrow> (\<exists>x w'. m E w = (Ok x, w') \<and> k x E w' = (Ok y, w''))"
  by (auto simp: bind_prog_def split: prod.splits sum.splits)

lemma bind_OkE:
  assumes "bind_prog m k E w = (Ok y, w'')"
  obtains x s n where "m E w = (Ok x, s, n)" "k x E (s, n) = (Ok y, w'')"
  using assms that by (cases "m E w") (auto simp: bind_prog_def split: sum.splits)

lemma attempt_run [prog_simps]: "attempt m E w = (case m E w of (r, w') \<Rightarrow> (Ok r, w'))"
  by (simp add: attempt_def)

lemma annotate_run [prog_simps]:
  "annotate what m E w = (case m E w of (r, w') \<Rightarrow>
     (case r of Inl e \<Rightarrow> Err (Plain (what @ '': '' @ err_text e) (Some e)) | Inr x \<Rightarrow> Ok x, w'))"
  by (simp add: annotate_def)

lemma annotate_state: "snd (annotate what m E w) = snd (m E w)"
  by (simp add: annotate_def split: prod.split)

lemma attempt_state: "snd (attempt m E w) = snd (m E w)"
  by (simp add: attempt_def split: prod.split)

lemma bind_cong_run:
  assumes "\<And>x s n. m E w = (Ok x, s, n) \<Longrightarrow> k x E (s, n) = k' x E (s, n)"
  shows "bind_prog m k E w = bind_prog m k' E w"
  using assms by (cases "m E w") (auto simp: bind_run split: sum.split)

lemma bind_ret [simp]: "bind_prog (ret x) k = k x"
  by (simp add: fun_eq_iff bind_prog_def)

lemma bind_throw [simp]: "bind_prog (throw e) k = throw e"
  by (simp add: fun_eq_iff bind_prog_def)

text \<open>Alone on the machine, and with a disk that works, a statement is just its effect.\<close>

definition quiet :: "'s env \<Rightarrow> bool" where
  "quiet E \<longleftrightarrow> (\<forall>n s. e_step E n s = s) \<and> (\<forall>n. e_fault E n = None)"

definition calm :: "'s env" where
  "calm = \<lparr>e_step = (\<lambda>n s. s), e_fault = (\<lambda>n. None), e_now = (\<lambda>n. ''2026-04-02 00:00:00'')\<rparr>"

lemma quiet_calm [simp]: "quiet calm"
  by (simp add: quiet_def calm_def)

lemma stmt_quiet [prog_simps]:
  "quiet E \<Longrightarrow> stmt f E (s, n) = (fst (f (e_now E n) s), snd (f (e_now E n) s), Suc n)"
  by (simp add: stmt_def quiet_def split: prod.split)

lemma host_quiet [prog_simps]: "quiet E \<Longrightarrow> host f E (s, n) = (Ok (fst (f s)), snd (f s), Suc n)"
  by (simp add: host_def quiet_def split: prod.split)

lemma query_quiet [prog_simps]: "quiet E \<Longrightarrow> query f E (s, n) = (Ok (f s), s, Suc n)"
  by (simp add: query_def stmt_quiet)

lemma exec_quiet [prog_simps]: "quiet E \<Longrightarrow> exec f E (s, n) = (Ok (), f (e_now E n) s, Suc n)"
  by (simp add: exec_def stmt_quiet)

lemma stmt_Ok:
  "stmt f E (s, n) = (Ok x, w') \<longleftrightarrow>
     e_fault E n = None \<and> fst (f (e_now E n) (e_step E n s)) = Ok x \<and>
     w' = (snd (f (e_now E n) (e_step E n s)), Suc n)"
  by (auto simp: stmt_def Let_def split: option.split prod.split)

lemma query_Ok:
  "query f E (s, n) = (Ok x, w') \<longleftrightarrow> e_fault E n = None \<and> x = f (e_step E n s) \<and> w' = (e_step E n s, Suc n)"
  by (auto simp: query_def stmt_Ok)

subsection \<open>What a program does to the stored state\<close>

text \<open>
  \<open>m\<close> changes the state only within \<open>R\<close>, provided the environment does. For a reflexive and
  transitive relation this follows statement by statement.
\<close>

definition within :: "('s \<Rightarrow> 's \<Rightarrow> bool) \<Rightarrow> ('s, 'a) prog \<Rightarrow> bool" where
  "within R m \<longleftrightarrow> (\<forall>E w. (\<forall>n s. R s (e_step E n s)) \<longrightarrow> R (fst w) (fst (snd (m E w))))"

lemma withinD:
  "within R m \<Longrightarrow> (\<And>n s. R s (e_step E n s)) \<Longrightarrow> m E (s, n) = (r, s', n') \<Longrightarrow> R s s'"
  by (metis within_def fst_conv snd_conv)

locale guarantee =
  fixes R :: "'s \<Rightarrow> 's \<Rightarrow> bool"
  assumes refl: "R s s"
    and trans: "R s s' \<Longrightarrow> R s' s'' \<Longrightarrow> R s s''"
begin

lemma within_ret: "within R (ret x)" and within_throw: "within R (throw e)"
  by (simp_all add: within_def refl)

lemma within_bind:
  assumes "within R m" "\<And>x. within R (k x)"
  shows "within R (bind_prog m k)"
  unfolding within_def
proof (intro allI impI)
  fix E :: "'s env" and w
  assume E: "\<forall>n s. R s (e_step E n s)"
  obtain r w' where m: "m E w = (r, w')" by (metis surj_pair)
  then have 1: "R (fst w) (fst w')" using assms(1) E by (metis within_def snd_conv)
  show "R (fst w) (fst (snd (bind_prog m k E w)))"
  proof (cases r)
    case (Inl e)
    then show ?thesis using m 1 by (simp add: bind_prog_def)
  next
    case (Inr x)
    have "R (fst w') (fst (snd (k x E w')))" using assms(2) E by (metis within_def)
    then show ?thesis using m Inr 1 trans by (auto simp: bind_prog_def)
  qed
qed

lemma within_attempt: "within R m \<Longrightarrow> within R (attempt m)"
  by (simp add: within_def attempt_state)

lemma within_stmt:
  assumes "\<And>now s. R s (snd (f now s))"
  shows "within R (stmt f)"
  unfolding within_def
proof (intro allI impI)
  fix E :: "'s env" and w :: "'s \<times> nat"
  assume E: "\<forall>n s. R s (e_step E n s)"
  obtain s n where w: "w = (s, n)" by (metis surj_pair)
  have "R s (e_step E n s)" using E by blast
  moreover have "R s (snd (f (e_now E n) (e_step E n s)))" using trans E assms by blast
  ultimately show "R (fst w) (fst (snd (stmt f E w)))"
    by (simp add: w stmt_def Let_def split: option.split prod.split) (metis snd_conv)
qed

lemma within_host:
  assumes "\<And>s. R s (snd (f s))"
  shows "within R (host f)"
  unfolding within_def
proof (intro allI impI)
  fix E :: "'s env" and w :: "'s \<times> nat"
  assume E: "\<forall>n s. R s (e_step E n s)"
  obtain s n where w: "w = (s, n)" by (rule prod.exhaust)
  have "R s (e_step E n s)" "R (e_step E n s) (snd (f (e_step E n s)))" using E assms by blast+
  then have "R s (snd (f (e_step E n s)))" by (rule trans)
  then show "R (fst w) (fst (snd (host f E w)))" by (simp add: w host_def split_beta)
qed

lemma within_annotate: "within R m \<Longrightarrow> within R (annotate what m)"
  by (simp add: within_def annotate_state)

lemma within_query: "within R (query f)"
  unfolding query_def by (rule within_stmt) (simp add: refl)

lemma within_exec: "(\<And>now s. R s (f now s)) \<Longrightarrow> within R (exec f)"
  unfolding exec_def by (rule within_stmt) simp

lemmas within_rules = within_ret within_throw within_bind within_attempt within_annotate within_query

end

subsection \<open>Programs seen through a view\<close>

text \<open>
  \<open>g\<close> is a part of the state that the environment leaves alone, for example because no other
  process works on this machine. \<open>post g fl v m Q\<close>: started with that part equal to \<open>v\<close>, the
  program ends with \<open>Q\<close> of its result and of that part; statements may fail if \<open>fl\<close>.
\<close>

definition post :: "('s \<Rightarrow> 'v) \<Rightarrow> bool \<Rightarrow> 'v \<Rightarrow> ('s, 'a) prog \<Rightarrow> ((err, 'a) res \<Rightarrow> 'v \<Rightarrow> bool) \<Rightarrow> bool" where
  "post g fl v m Q \<longleftrightarrow> (\<forall>E w. (\<forall>n s. g (e_step E n s) = g s) \<longrightarrow> (fl \<or> (\<forall>n. e_fault E n = None)) \<longrightarrow>
     g (fst w) = v \<longrightarrow> Q (fst (m E w)) (g (fst (snd (m E w)))))"

named_theorems post_rules

lemma postI:
  fixes m :: "('s, 'a) prog"
  assumes "\<And>(E :: 's env) s n. (\<And>n s. g (e_step E n s) = g s) \<Longrightarrow> fl \<or> (\<forall>n. e_fault E n = None) \<Longrightarrow> g s = v \<Longrightarrow>
    Q (fst (m E (s, n))) (g (fst (snd (m E (s, n)))))"
  shows "post g fl v m Q"
  using assms by (simp add: post_def)

lemma postD:
  assumes "post g fl v m Q" "\<And>n s. g (e_step E n s) = g s" "fl \<or> (\<forall>n. e_fault E n = None)" "g s = v"
    and "m E (s, n) = (r, s', n')"
  shows "Q r (g s')"
  using assms(1) assms(2-4) unfolding post_def by (metis assms(5) fst_conv snd_conv)

lemma post_ret [post_rules]: "Q (Ok x) v \<Longrightarrow> post g fl v (ret x) Q"
  by (simp add: post_def)

lemma post_throw [post_rules]: "Q (Err e) v \<Longrightarrow> post g fl v (throw e) Q"
  by (simp add: post_def)

lemma post_bind:
  assumes "post g fl v m (\<lambda>r v'. case r of Inl e \<Rightarrow> Q (Err e) v' | Inr x \<Rightarrow> post g fl v' (k x) Q)"
  shows "post g fl v (bind_prog m k) Q"
proof (rule postI)
  fix E :: "'a env" and s n
  assume E: "\<And>n s. g (e_step E n s) = g s" "fl \<or> (\<forall>n. e_fault E n = None)" "g s = v"
  obtain r s1 n1 where m: "m E (s, n) = (r, s1, n1)" by (rule prod_cases3)
  note q = postD [OF assms E m]
  show "Q (fst (bind_prog m k E (s, n))) (g (fst (snd (bind_prog m k E (s, n)))))"
  proof (cases r)
    case (Inl e)
    with q m show ?thesis by (simp add: bind_run)
  next
    case (Inr x)
    with q have k: "post g fl (g s1) (k x) Q" by simp
    obtain r' s2 n2 where run: "k x E (s1, n1) = (r', s2, n2)" by (rule prod_cases3)
    from postD [OF k E(1,2) refl run] m Inr run show ?thesis by (simp add: bind_run)
  qed
qed

lemma post_attempt [post_rules]: "post g fl v m (\<lambda>r. Q (Ok r)) \<Longrightarrow> post g fl v (attempt m) Q"
  by (simp add: post_def attempt_run split_beta)

lemma post_annotate:
  "post g fl v m (\<lambda>r. Q (case r of Inl e \<Rightarrow> Err (Plain (what @ '': '' @ err_text e) (Some e)) | Inr x \<Rightarrow> Ok x)) \<Longrightarrow>
     post g fl v (annotate what m) Q"
  by (simp add: post_def annotate_run split_beta)

lemma post_stmt:
  assumes "\<And>now s. g s = v \<Longrightarrow> Q (fst (f now s)) (g (snd (f now s)))" "\<And>e. fl \<Longrightarrow> Q (Err e) v"
  shows "post g fl v (stmt f) Q"
proof (rule postI)
  fix E :: "'a env" and s n
  assume E: "\<And>n s. g (e_step E n s) = g s" "fl \<or> (\<forall>n. e_fault E n = None)" "g s = v"
  then have "g (e_step E n s) = v" by simp
  with assms(1) [OF this, of "e_now E n"] assms(2) E(2) show "Q (fst (stmt f E (s, n))) (g (fst (snd (stmt f E (s, n)))))"
    by (cases "e_fault E n") (auto simp: stmt_def Let_def split_beta)
qed

lemma post_exec:
  assumes "\<And>now s. g s = v \<Longrightarrow> Q (Ok ()) (g (f now s))" "\<And>e. fl \<Longrightarrow> Q (Err e) v"
  shows "post g fl v (exec f) Q"
  unfolding exec_def using assms by (intro post_stmt) auto

lemma post_query:
  assumes "\<And>s. g s = v \<Longrightarrow> Q (Ok (f s)) v" "\<And>e. fl \<Longrightarrow> Q (Err e) v"
  shows "post g fl v (query f) Q"
  unfolding query_def using assms by (intro post_stmt) auto

lemma post_host:
  assumes "\<And>s. g s = v \<Longrightarrow> Q (Ok (fst (f s))) (g (snd (f s)))"
  shows "post g fl v (host f) Q"
proof (rule postI)
  fix E :: "'a env" and s n
  assume E: "\<And>n s. g (e_step E n s) = g s" "g s = v"
  then have "g (e_step E n s) = v" by simp
  from assms [OF this] show "Q (fst (host f E (s, n))) (g (fst (snd (host f E (s, n)))))"
    by (simp add: host_def split_beta)
qed

lemma post_mono: "post g fl v m P \<Longrightarrow> (\<And>r v'. P r v' \<Longrightarrow> Q r v') \<Longrightarrow> post g fl v m Q"
  unfolding post_def by blast

lemma post_seq:
  assumes "post g fl v m P" "\<And>e v'. P (Err e) v' \<Longrightarrow> Q (Err e) v'"
    "\<And>x v'. P (Ok x) v' \<Longrightarrow> post g fl v' (k x) Q"
  shows "post g fl v (bind_prog m k) Q"
  by (rule post_bind, rule post_mono [OF assms(1)]) (auto intro: assms(2,3) split: sum.split)

text \<open>A program that does not touch the view at all.\<close>

definition blind :: "('s \<Rightarrow> 'v) \<Rightarrow> ('s, 'a) prog \<Rightarrow> bool" where
  "blind g m \<longleftrightarrow> (\<forall>v. post g True v m (\<lambda>r v'. v' = v))"

named_theorems blind_rules

lemma blindI: "(\<And>v. post g True v m (\<lambda>r v'. v' = v)) \<Longrightarrow> blind g m"
  by (simp add: blind_def)

lemma blind_post:
  assumes "blind g m" "\<And>r. Q r v"
  shows "post g fl v m Q"
proof (rule postI)
  fix E :: "'a env" and s n
  assume E: "\<And>n s. g (e_step E n s) = g s" "g s = v"
  have "g (fst (snd (m E (s, n)))) = v" using assms(1) E by (simp add: blind_def post_def)
  with assms(2) show "Q (fst (m E (s, n))) (g (fst (snd (m E (s, n)))))" by simp
qed

lemma blind_ret [blind_rules]: "blind g (ret x)" and blind_throw [blind_rules]: "blind g (throw e)"
  by (simp_all add: blind_def post_ret post_throw)

lemma blind_bind [blind_rules]:
  assumes "blind g m" "\<And>x. blind g (k x)"
  shows "blind g (bind_prog m k)"
proof (intro blindI post_bind blind_post [OF assms(1)])
  fix v and r :: "(err, 'c) res"
  have "post g True v (k x) (\<lambda>r v'. v' = v)" for x using assms(2) by (simp add: blind_def)
  then show "case r of Inl e \<Rightarrow> v = v | Inr x \<Rightarrow> post g True v (k x) (\<lambda>r v'. v' = v)" by (cases r) simp_all
qed

lemma blind_attempt [blind_rules]: "blind g m \<Longrightarrow> blind g (attempt m)"
  by (intro blindI post_attempt) (simp add: blind_def)

lemma blind_host [blind_rules]:
  assumes "\<And>s. g (snd (f s)) = g s"
  shows "blind g (host f)"
  by (intro blindI post_host) (simp only: assms)

lemma blind_exec [blind_rules]:
  assumes "\<And>now s. g (f now s) = g s"
  shows "blind g (exec f)"
  by (intro blindI post_exec) (simp_all only: assms)

lemma blind_query [blind_rules]: "blind g (query f)"
  by (intro blindI post_query) simp_all

text \<open>A program that cannot fail, whatever its environment does.\<close>

definition surely :: "('s, 'a) prog \<Rightarrow> bool" where
  "surely m \<longleftrightarrow> (\<forall>E w. \<exists>x. fst (m E w) = Ok x)"

named_theorems surely_rules

lemma surely_ret [surely_rules]: "surely (ret x)"
  by (simp add: surely_def ret_def)

lemma surely_bind [surely_rules]:
  assumes "surely m" "\<And>x. surely (k x)"
  shows "surely (bind_prog m k)"
  unfolding surely_def
proof (intro allI)
  fix E :: "'a env" and w :: "'a \<times> nat"
  obtain s n where w: "w = (s, n)" by (rule prod.exhaust)
  obtain r s1 n1 where m: "m E (s, n) = (r, s1, n1)" by (rule prod_cases3)
  moreover from assms(1) obtain x where "fst (m E (s, n)) = Ok x" unfolding surely_def by blast
  ultimately have "r = Ok x" by simp
  moreover from assms(2) obtain y where "fst (k x E (s1, n1)) = Ok y" unfolding surely_def by blast
  ultimately show "\<exists>y. fst (bind_prog m k E w) = Ok y" using m by (simp add: w bind_run)
qed

lemma surely_attempt [surely_rules]: "surely (attempt m)"
  by (simp add: surely_def attempt_run split_beta)

lemma surely_host [surely_rules]: "surely (host f)"
  by (simp add: surely_def host_def split_beta)

lemma surely_post:
  assumes "blind g m" "surely m" "\<And>x. Q (Ok x) v"
  shows "post g fl v m Q"
proof (rule postI)
  fix E :: "'a env" and s n
  assume E: "\<And>n s. g (e_step E n s) = g s" "g s = v"
  have "g (fst (snd (m E (s, n)))) = v" using assms(1) E by (simp add: blind_def post_def)
  moreover from assms(2) obtain x where "fst (m E (s, n)) = Ok x" unfolding surely_def by blast
  ultimately show "Q (fst (m E (s, n))) (g (fst (snd (m E (s, n)))))" using assms(3) by simp
qed

subsection \<open>Patterns\<close>

text \<open>\<open>LIKE\<close>: a percent sign matches any text, an underscore any character; letters of either case are equal.\<close>

fun like :: "string \<Rightarrow> string \<Rightarrow> bool" where
  "like [] t = (t = [])"
| "like (c # p) [] = (c = CHR ''%'' \<and> like p [])"
| "like (c # p) (d # t) =
     (if c = CHR ''%'' then like p (d # t) \<or> like (c # p) t
      else (c = CHR ''_'' \<or> to_lower c = to_lower d) \<and> like p t)"

definition no_wildcard :: "string \<Rightarrow> bool" where
  "no_wildcard s \<longleftrightarrow> CHR ''%'' \<notin> set s \<and> CHR ''_'' \<notin> set s"

lemma like_percent [simp]: "like ''%'' t"
  by (induction t) auto

lemma like_literal:
  "no_wildcard p \<Longrightarrow> like (p @ ''%'') t \<longleftrightarrow>
     length p \<le> length t \<and> map to_lower (take (length p) t) = map to_lower p"
proof (induction p arbitrary: t)
  case (Cons c p)
  then have "no_wildcard p" "c \<noteq> CHR ''%''" "c \<noteq> CHR ''_''" by (auto simp: no_wildcard_def)
  with Cons.IH show ?case by (cases t) auto
qed simp

text \<open>\<open>GLOB\<close> with the classes of digits, and the checks on stored addresses.\<close>

datatype glob_part = AnyDigit | AnyHex | AnyText | Literal char

fun glob :: "glob_part list \<Rightarrow> string \<Rightarrow> bool" where
  "glob [] t = (t = [])"
| "glob (AnyText # p) [] = glob p []"
| "glob (AnyText # p) (d # t) = (glob p (d # t) \<or> glob (AnyText # p) t)"
| "glob (AnyDigit # p) [] = False"
| "glob (AnyDigit # p) (d # t) = (CHR ''0'' \<le> d \<and> d \<le> CHR ''9'' \<and> glob p t)"
| "glob (AnyHex # p) [] = False"
| "glob (AnyHex # p) (d # t) =
     ((CHR ''0'' \<le> d \<and> d \<le> CHR ''9'' \<or> CHR ''A'' \<le> d \<and> d \<le> CHR ''F'' \<or> CHR ''a'' \<le> d \<and> d \<le> CHR ''f'')
      \<and> glob p t)"
| "glob (Literal c # p) [] = False"
| "glob (Literal c # p) (d # t) = (c = d \<and> glob p t)"

definition ipv4_glob :: "glob_part list" where
  "ipv4_glob = [AnyDigit, AnyText, Literal (CHR ''.''), AnyDigit, AnyText, Literal (CHR ''.''),
     AnyDigit, AnyText, Literal (CHR ''.''), AnyDigit, AnyText]"

definition mac_glob :: "glob_part list" where
  "mac_glob = [AnyHex, AnyHex, Literal (CHR '':''), AnyHex, AnyHex, Literal (CHR '':''), AnyHex, AnyHex,
     Literal (CHR '':''), AnyHex, AnyHex, Literal (CHR '':''), AnyHex, AnyHex, Literal (CHR '':''), AnyHex, AnyHex]"

lemma glob_AnyText: "glob p v \<Longrightarrow> glob (AnyText # p) (u @ v)"
proof (induction u)
  case Nil
  then show ?case by (cases v) auto
next
  case (Cons c u)
  then show ?case by simp
qed

lemma glob_digits:
  "glob p v \<Longrightarrow> CHR ''0'' \<le> c \<Longrightarrow> c \<le> CHR ''9'' \<Longrightarrow> glob (AnyDigit # AnyText # p) ((c # u) @ v)"
  by (simp add: glob_AnyText)

end
