(* ===== verification/Tables.thy ===== *)
theory Tables
  imports Prelude
begin

text \<open>
  Database tables with a unique key. The interface is a locale that the repositories'
  clients use; its model is a list of rows in insertion order, as SQLite keeps them by rowid.
\<close>

locale keyed_table =
  fixes inv :: "'t \<Rightarrow> bool"
    and get :: "'t \<Rightarrow> 'k \<Rightarrow> 'r option"
    and ins :: "'r \<Rightarrow> 't \<Rightarrow> 't"
    and del :: "('r \<Rightarrow> bool) \<Rightarrow> 't \<Rightarrow> 't"
    and upd :: "('r \<Rightarrow> bool) \<Rightarrow> ('r \<Rightarrow> 'r) \<Rightarrow> 't \<Rightarrow> 't"
    and key :: "'r \<Rightarrow> 'k"
  assumes inv_ins: "inv t \<Longrightarrow> get t (key r) = None \<Longrightarrow> inv (ins r t)"
    and inv_del: "inv t \<Longrightarrow> inv (del p t)"
    and inv_upd: "inv t \<Longrightarrow> (\<And>r. key (f r) = key r) \<Longrightarrow> inv (upd p f t)"
    and get_ins: "inv t \<Longrightarrow> get t (key r) = None \<Longrightarrow>
      get (ins r t) k = (if k = key r then Some r else get t k)"
    and get_del: "inv t \<Longrightarrow>
      get (del p t) k = (case get t k of Some r \<Rightarrow> if p r then None else Some r | None \<Rightarrow> None)"
    and get_upd: "inv t \<Longrightarrow> (\<And>r. key (f r) = key r) \<Longrightarrow>
      get (upd p f t) k = map_option (\<lambda>r. if p r then f r else r) (get t k)"
    and get_key: "get t k = Some r \<Longrightarrow> key r = k"
begin

lemma get_ins_same: "inv t \<Longrightarrow> get t (key r) = None \<Longrightarrow> get (ins r t) (key r) = Some r"
  by (simp add: get_ins)

lemma get_ins_other: "inv t \<Longrightarrow> get t (key r) = None \<Longrightarrow> k \<noteq> key r \<Longrightarrow> get (ins r t) k = get t k"
  by (simp add: get_ins)

lemma get_del_key: "inv t \<Longrightarrow> get (del (\<lambda>r. key r = k) t) k = None"
  by (auto simp: get_del dest: get_key split: option.splits)

lemma get_del_other: "inv t \<Longrightarrow> k' \<noteq> k \<Longrightarrow> get (del (\<lambda>r. key r = k) t) k' = get t k'"
  by (auto simp: get_del dest: get_key split: option.splits)

lemma get_upd_other:
  "inv t \<Longrightarrow> (\<And>r. key (f r) = key r) \<Longrightarrow> k' \<noteq> k \<Longrightarrow>
     get (upd (\<lambda>r. key r = k) f t) k' = get t k'"
  by (cases "get t k'") (auto simp: get_upd dest: get_key)

lemma get_upd_key:
  "inv t \<Longrightarrow> (\<And>r. key (f r) = key r) \<Longrightarrow>
     get (upd (\<lambda>r. key r = k) f t) k = map_option f (get t k)"
  by (cases "get t k") (auto simp: get_upd dest: get_key)

lemma put_after_delete:
  assumes "inv t" "key r = k"
  shows "get (ins r (del (\<lambda>x. key x = k) t)) k' = (if k' = k then Some r else get t k')"
  using assms get_ins [OF inv_del [OF assms(1)]] get_del_key [OF assms(1)] get_del_other [OF assms(1)]
  by auto

end

subsection \<open>Lists of rows\<close>

definition tbl_inv :: "('r \<Rightarrow> 'k) \<Rightarrow> 'r list \<Rightarrow> bool" where
  "tbl_inv key t \<longleftrightarrow> distinct (map key t)"

definition tbl_get :: "('r \<Rightarrow> 'k) \<Rightarrow> 'r list \<Rightarrow> 'k \<Rightarrow> 'r option" where
  "tbl_get key t k = find_first (\<lambda>r. key r = k) t"

definition tbl_ins :: "'r \<Rightarrow> 'r list \<Rightarrow> 'r list" where
  "tbl_ins r t = t @ [r]"

definition tbl_del :: "('r \<Rightarrow> bool) \<Rightarrow> 'r list \<Rightarrow> 'r list" where
  "tbl_del p t = filter (\<lambda>r. \<not> p r) t"

definition tbl_upd :: "('r \<Rightarrow> bool) \<Rightarrow> ('r \<Rightarrow> 'r) \<Rightarrow> 'r list \<Rightarrow> 'r list" where
  "tbl_upd p f t = map (\<lambda>r. if p r then f r else r) t"

lemma tbl_get_None [tbl_simps]: "tbl_get key t k = None \<longleftrightarrow> k \<notin> key ` set t"
  by (auto simp: tbl_get_def find_first_None)

lemma tbl_get_Some [tbl_simps]:
  "tbl_inv key t \<Longrightarrow> tbl_get key t k = Some r \<longleftrightarrow> r \<in> set t \<and> key r = k"
proof (induction t)
  case (Cons x t)
  then show ?case by (auto simp: tbl_get_def tbl_inv_def image_iff)
qed (simp add: tbl_get_def)

lemma image_map_filter:
  assumes "\<And>x. P (g x) \<longleftrightarrow> Q x" "\<And>x. k (g x) = k x"
  shows "k ` {y \<in> set (map g xs). P y} = k ` {x \<in> set xs. Q x}"
proof -
  have "{y \<in> set (map g xs). P y} = g ` {x \<in> set xs. Q x}" using assms(1) by auto
  then show ?thesis by (simp add: image_image assms(2))
qed

lemma find_first_key:
  "tbl_inv key t \<Longrightarrow> x \<in> set t \<Longrightarrow> q x \<Longrightarrow> find_first (\<lambda>y. key y = key x \<and> q y) t = Some x"
  by (induction t) (auto simp: tbl_inv_def)

lemma find_first_append:
  "find_first p (xs @ ys) = (case find_first p xs of Some x \<Rightarrow> Some x | None \<Rightarrow> find_first p ys)"
  by (induction xs) auto

lemma tbl_get_upd:
  "(\<And>r. key (f r) = key r) \<Longrightarrow> tbl_get key (tbl_upd p f t) k = map_option (\<lambda>r. if p r then f r else r) (tbl_get key t k)"
  by (induction t) (auto simp: tbl_get_def tbl_upd_def)

lemma list_table: "keyed_table (tbl_inv key) (tbl_get key) tbl_ins tbl_del tbl_upd key"
proof
  show "tbl_inv key t \<Longrightarrow> tbl_get key t (key r) = None \<Longrightarrow> tbl_inv key (tbl_ins r t)" for t r
    by (simp add: tbl_inv_def tbl_ins_def tbl_get_None)
  show d: "tbl_inv key t \<Longrightarrow> tbl_inv key (tbl_del p t)" for t p
    by (simp add: tbl_inv_def tbl_del_def distinct_map_filter)
  have km: "(\<And>r. key (f r) = key r) \<Longrightarrow> map key (tbl_upd p f t) = map key t" for p f t
    by (auto simp: tbl_upd_def)
  show "tbl_inv key t \<Longrightarrow> (\<And>r. key (f r) = key r) \<Longrightarrow> tbl_inv key (tbl_upd p f t)" for t f p
    by (simp add: tbl_inv_def km)
  show "tbl_inv key t \<Longrightarrow> tbl_get key t (key r) = None \<Longrightarrow>
      tbl_get key (tbl_ins r t) k = (if k = key r then Some r else tbl_get key t k)" for t r k
    by (auto simp: tbl_get_def tbl_ins_def find_first_append split: option.splits)
  show "tbl_get key (tbl_del p t) k =
      (case tbl_get key t k of Some r \<Rightarrow> if p r then None else Some r | None \<Rightarrow> None)"
    if inv: "tbl_inv key t" for t p k
  proof (cases "tbl_get key (tbl_del p t) k")
    case None
    then have "\<And>r. r \<in> set t \<Longrightarrow> key r = k \<Longrightarrow> p r" by (auto simp: tbl_get_None tbl_del_def)
    with None show ?thesis using inv by (auto simp: tbl_get_Some split: option.splits)
  next
    case (Some r)
    then have r: "r \<in> set t" "\<not> p r" "key r = k"
      using tbl_get_Some [OF d [OF inv]] by (auto simp: tbl_del_def)
    then have "tbl_get key t k = Some r" using inv by (simp add: tbl_get_Some)
    with Some r show ?thesis by simp
  qed
  show "tbl_get key (tbl_upd p f t) k = map_option (\<lambda>r. if p r then f r else r) (tbl_get key t k)"
    if "\<And>r. key (f r) = key r" for t f p k
    using that by (rule tbl_get_upd)
  show "tbl_get key t k = Some r \<Longrightarrow> key r = k" for t k r
    by (auto simp: tbl_get_def dest: find_first_Some)
qed

lemma tbl_set_simps [tbl_simps]:
  "set (tbl_ins r t) = insert r (set t)"
  "set (tbl_del p t) = {r \<in> set t. \<not> p r}"
  "set (tbl_upd p f t) = (\<lambda>r. if p r then f r else r) ` set t"
  by (auto simp: tbl_ins_def tbl_del_def tbl_upd_def)

lemma tbl_inv_simps [tbl_simps]:
  "tbl_inv key (tbl_ins r t) \<longleftrightarrow> tbl_inv key t \<and> key r \<notin> key ` set t"
  "tbl_inv key t \<Longrightarrow> tbl_inv key (tbl_del p t)"
  by (auto simp: tbl_inv_def tbl_ins_def tbl_del_def distinct_map_filter)

lemma tbl_map_key_upd: "(\<And>r. key (f r) = key r) \<Longrightarrow> map key (tbl_upd p f t) = map key t"
  by (auto simp: tbl_upd_def)

lemma tbl_inv_upd [tbl_simps]:
  "(\<And>r. key (f r) = key r) \<Longrightarrow> tbl_inv key (tbl_upd p f t) \<longleftrightarrow> tbl_inv key t"
  by (simp add: tbl_inv_def tbl_map_key_upd)

lemma tbl_keys_upd [tbl_simps]:
  assumes "\<And>r. key (f r) = key r"
  shows "key ` set (tbl_upd p f t) = key ` set t"
proof -
  have "set (map key (tbl_upd p f t)) = set (map key t)" by (simp only: tbl_map_key_upd [of key f, OF assms])
  then show ?thesis by simp
qed

lemma tbl_keys_overwrite:
  "(\<And>r. key (f r) = k) \<Longrightarrow> key ` set (tbl_upd (\<lambda>r. key r = k) f t) = key ` set t"
  by (induction t) (auto simp: tbl_upd_def)

text \<open>References into a table survive the removal of a row that none of them names.\<close>

lemma refs_after_delete:
  assumes "ref ` V \<subseteq> key ` N" "\<And>v. v \<in> V \<Longrightarrow> ref v \<noteq> i"
  shows "ref ` V \<subseteq> key ` {n \<in> N. key n \<noteq> i}"
proof (rule image_subsetI)
  fix v
  assume v: "v \<in> V"
  then have "ref v \<in> key ` N" using assms(1) by blast
  then obtain n where "n \<in> N" "ref v = key n" by (rule imageE)
  then show "ref v \<in> key ` {n \<in> N. key n \<noteq> i}" using assms(2) [OF v] by auto
qed

lemma fresh_second_key:
  assumes "\<not> list_ex (\<lambda>m. k2 m = c \<and> k1 m \<noteq> k) t" "tbl_get k1 t k = None"
  shows "c \<notin> k2 ` set t"
proof
  assume "c \<in> k2 ` set t"
  then obtain m where m: "c = k2 m" "m \<in> set t" by (rule imageE)
  then have "k1 m = k" using assms(1) by (auto simp: list_ex_iff)
  then show False using assms(2) imageI [OF m(2), of k1] by (simp add: tbl_get_None)
qed

text \<open>Overwriting the row of one key keeps a second key unique if its new value is fresh.\<close>

lemma tbl_inv_overwrite:
  assumes "tbl_inv k1 t" "tbl_inv k2 t"
    and "\<And>r. r \<in> set t \<Longrightarrow> k1 r \<noteq> k \<Longrightarrow> k2 r \<noteq> c" "\<And>r. k2 (f r) = c"
  shows "tbl_inv k2 (tbl_upd (\<lambda>r. k1 r = k) f t)"
  using assms
proof (induction t)
  case (Cons x t)
  then have IH: "tbl_inv k2 (tbl_upd (\<lambda>r. k1 r = k) f t)" by (simp add: tbl_inv_def)
  have x: "k1 x \<notin> k1 ` set t" "k2 x \<notin> k2 ` set t" using Cons.prems by (auto simp: tbl_inv_def)
  show ?case
  proof (cases "k1 x = k")
    case True
    then have "tbl_upd (\<lambda>r. k1 r = k) f t = t" using x(1)
      by (auto simp: tbl_upd_def image_iff intro!: map_idI)
    moreover have "k2 r \<noteq> c" if r: "r \<in> set t" for r
    proof (rule Cons.prems(3))
      show "k1 r \<noteq> k" using True x(1) r by (metis imageI)
    qed (simp add: r)
    then have "c \<notin> k2 ` set t" by auto
    ultimately show ?thesis using IH True Cons.prems(4) by (simp add: tbl_inv_def tbl_upd_def)
  next
    case False
    then have "k2 x \<notin> set (map k2 (tbl_upd (\<lambda>r. k1 r = k) f t))"
      using x(2) Cons.prems(3) [of x] Cons.prems(4) by (auto simp: tbl_upd_def split: if_splits)
    with IH have "tbl_inv k2 (x # tbl_upd (\<lambda>r. k1 r = k) f t)" by (simp add: tbl_inv_def)
    with False show ?thesis by (simp add: tbl_upd_def)
  qed
qed (simp add: tbl_upd_def)

end
