(* ===== verification/Store.thy ===== *)
theory Store
  imports Statements Tables Sorting "HOL-Library.List_Lexorder" "HOL-Library.Char_ord"
begin

text \<open>
  The tables of networks, address leases and machines
  (\<open>internal/lib/db/migrations/001_initial_schema.sql\<close>) with the statements that
  \<open>internal/core/network/sqlite.go\<close>, \<open>lease_sqlite.go\<close> and \<open>internal/core/vm/sqlite.go\<close>
  make: primary and unique keys, checks and foreign keys are those of the schema. The tables
  of images, kernels and binaries enter with their keys only; the rows of firewall rules,
  snapshots and vsock configurations that refer to a network or a machine are not kept here.
\<close>

subsection \<open>Rows\<close>

record network =
  n_id :: string
  n_name :: string
  n_subnet :: string
  n_bridge :: string
  n_gateway :: string
  n_active :: bool
  n_nat :: bool
  n_default :: bool
  n_present :: bool
  n_created :: string
  n_updated :: string
  n_deleted :: "string option"
  n_gateways :: "string option"

record lease =
  l_net :: string
  l_ip :: string
  l_at :: string
  l_id :: "int option"
  l_vm :: "string option"
  l_expires :: "string option"

datatype vm_status = Starting | Running | Paused | Stopping | Stopped | Crashed | Failed

text \<open>The columns of a machine that are stored and read back, but never decided on.\<close>

record vm_rest =
  vr_tap :: string
  vr_cloud_mode :: string
  vr_relay_socket :: "string option"
  vr_nocloud_port :: "int option"
  vr_nocloud_pid :: "int option"
  vr_relay_pid :: "int option"
  vr_log :: "string option"
  vr_serial :: "string option"
  vr_vcpus :: int
  vr_mem :: int
  vr_disk :: int
  vr_rootfs :: string
  vr_suffix :: string
  vr_pci :: bool
  vr_remote_exec :: bool
  vr_logging :: bool
  vr_metrics :: bool
  vr_console :: bool
  vr_ssh_keys :: "string list"
  vr_ssh_user :: "string option"
  vr_lsm :: string
  vr_boot_args :: string
  vr_cpu :: "string option"

record vm =
  v_id :: string
  v_name :: string
  v_status :: vm_status
  v_pid :: int
  v_start :: "int option"
  v_ip :: string
  v_mac :: string
  v_net :: string
  v_image :: string
  v_kernel :: string
  v_binary :: string
  v_socket :: string
  v_config :: string
  v_nested :: bool
  v_exit :: "int option"
  v_volumes :: "string list"
  v_created :: string
  v_updated :: string
  v_rest :: vm_rest

record db =
  nets :: "network list"
  leases :: "lease list"
  lease_seq :: int
  vms :: "vm list"
  images :: "string list"
  kernels :: "string list"
  binaries :: "string list"

type_synonym 'a act = "(db, 'a) prog"

definition lease_key :: "lease \<Rightarrow> string \<times> string" where
  "lease_key l = (l_net l, l_ip l)"

interpretation net_tbl: keyed_table "tbl_inv n_id" "tbl_get n_id" tbl_ins tbl_del tbl_upd n_id
  by (rule list_table)

interpretation lease_tbl: keyed_table "tbl_inv lease_key" "tbl_get lease_key" tbl_ins tbl_del tbl_upd lease_key
  by (rule list_table)

interpretation vm_tbl: keyed_table "tbl_inv v_id" "tbl_get v_id" tbl_ins tbl_del tbl_upd v_id
  by (rule list_table)

definition constraint_failed :: "string \<Rightarrow> err" where
  "constraint_failed what = Plain (''constraint failed: '' @ what) None"

text \<open>What the schema promises of a stored state.\<close>

definition db_ok :: "db \<Rightarrow> bool" where
  "db_ok d \<longleftrightarrow>
     tbl_inv n_id (nets d) \<and> tbl_inv n_name (nets d) \<and> tbl_inv lease_key (leases d) \<and>
     tbl_inv v_id (vms d) \<and> tbl_inv v_name (vms d) \<and>
     l_net ` set (leases d) \<subseteq> n_id ` set (nets d) \<and> v_net ` set (vms d) \<subseteq> n_id ` set (nets d)"

subsection \<open>Networks\<close>

definition visible :: "bool \<Rightarrow> network \<Rightarrow> bool" where
  "visible includeDeleted n \<longleftrightarrow> includeDeleted \<or> n_deleted n = None"

definition net_Get :: "string \<Rightarrow> network option act" where
  "net_Get i = query (\<lambda>d. find_first (\<lambda>n. n_id n = i \<and> visible False n) (nets d))"

definition net_GetByName :: "string \<Rightarrow> bool \<Rightarrow> network option act" where
  "net_GetByName nm del = query (\<lambda>d. find_first (\<lambda>n. n_name n = nm \<and> visible del n) (nets d))"

definition net_FindByPrefix :: "string \<Rightarrow> bool \<Rightarrow> network list act" where
  "net_FindByPrefix p del = query (\<lambda>d. filter (\<lambda>n. like (p @ ''%'') (n_id n) \<and> visible del n) (nets d))"

definition net_ListAll :: "network list act" where
  "net_ListAll = query (\<lambda>d. sort_by (\<lambda>m n. n_created m < n_created n) (nets d))"

definition net_Upsert :: "network \<Rightarrow> unit act" where
  "net_Upsert n = stmt (\<lambda>now d.
     if list_ex (\<lambda>m. n_name m = n_name n \<and> n_id m \<noteq> n_id n) (nets d)
     then (Err (constraint_failed ''UNIQUE networks.name''), d)
     else case tbl_get n_id (nets d) (n_id n) of
       None \<Rightarrow> (Ok (), d\<lparr>nets := tbl_ins n (nets d)\<rparr>)
     | Some old \<Rightarrow> (Ok (), d\<lparr>nets := tbl_upd (\<lambda>m. n_id m = n_id n)
         (\<lambda>m. n\<lparr>n_created := n_created m, n_updated := now\<rparr>) (nets d)\<rparr>))"

definition net_Delete :: "string \<Rightarrow> unit act" where
  "net_Delete i = stmt (\<lambda>now d.
     if list_ex (\<lambda>v. v_net v = i) (vms d) \<and> list_ex (\<lambda>n. n_id n = i) (nets d)
     then (Err (constraint_failed ''FOREIGN KEY''), d)
     else (Ok (), d\<lparr>nets := tbl_del (\<lambda>n. n_id n = i) (nets d), leases := tbl_del (\<lambda>l. l_net l = i) (leases d)\<rparr>))"

definition net_SoftDelete :: "string \<Rightarrow> string \<Rightarrow> unit act" where
  "net_SoftDelete t i = exec (\<lambda>now d.
     d\<lparr>nets := tbl_upd (\<lambda>n. n_id n = i) (\<lambda>n. n\<lparr>n_deleted := Some t, n_updated := now\<rparr>) (nets d)\<rparr>)"

definition net_UpdateManyIsPresent :: "string list \<Rightarrow> bool \<Rightarrow> unit act" where
  "net_UpdateManyIsPresent ids p =
     (if ids = [] then ret ()
      else exec (\<lambda>now d. d\<lparr>nets := tbl_upd (\<lambda>n. n_id n \<in> set ids) (\<lambda>n. n\<lparr>n_present := p, n_updated := now\<rparr>) (nets d)\<rparr>))"

definition net_UpdateBridgeActive :: "string \<Rightarrow> bool \<Rightarrow> unit act" where
  "net_UpdateBridgeActive i a = exec (\<lambda>now d.
     d\<lparr>nets := tbl_upd (\<lambda>n. n_id n = i) (\<lambda>n. n\<lparr>n_active := a, n_updated := now\<rparr>) (nets d)\<rparr>)"

text \<open>One transaction of two updates.\<close>

definition clear_default :: "network list \<Rightarrow> network list" where
  "clear_default = tbl_upd (\<lambda>n. n_deleted n = None) (\<lambda>n. n\<lparr>n_default := False\<rparr>)"

definition mark_default :: "string \<Rightarrow> string \<Rightarrow> network list \<Rightarrow> network list" where
  "mark_default now i = tbl_upd (\<lambda>n. n_id n = i \<and> n_deleted n = None) (\<lambda>n. n\<lparr>n_default := True, n_updated := now\<rparr>)"

definition net_SetDefault :: "string \<Rightarrow> unit act" where
  "net_SetDefault i = exec (\<lambda>now d. d\<lparr>nets := mark_default now i (clear_default (nets d))\<rparr>)"

definition net_GetDefault :: "network option act" where
  "net_GetDefault = query (\<lambda>d. find_first (\<lambda>n. n_default n \<and> visible False n) (nets d))"

definition net_Count :: "nat act" where
  "net_Count = query (\<lambda>d. length (filter (visible False) (nets d)))"

subsection \<open>Leases\<close>

definition oldest_first :: "lease list \<Rightarrow> lease list" where
  "oldest_first = sort_by (\<lambda>l m. l_at l < l_at m)"

definition lease_Get :: "string \<Rightarrow> string \<Rightarrow> lease option act" where
  "lease_Get n ip = query (\<lambda>d. tbl_get lease_key (leases d) (n, ip))"

definition lease_ListAll :: "string \<Rightarrow> lease list act" where
  "lease_ListAll n = query (\<lambda>d. oldest_first (filter (\<lambda>l. l_net l = n) (leases d)))"

definition lease_ListByVM :: "string \<Rightarrow> string \<Rightarrow> lease list act" where
  "lease_ListByVM n v = query (\<lambda>d. oldest_first (filter (\<lambda>l. l_net l = n \<and> l_vm l = Some v) (leases d)))"

definition lease_ListAllBatch :: "string list \<Rightarrow> lease list act" where
  "lease_ListAllBatch ns =
     (if ns = [] then ret []
      else query (\<lambda>d. oldest_first (filter (\<lambda>l. l_net l \<in> set ns) (leases d))))"

text \<open>
  \<open>INSERT OR IGNORE\<close> skips a row that breaks a unique key or a check; a missing network is
  an error all the same. The answer is the number of rows inserted.
\<close>

definition new_lease :: "string \<Rightarrow> string \<Rightarrow> string option \<Rightarrow> string \<Rightarrow> int \<Rightarrow> lease" where
  "new_lease n ip v now i = \<lparr>l_net = n, l_ip = ip, l_at = now, l_id = Some i, l_vm = v, l_expires = None\<rparr>"

definition insert_lease :: "string \<Rightarrow> string \<Rightarrow> string option \<Rightarrow> nat act" where
  "insert_lease n ip v = stmt (\<lambda>now d.
     if \<not> glob ipv4_glob ip \<or> tbl_get lease_key (leases d) (n, ip) \<noteq> None then (Ok 0, d)
     else if n \<notin> n_id ` set (nets d) then (Err (constraint_failed ''FOREIGN KEY''), d)
     else (Ok 1, d\<lparr>leases := tbl_ins (new_lease n ip v now (lease_seq d + 1)) (leases d), lease_seq := lease_seq d + 1\<rparr>))"

definition Acquire :: "string \<Rightarrow> string \<Rightarrow> string option \<Rightarrow> lease option act" where
  "Acquire n ip v = bind_prog (insert_lease n ip v) (\<lambda>rows. if rows = 0 then ret None else lease_Get n ip)"

definition lease_Release :: "string \<Rightarrow> string \<Rightarrow> unit act" where
  "lease_Release n ip = exec (\<lambda>now d. d\<lparr>leases := tbl_del (\<lambda>l. lease_key l = (n, ip)) (leases d)\<rparr>)"

definition ReleaseByVM :: "string \<Rightarrow> unit act" where
  "ReleaseByVM v = exec (\<lambda>now d. d\<lparr>leases := tbl_del (\<lambda>l. l_vm l = Some v) (leases d)\<rparr>)"

definition lease_Count :: "nat act" where
  "lease_Count = query (\<lambda>d. length (leases d))"

subsection \<open>Machines\<close>

definition vm_by :: "(vm \<Rightarrow> bool) \<Rightarrow> vm option act" where
  "vm_by p = query (\<lambda>d. find_first p (vms d))"

definition vm_where :: "(vm \<Rightarrow> bool) \<Rightarrow> vm list act" where
  "vm_where p = query (\<lambda>d. filter p (vms d))"

definition vm_Get :: "string \<Rightarrow> vm option act" where
  "vm_Get i = vm_by (\<lambda>v. v_id v = i)"

definition vm_GetByName :: "string \<Rightarrow> vm option act" where
  "vm_GetByName nm = vm_by (\<lambda>v. v_name v = nm)"

definition vm_FindByIP :: "string \<Rightarrow> vm option act" where
  "vm_FindByIP ip = vm_by (\<lambda>v. v_ip v = ip)"

definition vm_FindByMAC :: "string \<Rightarrow> vm option act" where
  "vm_FindByMAC m = vm_by (\<lambda>v. v_mac v = m)"

definition vm_NamesExist :: "string list \<Rightarrow> string list act" where
  "vm_NamesExist ns = (if ns = [] then ret []
     else annotate ''names exist'' (query (\<lambda>d. sort_by (<) (filter (\<lambda>nm. nm \<in> set ns) (map v_name (vms d))))))"

definition vm_FindByPrefix :: "string \<Rightarrow> vm list act" where
  "vm_FindByPrefix p = annotate ''find vm by prefix'' (vm_where (\<lambda>v. like (p @ ''%'') (v_id v)))"

definition vm_Count :: "nat act" where
  "vm_Count = query (\<lambda>d. length (vms d))"

definition vm_CountByStatus :: "vm_status list \<Rightarrow> nat act" where
  "vm_CountByStatus ss = (if ss = [] then vm_Count
     else query (\<lambda>d. length (filter (\<lambda>v. v_status v \<in> set ss) (vms d))))"

definition vm_FindByNetworkID :: "string \<Rightarrow> vm list act" where
  "vm_FindByNetworkID i = annotate ''find vms by network id'' (vm_where (\<lambda>v. v_net v = i))"

definition vm_GetByNetworkIDs :: "string list \<Rightarrow> vm list act" where
  "vm_GetByNetworkIDs is = (if is = [] then ret [] else annotate ''get vms by network ids'' (vm_where (\<lambda>v. v_net v \<in> set is)))"

definition vm_FindByKernelID :: "string \<Rightarrow> vm list act" where
  "vm_FindByKernelID i = annotate ''find vms by kernel id'' (vm_where (\<lambda>v. v_kernel v = i))"

definition vm_GetByKernelIDs :: "string list \<Rightarrow> vm list act" where
  "vm_GetByKernelIDs is = (if is = [] then ret [] else annotate ''get vms by kernel ids'' (vm_where (\<lambda>v. v_kernel v \<in> set is)))"

definition vm_FindByBinaryID :: "string \<Rightarrow> vm list act" where
  "vm_FindByBinaryID i = annotate ''find vms by binary id'' (vm_where (\<lambda>v. v_binary v = i))"

definition vm_GetByBinaryIDs :: "string list \<Rightarrow> vm list act" where
  "vm_GetByBinaryIDs is = (if is = [] then ret [] else annotate ''get vms by binary ids'' (vm_where (\<lambda>v. v_binary v \<in> set is)))"

definition vm_GetByImageIDs :: "string list \<Rightarrow> vm list act" where
  "vm_GetByImageIDs is = (if is = [] then ret [] else annotate ''get vms by image ids'' (vm_where (\<lambda>v. v_image v \<in> set is)))"

definition by_creation :: "vm list \<Rightarrow> vm list" where
  "by_creation = sort_by (\<lambda>v w. v_created v < v_created w)"

definition vm_ListAll :: "vm list act" where
  "vm_ListAll = annotate ''list all vms'' (query (\<lambda>d. by_creation (vms d)))"

definition vm_ListByStatus :: "vm_status list \<Rightarrow> vm list act" where
  "vm_ListByStatus ss = (if ss = [] then vm_ListAll
     else annotate ''list vms by status'' (query (\<lambda>d. by_creation (filter (\<lambda>v. v_status v \<in> set ss) (vms d)))))"

definition vm_ListExcludingStatuses :: "vm_status list \<Rightarrow> vm list act" where
  "vm_ListExcludingStatuses ss = (if ss = [] then vm_ListAll
     else annotate ''list vms excluding statuses'' (query (\<lambda>d. by_creation (filter (\<lambda>v. v_status v \<notin> set ss) (vms d)))))"

text \<open>
  Insert or overwrite a machine: the checks on its addresses, its unique name and its four
  references are the schema's. An overwritten row keeps when it was created.
\<close>

definition vm_refs_ok :: "db \<Rightarrow> vm \<Rightarrow> bool" where
  "vm_refs_ok d v \<longleftrightarrow> v_net v \<in> n_id ` set (nets d) \<and> v_image v \<in> set (images d) \<and>
     v_kernel v \<in> set (kernels d) \<and> v_binary v \<in> set (binaries d)"

definition vm_Upsert :: "vm \<Rightarrow> unit act" where
  "vm_Upsert v = stmt (\<lambda>now d.
     if \<not> glob ipv4_glob (v_ip v) \<or> \<not> glob mac_glob (v_mac v) then (Err (constraint_failed ''CHECK''), d)
     else if list_ex (\<lambda>w. v_name w = v_name v \<and> v_id w \<noteq> v_id v) (vms d)
       then (Err (constraint_failed ''UNIQUE vm_instances.name''), d)
     else if \<not> vm_refs_ok d v then (Err (constraint_failed ''FOREIGN KEY''), d)
     else case tbl_get v_id (vms d) (v_id v) of
       None \<Rightarrow> (Ok (), d\<lparr>vms := tbl_ins v (vms d)\<rparr>)
     | Some old \<Rightarrow> (Ok (), d\<lparr>vms := tbl_upd (\<lambda>w. v_id w = v_id v)
         (\<lambda>w. v\<lparr>v_created := v_created w, v_updated := now\<rparr>) (vms d)\<rparr>))"

definition set_vm :: "string \<Rightarrow> (vm \<Rightarrow> vm) \<Rightarrow> string \<Rightarrow> db \<Rightarrow> db" where
  "set_vm i f now d = d\<lparr>vms := tbl_upd (\<lambda>v. v_id v = i) (\<lambda>v. (f v)\<lparr>v_updated := now\<rparr>) (vms d)\<rparr>"

definition update_vm :: "string \<Rightarrow> (vm \<Rightarrow> vm) \<Rightarrow> unit act" where
  "update_vm i f = exec (set_vm i f)"

definition UpdateStatus :: "string \<Rightarrow> vm_status \<Rightarrow> unit act" where
  "UpdateStatus i st = update_vm i (v_status_update (\<lambda>_. st))"

text \<open>A null process number breaks the table's NOT NULL and is an error if there is such a row.\<close>

definition null_pid :: "string \<Rightarrow> unit act" where
  "null_pid i = stmt (\<lambda>now d.
     if i \<in> v_id ` set (vms d) then (Err (constraint_failed ''NOT NULL vm_instances.pid''), d) else (Ok (), d))"

definition UpdatePID :: "string \<Rightarrow> int option \<Rightarrow> unit act" where
  "UpdatePID i pid = (case pid of None \<Rightarrow> null_pid i | Some p \<Rightarrow> update_vm i (v_pid_update (\<lambda>_. p)))"

definition UpdateProcessInfo :: "string \<Rightarrow> int option \<Rightarrow> int option \<Rightarrow> unit act" where
  "UpdateProcessInfo i pid start =
     (case pid of None \<Rightarrow> null_pid i
      | Some p \<Rightarrow> update_vm i (\<lambda>v. v\<lparr>v_pid := p, v_start := start\<rparr>))"

definition UpdateExitCode :: "string \<Rightarrow> int \<Rightarrow> unit act" where
  "UpdateExitCode i c = update_vm i (v_exit_update (\<lambda>_. Some c))"

definition vm_Delete :: "string \<Rightarrow> unit act" where
  "vm_Delete i = exec (\<lambda>now d. d\<lparr>vms := tbl_del (\<lambda>v. v_id v = i) (vms d)\<rparr>)"

definition vm_DeleteMany :: "string list \<Rightarrow> nat act" where
  "vm_DeleteMany is = (if is = [] then ret 0
     else stmt (\<lambda>now d. (Ok (length (filter (\<lambda>v. v_id v \<in> set is) (vms d))),
       d\<lparr>vms := tbl_del (\<lambda>v. v_id v \<in> set is) (vms d)\<rparr>)))"

subsection \<open>The schema's promises are kept\<close>

definition keeps_schema :: "db \<Rightarrow> db \<Rightarrow> bool" where
  "keeps_schema d d' \<longleftrightarrow> (db_ok d \<longrightarrow> db_ok d')"

interpretation schema: guarantee keeps_schema
  by unfold_locales (auto simp: keeps_schema_def)

lemmas db_simps = db_ok_def keeps_schema_def tbl_simps

lemma net_rows_upd:
  assumes "\<And>n. n_id (f n) = n_id n" "\<And>n. n_name (f n) = n_name n"
  shows "keeps_schema d (d\<lparr>nets := tbl_upd p f (nets d)\<rparr>)"
  using assms by (simp add: keeps_schema_def db_ok_def tbl_inv_upd tbl_keys_upd)

lemma vm_rows_upd:
  assumes "\<And>v. v_id (f v) = v_id v" "\<And>v. v_name (f v) = v_name v" "\<And>v. v_net (f v) = v_net v"
  shows "keeps_schema d (d\<lparr>vms := tbl_upd p f (vms d)\<rparr>)"
  using assms by (simp add: keeps_schema_def db_ok_def tbl_inv_upd tbl_keys_upd)

lemma rows_del:
  "keeps_schema d (d\<lparr>leases := tbl_del p (leases d)\<rparr>)" "keeps_schema d (d\<lparr>vms := tbl_del q (vms d)\<rparr>)"
  by (auto simp: db_simps)

lemma update_vm_schema:
  assumes "\<And>v. v_id (f v) = v_id v" "\<And>v. v_name (f v) = v_name v" "\<And>v. v_net (f v) = v_net v"
  shows "within keeps_schema (update_vm i f)"
  unfolding update_vm_def set_vm_def using assms by (intro schema.within_exec vm_rows_upd) simp_all

lemma net_Upsert_schema: "within keeps_schema (net_Upsert n)"
  unfolding net_Upsert_def
proof (rule schema.within_stmt)
  fix now and d :: db
  let ?t = "nets d" and ?f = "\<lambda>m. n\<lparr>n_created := n_created m, n_updated := now\<rparr>"
  let ?u = "tbl_upd (\<lambda>m. n_id m = n_id n) ?f ?t"
  have upd: "db_ok (d\<lparr>nets := ?u\<rparr>)"
    if ok: "db_ok d" and fresh: "\<not> list_ex (\<lambda>m. n_name m = n_name n \<and> n_id m \<noteq> n_id n) ?t"
  proof -
    have "tbl_inv n_id ?u"
      by (rule tbl_inv_overwrite [where c = "n_id n"]) (use ok in \<open>simp_all add: db_ok_def\<close>)
    moreover have "tbl_inv n_name ?u"
      by (rule tbl_inv_overwrite [where c = "n_name n"]) (use ok fresh in \<open>auto simp: db_ok_def list_ex_iff\<close>)
    moreover have "n_id ` set ?u = n_id ` set ?t" by (rule tbl_keys_overwrite) simp
    ultimately show ?thesis using ok by (simp add: db_ok_def)
  qed
  have ins: "db_ok (d\<lparr>nets := tbl_ins n ?t\<rparr>)"
    if "db_ok d" "\<not> list_ex (\<lambda>m. n_name m = n_name n \<and> n_id m \<noteq> n_id n) ?t" "tbl_get n_id ?t (n_id n) = None"
    using that fresh_second_key [OF that(2,3)]
    by (simp add: db_ok_def tbl_inv_simps tbl_get_None tbl_set_simps subset_insertI2)
  show "keeps_schema d (snd (if list_ex (\<lambda>m. n_name m = n_name n \<and> n_id m \<noteq> n_id n) ?t
      then (Err (constraint_failed ''UNIQUE networks.name''), d)
      else case tbl_get n_id ?t (n_id n) of
        None \<Rightarrow> (Ok (), d\<lparr>nets := tbl_ins n ?t\<rparr>) | Some old \<Rightarrow> (Ok (), d\<lparr>nets := ?u\<rparr>)))"
    using upd ins by (simp add: keeps_schema_def split: option.split)
qed

lemma vm_Upsert_schema: "within keeps_schema (vm_Upsert v)"
  unfolding vm_Upsert_def
proof (rule schema.within_stmt)
  fix now and d :: db
  let ?t = "vms d" and ?f = "\<lambda>w. v\<lparr>v_created := v_created w, v_updated := now\<rparr>"
  let ?u = "tbl_upd (\<lambda>w. v_id w = v_id v) ?f ?t"
  have upd: "db_ok (d\<lparr>vms := ?u\<rparr>)"
    if ok: "db_ok d" and fresh: "\<not> list_ex (\<lambda>w. v_name w = v_name v \<and> v_id w \<noteq> v_id v) ?t" and "vm_refs_ok d v"
  proof -
    have "tbl_inv v_id ?u"
      by (rule tbl_inv_overwrite [where c = "v_id v"]) (use ok in \<open>simp_all add: db_ok_def\<close>)
    moreover have "tbl_inv v_name ?u"
      by (rule tbl_inv_overwrite [where c = "v_name v"]) (use ok fresh in \<open>auto simp: db_ok_def list_ex_iff\<close>)
    moreover have "v_net ` set ?u \<subseteq> insert (v_net v) (v_net ` set ?t)" by (auto simp: tbl_set_simps)
    then have "v_net ` set ?u \<subseteq> n_id ` set (nets d)"
      by (rule subset_trans) (use ok that(3) in \<open>simp add: db_ok_def vm_refs_ok_def\<close>)
    ultimately show ?thesis using ok by (simp add: db_ok_def)
  qed
  have ins: "db_ok (d\<lparr>vms := tbl_ins v ?t\<rparr>)"
    if "db_ok d" "\<not> list_ex (\<lambda>w. v_name w = v_name v \<and> v_id w \<noteq> v_id v) ?t" "tbl_get v_id ?t (v_id v) = None"
      "vm_refs_ok d v"
    using that fresh_second_key [OF that(2,3)]
    by (simp add: db_ok_def tbl_inv_simps tbl_get_None tbl_set_simps vm_refs_ok_def)
  show "keeps_schema d (snd (if \<not> glob ipv4_glob (v_ip v) \<or> \<not> glob mac_glob (v_mac v)
      then (Err (constraint_failed ''CHECK''), d)
      else if list_ex (\<lambda>w. v_name w = v_name v \<and> v_id w \<noteq> v_id v) ?t
        then (Err (constraint_failed ''UNIQUE vm_instances.name''), d)
      else if \<not> vm_refs_ok d v then (Err (constraint_failed ''FOREIGN KEY''), d)
      else case tbl_get v_id ?t (v_id v) of
        None \<Rightarrow> (Ok (), d\<lparr>vms := tbl_ins v ?t\<rparr>) | Some old \<Rightarrow> (Ok (), d\<lparr>vms := ?u\<rparr>)))"
    using upd ins by (simp add: keeps_schema_def split: option.split)
qed

lemma net_Delete_schema: "within keeps_schema (net_Delete i)"
  unfolding net_Delete_def
proof (rule schema.within_stmt)
  fix now and d :: db
  let ?d = "d\<lparr>nets := tbl_del (\<lambda>n. n_id n = i) (nets d), leases := tbl_del (\<lambda>l. l_net l = i) (leases d)\<rparr>"
  have "db_ok ?d" if ok: "db_ok d" and free: "\<not> (list_ex (\<lambda>v. v_net v = i) (vms d) \<and> list_ex (\<lambda>n. n_id n = i) (nets d))"
  proof -
    have "v_net ` set (vms d) \<subseteq> n_id ` {n \<in> set (nets d). n_id n \<noteq> i}"
    proof (rule refs_after_delete)
      show sub: "v_net ` set (vms d) \<subseteq> n_id ` set (nets d)" using ok by (simp add: db_ok_def)
      show "v_net v \<noteq> i" if "v \<in> set (vms d)" for v
        using free that subsetD [OF sub imageI [OF that]] by (auto simp: list_ex_iff)
    qed
    moreover have "l_net ` {l \<in> set (leases d). l_net l \<noteq> i} \<subseteq> n_id ` {n \<in> set (nets d). n_id n \<noteq> i}"
      by (rule refs_after_delete) (use ok in \<open>auto simp: db_ok_def\<close>)
    ultimately show ?thesis using ok by (simp add: db_ok_def tbl_inv_simps tbl_set_simps)
  qed
  then show "keeps_schema d (snd (if list_ex (\<lambda>v. v_net v = i) (vms d) \<and> list_ex (\<lambda>n. n_id n = i) (nets d)
      then (Err (constraint_failed ''FOREIGN KEY''), d) else (Ok (), ?d)))"
    by (simp add: keeps_schema_def)
qed

lemma insert_lease_schema: "within keeps_schema (insert_lease n ip v)"
  unfolding insert_lease_def
  by (rule schema.within_stmt) (auto simp: db_simps lease_key_def new_lease_def)

lemma default_schema: "within keeps_schema (net_SetDefault i)"
  unfolding net_SetDefault_def mark_default_def clear_default_def
  by (intro schema.within_exec) (simp add: keeps_schema_def db_ok_def tbl_inv_upd tbl_keys_upd)

lemma Acquire_schema: "within keeps_schema (Acquire n ip v)"
  unfolding Acquire_def lease_Get_def
  by (intro schema.within_bind insert_lease_schema) (simp add: schema.within_rules)

text \<open>
  All statements together: whatever other processes do to the database, as long as they keep the
  schema, every statement that writes networks, leases or machines keeps it too. The keys and the
  references are the constraints that SQLite enforces in each statement.
\<close>

lemma writes_keep_schema:
  "within keeps_schema (net_Upsert n) \<and> within keeps_schema (net_Delete i) \<and>
   within keeps_schema (net_SoftDelete t i) \<and> within keeps_schema (net_UpdateManyIsPresent is p) \<and>
   within keeps_schema (net_UpdateBridgeActive i p) \<and> within keeps_schema (net_SetDefault i) \<and>
   within keeps_schema (Acquire i ip o_vm) \<and> within keeps_schema (lease_Release i ip) \<and>
   within keeps_schema (ReleaseByVM i) \<and> within keeps_schema (vm_Upsert v) \<and>
   within keeps_schema (UpdateStatus i st) \<and> within keeps_schema (UpdatePID i pid) \<and>
   within keeps_schema (UpdateProcessInfo i pid start) \<and> within keeps_schema (UpdateExitCode i c) \<and>
   within keeps_schema (vm_Delete i) \<and> within keeps_schema (vm_DeleteMany is)"
proof (intro conjI)
  have null: "within keeps_schema (null_pid i)"
    unfolding null_pid_def by (rule schema.within_stmt) (simp add: keeps_schema_def)
  show "within keeps_schema (net_UpdateManyIsPresent is p)"
    unfolding net_UpdateManyIsPresent_def by (simp add: schema.within_ret schema.within_exec net_rows_upd)
  show "within keeps_schema (UpdatePID i pid)" "within keeps_schema (UpdateProcessInfo i pid start)"
    unfolding UpdatePID_def UpdateProcessInfo_def
    by (simp_all add: null update_vm_schema split: option.split)
  show "within keeps_schema (UpdateStatus i st)" "within keeps_schema (UpdateExitCode i c)"
    unfolding UpdateStatus_def UpdateExitCode_def by (simp_all add: update_vm_schema)
  show "within keeps_schema (net_SoftDelete t i)" "within keeps_schema (net_UpdateBridgeActive i p)"
    unfolding net_SoftDelete_def net_UpdateBridgeActive_def by (simp_all add: schema.within_exec net_rows_upd)
  show "within keeps_schema (lease_Release i ip)" "within keeps_schema (ReleaseByVM i)"
    "within keeps_schema (vm_Delete i)"
    unfolding lease_Release_def ReleaseByVM_def vm_Delete_def by (simp_all add: schema.within_exec rows_del)
  show "within keeps_schema (vm_DeleteMany is)"
    unfolding vm_DeleteMany_def by (simp add: schema.within_ret schema.within_stmt rows_del)
qed (rule net_Upsert_schema net_Delete_schema default_schema Acquire_schema vm_Upsert_schema)+

end
