(* ===== verification/Leases.thy ===== *)
theory Leases
  imports Store NetAddr
begin

text \<open>
  Address leases: \<open>internal/core/network/lease_controller.go\<close> over the statements of
  \<open>Store\<close>, and CountAvailable of \<open>lease_sqlite.go\<close>. Other processes may lease addresses between
  any two statements of a controller; what they may do is the environment of the program.
\<close>

subsection \<open>The controller\<close>

definition GetLeases :: "network \<Rightarrow> lease list act" where
  "GetLeases net = lease_ListAll (n_id net)"

definition ctl_Get :: "network \<Rightarrow> string \<Rightarrow> lease option act" where
  "ctl_Get net ip = lease_Get (n_id net) ip"

definition GetByVMID :: "network \<Rightarrow> string \<Rightarrow> lease list act" where
  "GetByVMID net v = lease_ListByVM (n_id net) v"

definition IsAvailable :: "network \<Rightarrow> string \<Rightarrow> bool act" where
  "IsAvailable net ip = bind_prog (lease_Get (n_id net) ip) (\<lambda>l. ret (l = None))"

definition attempts :: nat where "attempts = 10"

primrec lease_loop :: "nat \<Rightarrow> network \<Rightarrow> string \<Rightarrow> string act" where
  "lease_loop 0 net v = throw (New ''network.error'' (''Failed to allocate IP after 10 attempts''))"
| "lease_loop (Suc k) net v =
     bind_prog (GetLeases net) (\<lambda>ls.
       case AllocateNextIP (map l_ip ls) (n_subnet net) (n_gateway net) of
         Inl e \<Rightarrow> throw (Wrap ''network.lease.exhausted'' e)
       | Inr ip \<Rightarrow> bind_prog (Acquire (n_id net) ip (Some v)) (\<lambda>r.
           case r of Some l \<Rightarrow> ret ip | None \<Rightarrow> lease_loop k net v))"

definition Lease :: "network \<Rightarrow> string \<Rightarrow> string act" where
  "Lease net v = lease_loop attempts net v"

definition LeaseSpecific :: "network \<Rightarrow> string \<Rightarrow> string \<Rightarrow> string act" where
  "LeaseSpecific net ip v =
     bind_prog (IsAvailable net ip) (\<lambda>free.
       if \<not> free then throw (New ''network.error'' (''IP '' @ ip @ '' is already leased''))
       else bind_prog (Acquire (n_id net) ip (Some v)) (\<lambda>_. ret ip))"

definition Release :: "network \<Rightarrow> string \<Rightarrow> unit act" where
  "Release net v = ReleaseByVM v"

definition CountAvailable :: "string \<Rightarrow> int act" where
  "CountAvailable i =
     bind_prog (query (\<lambda>d. find_first (\<lambda>n. n_id n = i \<and> n_deleted n = None) (nets d))) (\<lambda>r. case r of
       None \<Rightarrow> ret 0
     | Some n \<Rightarrow> bind_prog (query (\<lambda>d. length (filter (\<lambda>l. l_net l = i) (leases d)))) (\<lambda>c.
         case ParseCIDR (n_subnet n) of
           None \<Rightarrow> throw (Plain ''invalid CIDR address'' None)
         | Some p \<Rightarrow> ret (max (int (CountHosts p) - (if n_gateway n \<noteq> '''' then 1 else 0) - int c) 0)))"

subsection \<open>Leases are only added\<close>

text \<open>The discipline under which processes lease addresses concurrently.\<close>

definition lease_growth :: "db \<Rightarrow> db \<Rightarrow> bool" where
  "lease_growth d d' \<longleftrightarrow> set (leases d) \<subseteq> set (leases d') \<and> keeps_schema d d'"

interpretation growth: guarantee lease_growth
  by unfold_locales (auto simp: lease_growth_def keeps_schema_def)

definition row :: "db \<Rightarrow> string \<Rightarrow> string \<Rightarrow> lease option" where
  "row d n ip = tbl_get lease_key (leases d) (n, ip)"

lemma row_grows:
  assumes "lease_growth d d'" "db_ok d" "row d n ip = Some l"
  shows "row d' n ip = Some l"
proof -
  have "db_ok d'" "set (leases d) \<subseteq> set (leases d')"
    using assms by (auto simp: lease_growth_def keeps_schema_def)
  with assms show ?thesis by (auto simp: row_def db_ok_def tbl_get_Some)
qed

lemma row_absent: "lease_growth d d' \<Longrightarrow> row d' n ip = None \<Longrightarrow> row d n ip = None"
  by (auto simp: row_def lease_growth_def tbl_get_None)

lemma GetLeases_growth: "within lease_growth (GetLeases net)"
  by (simp add: GetLeases_def lease_ListAll_def growth.within_query)

lemma insert_lease_growth: "within lease_growth (insert_lease n ip v)"
  unfolding insert_lease_def
  by (rule growth.within_stmt)
    (auto simp: lease_growth_def db_simps lease_key_def new_lease_def)

lemma Acquire_growth: "within lease_growth (Acquire n ip v)"
  unfolding Acquire_def lease_Get_def
  by (intro growth.within_bind insert_lease_growth) (simp add: growth.within_rules)

lemma ListAll_ips:
  "ip \<in> set (map l_ip (oldest_first (filter (\<lambda>l. l_net l = n) (leases d)))) \<longleftrightarrow> row d n ip \<noteq> None"
  by (auto simp: oldest_first_def row_def tbl_get_None lease_key_def image_iff)

text \<open>An acquisition that answers with a lease has stored it for the machine.\<close>

lemma Acquire_Some:
  assumes env: "\<And>n d. lease_growth d (e_step E n d)" and "db_ok d"
    and "Acquire n ip (Some v) E (d, t) = (Ok (Some l), d', t')"
  shows "row d n ip = None \<and> row d' n ip = Some l \<and> l_vm l = Some v"
proof -
  obtain r d2 t2 where ins: "insert_lease n ip (Some v) E (d, t) = (Ok r, d2, t2)" and "r \<noteq> 0"
    and get: "lease_Get n ip E (d2, t2) = (Ok (Some l), d', t')"
    using assms(3) by (auto simp: Acquire_def bind_Ok split: if_splits)
  let ?d1 = "e_step E t d"
  have g1: "lease_growth d ?d1" using env .
  then have ok1: "db_ok ?d1" using assms(2) by (simp add: lease_growth_def keeps_schema_def)
  have none: "row ?d1 n ip = None" and d2: "\<exists>i. leases d2 = tbl_ins (new_lease n ip (Some v) (e_now E t) i) (leases ?d1)"
    using ins \<open>r \<noteq> 0\<close> by (auto simp: insert_lease_def stmt_Ok row_def split: if_splits)
  obtain i where d2: "leases d2 = tbl_ins (new_lease n ip (Some v) (e_now E t) i) (leases ?d1)" using d2 by blast
  have g2: "lease_growth d d2"
    by (rule withinD [OF insert_lease_growth env ins])
  then have ok2: "db_ok d2" using assms(2) by (simp add: lease_growth_def keeps_schema_def)
  let ?new = "new_lease n ip (Some v) (e_now E t) i"
  have "row d2 n ip = Some ?new"
    using lease_tbl.get_ins_same [of "leases ?d1" ?new] ok1 none
    by (simp add: row_def d2 db_ok_def lease_key_def new_lease_def)
  moreover have "row d' n ip = Some l" "lease_growth d2 d'"
    using get env by (auto simp: lease_Get_def query_Ok row_def)
  ultimately show ?thesis using row_grows [OF _ ok2] row_absent [OF g1 none]
    by (auto simp: new_lease_def)
qed

lemma lease_loop_Ok:
  assumes env: "\<And>n d. lease_growth d (e_step E n d)" and p: "IPv4CIDR (n_subnet net) = Some p"
  shows "db_ok d \<Longrightarrow> lease_loop k net v E (d, t) = (Ok ip, d', t') \<Longrightarrow>
    (\<exists>a. ip = ip_string a \<and> usable p a) \<and> ip \<noteq> n_gateway net \<and> row d (n_id net) ip = None \<and>
    (\<exists>l. row d' (n_id net) ip = Some l \<and> l_vm l = Some v) \<and> lease_growth d d'"
proof (induction k arbitrary: d t)
  case (Suc k)
  obtain ls d1 t1 where ls: "GetLeases net E (d, t) = (Ok ls, d1, t1)"
    and rest: "(case AllocateNextIP (map l_ip ls) (n_subnet net) (n_gateway net) of
         Inl e \<Rightarrow> throw (Wrap ''network.lease.exhausted'' e)
       | Inr ip \<Rightarrow> bind_prog (Acquire (n_id net) ip (Some v)) (\<lambda>r.
           case r of Some l \<Rightarrow> ret ip | None \<Rightarrow> lease_loop k net v)) E (d1, t1) = (Ok ip, d', t')"
    using Suc.prems(2) unfolding lease_loop.simps by (rule bind_OkE)
  have g1: "lease_growth d d1" by (rule withinD [OF GetLeases_growth env ls])
  then have ok1: "db_ok d1" using Suc.prems(1) by (simp add: lease_growth_def keeps_schema_def)
  obtain c where c: "AllocateNextIP (map l_ip ls) (n_subnet net) (n_gateway net) = Ok c"
    using rest by (cases "AllocateNextIP (map l_ip ls) (n_subnet net) (n_gateway net)") auto
  obtain r d2 t2 where acq: "Acquire (n_id net) c (Some v) E (d1, t1) = (Ok r, d2, t2)"
    and rest2: "(case r of Some l \<Rightarrow> ret c | None \<Rightarrow> lease_loop k net v) E (d2, t2) = (Ok ip, d', t')"
    using rest c by (auto simp: bind_Ok)
  have g2: "lease_growth d1 d2" by (rule withinD [OF Acquire_growth env acq])
  then have ok2: "db_ok d2" using ok1 by (simp add: lease_growth_def keeps_schema_def)
  show ?case
  proof (cases r)
    case None
    then have IH: "(\<exists>a. ip = ip_string a \<and> usable p a) \<and> ip \<noteq> n_gateway net \<and> row d2 (n_id net) ip = None \<and>
        (\<exists>l. row d' (n_id net) ip = Some l \<and> l_vm l = Some v) \<and> lease_growth d2 d'"
      using Suc.IH [OF ok2] rest2 by simp
    have g: "lease_growth d d2" using growth.trans [OF g1 g2] .
    show ?thesis using IH row_absent [OF g] growth.trans [OF g] by simp
  next
    case (Some l)
    then have ip: "ip = c" "d' = d2" using rest2 by auto
    have "\<exists>a. c = ip_string a \<and> free_ip p (map l_ip ls) (n_gateway net) a"
      using AllocateNextIP_spec [OF p, of "map l_ip ls" "n_gateway net"] c by auto
    moreover have "row d1 (n_id net) c = None \<and> row d2 (n_id net) c = Some l \<and> l_vm l = Some v"
      using Acquire_Some [OF env ok1] acq Some by blast
    ultimately show ?thesis
      using ip row_absent [OF g1] growth.trans [OF g1 g2] by (auto simp: free_ip_def)
  qed
qed simp

text \<open>
  C10: however other processes add leases between the statements, an address that Lease
  returns is a usable address of the subnet and not the gateway, nobody had it before the
  call, the machine holds it after the call, and every lease there was is still there.
\<close>

theorem lease_granted:
  assumes "\<And>n d. lease_growth d (e_step E n d)" "IPv4CIDR (n_subnet net) = Some p" "db_ok d"
    and "Lease net v E (d, t) = (Ok ip, d', t')"
  shows "(\<exists>a. ip = ip_string a \<and> usable p a) \<and> ip \<noteq> n_gateway net \<and> row d (n_id net) ip = None \<and>
    (\<exists>l. row d' (n_id net) ip = Some l \<and> l_vm l = Some v) \<and> lease_growth d d'"
  using lease_loop_Ok [OF assms(1,2,3)] assms(4) unfolding Lease_def by blast

subsection \<open>Alone on the machine\<close>

lemma glob_utoa: "glob p v \<Longrightarrow> glob (AnyDigit # AnyText # p) (utoa n @ v)"
proof (cases "utoa n")
  case (Cons c u)
  assume v: "glob p v"
  have "is_digit c" using utoa_digits [of c n] Cons by simp
  then have "CHR ''0'' \<le> c" "c \<le> CHR ''9''" by (simp_all add: is_digit_def less_eq_char_def)
  from glob_digits [OF v this] Cons show ?thesis by simp
qed simp

lemma glob_dot: "glob p v \<Longrightarrow> glob (Literal (CHR ''.'') # p) (CHR ''.'' # v)"
  by simp

lemma glob_ip_string: "glob ipv4_glob (ip_string a)"
proof -
  obtain x y z w where a: "a = (x, y, z, w)" by (metis surj_pair)
  have "glob [AnyDigit, AnyText] (utoa (unat w) @ [])" by (rule glob_utoa) simp
  then show ?thesis
    unfolding ipv4_glob_def a ip_string_def
    by (simp del: append_assoc glob.simps add: glob_utoa glob_dot)
qed

definition taken :: "db \<Rightarrow> string \<Rightarrow> string list" where
  "taken d n = map l_ip (oldest_first (filter (\<lambda>l. l_net l = n) (leases d)))"

lemma taken_iff: "ip \<in> set (taken d n) \<longleftrightarrow> row d n ip \<noteq> None"
  by (simp only: taken_def ListAll_ips)

definition add_lease :: "string \<Rightarrow> string \<Rightarrow> string \<Rightarrow> string \<Rightarrow> db \<Rightarrow> db" where
  "add_lease n ip v now d = d\<lparr>leases := leases d @ [new_lease n ip (Some v) now (lease_seq d + 1)],
     lease_seq := lease_seq d + 1\<rparr>"

lemma Acquire_quiet:
  assumes "quiet E" "db_ok d" "row d n ip = None" "glob ipv4_glob ip" "n \<in> n_id ` set (nets d)"
  shows "Acquire n ip (Some v) E (d, t) =
    (Ok (row (add_lease n ip v (e_now E t) d) n ip), add_lease n ip v (e_now E t) d, t + 2)"
  using assms
  by (simp add: Acquire_def insert_lease_def prog_simps row_def lease_Get_def add_lease_def tbl_ins_def)

lemma add_lease_row:
  assumes "db_ok d" "row d n ip = None"
  shows "row (add_lease n ip v now d) n ip = Some (new_lease n ip (Some v) now (lease_seq d + 1))"
  using lease_tbl.get_ins_same [of "leases d" "new_lease n ip (Some v) now (lease_seq d + 1)"] assms
  by (simp add: row_def add_lease_def db_ok_def lease_key_def new_lease_def tbl_ins_def)

lemma exhausted_error:
  assumes "IPv4CIDR s = Some p" "AllocateNextIP ips s gw = Err e"
  shows "classFrom e = ClassInternal"
proof -
  have "e = New ''network.error'' (''No available IPs in subnet '' @ s)"
    using assms by (auto simp: IPv4CIDR_def bind_eq_Some_conv AllocateNextIP_def Let_def split: option.splits)
  moreover have "classForCode ''network.error'' = ClassInternal" by code_simp
  ultimately show ?thesis by (simp add: classFrom_def New_def)
qed

lemma Lease_quiet:
  assumes "quiet E" "db_ok d" "n_id net \<in> n_id ` set (nets d)" "IPv4CIDR (n_subnet net) = Some p"
  shows "Lease net v E (d, t) =
    (case AllocateNextIP (taken d (n_id net)) (n_subnet net) (n_gateway net) of
       Inl e \<Rightarrow> (Err (Wrap ''network.lease.exhausted'' e), d, t + 1)
     | Inr ip \<Rightarrow> (Ok ip, add_lease (n_id net) ip v (e_now E (t + 1)) d, t + 3))"
proof (cases "AllocateNextIP (taken d (n_id net)) (n_subnet net) (n_gateway net)")
  case (Inl e)
  then show ?thesis using assms(1)
    by (simp add: Lease_def attempts_def eval_nat_numeral GetLeases_def lease_ListAll_def taken_def prog_simps)
next
  case (Inr ip)
  obtain a where a: "ip = ip_string a" "free_ip p (taken d (n_id net)) (n_gateway net) a"
    using AllocateNextIP_spec [OF assms(4), of "taken d (n_id net)" "n_gateway net"] Inr by auto
  then have r: "row d (n_id net) ip = None" using taken_iff by (auto simp: free_ip_def)
  have acq: "Acquire (n_id net) ip (Some v) E (d, Suc t) =
      (Ok (row (add_lease (n_id net) ip v (e_now E (Suc t)) d) (n_id net) ip),
       add_lease (n_id net) ip v (e_now E (Suc t)) d, t + 3)"
    using Acquire_quiet [OF assms(1,2) r _ assms(3), of v "Suc t"] a(1) glob_ip_string by simp
  then show ?thesis using Inr assms(1) add_lease_row [OF assms(2) r]
    by (simp add: Lease_def attempts_def eval_nat_numeral GetLeases_def lease_ListAll_def taken_def prog_simps)
qed

text \<open>
  When nothing interferes, Lease gives the lowest free address of the subnet and stores
  exactly one new lease, for that address and machine; it fails only if no usable address is
  free, changes nothing then, and the error, although its code is the exhausted pool's and
  that code is listed as retryable, is not retryable.
\<close>

lemma lease_lowest_or_exhausted:
  assumes "quiet E" "db_ok d" "n_id net \<in> n_id ` set (nets d)" "IPv4CIDR (n_subnet net) = Some p"
  shows "case Lease net v E (d, t) of
      (Ok ip, d', _) \<Rightarrow> (\<exists>a. ip = ip_string a \<and> free_ip p (taken d (n_id net)) (n_gateway net) a \<and>
          (\<forall>b. free_ip p (taken d (n_id net)) (n_gateway net) b \<longrightarrow> ipToInt a \<le> ipToInt b)) \<and>
        d' = add_lease (n_id net) ip v (e_now E (t + 1)) d
    | (Err e, d', _) \<Rightarrow> (\<forall>a. \<not> free_ip p (taken d (n_id net)) (n_gateway net) a) \<and> d' = d \<and>
        de_code e = ''network.lease.exhausted'' \<and> \<not> IsRetryable e"
proof -
  note spec = AllocateNextIP_spec [OF assms(4), of "taken d (n_id net)" "n_gateway net"]
  show ?thesis
  proof (cases "AllocateNextIP (taken d (n_id net)) (n_subnet net) (n_gateway net)")
    case (Inl e)
    then have "classFrom e = ClassInternal" by (rule exhausted_error [OF assms(4)])
    then have "\<not> IsRetryable (Wrap ''network.lease.exhausted'' e)"
      by (simp add: IsRetryable_def Wrap_def WrapMsg_def)
    with Inl spec show ?thesis by (simp add: Lease_quiet [OF assms] Wrap_def WrapMsg_def)
  next
    case (Inr ip)
    with spec show ?thesis by (simp add: Lease_quiet [OF assms])
  qed
qed

subsection \<open>Counting what is left\<close>

lemma card_usable:
  assumes "wf_net p"
  shows "card {a. usable p a} = (if host_count p \<le> 2 then host_count p else host_count p - 2)" "finite {a. usable p a}"
proof -
  let ?I = "{alloc_start (host_count p) ..< alloc_end (host_count p)}"
  have U: "{a. usable p a} = host p ` ?I" using usable_host [OF assms] by auto
  have "inj_on (host p) ?I"
  proof (rule inj_onI)
    fix i j
    assume "i \<in> ?I" "j \<in> ?I" "host p i = host p j"
    then show "i = j" using host_inj [OF assms, of i j] alloc_end_le [of "host_count p"] by simp
  qed
  have window: "alloc_end t - alloc_start t = (if t \<le> 2 then t else t - 2)" for t
    by (simp add: alloc_end_def alloc_start_def eval_nat_numeral)
  from \<open>inj_on (host p) ?I\<close> have "card {a. usable p a} = alloc_end (host_count p) - alloc_start (host_count p)"
    by (simp add: U card_image)
  then show "card {a. usable p a} = (if host_count p \<le> 2 then host_count p else host_count p - 2)"
    unfolding window .
  show "finite {a. usable p a}" by (simp add: U)
qed

definition of_net :: "db \<Rightarrow> string \<Rightarrow> lease list" where
  "of_net d i = filter (\<lambda>l. l_net l = i) (leases d)"

lemma distinct_ips: "db_ok d \<Longrightarrow> distinct (map l_ip (of_net d i))"
proof -
  assume "db_ok d"
  then have "distinct (map lease_key (of_net d i))"
    by (simp add: db_ok_def tbl_inv_def of_net_def distinct_map_filter)
  then show ?thesis by (auto simp: of_net_def distinct_map inj_on_def lease_key_def)
qed

lemma card_leased:
  assumes "db_ok d" "\<And>l. l \<in> set (of_net d i) \<Longrightarrow> \<exists>a. l_ip l = ip_string a"
  shows "card {a. ip_string a \<in> l_ip ` set (of_net d i)} = length (of_net d i)"
proof -
  let ?A = "{a. ip_string a \<in> l_ip ` set (of_net d i)}"
  have "ip_string ` ?A = set (map l_ip (of_net d i))"
  proof (rule equalityI)
    show "set (map l_ip (of_net d i)) \<subseteq> ip_string ` ?A"
    proof
      fix s
      assume "s \<in> set (map l_ip (of_net d i))"
      then obtain l where l: "l \<in> set (of_net d i)" "s = l_ip l" by auto
      then obtain a where "s = ip_string a" using assms(2) by blast
      moreover have "a \<in> ?A" using l \<open>s = ip_string a\<close> by force
      ultimately show "s \<in> ip_string ` ?A" by blast
    qed
  qed auto
  moreover have "card (ip_string ` ?A) = card ?A"
    by (rule card_image) (simp add: inj_on_def ip_string_inj)
  ultimately show ?thesis using distinct_card [OF distinct_ips [OF assms(1), of i]] by simp
qed

text \<open>
  for a network whose leases are all usable addresses other than its gateway, and whose
  gateway, if it has one, is a usable address, CountAvailable is the number of addresses that
  Lease can still give out.
\<close>

lemma count_available_exact:
  assumes "quiet E" "db_ok d" "n \<in> set (nets d)" "n_deleted n = None" "IPv4CIDR (n_subnet n) = Some p"
    and gw: "n_gateway n = '''' \<or> (\<exists>g. usable p g \<and> n_gateway n = ip_string g)"
    and ls: "\<And>l. l \<in> set (of_net d (n_id n)) \<Longrightarrow> \<exists>a. usable p a \<and> l_ip l = ip_string a \<and> l_ip l \<noteq> n_gateway n"
  shows "CountAvailable (n_id n) E (d, t) =
    (Ok (int (card {a. free_ip p (taken d (n_id n)) (n_gateway n) a})), d, t + 2)"
proof -
  let ?T = "{a. ip_string a \<in> l_ip ` set (of_net d (n_id n))}" and ?U = "{a. usable p a}"
    and ?G = "{a. ip_string a = n_gateway n}"
  have wf: "wf_net p" by (rule IPv4CIDR_wf [OF assms(5)])
  obtain q where q: "ParseCIDR (n_subnet n) = Some q" "net4 q = Some p"
    using assms(5) by (auto simp: IPv4CIDR_def bind_eq_Some_conv)
  have hosts: "CountHosts q = card {a. usable p a}"
    by (simp add: CountHosts_def net4_facts [OF q] card_usable(1) [OF wf] host_count_def Let_def)
  have T: "?T \<subseteq> ?U" and TG: "?T \<inter> ?G = {}" using ls by (fastforce simp: ip_string_inj)+
  have G: "?G \<subseteq> ?U" "card ?G = (if n_gateway n \<noteq> '''' then 1 else 0)"
  proof -
    have ne: "ip_string a \<noteq> ''''" for a by (cases a) (simp add: ip_string_def)
    consider "n_gateway n = ''''" | g where "usable p g" "n_gateway n = ip_string g" using gw by blast
    then show "?G \<subseteq> ?U" "card ?G = (if n_gateway n \<noteq> '''' then 1 else 0)"
      by (cases; use ne in \<open>auto simp: ip_string_inj\<close>)+
  qed
  have set_taken: "set (taken d (n_id n)) = l_ip ` set (of_net d (n_id n))"
    by (simp add: taken_def of_net_def oldest_first_def)
  have "{a. free_ip p (taken d (n_id n)) (n_gateway n) a} = ?U - (?T \<union> ?G)"
    by (auto simp: free_ip_def set_taken)
  moreover have "card (?U - (?T \<union> ?G)) = card ?U - card (?T \<union> ?G)"
    using T G(1) finite_subset [OF _ card_usable(2) [OF wf]] by (intro card_Diff_subset) auto
  moreover have "card (?T \<union> ?G) = card ?T + card ?G"
    using finite_subset [OF T card_usable(2) [OF wf]] finite_subset [OF G(1) card_usable(2) [OF wf]] TG
    by (rule card_Un_disjoint)
  moreover have "card ?T = length (of_net d (n_id n))"
    by (rule card_leased [OF assms(2)]) (use ls in blast)
  moreover have "card (?T \<union> ?G) \<le> card ?U" using card_mono [OF card_usable(2) [OF wf]] T G(1) by simp
  ultimately have c: "int (card {a. free_ip p (taken d (n_id n)) (n_gateway n) a}) =
      max (int (CountHosts q) - (if n_gateway n \<noteq> '''' then 1 else 0) - int (length (of_net d (n_id n)))) 0"
    using G(2) unfolding hosts by (cases "n_gateway n = ''''") simp_all
  have "find_first (\<lambda>m. n_id m = n_id n \<and> n_deleted m = None) (nets d) = Some n"
    by (rule find_first_key) (use assms(2,3,4) in \<open>simp_all add: db_ok_def\<close>)
  then show ?thesis using assms(1) q(1) c by (simp add: CountAvailable_def of_net_def prog_simps)
qed

text \<open>
  LeaseSpecific does not look at what its acquisition answers. If the address is leased to
  another machine between its check and its insertion, or if the table refuses the text as an
  address, it reports success although it has stored nothing.
\<close>

lemma lease_specific_unchecked:
  assumes "e_fault E t = None" "e_fault E (t + 1) = None"
    and "d1 = e_step E t d" "d2 = e_step E (t + 1) d1" "row d1 (n_id net) ip = None"
    and "row d2 (n_id net) ip \<noteq> None \<or> \<not> glob ipv4_glob ip"
  shows "LeaseSpecific net ip v E (d, t) = (Ok ip, d2, t + 2)"
  using assms
  by (auto simp: LeaseSpecific_def IsAvailable_def lease_Get_def query_def Acquire_def insert_lease_def
      stmt_def Let_def row_def prog_simps)

subsection \<open>A network to try them on\<close>

definition demo_net :: network where
  "demo_net = \<lparr>n_id = ''c0ffee'', n_name = ''web'', n_subnet = ''10.0.0.8/29'', n_bridge = ''mvm-web'',
     n_gateway = ''10.0.0.9'', n_active = True, n_nat = False, n_default = True, n_present = True,
     n_created = ''2026-04-02'', n_updated = ''2026-04-02'', n_deleted = None, n_gateways = None\<rparr>"

definition demo_db :: db where
  "demo_db = \<lparr>nets = [demo_net], leases = [new_lease ''c0ffee'' ''10.0.0.10'' (Some ''vm1'') ''2026-04-02'' 1],
     lease_seq = 1, vms = [], images = [], kernels = [], binaries = []\<rparr>"

definition demo_subnet :: ipnet where
  "demo_subnet = \<lparr>net_ip = (10, 0, 0, 8), net_ones = 29\<rparr>"

lemma demo_facts:
  "IPv4CIDR (n_subnet demo_net) = Some demo_subnet" "db_ok demo_db" "demo_net \<in> set (nets demo_db)"
  "n_deleted demo_net = None" "n_id demo_net \<in> n_id ` set (nets demo_db)"
proof -
  show "IPv4CIDR (n_subnet demo_net) = Some demo_subnet" by code_simp
qed (simp_all add: db_ok_def demo_db_def demo_net_def tbl_inv_def lease_key_def new_lease_def)

theorem lease_granted_witness:
  "\<exists>d' t'. Lease demo_net ''vm2'' calm (demo_db, 0) = (Ok ''10.0.0.11'', d', t') \<and>
     (\<exists>l. row d' ''c0ffee'' ''10.0.0.11'' = Some l \<and> l_vm l = Some ''vm2'')"
proof -
  have a: "AllocateNextIP (taken demo_db (n_id demo_net)) (n_subnet demo_net) (n_gateway demo_net) = Ok ''10.0.0.11''"
    by code_simp
  obtain d' t' where r: "Lease demo_net ''vm2'' calm (demo_db, 0) = (Ok ''10.0.0.11'', d', t')"
    by (simp add: Lease_quiet [OF quiet_calm demo_facts(2) demo_facts(5) demo_facts(1)] a)
  have "lease_growth d (e_step calm n d)" for n d by (simp add: calm_def growth.refl)
  from lease_granted [OF this demo_facts(1) demo_facts(2) r] r show ?thesis by (auto simp: demo_net_def)
qed

lemma lease_lowest_or_exhausted_witness:
  "case Lease demo_net ''vm2'' calm (demo_db, 0) of (r, d', _) \<Rightarrow> r = Ok ''10.0.0.11'' \<and> length (leases d') = 2"
proof -
  have a: "AllocateNextIP (taken demo_db (n_id demo_net)) (n_subnet demo_net) (n_gateway demo_net) = Ok ''10.0.0.11''"
    by code_simp
  obtain d' t' where r: "Lease demo_net ''vm2'' calm (demo_db, 0) = (Ok ''10.0.0.11'', d', t')"
    by (simp add: Lease_quiet [OF quiet_calm demo_facts(2) demo_facts(5) demo_facts(1)] a)
  from lease_lowest_or_exhausted [OF quiet_calm demo_facts(2) demo_facts(5) demo_facts(1), of "''vm2''" 0]
  show ?thesis by (simp add: r add_lease_def) (simp add: demo_db_def)
qed

theorem count_available_exact_witness:
  "CountAvailable ''c0ffee'' calm (demo_db, 0) =
     (Ok (int (card {a. free_ip demo_subnet [''10.0.0.10''] ''10.0.0.9'' a})), demo_db, 2)"
proof -
  have g: "usable demo_subnet (10, 0, 0, 9)" "n_gateway demo_net = ip_string (10, 0, 0, 9)"
    and l: "usable demo_subnet (10, 0, 0, 10)" "ip_string (10, 0, 0, 10) = ''10.0.0.10''" by code_simp+
  have t: "taken demo_db (n_id demo_net) = [''10.0.0.10'']" by code_simp
  have "CountAvailable (n_id demo_net) calm (demo_db, 0) =
      (Ok (int (card {a. free_ip demo_subnet (taken demo_db (n_id demo_net)) (n_gateway demo_net) a})), demo_db, 0 + 2)"
  proof (rule count_available_exact [OF quiet_calm demo_facts(2,3,4,1)])
    show "n_gateway demo_net = '''' \<or> (\<exists>g. usable demo_subnet g \<and> n_gateway demo_net = ip_string g)"
      using g by blast
    show "\<exists>a. usable demo_subnet a \<and> l_ip x = ip_string a \<and> l_ip x \<noteq> n_gateway demo_net"
      if "x \<in> set (of_net demo_db (n_id demo_net))" for x
      using that l by (intro exI [of _ "(10, 0, 0, 10)"]) (auto simp: of_net_def demo_db_def demo_net_def new_lease_def)
  qed
  then show ?thesis by (simp add: t) (simp add: demo_net_def)
qed

text \<open>Another machine takes the address between the check and the insertion.\<close>

definition rival :: "db env" where
  "rival = calm\<lparr>e_step := (\<lambda>n d. if n = 1 then add_lease ''c0ffee'' ''10.0.0.12'' ''rival'' ''2026-04-02'' d else d)\<rparr>"

lemma lease_specific_unchecked_witness:
  "\<exists>d'. LeaseSpecific demo_net ''10.0.0.12'' ''vm2'' rival (demo_db, 0) = (Ok ''10.0.0.12'', d', 2) \<and>
     map_option l_vm (row d' ''c0ffee'' ''10.0.0.12'') = Some (Some ''rival'')"
proof -
  let ?d = "add_lease ''c0ffee'' ''10.0.0.12'' ''rival'' ''2026-04-02'' demo_db"
  have r: "map_option l_vm (row ?d ''c0ffee'' ''10.0.0.12'') = Some (Some ''rival'')" by code_simp
  have "LeaseSpecific demo_net ''10.0.0.12'' ''vm2'' rival (demo_db, 0) = (Ok ''10.0.0.12'', ?d, 0 + 2)"
  proof (rule lease_specific_unchecked)
    show "row demo_db (n_id demo_net) ''10.0.0.12'' = None" by code_simp
    show "row ?d (n_id demo_net) ''10.0.0.12'' \<noteq> None \<or> \<not> glob ipv4_glob ''10.0.0.12''"
      using r by (auto simp: demo_net_def)
  qed (simp_all add: rival_def calm_def)
  with r show ?thesis by simp
qed

end
