(* ===== verification/Resolvers.thy ===== *)
theory Resolvers
  imports Store
begin

text \<open>
  From what a user types to a stored row: \<open>internal/core/network/resolver.go\<close> and
  \<open>internal/core/vm/resolver.go\<close>. Both resolve many identifiers with the same loop, stated
  once in a locale. Enrichment adds relations to a network and changes no column, so it
  leaves the rows of the model as they are.
\<close>

subsection \<open>Many identifiers\<close>

record 'a resolve_result =
  rr_items :: "'a list"
  rr_errors :: "string list"
  rr_exit :: nat

fun resolve_loop :: "(string \<Rightarrow> ('s, 'a) prog) \<Rightarrow> ('a \<Rightarrow> string) \<Rightarrow> string list \<Rightarrow> 'a list \<Rightarrow> string list \<Rightarrow>
    ('s, 'a list \<times> string list) prog" where
  "resolve_loop res key [] items errors = ret (items, errors)"
| "resolve_loop res key (i # is) items errors =
     bind_prog (attempt (res i)) (\<lambda>r. case r of
       Inl e \<Rightarrow> resolve_loop res key is items (errors @ [err_text e])
     | Inr x \<Rightarrow> resolve_loop res key is (if key x \<in> key ` set items then items else items @ [x]) errors)"

definition resolve_many :: "(string \<Rightarrow> ('s, 'a) prog) \<Rightarrow> ('a \<Rightarrow> string) \<Rightarrow> string list \<Rightarrow>
    ('s, 'a resolve_result) prog" where
  "resolve_many res key is =
     bind_prog (resolve_loop res key (dedup_from [] is) [] []) (\<lambda>(items, errors).
       ret \<lparr>rr_items = items, rr_errors = errors, rr_exit = (if errors \<noteq> [] \<and> items = [] then 1 else 0)\<rparr>)"

text \<open>What the loop needs of a resolver: alone, it answers from the stored state and leaves it.\<close>

locale resolver =
  fixes res :: "string \<Rightarrow> ('s, 'a) prog" and key :: "'a \<Rightarrow> string" and find :: "'s \<Rightarrow> string \<Rightarrow> (err, 'a) res"
  assumes answers: "quiet E \<Longrightarrow> \<exists>t'. res i E (s, t) = (find s i, s, t')"
begin

lemma loop_quiet:
  assumes "quiet E"
  shows "\<exists>items' errors' t'. resolve_loop res key is items errors E (s, t) = (Ok (items', errors'), s, t') \<and>
    (distinct (map key items) \<longrightarrow> distinct (map key items')) \<and> set items \<subseteq> set items' \<and>
    (\<forall>x \<in> set items'. x \<in> set items \<or> (\<exists>i \<in> set is. find s i = Ok x)) \<and>
    (\<forall>i \<in> set is. \<forall>x. find s i = Ok x \<longrightarrow> key x \<in> key ` set items') \<and>
    errors' = errors @ map (\<lambda>i. err_text (projl (find s i))) (filter (\<lambda>i. \<not> is_ok (find s i)) is)"
proof (induction "is" arbitrary: items errors t)
  case Nil
  then show ?case by simp
next
  case (Cons i "is")
  obtain t1 where a: "res i E (s, t) = (find s i, s, t1)" using answers [OF assms] by blast
  let ?items = "case find s i of Inl e \<Rightarrow> items | Inr x \<Rightarrow> if key x \<in> key ` set items then items else items @ [x]"
    and ?errors = "case find s i of Inl e \<Rightarrow> errors @ [err_text e] | Inr x \<Rightarrow> errors"
  have "resolve_loop res key (i # is) items errors E (s, t) = resolve_loop res key is ?items ?errors E (s, t1)"
    by (cases "find s i") (simp_all add: bind_run attempt_run a)
  moreover obtain items' errors' t' where *: "resolve_loop res key is ?items ?errors E (s, t1) = (Ok (items', errors'), s, t')"
    "distinct (map key ?items) \<longrightarrow> distinct (map key items')" "set ?items \<subseteq> set items'"
    "\<forall>x \<in> set items'. x \<in> set ?items \<or> (\<exists>i \<in> set is. find s i = Ok x)"
    "\<forall>i \<in> set is. \<forall>x. find s i = Ok x \<longrightarrow> key x \<in> key ` set items'"
    "errors' = ?errors @ map (\<lambda>i. err_text (projl (find s i))) (filter (\<lambda>i. \<not> is_ok (find s i)) is)"
    using Cons.IH [of ?items ?errors t1] by blast
  moreover have "distinct (map key items) \<longrightarrow> distinct (map key ?items)" "set items \<subseteq> set ?items"
    "\<forall>x \<in> set ?items. x \<in> set items \<or> find s i = Ok x" "\<forall>x. find s i = Ok x \<longrightarrow> key x \<in> key ` set ?items"
    by (auto split: sum.splits)
  moreover have "?errors @ map (\<lambda>i. err_text (projl (find s i))) (filter (\<lambda>i. \<not> is_ok (find s i)) is) =
      errors @ map (\<lambda>i. err_text (projl (find s i))) (filter (\<lambda>i. \<not> is_ok (find s i)) (i # is))"
    by (cases "find s i") simp_all
  ultimately show ?case
    by (intro exI [of _ items'] exI [of _ errors'] exI [of _ t'] conjI) (auto, blast+)
qed

lemma many_quiet:
  assumes "quiet E"
  shows "\<exists>r t'. resolve_many res key is E (s, t) = (Ok r, s, t') \<and>
    distinct (map key (rr_items r)) \<and>
    (\<forall>x \<in> set (rr_items r). \<exists>i \<in> set is. find s i = Ok x) \<and>
    (\<forall>i \<in> set is. \<forall>x. find s i = Ok x \<longrightarrow> key x \<in> key ` set (rr_items r)) \<and>
    length (rr_errors r) = card {i \<in> set is. \<not> is_ok (find s i)} \<and>
    (rr_exit r = 1 \<longleftrightarrow> is \<noteq> [] \<and> (\<forall>i \<in> set is. \<not> is_ok (find s i)))"
proof -
  let ?u = "dedup_from [] is"
  obtain items errors t' where l: "resolve_loop res key ?u [] [] E (s, t) = (Ok (items, errors), s, t')"
    "distinct (map key items)" "\<forall>x \<in> set items. \<exists>i \<in> set ?u. find s i = Ok x"
    "\<forall>i \<in> set ?u. \<forall>x. find s i = Ok x \<longrightarrow> key x \<in> key ` set items"
    "errors = map (\<lambda>i. err_text (projl (find s i))) (filter (\<lambda>i. \<not> is_ok (find s i)) ?u)"
    using loop_quiet [OF assms, of ?u "[]" "[]" s t] by auto
  have u: "set ?u = set is" by (simp add: set_dedup_from)
  have "length errors = card (set (filter (\<lambda>i. \<not> is_ok (find s i)) ?u))"
    using distinct_card [of "filter (\<lambda>i. \<not> is_ok (find s i)) ?u"] distinct_dedup_from [of "[]" "is"] l(5) by simp
  then have n: "length errors = card {i \<in> set is. \<not> is_ok (find s i)}" by (simp add: u)
  have i: "items = [] \<longleftrightarrow> (\<forall>i \<in> set is. \<not> is_ok (find s i))"
    using l(3,4) u by (auto simp: is_ok_iff)
  have e: "errors = [] \<longleftrightarrow> (\<forall>i \<in> set is. is_ok (find s i))" using l(5) u by (auto simp: filter_empty_conv)
  have "rr_exit \<lparr>rr_items = items, rr_errors = errors, rr_exit = (if errors \<noteq> [] \<and> items = [] then 1 else 0)\<rparr> = 1
      \<longleftrightarrow> is \<noteq> [] \<and> (\<forall>i \<in> set is. \<not> is_ok (find s i))"
    unfolding i e by auto
  with l n u show ?thesis by (simp add: resolve_many_def bind_run)
qed

end

subsection \<open>Networks\<close>

definition net_ByID :: "string \<Rightarrow> bool \<Rightarrow> network act" where
  "net_ByID i del = bind_prog (net_FindByPrefix i del) (\<lambda>ms. case ms of
     [] \<Rightarrow> throw (NotFound ''network.not_found'' (''model.NetworkItem not found: '' @ i))
   | [n] \<Rightarrow> ret n
   | _ \<Rightarrow> throw (NotFound ''network.not_found'' (''model.NetworkItem ID is ambiguous: '' @ i)))"

definition net_ByName :: "string \<Rightarrow> bool \<Rightarrow> network act" where
  "net_ByName nm del = bind_prog (net_GetByName nm del) (\<lambda>r. case r of
     None \<Rightarrow> throw (NotFound ''network.not_found'' (''model.NetworkItem not found: '' @ nm))
   | Some n \<Rightarrow> ret n)"

definition net_Resolve :: "bool \<Rightarrow> string \<Rightarrow> network act" where
  "net_Resolve del v = bind_prog (attempt (net_ByName v del)) (\<lambda>r. case r of
     Inr n \<Rightarrow> ret n
   | Inl e \<Rightarrow> if \<not> IsNotFound e then throw e else net_ByID v del)"

definition net_ResolveMany :: "bool \<Rightarrow> string list \<Rightarrow> network resolve_result act" where
  "net_ResolveMany del = resolve_many (net_Resolve del) n_id"

subsection \<open>Machines\<close>

definition vm_ByID :: "string \<Rightarrow> vm act" where
  "vm_ByID i = bind_prog (vm_FindByPrefix i) (\<lambda>ms. case ms of
     [] \<Rightarrow> throw (NotFound ''vm.not_found'' (''VM not found: '' @ i))
   | [v] \<Rightarrow> ret v
   | _ \<Rightarrow> throw (NotFound ''vm.not_found'' (''ID '' @ i @ '' matches multiple VMs: '' @ Join (map v_name ms) '', '')))"

definition vm_ByName :: "string \<Rightarrow> vm act" where
  "vm_ByName nm = bind_prog (vm_GetByName nm) (\<lambda>r. case r of
     None \<Rightarrow> throw (NotFound ''vm.not_found'' (''VM not found: '' @ nm)) | Some v \<Rightarrow> ret v)"

definition vm_ByIP :: "string \<Rightarrow> vm act" where
  "vm_ByIP ip = bind_prog (vm_FindByIP ip) (\<lambda>r. case r of
     None \<Rightarrow> throw (NotFound ''vm.not_found'' (''No VM found with IP: '' @ ip)) | Some v \<Rightarrow> ret v)"

definition vm_ByMAC :: "string \<Rightarrow> vm act" where
  "vm_ByMAC mac = bind_prog (vm_FindByMAC mac) (\<lambda>r. case r of
     None \<Rightarrow> throw (NotFound ''vm.not_found'' (''No VM found with MAC: '' @ mac)) | Some v \<Rightarrow> ret v)"

definition vm_Resolve :: "string \<Rightarrow> vm act" where
  "vm_Resolve i = bind_prog (attempt (vm_ByName i)) (\<lambda>r. case r of
     Inr v \<Rightarrow> ret v
   | Inl e \<Rightarrow> if \<not> IsNotFound e then throw e
       else if Contains i ''.'' then vm_ByIP i
       else if Contains i '':'' then vm_ByMAC i
       else vm_ByID i)"

definition vm_ResolveMany :: "string list \<Rightarrow> vm resolve_result act" where
  "vm_ResolveMany = resolve_many vm_Resolve v_id"

text \<open>Machines by the identifiers of what they use: a map with an entry for each identifier asked.\<close>

definition group_by :: "(vm \<Rightarrow> string) \<Rightarrow> string list \<Rightarrow> vm list \<Rightarrow> string \<Rightarrow> vm list option" where
  "group_by ref is vs = (\<lambda>i. if i \<in> set is then Some (filter (\<lambda>v. ref v = i) vs) else None)"

definition ByImageIDBatch :: "string list \<Rightarrow> (string \<Rightarrow> vm list option) act" where
  "ByImageIDBatch is = bind_prog (vm_GetByImageIDs is) (\<lambda>vs. ret (group_by v_image is vs))"

definition ByNetworkIDBatch :: "string list \<Rightarrow> (string \<Rightarrow> vm list option) act" where
  "ByNetworkIDBatch is = bind_prog (vm_GetByNetworkIDs is) (\<lambda>vs. ret (group_by v_net is vs))"

definition ByKernelIDBatch :: "string list \<Rightarrow> (string \<Rightarrow> vm list option) act" where
  "ByKernelIDBatch is = bind_prog (vm_GetByKernelIDs is) (\<lambda>vs. ret (group_by v_kernel is vs))"

definition ByBinaryIDBatch :: "string list \<Rightarrow> (string \<Rightarrow> vm list option) act" where
  "ByBinaryIDBatch is = bind_prog (vm_GetByBinaryIDs is) (\<lambda>vs. ret (group_by v_binary is vs))"

subsection \<open>What an identifier finds\<close>

lemma NotFound_codes [simp]:
  "IsNotFound (NotFound ''network.not_found'' m)" "IsNotFound (NotFound ''vm.not_found'' m)"
  by (simp_all add: NotFound_def not_found_codes_def)

text \<open>The one element of a list, as the resolvers pick it.\<close>

definition only :: "err \<Rightarrow> err \<Rightarrow> 'a list \<Rightarrow> (err, 'a) res" where
  "only none many xs = (case xs of [] \<Rightarrow> Err none | [x] \<Rightarrow> Ok x | _ \<Rightarrow> Err many)"

lemma only_cases:
  assumes "distinct xs" "IsNotFound none" "IsNotFound many"
  shows "case only none many xs of Inr x \<Rightarrow> set xs = {x} | Inl e \<Rightarrow> IsNotFound e \<and> card (set xs) \<noteq> 1"
proof (cases xs)
  case (Cons x ys)
  then show ?thesis using assms distinct_card [OF assms(1)] by (cases ys) (simp_all add: only_def)
qed (simp add: only_def assms)

definition net_find :: "bool \<Rightarrow> db \<Rightarrow> string \<Rightarrow> (err, network) res" where
  "net_find del d v = (case find_first (\<lambda>n. n_name n = v \<and> visible del n) (nets d) of
     Some n \<Rightarrow> Ok n
   | None \<Rightarrow> only (NotFound ''network.not_found'' (''model.NetworkItem not found: '' @ v))
       (NotFound ''network.not_found'' (''model.NetworkItem ID is ambiguous: '' @ v))
       (filter (\<lambda>n. like (v @ ''%'') (n_id n) \<and> visible del n) (nets d)))"

definition vm_find :: "db \<Rightarrow> string \<Rightarrow> (err, vm) res" where
  "vm_find d i = (case find_first (\<lambda>v. v_name v = i) (vms d) of
     Some v \<Rightarrow> Ok v
   | None \<Rightarrow>
       if Contains i ''.'' then (case find_first (\<lambda>v. v_ip v = i) (vms d) of
         Some v \<Rightarrow> Ok v | None \<Rightarrow> Err (NotFound ''vm.not_found'' (''No VM found with IP: '' @ i)))
       else if Contains i '':'' then (case find_first (\<lambda>v. v_mac v = i) (vms d) of
         Some v \<Rightarrow> Ok v | None \<Rightarrow> Err (NotFound ''vm.not_found'' (''No VM found with MAC: '' @ i)))
       else (let ms = filter (\<lambda>v. like (i @ ''%'') (v_id v)) (vms d)
         in only (NotFound ''vm.not_found'' (''VM not found: '' @ i))
              (NotFound ''vm.not_found'' (''ID '' @ i @ '' matches multiple VMs: '' @ Join (map v_name ms) '', '')) ms))"

lemmas resolver_defs = net_Resolve_def net_ByName_def net_ByID_def net_GetByName_def net_FindByPrefix_def
  vm_Resolve_def vm_ByName_def vm_ByID_def vm_ByIP_def vm_ByMAC_def vm_GetByName_def vm_FindByPrefix_def
  vm_FindByIP_def vm_FindByMAC_def vm_by_def vm_where_def

interpretation net_resolver: resolver "net_Resolve del" n_id "net_find del" for del
proof
  fix E :: "db env" and i s t
  assume "quiet E"
  then show "\<exists>t'. net_Resolve del i E (s, t) = (net_find del s i, s, t')"
    by (simp add: resolver_defs net_find_def only_def prog_simps Let_def split: option.split list.split)
qed

interpretation vm_resolver: resolver vm_Resolve v_id vm_find
proof
  fix E :: "db env" and i s t
  assume "quiet E"
  then show "\<exists>t'. vm_Resolve i E (s, t) = (vm_find s i, s, t')"
    by (simp add: resolver_defs vm_find_def only_def prog_simps Let_def split: option.split list.split)
qed

definition id_prefix :: "string \<Rightarrow> string \<Rightarrow> bool" where
  "id_prefix p i \<longleftrightarrow> length p \<le> length i \<and> map to_lower (take (length p) i) = map to_lower p"

lemma distinct_rows: "tbl_inv key t \<Longrightarrow> distinct t"
  by (simp add: tbl_inv_def distinct_map)

lemma column_find:
  "case find_first (\<lambda>v. col v = i) xs of Some v \<Rightarrow> v \<in> set xs \<and> col v = i | None \<Rightarrow> i \<notin> col ` set xs"
  by (auto simp: find_first_None dest: find_first_Some split: option.split)

text \<open>
  C11: a network is found by its exact name or else by a prefix of its identifier that no other
  network shares (letters of either case match); the answer never depends on more than the
  networks that are visible, and every failure is a not-found error.
\<close>

theorem resolve_network:
  assumes "quiet E" "db_ok d" "no_wildcard v" "V = {n \<in> set (nets d). visible del n}"
  shows "case net_Resolve del v E (d, t) of
      (Ok n, d', _) \<Rightarrow> d' = d \<and> n \<in> V \<and>
        (n_name n = v \<or> v \<notin> n_name ` V \<and> {m \<in> V. id_prefix v (n_id m)} = {n})
    | (Err e, d', _) \<Rightarrow> d' = d \<and> IsNotFound e \<and> v \<notin> n_name ` V \<and> card {m \<in> V. id_prefix v (n_id m)} \<noteq> 1"
proof -
  let ?ms = "filter (\<lambda>n. like (v @ ''%'') (n_id n) \<and> visible del n) (nets d)"
  obtain t' where r: "net_Resolve del v E (d, t) = (net_find del d v, d, t')"
    using net_resolver.answers [OF assms(1)] by blast
  have ms: "set ?ms = {m \<in> V. id_prefix v (n_id m)}"
    by (auto simp: assms(4) like_literal [OF assms(3)] id_prefix_def)
  have "distinct (nets d)" using assms(2) by (auto simp: db_ok_def intro: distinct_rows)
  then have o: "distinct ?ms" by simp
  show ?thesis
  proof (cases "find_first (\<lambda>n. n_name n = v \<and> visible del n) (nets d)")
    case None
    then have "v \<notin> n_name ` V" by (auto simp: find_first_None assms(4))
    obtain m1 m2 where f: "net_find del d v = only (NotFound ''network.not_found'' m1) (NotFound ''network.not_found'' m2) ?ms"
      using None by (simp add: net_find_def)
    show ?thesis using only_cases [OF o NotFound_codes(1,1), of m1 m2] \<open>v \<notin> n_name ` V\<close>
      unfolding r f ms by (auto split: sum.splits)
  next
    case (Some n)
    with find_first_Some [OF Some] r show ?thesis by (simp add: net_find_def assms(4))
  qed
qed

text \<open>
  A machine is found by its exact name; failing that, text with a dot is looked up as an
  address, text with a colon as a MAC, and anything else as a prefix of an identifier that no
  other machine shares. Every failure is a not-found error.
\<close>

lemma resolve_machine:
  assumes "quiet E" "db_ok d" "no_wildcard i" "V = set (vms d)"
  shows "case vm_Resolve i E (d, t) of
      (Ok v, d', _) \<Rightarrow> d' = d \<and> v \<in> V \<and> (v_name v = i \<or> i \<notin> v_name ` V \<and>
        (if Contains i ''.'' then v_ip v = i else if Contains i '':'' then v_mac v = i
         else {w \<in> V. id_prefix i (v_id w)} = {v}))
    | (Err e, d', _) \<Rightarrow> d' = d \<and> IsNotFound e \<and> i \<notin> v_name ` V \<and>
        (if Contains i ''.'' then i \<notin> v_ip ` V else if Contains i '':'' then i \<notin> v_mac ` V
         else card {w \<in> V. id_prefix i (v_id w)} \<noteq> 1)"
proof -
  let ?ms = "filter (\<lambda>v. like (i @ ''%'') (v_id v)) (vms d)"
  obtain t' where r: "vm_Resolve i E (d, t) = (vm_find d i, d, t')"
    using vm_resolver.answers [OF assms(1)] by blast
  have ms: "set ?ms = {w \<in> V. id_prefix i (v_id w)}"
    by (auto simp: assms(4) like_literal [OF assms(3)] id_prefix_def)
  have "distinct (vms d)" using assms(2) by (auto simp: db_ok_def intro: distinct_rows)
  then have o: "distinct ?ms" by simp
  show ?thesis
  proof (cases "find_first (\<lambda>v. v_name v = i) (vms d)")
    case (Some v)
    with find_first_Some [OF Some] r show ?thesis by (simp add: vm_find_def assms(4))
  next
    case None
    then have n: "i \<notin> v_name ` V" by (auto simp: find_first_None assms(4))
    consider "Contains i ''.''" | "\<not> Contains i ''.''" "Contains i '':''" | "\<not> Contains i ''.''" "\<not> Contains i '':''"
      by blast
    then show ?thesis
    proof cases
      case 1
      with None n r column_find [where col = v_ip and i = i and xs = "vms d"] show ?thesis
        by (auto simp: vm_find_def assms(4) split: option.splits)
    next
      case 2
      with None n r column_find [where col = v_mac and i = i and xs = "vms d"] show ?thesis
        by (auto simp: vm_find_def assms(4) split: option.splits)
    next
      case 3
      obtain m1 m2 where f: "vm_find d i = only (NotFound ''vm.not_found'' m1) (NotFound ''vm.not_found'' m2) ?ms"
        using None 3 by (simp add: vm_find_def Let_def)
      show ?thesis using only_cases [OF o NotFound_codes(2,2), of m1 m2] n 3
        unfolding r f ms by (auto split: sum.splits)
    qed
  qed
qed

text \<open>
  resolving many identifiers answers, in one result, each machine found once, an error
  text for every distinct identifier that finds none, and the exit code 1 exactly when there
  were identifiers and all of them failed.
\<close>

lemma resolve_many_machines:
  assumes "quiet E"
  shows "\<exists>r t'. vm_ResolveMany is E (d, t) = (Ok r, d, t') \<and>
    (\<forall>i t. fst (vm_Resolve i E (d, t)) = vm_find d i) \<and>
    distinct (map v_id (rr_items r)) \<and>
    (\<forall>v \<in> set (rr_items r). \<exists>i \<in> set is. vm_find d i = Ok v) \<and>
    (\<forall>i \<in> set is. \<forall>v. vm_find d i = Ok v \<longrightarrow> v_id v \<in> v_id ` set (rr_items r)) \<and>
    length (rr_errors r) = card {i \<in> set is. \<not> is_ok (vm_find d i)} \<and>
    (rr_exit r = 1 \<longleftrightarrow> is \<noteq> [] \<and> (\<forall>i \<in> set is. \<not> is_ok (vm_find d i)))"
proof -
  have "\<forall>i t. fst (vm_Resolve i E (d, t)) = vm_find d i"
    using vm_resolver.answers [OF assms] by (metis fst_conv)
  with vm_resolver.many_quiet [OF assms, of "is" d t] show ?thesis
    unfolding vm_ResolveMany_def by blast
qed

text \<open>
  The text typed by the user is a pattern of LIKE, so a single underscore, a percent sign
  or no text at all finds a machine as soon as it is the only one.
\<close>

lemma wildcard_finds_machine:
  assumes "quiet E" "vms d = [v]" "i \<in> {'''', ''%'', ''_''}" "v_name v \<noteq> i" "v_id v \<noteq> ''''"
  shows "fst (vm_Resolve i E (d, t)) = Ok v"
proof -
  obtain t' where r: "vm_Resolve i E (d, t) = (vm_find d i, d, t')"
    using vm_resolver.answers [OF assms(1)] by blast
  have "\<not> Contains i ''.''" "\<not> Contains i '':''"
    using assms(3) by (auto simp: Contains_def HasPrefix_def)
  moreover have "like (i @ ''%'') (v_id v)" using assms(3,5) by (cases "v_id v") auto
  ultimately show ?thesis using r assms(2,4) by (simp add: vm_find_def only_def)
qed

subsection \<open>The default network\<close>

lemma default_rows:
  "mark_default now i (clear_default t) = map (\<lambda>n.
     if n_deleted n = None
     then if n_id n = i then n\<lparr>n_default := True, n_updated := now\<rparr> else n\<lparr>n_default := False\<rparr>
     else n) t"
  by (simp add: mark_default_def clear_default_def tbl_upd_def)

text \<open>
  After SetDefault at most one live network is the default, and it is the one asked for:
  GetDefault then returns it. If no live network has that identifier, the call still succeeds,
  and leaves no default network at all.
\<close>

lemma set_default_single:
  assumes "quiet E"
  shows "\<exists>d' t'. net_SetDefault i E (d, t) = (Ok (), d', t') \<and> map n_id (nets d') = map n_id (nets d) \<and>
    n_id ` {n \<in> set (nets d'). n_default n \<and> n_deleted n = None} =
      {i} \<inter> n_id ` {n \<in> set (nets d). n_deleted n = None} \<and>
    map_option n_id (projr (fst (net_GetDefault E (d', t')))) =
      (if i \<in> n_id ` {n \<in> set (nets d). n_deleted n = None} then Some i else None)"
proof -
  let ?g = "\<lambda>now n. if n_deleted n = None
     then if n_id n = i then n\<lparr>n_default := True, n_updated := now\<rparr> else n\<lparr>n_default := False\<rparr> else n"
  have ids: "map n_id (map (?g now) ns) = map n_id ns" for now ns by auto
  have def: "n_id ` {n \<in> set (map (?g now) ns). n_default n \<and> n_deleted n = None} =
      {i} \<inter> n_id ` {n \<in> set ns. n_deleted n = None}" for now ns
  proof -
    have "n_default (?g now n) \<and> n_deleted (?g now n) = None \<longleftrightarrow> n_id n = i \<and> n_deleted n = None" for n
      by (cases "n_deleted n") auto
    then have "n_id ` {n \<in> set (map (?g now) ns). n_default n \<and> n_deleted n = None} =
        n_id ` {n \<in> set ns. n_id n = i \<and> n_deleted n = None}"
      by (rule image_map_filter) simp
    then show ?thesis by auto
  qed
  have get: "map_option n_id (find_first (\<lambda>n. n_default n \<and> n_deleted n = None) (map (?g now) ns)) =
      (if i \<in> n_id ` {n \<in> set ns. n_deleted n = None} then Some i else None)" for now ns
  proof (cases "find_first (\<lambda>n. n_default n \<and> n_deleted n = None) (map (?g now) ns)")
    case None
    then have "n_id ` {n \<in> set (map (?g now) ns). n_default n \<and> n_deleted n = None} = {}"
      by (simp only: find_first_None) blast
    then have "i \<notin> n_id ` {n \<in> set ns. n_deleted n = None}" unfolding def by blast
    with None show ?thesis by simp
  next
    case (Some n)
    then have "n_id n \<in> n_id ` {n \<in> set (map (?g now) ns). n_default n \<and> n_deleted n = None}"
      using find_first_Some [OF Some] by blast
    with Some show ?thesis unfolding def by auto
  qed
  let ?d = "d\<lparr>nets := map (?g (e_now E t)) (nets d)\<rparr>"
  have run: "net_SetDefault i E (d, t) = (Ok (), ?d, Suc t)"
    unfolding net_SetDefault_def default_rows by (rule exec_quiet [OF assms])
  have rows: "nets ?d = map (?g (e_now E t)) (nets d)" by simp
  have "fst (net_GetDefault E (?d, Suc t)) = Ok (find_first (\<lambda>n. n_default n \<and> n_deleted n = None) (nets ?d))"
    unfolding net_GetDefault_def query_quiet [OF assms] by (simp add: visible_def)
  then have "projr (fst (net_GetDefault E (?d, Suc t))) = find_first (\<lambda>n. n_default n \<and> n_deleted n = None) (nets ?d)"
    by (simp only: sum.sel)
  with run show ?thesis
    by (intro exI [of _ ?d] exI [of _ "Suc t"] conjI) (simp_all only: rows ids def get)
qed

subsection \<open>Two machines and two networks to try them on\<close>

definition demo_vm :: "string \<Rightarrow> string \<Rightarrow> string \<Rightarrow> vm" where
  "demo_vm i nm ip = \<lparr>v_id = i, v_name = nm, v_status = Running, v_pid = 4242, v_start = Some 77, v_ip = ip,
     v_mac = ''02:fc:00:00:00:01'', v_net = ''c0ffee'', v_image = ''img'', v_kernel = ''krn'', v_binary = ''bin'',
     v_socket = ''/run/fc.sock'', v_config = ''/run/fc.json'', v_nested = False, v_exit = None, v_volumes = [],
     v_created = ''2026-04-02'', v_updated = ''2026-04-02'',
     v_rest = \<lparr>vr_tap = ''mvm-tap'', vr_cloud_mode = ''inject'', vr_relay_socket = None, vr_nocloud_port = None,
       vr_nocloud_pid = None, vr_relay_pid = None, vr_log = None, vr_serial = None, vr_vcpus = 2, vr_mem = 512,
       vr_disk = 2048, vr_rootfs = ''/vms/rootfs.ext4'', vr_suffix = ''ext4'', vr_pci = False, vr_remote_exec = False,
       vr_logging = False, vr_metrics = False, vr_console = False, vr_ssh_keys = [], vr_ssh_user = None,
       vr_lsm = '''', vr_boot_args = '''', vr_cpu = None\<rparr>\<rparr>"

definition plain_net :: "string \<Rightarrow> string \<Rightarrow> bool \<Rightarrow> network" where
  "plain_net i nm def = \<lparr>n_id = i, n_name = nm, n_subnet = ''10.0.0.0/24'', n_bridge = ''mvm-'' @ nm,
     n_gateway = ''10.0.0.1'', n_active = True, n_nat = True, n_default = def, n_present = True,
     n_created = ''2026-04-02'', n_updated = ''2026-04-02'', n_deleted = None, n_gateways = None\<rparr>"

definition two_db :: db where
  "two_db = \<lparr>nets = [plain_net ''c0ffee'' ''web'' True, plain_net ''c0de00'' ''db'' False], leases = [], lease_seq = 0,
     vms = [demo_vm ''ab12'' ''front'' ''10.0.0.2'', demo_vm ''ab34'' ''back'' ''10.0.0.3''],
     images = [''img''], kernels = [''krn''], binaries = [''bin'']\<rparr>"

lemma demo_sel [simp]:
  "v_id (demo_vm i nm ip) = i" "v_name (demo_vm i nm ip) = nm" "v_ip (demo_vm i nm ip) = ip"
  "v_net (demo_vm i nm ip) = ''c0ffee''" "v_status (demo_vm i nm ip) = Running" "v_pid (demo_vm i nm ip) = 4242"
  "v_start (demo_vm i nm ip) = Some 77" "v_socket (demo_vm i nm ip) = ''/run/fc.sock''" "v_exit (demo_vm i nm ip) = None"
  "n_id (plain_net i nm b) = i" "n_name (plain_net i nm b) = nm" "n_deleted (plain_net i nm b) = None"
  by (simp_all add: demo_vm_def plain_net_def)

lemma demo_eq [simp]:
  "demo_vm i nm ip = demo_vm i' nm' ip' \<longleftrightarrow> i = i' \<and> nm = nm' \<and> ip = ip'"
  by (metis demo_sel(1,2,3))

lemma two_db_sel [simp]:
  "nets two_db = [plain_net ''c0ffee'' ''web'' True, plain_net ''c0de00'' ''db'' False]"
  "vms two_db = [demo_vm ''ab12'' ''front'' ''10.0.0.2'', demo_vm ''ab34'' ''back'' ''10.0.0.3'']"
  "leases two_db = []"
  by (simp_all add: two_db_def)

lemma two_db_ok: "db_ok two_db"
  by (simp add: db_ok_def tbl_inv_def)

theorem resolve_network_witness:
  "\<exists>n. fst (net_Resolve False ''C0F'' calm (two_db, 0)) = Ok n \<and> n_id n = ''c0ffee''"
proof -
  have w: "no_wildcard ''C0F''" by (simp add: no_wildcard_def)
  have p: "id_prefix ''C0F'' ''c0ffee''" "\<not> id_prefix ''C0F'' ''c0de00''" by code_simp+
  let ?V = "{n \<in> set (nets two_db). visible False n}"
  have V: "?V = {plain_net ''c0ffee'' ''web'' True, plain_net ''c0de00'' ''db'' False}"
    by (auto simp: visible_def)
  have "{m \<in> ?V. id_prefix ''C0F'' (n_id m)} = {plain_net ''c0ffee'' ''web'' True}"
    unfolding V using p by auto
  then have u: "card {m \<in> ?V. id_prefix ''C0F'' (n_id m)} = 1" by simp
  have m: "''C0F'' \<notin> n_name ` ?V" unfolding V by simp
  obtain r d t where r: "net_Resolve False ''C0F'' calm (two_db, 0) = (r, d, t)" by (rule prod_cases3)
  note res = resolve_network [OF quiet_calm two_db_ok w refl, of False 0, unfolded r prod.case]
  show ?thesis
  proof (cases r)
    case (Inl e)
    then show ?thesis using res u by simp
  next
    case (Inr n)
    then have "n_name n = ''C0F'' \<or> {m \<in> ?V. id_prefix ''C0F'' (n_id m)} = {n}" "n \<in> ?V"
      using res by auto
    moreover have "n_name n \<noteq> ''C0F''" using m \<open>n \<in> ?V\<close> by (metis imageI)
    ultimately have "n \<in> {m \<in> ?V. id_prefix ''C0F'' (n_id m)}" by blast
    then have "n = plain_net ''c0ffee'' ''web'' True" unfolding V using p by auto
    then show ?thesis using r Inr by simp
  qed
qed

lemma resolve_machine_witness:
  "\<exists>e. fst (vm_Resolve ''ab'' calm (two_db, 0)) = Err e \<and> IsNotFound e"
proof -
  let ?V = "set (vms two_db)"
  have p: "id_prefix ''ab'' ''ab12''" "id_prefix ''ab'' ''ab34''" "\<not> Contains ''ab'' ''.''" "\<not> Contains ''ab'' '':''"
    by code_simp+
  have "{w \<in> ?V. id_prefix ''ab'' (v_id w)} = ?V" using p by auto
  then have c: "card {w \<in> ?V. id_prefix ''ab'' (v_id w)} = 2" by simp
  have w: "no_wildcard ''ab''" by (simp add: no_wildcard_def)
  have m: "''ab'' \<notin> v_name ` ?V" by simp
  obtain r d t where r: "vm_Resolve ''ab'' calm (two_db, 0) = (r, d, t)" by (rule prod_cases3)
  note res = resolve_machine [OF quiet_calm two_db_ok w refl, of 0, unfolded r prod.case]
  show ?thesis
  proof (cases r)
    case (Inl e)
    then show ?thesis using res r by simp
  next
    case (Inr v)
    then have "v \<in> ?V" "v_name v = ''ab'' \<or> {w \<in> ?V. id_prefix ''ab'' (v_id w)} = {v}" using res p(3,4) by auto
    moreover have "v_name v \<noteq> ''ab''" using m \<open>v \<in> ?V\<close> by (metis imageI)
    ultimately show ?thesis using c by simp
  qed
qed

theorem resolve_many_machines_witness:
  "\<exists>r t'. vm_ResolveMany [''front'', ''nobody'', ''ab12''] calm (two_db, 0) = (Ok r, two_db, t') \<and> rr_exit r \<noteq> 1"
proof -
  have "is_ok (vm_find two_db ''front'')" by (simp add: vm_find_def)
  moreover obtain r t' where "vm_ResolveMany [''front'', ''nobody'', ''ab12''] calm (two_db, 0) = (Ok r, two_db, t')"
    "rr_exit r = 1 \<longleftrightarrow> [''front'', ''nobody'', ''ab12''] \<noteq> [] \<and>
       (\<forall>i \<in> set [''front'', ''nobody'', ''ab12'']. \<not> is_ok (vm_find two_db i))"
    using resolve_many_machines [OF quiet_calm, of "[''front'', ''nobody'', ''ab12'']" two_db 0] by blast
  ultimately show ?thesis by auto
qed

lemma wildcard_finds_machine_witness:
  "fst (vm_Resolve ''_'' calm (two_db\<lparr>vms := [demo_vm ''ab12'' ''front'' ''10.0.0.2'']\<rparr>, 0)) =
     Ok (demo_vm ''ab12'' ''front'' ''10.0.0.2'')"
  by (rule wildcard_finds_machine) simp_all

lemma set_default_single_witness:
  "\<exists>d' t'. net_SetDefault ''c0de00'' calm (two_db, 0) = (Ok (), d', t') \<and>
     map_option n_id (projr (fst (net_GetDefault calm (d', t')))) = Some ''c0de00''"
proof -
  have "''c0de00'' \<in> n_id ` {n \<in> set (nets two_db). n_deleted n = None}"
    by (rule image_eqI [of _ _ "plain_net ''c0de00'' ''db'' False"]) simp_all
  moreover from set_default_single [OF quiet_calm, of "''c0de00''" two_db 0]
  obtain d' t' where "net_SetDefault ''c0de00'' calm (two_db, 0) = (Ok (), d', t')"
    "map_option n_id (projr (fst (net_GetDefault calm (d', t')))) =
      (if ''c0de00'' \<in> n_id ` {n \<in> set (nets two_db). n_deleted n = None} then Some ''c0de00'' else None)"
    by (elim exE conjE) (rule that)
  ultimately show ?thesis by (intro exI [of _ d'] exI [of _ t']) (simp only: if_True simp_thms)
qed

end
