(* ===== verification/Processes.thy ===== *)
theory Processes
  imports Store
begin

text \<open>
  Processes and the Firecracker API as the machine controller sees them: the process functions
  of \<open>internal/lib/system/runner.go\<close> and the requests of
  \<open>internal/lib/firecracker/client.go\<close>. The world holds the database, the process table, the
  clock, the signals sent (each with the number and the start time of the process it reached), the requests made and what the HTTP layer would answer to each; all
  of it may change between two operations, which is how a signalled process comes to die.
\<close>

subsection \<open>The world\<close>

datatype signal = SIGTERM | SIGKILL

datatype wait_status = Exited int | Signaled int | OtherStatus

text \<open>A process: state letter and start time from /proc, whether it may be signalled and is a child of ours.\<close>

record proc =
  p_state :: char
  p_start :: int
  p_mine :: bool
  p_child :: bool
  p_status :: wait_status

record drive_config =
  dc_id :: string
  dc_path :: string
  dc_root :: bool
  dc_ro :: bool
  dc_cache :: string
  dc_engine :: string

datatype api_call =
    CtrlAltDel | PauseCall | ResumeCall | InstanceStart
  | SnapshotCall string string
  | LoadCall string string bool "(string \<times> string) list" string
  | DrivePath string string
  | PutDriveCall drive_config
  | PatchDriveCall string
  | DeleteDriveCall string
  | PutVsockCall int string

text \<open>What one HTTP exchange on the socket gives: refused, another transport error, or a status and body.\<close>

datatype answer = Refused string | Broken string | Status int string

text \<open>A configuration file as \<open>encoding/json\<close> reads it into a map.\<close>

datatype json = JNull | JBool bool | JNum string | JStr string | JArr "json list" | JObj "(string \<times> json) list"

datatype config_file = Absent | Unreadable err | Document "(string \<times> json) list"

record world =
  w_db :: db
  w_files :: "string \<Rightarrow> config_file"
  w_procs :: "int \<Rightarrow> proc option"
  w_clock :: nat
  w_sent :: "(int \<times> int \<times> signal) list"
  w_calls :: "api_call list"
  w_http :: "api_call \<Rightarrow> answer"

type_synonym 'a io = "(world, 'a) prog"

definition on_db :: "(string \<Rightarrow> db \<Rightarrow> db) \<Rightarrow> unit io" where
  "on_db f = exec (\<lambda>now w. w\<lparr>w_db := f now (w_db w)\<rparr>)"

definition look :: "(world \<Rightarrow> 'a) \<Rightarrow> 'a io" where
  "look f = host (\<lambda>w. (f w, w))"

subsection \<open>Processes\<close>

definition DecodeExitStatus :: "wait_status \<Rightarrow> int" where
  "DecodeExitStatus st = (case st of Exited c \<Rightarrow> c | Signaled n \<Rightarrow> 128 + n | OtherStatus \<Rightarrow> -1)"

definition alive_proc :: "int option \<Rightarrow> proc option \<Rightarrow> bool" where
  "alive_proc start p = (case p of
     None \<Rightarrow> False
   | Some q \<Rightarrow> \<not> (start \<noteq> None \<and> p_start q \<noteq> the start) \<and> \<not> (p_state q = CHR ''Z'' \<or> p_state q = CHR ''X''))"

definition IsProcessAlive :: "int \<Rightarrow> int option \<Rightarrow> bool io" where
  "IsProcessAlive pid start = look (\<lambda>w. alive_proc start (w_procs w pid))"

text \<open>Sending a signal: whether it was delivered. A process that is not there or not ours refuses it.\<close>

definition kill :: "int \<Rightarrow> signal \<Rightarrow> bool io" where
  "kill pid sig = host (\<lambda>w. case w_procs w pid of
     Some p \<Rightarrow> if p_mine p then (True, w\<lparr>w_sent := w_sent w @ [(pid, p_start p, sig)]\<rparr>) else (False, w)
   | None \<Rightarrow> (False, w))"

definition KillProcess :: "int \<Rightarrow> bool io" where
  "KillProcess pid = kill pid SIGKILL"

text \<open>Reap the process if it is a dead child: its entry disappears.\<close>

definition CaptureExitCode :: "int \<Rightarrow> int option io" where
  "CaptureExitCode pid = host (\<lambda>w. case w_procs w pid of
     Some p \<Rightarrow> if p_child p \<and> p_state p = CHR ''Z''
       then (Some (DecodeExitStatus (p_status p)), w\<lparr>w_procs := (w_procs w)(pid := None)\<rparr>) else (None, w)
   | None \<Rightarrow> (None, w))"

text \<open>
  A refused signal, with no such process or without permission, is the moment to reap a child.
\<close>

definition signalAndCheck :: "int \<Rightarrow> bool \<Rightarrow> signal \<Rightarrow> int option io" where
  "signalAndCheck pid child sig = bind_prog (kill pid sig) (\<lambda>sent.
     if sent then ret None else if child then CaptureExitCode pid else ret None)"

text \<open>
  Polling every 100 milliseconds until a deadline. Each round sleeps that long, so
  \<open>timeout div 100 + 2\<close> rounds of fuel are enough; \<open>wait_fuel\<close> below proves it.
\<close>

definition poll_ms :: nat where "poll_ms = 100"

definition sleep :: "nat \<Rightarrow> unit io" where
  "sleep ms = host (\<lambda>w. ((), w\<lparr>w_clock := w_clock w + ms\<rparr>))"

definition wait_round :: "int \<Rightarrow> bool \<Rightarrow> nat \<Rightarrow> int option io \<Rightarrow> int option io" where
  "wait_round pid child deadline again =
     bind_prog (look w_clock) (\<lambda>now.
       if \<not> now < deadline then ret None
       else if child then bind_prog (CaptureExitCode pid) (\<lambda>c. case c of
           Some code \<Rightarrow> ret (Some code) | None \<Rightarrow> bind_prog (sleep poll_ms) (\<lambda>_. again))
       else bind_prog (IsProcessAlive pid None) (\<lambda>alive.
         if \<not> alive then ret None else bind_prog (sleep poll_ms) (\<lambda>_. again)))"

primrec wait_loop :: "nat \<Rightarrow> int \<Rightarrow> bool \<Rightarrow> nat \<Rightarrow> int option io" where
  "wait_loop 0 pid child deadline = ret None"
| "wait_loop (Suc k) pid child deadline = wait_round pid child deadline (wait_loop k pid child deadline)"

definition waitForExit :: "int \<Rightarrow> bool \<Rightarrow> nat \<Rightarrow> int option io" where
  "waitForExit pid child timeout = bind_prog (look w_clock) (\<lambda>now.
     wait_loop (timeout div poll_ms + 2) pid child (now + timeout))"

record shutdown_config =
  sd_pid :: int
  sd_child :: bool
  sd_hook :: "bool option"
  sd_graceful :: nat
  sd_kill :: nat
  sd_start :: "int option"

definition or_else :: "'a option io \<Rightarrow> 'a option io \<Rightarrow> 'a option io" where
  "or_else m k = bind_prog m (\<lambda>r. case r of Some x \<Rightarrow> ret (Some x) | None \<Rightarrow> k)"

definition GracefulShutdown :: "shutdown_config \<Rightarrow> int option io" where
  "GracefulShutdown cfg =
     (let graceful = (if sd_graceful cfg = 0 then 4000 else sd_graceful cfg);
          killing = (if sd_kill cfg = 0 then 5000 else sd_kill cfg);
          pid = sd_pid cfg; child = sd_child cfg
      in bind_prog (IsProcessAlive pid (sd_start cfg)) (\<lambda>alive.
           if \<not> alive then (if child then CaptureExitCode pid else ret None)
           else if sd_hook cfg = Some False then waitForExit pid child graceful
           else or_else (signalAndCheck pid child SIGTERM)
             (or_else (waitForExit pid child graceful)
               (or_else (signalAndCheck pid child SIGKILL)
                 (waitForExit pid child killing)))))"

subsection \<open>Requests\<close>

text \<open>A request with its retries: only a refused connection is tried again, five times in all.\<close>

definition http :: "api_call \<Rightarrow> answer io" where
  "http c = look (\<lambda>w. w_http w c)"

definition log_call :: "api_call \<Rightarrow> unit io" where
  "log_call c = host (\<lambda>w. ((), w\<lparr>w_calls := w_calls w @ [c]\<rparr>))"

primrec request_loop :: "nat \<Rightarrow> nat \<Rightarrow> api_call \<Rightarrow> (int \<times> string) io" where
  "request_loop 0 delay c = throw (New ''firecracker.client.error'' ''api request failed after 5 retries'')"
| "request_loop (Suc k) delay c = bind_prog (http c) (\<lambda>a. case a of
     Status st body \<Rightarrow> ret (st, if st = 204 then '''' else body)
   | Refused msg \<Rightarrow> if k > 0 then bind_prog (sleep delay) (\<lambda>_. request_loop k (2 * delay) c)
       else throw (New ''firecracker.client.error'' (''api request failed: '' @ msg))
   | Broken msg \<Rightarrow> throw (New ''firecracker.client.error'' (''api request failed: '' @ msg)))"

definition request :: "api_call \<Rightarrow> (int \<times> string) io" where
  "request c = bind_prog (log_call c) (\<lambda>_. request_loop 5 100 c)"

text \<open>Most requests succeed with one of a set of statuses and otherwise turn the answer into an error.\<close>

definition expect :: "int list \<Rightarrow> string \<Rightarrow> bool \<Rightarrow> api_call \<Rightarrow> unit io" where
  "expect oks msg with_body c = bind_prog (request c) (\<lambda>(st, body).
     if st \<in> set oks then ret ()
     else throw (New ''firecracker.client.error'' (msg @ Itoa st @
       (if with_body \<and> body \<noteq> '''' then '' response: '' @ body else ''''))))"

definition CreateSnapshot :: "string \<Rightarrow> string \<Rightarrow> unit io" where
  "CreateSnapshot mem state = expect [204] ''failed to create snapshot: '' True (SnapshotCall mem state)"

definition LoadSnapshot :: "string \<Rightarrow> string \<Rightarrow> bool \<Rightarrow> (string \<times> string) list \<Rightarrow> string \<Rightarrow> unit io" where
  "LoadSnapshot mem state resume overrides uds =
     expect [204] ''failed to load snapshot: '' True (LoadCall mem state resume overrides uds)"

definition StartInstance :: "unit io" where
  "StartInstance = expect [204] ''failed to start VM: '' False InstanceStart"

definition PauseVM :: "unit io" where
  "PauseVM = expect [204] ''failed to pause VM: '' False PauseCall"

definition ResumeVM :: "unit io" where
  "ResumeVM = expect [204] ''failed to resume VM: '' False ResumeCall"

definition UpdateDrivePath :: "string \<Rightarrow> string \<Rightarrow> unit io" where
  "UpdateDrivePath drive path = expect [200, 204] ''failed to update drive path: '' True (DrivePath drive path)"

definition PatchDrive :: "string \<Rightarrow> unit io" where
  "PatchDrive drive = expect [200, 204] ''failed to detach drive: '' True (PatchDriveCall drive)"

definition PutVsock :: "int \<Rightarrow> string \<Rightarrow> unit io" where
  "PutVsock cid uds = expect [204, 200] ''failed to configure vsock device: '' True (PutVsockCall cid uds)"

definition PutDrive :: "drive_config \<Rightarrow> unit io" where
  "PutDrive drive = expect [200, 204] ''failed to attach drive: '' True (PutDriveCall drive)"

definition DeleteDrive :: "string \<Rightarrow> unit io" where
  "DeleteDrive drive = expect [204] ''failed to delete drive: '' True (DeleteDriveCall drive)"

text \<open>Ctrl+Alt+Del: a domain error of the request counts as not sent.\<close>

definition SendCtrlAltDel :: "bool io" where
  "SendCtrlAltDel = bind_prog (attempt (request CtrlAltDel)) (\<lambda>r. case r of
     Inl e \<Rightarrow> if AsDomainError e \<noteq> None then ret False else throw e
   | Inr (st, body) \<Rightarrow> ret (st = 204))"

subsection \<open>What they cannot touch\<close>

text \<open>A part of the world that process operations leave alone, and one that requests do too.\<close>

locale process_view =
  fixes g :: "world \<Rightarrow> 'v"
  assumes procs: "g (w\<lparr>w_procs := p\<rparr>) = g w" and clock: "g (w\<lparr>w_clock := t\<rparr>) = g w"
    and sent: "g (w\<lparr>w_sent := l\<rparr>) = g w"
begin

lemma blind_look: "blind g (look f)"
  by (simp add: look_def blind_host)

lemma blind_sleep: "blind g (sleep ms)"
  by (simp add: sleep_def blind_host clock)

lemma blind_alive: "blind g (IsProcessAlive pid start)"
  by (simp add: IsProcessAlive_def blind_look)

lemma blind_kill: "blind g (kill pid sig)" and blind_KillProcess: "blind g (KillProcess pid)"
  by (auto simp: kill_def KillProcess_def sent intro!: blind_host split: option.split)

lemma blind_capture: "blind g (CaptureExitCode pid)"
  by (auto simp: CaptureExitCode_def procs intro!: blind_host split: option.split)

lemma blind_check: "blind g (signalAndCheck pid child sig)"
  by (auto simp: signalAndCheck_def intro!: blind_rules blind_kill blind_capture)

lemma blind_wait_loop: "blind g (wait_loop k pid child deadline)"
proof (induction k)
  case (Suc k)
  then show ?case
    by (auto simp: wait_round_def intro!: blind_rules blind_look blind_capture blind_sleep blind_alive split: option.split)
qed (simp only: wait_loop.simps blind_ret)

lemma blind_wait: "blind g (waitForExit pid child timeout)"
  by (simp only: waitForExit_def blind_bind blind_look blind_wait_loop)

lemma blind_or_else: "blind g m \<Longrightarrow> blind g k \<Longrightarrow> blind g (or_else m k)"
  by (auto simp: or_else_def intro!: blind_rules split: option.split)

lemma blind_shutdown: "blind g (GracefulShutdown cfg)"
  by (auto simp: GracefulShutdown_def Let_def
      intro!: blind_rules blind_or_else blind_alive blind_capture blind_wait blind_check)

lemma blind_http: "blind g (http c)"
  by (simp add: http_def blind_look)

lemma blind_request_loop: "blind g (request_loop k delay c)"
  by (induction k arbitrary: delay) (auto intro!: blind_rules blind_http blind_sleep split: answer.split)

end

locale request_view = process_view g for g :: "world \<Rightarrow> 'v" +
  assumes calls: "g (w\<lparr>w_calls := c\<rparr>) = g w"
begin

lemma blind_request: "blind g (request c)"
  by (simp add: request_def log_call_def blind_bind blind_host calls blind_request_loop)

lemma blind_expect: "blind g (expect oks msg b c)"
  by (auto simp: expect_def intro!: blind_rules blind_request)

lemma blind_ctrl: "blind g SendCtrlAltDel"
  by (auto simp: SendCtrlAltDel_def intro!: blind_rules blind_request split: sum.split)

end

interpretation db_view: request_view w_db
  by unfold_locales simp_all

interpretation call_view: process_view w_calls
  by unfold_locales simp_all

text \<open>Process operations answer, they never fail.\<close>

lemma surely_look: "surely (look f)" and surely_sleep: "surely (sleep ms)"
  and surely_alive: "surely (IsProcessAlive pid start)" and surely_kill: "surely (kill pid sig)"
  and surely_KillProcess: "surely (KillProcess pid)" and surely_capture: "surely (CaptureExitCode pid)"
  by (simp_all add: look_def sleep_def IsProcessAlive_def kill_def KillProcess_def CaptureExitCode_def surely_host)

lemma surely_or_else: "surely m \<Longrightarrow> surely k \<Longrightarrow> surely (or_else m k)"
  by (auto simp: or_else_def intro!: surely_rules split: option.split)

lemma surely_wait_loop: "surely (wait_loop k pid child deadline)"
proof (induction k)
  case (Suc k)
  then show ?case
    by (auto simp: wait_round_def intro!: surely_rules surely_look surely_capture surely_sleep surely_alive split: option.split)
qed (simp only: wait_loop.simps surely_ret)

lemma surely_wait: "surely (waitForExit pid child timeout)"
  by (simp only: waitForExit_def surely_bind surely_look surely_wait_loop)

lemma surely_check: "surely (signalAndCheck pid child sig)"
  by (auto simp: signalAndCheck_def intro!: surely_rules surely_kill surely_capture)

lemma surely_shutdown: "surely (GracefulShutdown cfg)"
  by (auto simp: GracefulShutdown_def Let_def
      intro!: surely_rules surely_or_else surely_alive surely_capture surely_wait surely_check)

text \<open>The programs of this theory that make one request leave exactly that in the list of calls.\<close>

lemma post_request:
  "(\<And>r. Q r (cs @ [c])) \<Longrightarrow> post w_calls fl cs (request c) Q"
  unfolding request_def log_call_def
  by (intro post_bind post_host) (auto intro: blind_post [OF call_view.blind_request_loop])

lemma post_expect:
  "(\<And>r. Q r (cs @ [c])) \<Longrightarrow> post w_calls fl cs (expect oks msg b c) Q"
  unfolding expect_def
  by (intro post_bind post_request) (auto intro: post_ret post_throw split: sum.split)

subsection \<open>Waiting ends\<close>

lemma wait_round_cong:
  assumes mono: "\<And>n w. w_clock w \<le> w_clock (e_step E n w)"
    and rest: "\<And>w' n'. w_clock w + poll_ms \<le> w_clock w' \<Longrightarrow> a E (w', n') = b E (w', n')"
  shows "wait_round pid child deadline a E (w, n) = wait_round pid child deadline b E (w, n)"
proof -
  let ?w1 = "e_step E n w"
  let ?w2 = "e_step E (Suc n) ?w1"
  have s: "bind_prog (sleep poll_ms) (\<lambda>_. a) E (x, m) = bind_prog (sleep poll_ms) (\<lambda>_. b) E (x, m)"
    if "w_clock w \<le> w_clock x" for x m
  proof -
    have "w_clock w \<le> w_clock (e_step E m x)" using mono [of x m] that by simp
    then show ?thesis by (simp add: bind_run sleep_def host_def rest)
  qed
  have step: "w_clock w \<le> w_clock x'" if "host f E (x, m) = (Ok y, x', m')" "w_clock w \<le> w_clock x"
    "\<And>z. w_clock (snd (f z)) = w_clock z" for f y x x' m m'
    using that mono [of x m] by (auto simp: host_def split: prod.splits) (metis order.trans snd_conv)
  have capture: "w_clock w \<le> w_clock x'" if "CaptureExitCode pid E (x, m) = (Ok y, x', m')" "w_clock w \<le> w_clock x" for y x x' m m'
    using that(1) unfolding CaptureExitCode_def by (rule step [OF _ that(2)]) (auto split: option.split)
  have "wait_round pid child deadline a E (w, n) = wait_round pid child deadline b E (w, n)"
    unfolding wait_round_def
  proof (rule bind_cong_run, unfold look_def)
    fix now x m
    assume "host (\<lambda>w. (w_clock w, w)) E (w, n) = (Ok now, x, m)"
    then have x: "w_clock w \<le> w_clock x" by (rule step) simp_all
    show "(if \<not> now < deadline then ret None
       else if child then bind_prog (CaptureExitCode pid) (\<lambda>c. case c of
           Some code \<Rightarrow> ret (Some code) | None \<Rightarrow> bind_prog (sleep poll_ms) (\<lambda>_. a))
       else bind_prog (IsProcessAlive pid None) (\<lambda>alive. if \<not> alive then ret None else bind_prog (sleep poll_ms) (\<lambda>_. a))) E (x, m) =
      (if \<not> now < deadline then ret None
       else if child then bind_prog (CaptureExitCode pid) (\<lambda>c. case c of
           Some code \<Rightarrow> ret (Some code) | None \<Rightarrow> bind_prog (sleep poll_ms) (\<lambda>_. b))
       else bind_prog (IsProcessAlive pid None) (\<lambda>alive. if \<not> alive then ret None else bind_prog (sleep poll_ms) (\<lambda>_. b))) E (x, m)"
      using x step [of "\<lambda>w. (alive_proc None (w_procs w pid), w)"] capture
      by (auto simp: IsProcessAlive_def look_def s intro!: bind_cong_run split: option.split)
  qed
  then show ?thesis .
qed

lemma wait_enough:
  assumes mono: "\<And>n w. w_clock w \<le> w_clock (e_step E n w)"
  shows "deadline \<le> w_clock w + poll_ms * k \<Longrightarrow>
    wait_loop (Suc k + j) pid child deadline E (w, n) = wait_loop (Suc k) pid child deadline E (w, n)"
proof (induction k arbitrary: w n)
  case 0
  have "\<not> w_clock (e_step E n w) < deadline" using mono [of w n] 0 by simp
  then show ?case by (simp add: wait_round_def bind_run look_def host_def)
next
  case (Suc k)
  show ?case
    unfolding add_Suc wait_loop.simps(2)
  proof (rule wait_round_cong [OF mono])
    fix w' :: world and n'
    assume "w_clock w + poll_ms \<le> w_clock w'"
    with Suc.prems have "deadline \<le> w_clock w' + poll_ms * k" by simp
    from Suc.IH [OF this, of n']
    show "wait_round pid child deadline (wait_loop (k + j) pid child deadline) E (w', n') =
        wait_round pid child deadline (wait_loop k pid child deadline) E (w', n')" by simp
  qed
qed

text \<open>
  as long as the clock does not go backwards, the rounds that waitForExit is given are
  enough: with any more it would behave the same, whatever the process and the scheduler do.
  So it returns after at most one poll per 100 milliseconds of its timeout, and two more.
\<close>

lemma wait_fuel:
  assumes "\<And>n w. w_clock w \<le> w_clock (e_step E n w)"
  shows "waitForExit pid child timeout E (w, n) =
    bind_prog (look w_clock) (\<lambda>now. wait_loop (timeout div poll_ms + 2 + j) pid child (now + timeout)) E (w, n)"
  unfolding waitForExit_def
proof (rule bind_cong_run)
  fix now x m
  assume "look w_clock E (w, n) = (Ok now, x, m)"
  then have "w_clock x = now" by (auto simp: look_def host_def)
  moreover have "timeout \<le> poll_ms * (timeout div poll_ms + 1)" by (simp add: poll_ms_def)
  ultimately have "now + timeout \<le> w_clock x + poll_ms * (timeout div poll_ms + 1)" by simp
  from wait_enough [OF assms this, where j = j]
  show "wait_loop (timeout div poll_ms + 2) pid child (now + timeout) E (x, m) =
      wait_loop (timeout div poll_ms + 2 + j) pid child (now + timeout) E (x, m)" by simp
qed

subsection \<open>Signals\<close>

lemma post_kill:
  "(\<And>a. Q (Ok True) (l @ [(pid, a, sig)])) \<Longrightarrow> Q (Ok False) l \<Longrightarrow> post w_sent fl l (kill pid sig) Q"
  unfolding kill_def by (rule post_host) (auto split: option.split)

lemma blind_sent:
  "blind w_sent (look f)" "blind w_sent (sleep ms)" "blind w_sent (CaptureExitCode pid)"
  "blind w_sent (IsProcessAlive pid start)"
  by (auto simp: look_def sleep_def CaptureExitCode_def IsProcessAlive_def intro!: blind_host split: option.split)

lemma blind_sent_wait: "blind w_sent (waitForExit pid child timeout)"
proof -
  have "blind w_sent (wait_loop k pid child d)" for k d
  proof (induction k)
    case (Suc k)
    then show ?case by (auto simp: wait_round_def intro!: blind_rules blind_sent split: option.split)
  qed (simp only: wait_loop.simps blind_ret)
  then show ?thesis by (simp only: waitForExit_def blind_bind blind_sent)
qed

lemma post_check:
  assumes "\<And>r a. Q r (l @ [(pid, a, sig)])" "\<And>r. Q r l"
  shows "post w_sent fl l (signalAndCheck pid child sig) Q"
  unfolding signalAndCheck_def
  by (intro post_bind post_kill)
    (auto simp: assms intro!: post_ret blind_post [OF blind_sent(3)])

lemma post_or_else:
  assumes "post g fl v m (\<lambda>r v'. case r of Inl e \<Rightarrow> Q (Err e) v' | Inr None \<Rightarrow> post g fl v' k Q | Inr (Some x) \<Rightarrow> Q (Ok (Some x)) v')"
  shows "post g fl v (or_else m k) Q"
  unfolding or_else_def
  by (rule post_bind, rule post_mono [OF assms]) (auto intro: post_ret split: sum.splits option.splits)

text \<open>What may have been sent in the end, to one number and on top of what had been sent.\<close>

definition sent_ok :: "shutdown_config \<Rightarrow> (int \<times> int \<times> signal) list \<Rightarrow> (int \<times> int \<times> signal) list \<Rightarrow> bool" where
  "sent_ok cfg l0 l1 \<longleftrightarrow> (\<exists>l. l1 = l0 @ l \<and> (\<forall>(p, a, sig) \<in> set l. p = sd_pid cfg) \<and>
    map (snd \<circ> snd) l \<in> {[], [SIGTERM], [SIGKILL], [SIGTERM, SIGKILL]} \<and> (sd_hook cfg = Some False \<longrightarrow> l = []))"

lemma post_wait: "Q v \<Longrightarrow> post w_sent True v (waitForExit pid child t) (\<lambda>r. Q)"
  by (rule blind_post [OF blind_sent_wait])

lemma post_phases:
  assumes "P l" "\<And>a. P (l @ [(pid, a, SIGTERM)])" "\<And>a. P (l @ [(pid, a, SIGKILL)])"
    "\<And>a b. P (l @ [(pid, a, SIGTERM), (pid, b, SIGKILL)])"
  shows "post w_sent True l (or_else (signalAndCheck pid child SIGTERM)
      (or_else (waitForExit pid child t) (or_else (signalAndCheck pid child SIGKILL)
        (waitForExit pid child t')))) (\<lambda>r. P)"
proof -
  have last: "post w_sent True k (or_else (signalAndCheck pid child SIGKILL) (waitForExit pid child t')) (\<lambda>r. P)"
    if "P k" "\<And>a. P (k @ [(pid, a, SIGKILL)])" for k
    using that by (intro post_or_else post_check) (auto intro!: post_wait split: sum.split option.split)
  have rest: "post w_sent True k (or_else (waitForExit pid child t)
      (or_else (signalAndCheck pid child SIGKILL) (waitForExit pid child t'))) (\<lambda>r. P)"
    if "P k" "\<And>a. P (k @ [(pid, a, SIGKILL)])" for k
    using that last [OF that] by (intro post_or_else blind_post [OF blind_sent_wait]) (auto split: sum.split option.split)
  show ?thesis
    using assms by (intro post_or_else post_check) (auto intro!: rest split: sum.split option.split)
qed

lemma shutdown_sends:
  assumes "\<And>n w. w_sent (e_step E n w) = w_sent w" "GracefulShutdown cfg E (w, n) = (r, w', n')"
  shows "sent_ok cfg (w_sent w) (w_sent w')"
proof -
  let ?ok = "sent_ok cfg (w_sent w)"
  have none: "?ok (w_sent w)" by (simp add: sent_ok_def)
  have some: "?ok (w_sent w @ l)"
    if "sd_hook cfg \<noteq> Some False" "\<forall>(p, a, sig) \<in> set l. p = sd_pid cfg"
      "map (snd \<circ> snd) l \<in> {[], [SIGTERM], [SIGKILL], [SIGTERM, SIGKILL]}" for l
    unfolding sent_ok_def by (rule exI [of _ l]) (use that in simp)
  have "post w_sent True (w_sent w) (GracefulShutdown cfg) (\<lambda>r. ?ok)"
    unfolding GracefulShutdown_def Let_def
    by (intro post_bind blind_post [OF blind_sent(4)])
      (simp add: none some post_ret blind_post [OF blind_sent(3)] post_wait post_phases split: sum.split)
  from postD [OF this assms(1) _ refl assms(2)] show ?thesis by simp
qed

subsection \<open>Whom the signals reach\<close>

text \<open>
  Whoever has the number has the given start time, and only such a process is signalled: this is
  kept by every operation, and by a process table that does not give the number to anybody else.
\<close>

definition its_number :: "int \<Rightarrow> int \<Rightarrow> world \<Rightarrow> bool" where
  "its_number pid start w \<longleftrightarrow> (\<forall>p. w_procs w pid = Some p \<longrightarrow> p_start p = start)"

definition spares_others :: "int \<Rightarrow> int \<Rightarrow> world \<Rightarrow> world \<Rightarrow> bool" where
  "spares_others pid start w w' \<longleftrightarrow> (its_number pid start w \<longrightarrow> its_number pid start w' \<and>
     (\<exists>l. w_sent w' = w_sent w @ l \<and> (\<forall>(q, a, sig) \<in> set l. a = start)))"

interpretation spare: guarantee "spares_others pid start" for pid start
proof
  fix w w' w''
  show "spares_others pid start w w" by (simp add: spares_others_def)
  show "spares_others pid start w w' \<Longrightarrow> spares_others pid start w' w'' \<Longrightarrow> spares_others pid start w w''"
    by (auto simp: spares_others_def)
qed

lemma spares_steps:
  "within (spares_others pid start) (kill pid sig)" "within (spares_others pid start) (CaptureExitCode pid)"
  "within (spares_others pid start) (look f)" "within (spares_others pid start) (sleep ms)"
  "within (spares_others pid start) (IsProcessAlive pid st)"
  unfolding kill_def CaptureExitCode_def IsProcessAlive_def look_def sleep_def
  by (rule spare.within_host, auto simp: spares_others_def its_number_def split: option.split)+

lemma spares_or_else: "within (spares_others pid start) m \<Longrightarrow> within (spares_others pid start) k \<Longrightarrow> within (spares_others pid start) (or_else m k)"
  unfolding or_else_def by (intro spare.within_bind) (auto intro: spare.within_ret split: option.split)

lemma spares_check: "within (spares_others pid start) (signalAndCheck pid child sig)"
  unfolding signalAndCheck_def by (intro spare.within_bind spares_steps) (auto intro: spare.within_ret spares_steps)

lemma spares_wait: "within (spares_others pid start) (waitForExit pid child t)"
proof -
  have "within (spares_others pid start) (wait_loop k pid child d)" for k d
  proof (induction k)
    case (Suc k)
    then show ?case
      by (auto simp: wait_round_def intro!: spare.within_bind spare.within_ret spares_steps split: option.split)
  qed (simp only: wait_loop.simps spare.within_ret)
  then show ?thesis unfolding waitForExit_def by (intro spare.within_bind spares_steps)
qed

text \<open>
  C14: GracefulShutdown signals only the number it was given, in the order SIGTERM, SIGKILL, each at
  most once, and not at all when the hook asked the guest to shut down. It signals nobody unless the
  number belongs, when it looks, to a live process of the expected start time; and as long as the
  number is not given to another process meanwhile (which the system guarantees for a child that has
  not been waited for), every signal reaches the process with that start time.
\<close>

theorem shutdown_signals:
  assumes "\<And>n w. w_sent (e_step E n w) = w_sent w" "GracefulShutdown cfg E (w, n) = (r, w', n')"
  shows "(\<exists>l. w_sent w' = w_sent w @ l \<and> (\<forall>(p, a, sig) \<in> set l. p = sd_pid cfg) \<and>
      map (snd \<circ> snd) l \<in> {[], [SIGTERM], [SIGKILL], [SIGTERM, SIGKILL]} \<and> (sd_hook cfg = Some False \<longrightarrow> l = []) \<and>
      (\<not> alive_proc (sd_start cfg) (w_procs (e_step E n w) (sd_pid cfg)) \<longrightarrow> l = []) \<and>
      (\<forall>start. sd_start cfg = Some start \<longrightarrow>
        (\<forall>n w p. w_procs (e_step E n w) (sd_pid cfg) = Some p \<longrightarrow>
           (\<exists>q. w_procs w (sd_pid cfg) = Some q \<and> p_start q = p_start p)) \<longrightarrow>
        (\<forall>(p, a, sig) \<in> set l. a = start)))"
proof -
  let ?pid = "sd_pid cfg" and ?w1 = "e_step E n w"
  let ?rest = "\<lambda>alive. if \<not> alive then (if sd_child cfg then CaptureExitCode ?pid else ret None)
      else if sd_hook cfg = Some False then waitForExit ?pid (sd_child cfg) (if sd_graceful cfg = 0 then 4000 else sd_graceful cfg)
      else or_else (signalAndCheck ?pid (sd_child cfg) SIGTERM)
        (or_else (waitForExit ?pid (sd_child cfg) (if sd_graceful cfg = 0 then 4000 else sd_graceful cfg))
          (or_else (signalAndCheck ?pid (sd_child cfg) SIGKILL)
            (waitForExit ?pid (sd_child cfg) (if sd_kill cfg = 0 then 5000 else sd_kill cfg))))"
  obtain l where l: "w_sent w' = w_sent w @ l" "\<forall>(p, a, sig) \<in> set l. p = ?pid"
    "map (snd \<circ> snd) l \<in> {[], [SIGTERM], [SIGKILL], [SIGTERM, SIGKILL]}" "sd_hook cfg = Some False \<longrightarrow> l = []"
    using shutdown_sends [OF assms] unfolding sent_ok_def by (elim exE conjE) (rule that)
  have run: "?rest (alive_proc (sd_start cfg) (w_procs ?w1 ?pid)) E (?w1, Suc n) = (r, w', n')"
    using assms(2) by (simp add: GracefulShutdown_def Let_def bind_run IsProcessAlive_def look_def host_def)
  have dead: "l = []" if "\<not> alive_proc (sd_start cfg) (w_procs ?w1 ?pid)"
  proof -
    have "post w_sent True (w_sent ?w1) (?rest False) (\<lambda>r v. v = w_sent ?w1)"
      by (auto intro: post_ret blind_post [OF blind_sent(3)])
    from postD [OF this assms(1) _ refl] run that have "w_sent w' = w_sent ?w1" by simp
    then show ?thesis using l(1) assms(1) by simp
  qed
  have own: "\<forall>(p, a, sig) \<in> set l. a = start" if s: "sd_start cfg = Some start"
    and keep: "\<forall>n w p. w_procs (e_step E n w) ?pid = Some p \<longrightarrow> (\<exists>q. w_procs w ?pid = Some q \<and> p_start q = p_start p)" for start
  proof (cases "alive_proc (sd_start cfg) (w_procs ?w1 ?pid)")
    case True
    have E: "spares_others ?pid start w (e_step E n w)" for w n
      using keep assms(1) by (fastforce simp: spares_others_def its_number_def)
    have "within (spares_others ?pid start) (?rest True)"
      by (auto intro!: spares_or_else spares_wait spares_check)
    from withinD [OF this E] run True have "spares_others ?pid start ?w1 w'" by simp
    moreover have "its_number ?pid start ?w1"
      using True s by (auto simp: alive_proc_def its_number_def split: option.splits)
    ultimately show ?thesis using l(1) assms(1) by (auto simp: spares_others_def)
  qed (simp add: dead)
  show ?thesis
    by (rule exI [of _ l], intro conjI) (rule l, rule l, rule l, rule l, rule impI, erule dead, intro allI impI, rule own)
qed

text \<open>
  For a process that is not a child, the wait after SIGTERM answers nothing both when the
  process has gone and when time is up. So after a clean exit SIGKILL is sent all the same, and
  if the number has been given to another process by then, that process is killed: the start
  time is compared only once, at the beginning.
\<close>

lemma shutdown_kills_reused_number:
  assumes "\<not> sd_child cfg" "sd_hook cfg = None" "sd_graceful cfg > 0" "\<And>n w. w_sent (e_step E n w) = w_sent w"
    and "s1 = e_step E n w" "alive_proc (sd_start cfg) (w_procs s1 (sd_pid cfg))"
    and "s2 = e_step E (n + 1) s1" "w_procs s2 (sd_pid cfg) = Some p" "p_mine p"
    and "s3 = e_step E (n + 2) (s2\<lparr>w_sent := w_sent s2 @ [(sd_pid cfg, p_start p, SIGTERM)]\<rparr>)"
    and "s4 = e_step E (n + 3) s3" "w_clock s4 < w_clock s3 + sd_graceful cfg"
    and "s5 = e_step E (n + 4) s4" "w_procs s5 (sd_pid cfg) = None"
    and "s6 = e_step E (n + 5) s5" "w_procs s6 (sd_pid cfg) = Some q" "p_mine q"
    and "GracefulShutdown cfg E (w, n) = (r, w', n')"
  shows "(sd_pid cfg, p_start q, SIGKILL) \<in> set (w_sent w')"
proof -
  let ?pid = "sd_pid cfg" and ?kt = "if sd_kill cfg = 0 then 5000 else sd_kill cfg"
  have steps: "n + 1 = Suc n" "n + 2 = Suc (Suc n)" "n + 3 = Suc (Suc (Suc n))" "n + 4 = Suc (Suc (Suc (Suc n)))"
      "n + 5 = Suc (Suc (Suc (Suc (Suc n))))" "n + 6 = Suc (Suc (Suc (Suc (Suc (Suc n)))))" by simp_all
  have wait: "waitForExit ?pid False (sd_graceful cfg) E (s2\<lparr>w_sent := w_sent s2 @ [(?pid, p_start p, SIGTERM)]\<rparr>, n + 2) =
      (Ok None, s5, n + 5)"
    using assms(10-14) by (simp add: waitForExit_def wait_round_def bind_run look_def host_def IsProcessAlive_def
        alive_proc_def steps)
  let ?s7 = "s6\<lparr>w_sent := w_sent s6 @ [(?pid, p_start q, SIGKILL)]\<rparr>"
  have "GracefulShutdown cfg E (w, n) = waitForExit ?pid False ?kt E (?s7, n + 6)"
    using assms(1-3) assms(5-9) assms(15-17) wait
    by (simp add: GracefulShutdown_def or_else_def signalAndCheck_def kill_def bind_run host_def
        IsProcessAlive_def look_def Let_def steps)
  then have run: "waitForExit ?pid False ?kt E (?s7, n + 6) = (r, w', n')" using assms(18) by simp
  have "blind w_sent (waitForExit ?pid False ?kt)" by (rule blind_sent_wait)
  then have "post w_sent True (w_sent ?s7) (waitForExit ?pid False ?kt) (\<lambda>r l. l = w_sent ?s7)"
    by (simp add: blind_def)
  from postD [OF this assms(4) _ refl run] show ?thesis by simp
qed

subsection \<open>Concrete runs\<close>

text \<open>A world with one process, and a scheduler that replaces it at its fifth and sixth turn.\<close>

definition one_proc :: "bool \<Rightarrow> int \<Rightarrow> proc" where
  "one_proc child start = \<lparr>p_state = CHR ''S'', p_start = start, p_mine = True, p_child = child, p_status = Exited 0\<rparr>"

definition demo_world :: "db \<Rightarrow> bool \<Rightarrow> world" where
  "demo_world d child = \<lparr>w_db = d, w_files = (\<lambda>_. Absent), w_procs = (\<lambda>_. None)(7 := Some (one_proc child 10)), w_clock = 0, w_sent = [],
     w_calls = [], w_http = (\<lambda>_. Status 204 '''')\<rparr>"

definition bare_db :: db where
  "bare_db = \<lparr>nets = [], leases = [], lease_seq = 0, vms = [], images = [], kernels = [], binaries = []\<rparr>"

definition recycle :: "world env" where
  "recycle = \<lparr>e_step = (\<lambda>n w. if n = 4 then w\<lparr>w_procs := (w_procs w)(7 := None)\<rparr>
     else if n = 5 then w\<lparr>w_procs := (w_procs w)(7 := Some (one_proc False 99))\<rparr> else w),
     e_fault = (\<lambda>_. None), e_now = (\<lambda>_. '''')\<rparr>"

definition demo_shutdown :: shutdown_config where
  "demo_shutdown = \<lparr>sd_pid = 7, sd_child = False, sd_hook = None, sd_graceful = 2000, sd_kill = 100, sd_start = Some 10\<rparr>"

lemmas demo_world_simps = one_proc_def demo_world_def calm_def recycle_def demo_shutdown_def

lemma prod_eq_triple: "x = (fst x, fst (snd x), snd (snd x))"
  by simp

theorem wait_fuel_witness:
  "waitForExit 7 False 500 calm (demo_world bare_db False, 0) =
    bind_prog (look w_clock) (\<lambda>now. wait_loop (500 div poll_ms + 2 + 20) 7 False (now + 500)) calm (demo_world bare_db False, 0)"
  by (rule wait_fuel) (simp add: calm_def)

theorem shutdown_signals_witness:
  "\<exists>l. w_sent (fst (snd (GracefulShutdown demo_shutdown calm (demo_world bare_db False, 0)))) = l \<and>
     map (snd \<circ> snd) l \<in> {[], [SIGTERM], [SIGKILL], [SIGTERM, SIGKILL]} \<and> (\<forall>(p, a, sig) \<in> set l. p = 7 \<and> a = 10)"
proof -
  obtain r w n where run: "GracefulShutdown demo_shutdown calm (demo_world bare_db False, 0) = (r, w, n)" by (metis prod_cases3)
  have "w_sent (e_step calm k x) = w_sent x" for k x by (simp add: calm_def)
  from shutdown_signals [OF this run] run show ?thesis
    by (auto simp: demo_shutdown_def calm_def demo_world_def)
qed

lemma shutdown_kills_reused_number_witness:
  "(7, 99, SIGKILL) \<in> set (w_sent (fst (snd (GracefulShutdown demo_shutdown recycle (demo_world bare_db False, 0)))))"
proof -
  have "(sd_pid demo_shutdown, p_start (one_proc False 99), SIGKILL) \<in>
      set (w_sent (fst (snd (GracefulShutdown demo_shutdown recycle (demo_world bare_db False, 0)))))"
    by (rule shutdown_kills_reused_number [OF _ _ _ _ refl _ refl _ _ refl refl _ refl _ refl _ _ prod_eq_triple])
      (simp add: demo_world_simps alive_proc_def)+
  then show ?thesis by (simp add: demo_shutdown_def one_proc_def)
qed

end
