(* ===== verification/Machines.thy ===== *)
theory Machines
  imports Processes Resolvers
begin

text \<open>
  The life of a machine: the controller of \<open>internal/core/vm/controller.go\<close>. The controller
  works on a copy of the machine's row, read when it was made; a method returns its error, if
  any, together with that copy, because some of them change it.
\<close>

type_synonym outcome = "err option \<times> vm"

subsection \<open>Steps shared by the methods\<close>

definition w_UpdateStatus :: "string \<Rightarrow> vm_status \<Rightarrow> unit io" where
  "w_UpdateStatus i st = on_db (set_vm i (v_status_update (\<lambda>_. st)))"

definition w_UpdateExitCode :: "string \<Rightarrow> int \<Rightarrow> unit io" where
  "w_UpdateExitCode i c = on_db (set_vm i (v_exit_update (\<lambda>_. Some c)))"

text \<open>\<open>if err := step; err != nil { return err }\<close>, with the machine as it is at that point.\<close>

definition step_or_return :: "unit io \<Rightarrow> vm \<Rightarrow> outcome io \<Rightarrow> outcome io" where
  "step_or_return m v k = bind_prog (attempt m) (\<lambda>r. case r of Inl e \<Rightarrow> ret (Some e, v) | Inr _ \<Rightarrow> k)"

definition status_text :: "vm_status \<Rightarrow> string" where
  "status_text s = (case s of Starting \<Rightarrow> ''starting'' | Running \<Rightarrow> ''running'' | Paused \<Rightarrow> ''paused''
     | Stopping \<Rightarrow> ''stopping'' | Stopped \<Rightarrow> ''stopped'' | Crashed \<Rightarrow> ''crashed'' | Failed \<Rightarrow> ''error'')"

definition quoted :: "string \<Rightarrow> string" where
  "quoted s = [CHR 0x27] @ s @ [CHR 0x27]"

text \<open>The wrong state for a method: what the state is, an em dash, and what cannot be done in it.\<close>

definition refuse :: "vm \<Rightarrow> string \<Rightarrow> string \<Rightarrow> outcome io" where
  "refuse v what cannot = ret (Some (New ''vm.state.invalid'' (''VM '' @ quoted (v_name v) @ what
     @ [CHR 0x20, CHR 0xE2, CHR 0x80, CHR 0x94, CHR 0x20] @ cannot @ '' (current state: '' @ status_text (v_status v) @ '')'')), v)"

definition no_socket :: "vm \<Rightarrow> outcome io" where
  "no_socket v = ret (Some (New ''vm.state.invalid'' (''VM '' @ quoted (v_name v) @ '' has no API socket enabled'')), v)"

definition socket_missing :: "vm \<Rightarrow> string \<Rightarrow> outcome io" where
  "socket_missing v hint = ret (Some (New ''vm.state.invalid'' (''Socket not found for VM '' @ quoted (v_name v) @ hint)), v)"

subsection \<open>Stop\<close>

definition shutdown_with :: "vm \<Rightarrow> int \<Rightarrow> bool option \<Rightarrow> nat \<Rightarrow> nat \<Rightarrow> shutdown_config" where
  "shutdown_with v pid hook graceful killing =
     \<lparr>sd_pid = pid, sd_child = True, sd_hook = hook, sd_graceful = graceful, sd_kill = killing, sd_start = v_start v\<rparr>"

definition gentle_stop :: "vm \<Rightarrow> int \<Rightarrow> int option io" where
  "gentle_stop v pid = bind_prog (attempt SendCtrlAltDel) (\<lambda>r.
     or_else (if r = Inr True then GracefulShutdown (shutdown_with v pid (Some False) 2000 100) else ret None)
       (GracefulShutdown (shutdown_with v pid None 2000 1)))"

definition forced_stop :: "vm \<Rightarrow> bool \<Rightarrow> int \<Rightarrow> int option io" where
  "forced_stop v force pid = bind_prog (if force then KillProcess pid else ret False) (\<lambda>_.
     GracefulShutdown (shutdown_with v pid None 100 100))"

definition stop_process :: "vm \<Rightarrow> bool \<Rightarrow> int \<Rightarrow> int option io" where
  "stop_process v force pid =
     or_else (if \<not> force \<and> v_socket v \<noteq> '''' then gentle_stop v pid else forced_stop v force pid)
       (CaptureExitCode pid)"

definition shutdownProcess :: "vm \<Rightarrow> bool \<Rightarrow> int \<Rightarrow> unit io" where
  "shutdownProcess v force pid = bind_prog (stop_process v force pid) (\<lambda>code.
     bind_prog (case code of Some c \<Rightarrow> w_UpdateExitCode (v_id v) c | None \<Rightarrow> ret ()) (\<lambda>_.
       w_UpdateStatus (v_id v) Stopped))"

definition Stop :: "vm \<Rightarrow> bool \<Rightarrow> outcome io" where
  "Stop v force =
     (let pid = v_pid v
      in if v_status v \<noteq> Running \<and> v_status v \<noteq> Starting
         then bind_prog (if pid > 0 then IsProcessAlive pid (v_start v) else ret False) (\<lambda>alive.
           if alive then bind_prog (KillProcess pid) (\<lambda>_.
             step_or_return (w_UpdateStatus (v_id v) Stopped) v (ret (None, v\<lparr>v_status := Stopped\<rparr>)))
           else if pid > 0 then bind_prog (CaptureExitCode pid) (\<lambda>_. ret (None, v))
           else ret (None, v))
         else bind_prog (if pid = 0 then ret False else IsProcessAlive pid (v_start v)) (\<lambda>alive.
           if \<not> alive then bind_prog (if pid > 0 then CaptureExitCode pid else ret None) (\<lambda>_.
             step_or_return (w_UpdateStatus (v_id v) Stopped) v (ret (None, v)))
           else step_or_return (w_UpdateStatus (v_id v) Stopping) v
             (bind_prog (attempt (shutdownProcess v force pid)) (\<lambda>r. case r of
               Inl e \<Rightarrow> bind_prog (attempt (w_UpdateStatus (v_id v) Failed)) (\<lambda>_. ret (None, v))
             | Inr _ \<Rightarrow> ret (None, v)))))"

subsection \<open>Pause, resume, start, reboot\<close>

definition Pause :: "vm \<Rightarrow> outcome io" where
  "Pause v =
     (case v_status v of
        Paused \<Rightarrow> ret (None, v)
      | Starting \<Rightarrow> refuse v '' is still starting'' ''cannot pause''
      | Stopped \<Rightarrow> refuse v '' is stopped'' ''cannot pause''
      | Stopping \<Rightarrow> refuse v '' is shutting down'' ''cannot pause''
      | Failed \<Rightarrow> refuse v ('' is in '' @ status_text (v_status v) @ '' state'') ''cannot pause''
      | Crashed \<Rightarrow> refuse v ('' is in '' @ status_text (v_status v) @ '' state'') ''cannot pause''
      | Running \<Rightarrow>
          if v_socket v = '''' then no_socket v
          else step_or_return PauseVM v (step_or_return (w_UpdateStatus (v_id v) Paused) v (ret (None, v))))"

definition Resume :: "vm \<Rightarrow> outcome io" where
  "Resume v =
     (case v_status v of
        Running \<Rightarrow> ret (None, v)
      | Starting \<Rightarrow> ret (None, v)
      | Failed \<Rightarrow> refuse v ('' is in '' @ status_text (v_status v) @ '' state'') ''remove and recreate''
      | Crashed \<Rightarrow> refuse v ('' is in '' @ status_text (v_status v) @ '' state'') ''remove and recreate''
      | Stopped \<Rightarrow> refuse v '' is stopped'' ''use start() instead''
      | Stopping \<Rightarrow> refuse v '' is shutting down'' ''use start() after it stops''
      | Paused \<Rightarrow>
          if v_socket v = '''' then no_socket v
          else step_or_return ResumeVM v (step_or_return (w_UpdateStatus (v_id v) Running) v (ret (None, v))))"

definition Start :: "vm \<Rightarrow> outcome io" where
  "Start v =
     (case v_status v of
        Running \<Rightarrow> ret (None, v)
      | Starting \<Rightarrow> ret (None, v)
      | Stopping \<Rightarrow> ret (None, v)
      | Failed \<Rightarrow> refuse v ('' is in '' @ status_text (v_status v) @ '' state'') ''remove and recreate''
      | Crashed \<Rightarrow> refuse v ('' is in '' @ status_text (v_status v) @ '' state'') ''remove and recreate''
      | Paused \<Rightarrow> refuse v '' is paused'' ''use resume() instead''
      | Stopped \<Rightarrow>
          if v_socket v = '''' then no_socket v
          else step_or_return StartInstance v (step_or_return (w_UpdateStatus (v_id v) Running) v (ret (None, v))))"

definition Reboot :: "vm \<Rightarrow> bool \<Rightarrow> outcome io" where
  "Reboot v force = bind_prog (Stop v force) (\<lambda>(e, v'). if e \<noteq> None then ret (e, v') else Start v')"

subsection \<open>Snapshots\<close>

record snapshot_create =
  sc_mem :: string
  sc_state :: string
  sc_pause_only :: bool
  sc_phantom :: string
  sc_rootfs :: string

record snapshot_restore =
  sr_mem :: string
  sr_state :: string
  sr_resume :: bool
  sr_overrides :: "(string \<times> string) list"
  sr_vsock :: string
  sr_rootfs :: string

text \<open>The deferred resume: it replaces the error only by one that is not a domain error.\<close>

definition resume_after :: "vm \<Rightarrow> bool \<Rightarrow> err option \<Rightarrow> outcome io" where
  "resume_after v wanted e =
     (let absorb = (\<lambda>x. if AsDomainError x \<noteq> None then e else Some x)
      in if \<not> wanted then ret (e, v)
         else bind_prog (attempt ResumeVM) (\<lambda>r. case r of
           Inl x \<Rightarrow> ret (absorb x, v)
         | Inr _ \<Rightarrow> bind_prog (attempt (w_UpdateStatus (v_id v) Running)) (\<lambda>r. case r of
             Inl x \<Rightarrow> ret (absorb x, v)
           | Inr _ \<Rightarrow> ret (e, v\<lparr>v_status := Running\<rparr>))))"

text \<open>Between pause and resume: point the drive at the snapshot's path, take it, point it back.\<close>

definition take_snapshot :: "snapshot_create \<Rightarrow> err option io" where
  "take_snapshot cfg =
     (let take = bind_prog (attempt (CreateSnapshot (sc_mem cfg) (sc_state cfg))) (\<lambda>r. ret (case r of Inl e \<Rightarrow> Some e | Inr _ \<Rightarrow> None))
      in if sc_phantom cfg = '''' then take
         else bind_prog (attempt (UpdateDrivePath ''rootfs'' (sc_phantom cfg))) (\<lambda>r. case r of
           Inl e \<Rightarrow> ret (Some (WrapMsg ''snapshot.create_failed'' (''failed to patch drive to phantom path: '' @ err_text e) e))
         | Inr _ \<Rightarrow> bind_prog take (\<lambda>e.
             bind_prog (attempt (UpdateDrivePath ''rootfs'' (sc_rootfs cfg))) (\<lambda>_. ret e))))"

definition snapshot_body :: "vm \<Rightarrow> snapshot_create \<Rightarrow> outcome io" where
  "snapshot_body v cfg =
     (if v_status v = Running
      then bind_prog (attempt PauseVM) (\<lambda>r. case r of
          Inl e \<Rightarrow> ret (Some e, v)
        | Inr _ \<Rightarrow> bind_prog (attempt (w_UpdateStatus (v_id v) Paused)) (\<lambda>r. case r of
            Inl e \<Rightarrow> ret (Some e, v)
          | Inr _ \<Rightarrow> bind_prog (take_snapshot cfg) (\<lambda>e. ret (e, v\<lparr>v_status := Paused\<rparr>))))
      else bind_prog (take_snapshot cfg) (\<lambda>e. ret (e, v)))"

definition SnapshotCreate :: "vm \<Rightarrow> snapshot_create \<Rightarrow> outcome io" where
  "SnapshotCreate v cfg =
     (case v_status v of
        Starting \<Rightarrow> refuse v '' is still starting'' ''cannot snapshot''
      | Stopped \<Rightarrow> refuse v '' is stopped'' ''cannot snapshot''
      | Stopping \<Rightarrow> refuse v '' is shutting down'' ''cannot snapshot''
      | Failed \<Rightarrow> refuse v ('' is in '' @ status_text (v_status v) @ '' state'') ''cannot snapshot''
      | Crashed \<Rightarrow> refuse v ('' is in '' @ status_text (v_status v) @ '' state'') ''cannot snapshot''
      | _ \<Rightarrow>
          if v_socket v = '''' then socket_missing v ''. Must be running with --enable-api-socket''
          else bind_prog (snapshot_body v cfg) (\<lambda>(e, v').
            resume_after v' (v_status v = Running \<and> \<not> sc_pause_only cfg) e))"

definition SnapshotRestore :: "vm \<Rightarrow> snapshot_restore \<Rightarrow> outcome io" where
  "SnapshotRestore v cfg =
     (if v_socket v = '''' then socket_missing v ''. Firecracker must be spawned before loading snapshot''
      else step_or_return (LoadSnapshot (sr_mem cfg) (sr_state cfg) (sr_resume cfg) (sr_overrides cfg) (sr_vsock cfg)) v
        (let st = (if sr_resume cfg then Running else Paused)
         in step_or_return (w_UpdateStatus (v_id v) st) v (ret (None, v\<lparr>v_status := st\<rparr>))))"

subsection \<open>The status a command leaves in the table\<close>

definition status_of :: "string \<Rightarrow> world \<Rightarrow> vm_status option" where
  "status_of i w = map_option v_status (tbl_get v_id (vms (w_db w)) i)"

lemma status_of_set:
  "status_of i (w\<lparr>w_db := set_vm i (v_status_update (\<lambda>_. st)) now (w_db w)\<rparr>) = map_option (\<lambda>_. st) (status_of i w)"
  by (simp add: status_of_def set_vm_def tbl_get_upd option.map_comp comp_def)
    (auto simp: tbl_get_def dest: find_first_Some intro!: map_option_cong)

lemma status_of_exit:
  "status_of i (w\<lparr>w_db := set_vm j (v_exit_update f) now (w_db w)\<rparr>) = status_of i w"
  by (simp add: status_of_def set_vm_def tbl_get_upd option.map_comp comp_def if_distrib cong: if_cong)

interpretation status_view: request_view "status_of i" for i
  by unfold_locales (simp_all add: status_of_def)

lemma post_status:
  assumes "Q (Ok ()) (map_option (\<lambda>_. st) v)" "\<And>e. fl \<Longrightarrow> Q (Err e) v"
  shows "post (status_of i) fl v (w_UpdateStatus i st) Q"
  unfolding w_UpdateStatus_def on_db_def by (rule post_exec) (use assms in \<open>simp_all add: status_of_set\<close>)

lemma post_exit:
  assumes "Q (Ok ()) v" "\<And>e. fl \<Longrightarrow> Q (Err e) v"
  shows "post (status_of i) fl v (w_UpdateExitCode j c) Q"
  unfolding w_UpdateExitCode_def on_db_def by (rule post_exec) (use assms in \<open>simp_all add: status_of_exit\<close>)

lemma post_step:
  assumes "post g fl s m (\<lambda>r s'. case r of Inl e \<Rightarrow> Q (Ok (Some e, v)) s' | Inr _ \<Rightarrow> post g fl s' k Q)"
  shows "post g fl s (step_or_return m v k) Q"
  unfolding step_or_return_def
  by (rule post_bind, rule post_attempt, rule post_mono [OF assms]) (auto intro: post_ret split: sum.splits)

lemma surely_step: "surely k \<Longrightarrow> surely (step_or_return m v k)"
  by (auto simp: step_or_return_def intro!: surely_rules split: sum.split)

lemma surely_ctrl: "surely (attempt SendCtrlAltDel)"
  by (rule surely_attempt)

lemma surely_stop_process: "surely (stop_process v force pid)"
  by (auto simp: stop_process_def gentle_stop_def forced_stop_def
      intro!: surely_or_else surely_rules surely_shutdown surely_capture surely_KillProcess)

lemma blind_stop_process: "blind (status_of i) (stop_process v force pid)"
  by (auto simp: stop_process_def gentle_stop_def forced_stop_def
      intro!: status_view.blind_or_else blind_rules status_view.blind_shutdown status_view.blind_capture
        status_view.blind_KillProcess status_view.blind_ctrl)

lemma surely_commands: "surely (Stop v force)" "surely (Pause v)" "surely (Resume v)" "surely (Start v)"
  by (auto simp: Stop_def Pause_def Resume_def Start_def refuse_def no_socket_def Let_def
      intro!: surely_rules surely_step surely_alive surely_KillProcess surely_capture
      split: vm_status.split sum.split) (simp_all add: surely_def)

text \<open>Stopping a machine that is up: what is stored, and the copy in memory left as it was.\<close>

lemma post_shutdownProcess:
  assumes "Q (Ok ()) (map_option (\<lambda>_. Stopped) s)" "\<And>e. fl \<Longrightarrow> Q (Err e) s"
  shows "post (status_of (v_id v)) fl s (shutdownProcess v force pid) Q"
proof -
  have last: "post (status_of (v_id v)) fl s (w_UpdateStatus (v_id v) Stopped) Q"
    by (rule post_status) (use assms in simp_all)
  have "post (status_of (v_id v)) fl s (bind_prog (case code of Some c \<Rightarrow> w_UpdateExitCode (v_id v) c | None \<Rightarrow> ret ())
      (\<lambda>_. w_UpdateStatus (v_id v) Stopped)) Q" for code
  proof (cases code)
    case None
    then show ?thesis by (auto intro!: post_bind post_ret last)
  next
    case (Some c)
    then show ?thesis by (auto intro!: post_bind post_exit last assms(2))
  qed
  then show ?thesis
    unfolding shutdownProcess_def
    by (intro post_bind surely_post [OF blind_stop_process surely_stop_process]) simp
qed

lemma post_Stop_up:
  assumes "v_status v \<in> {Running, Starting}"
    and "Q (Ok (None, v)) (map_option (\<lambda>_. Stopped) s)"
    and "\<And>st. fl \<Longrightarrow> st \<in> {Stopping, Failed} \<Longrightarrow> Q (Ok (None, v)) (map_option (\<lambda>_. st) s)"
    and "\<And>e. fl \<Longrightarrow> Q (Ok (Some e, v)) s"
  shows "post (status_of (v_id v)) fl s (Stop v force) Q"
proof -
  let ?g = "status_of (v_id v)"
  have up: "\<not> (v_status v \<noteq> Running \<and> v_status v \<noteq> Starting)" using assms(1) by auto
  have gone: "post ?g fl s (step_or_return (w_UpdateStatus (v_id v) Stopped) v (ret (None, v))) Q"
    by (rule post_step, rule post_status) (use assms in \<open>auto intro: post_ret\<close>)
  have ended: "post ?g fl (map_option (\<lambda>_. Stopping) s) (bind_prog (attempt (shutdownProcess v force (v_pid v)))
      (\<lambda>r. case r of Inl e \<Rightarrow> bind_prog (attempt (w_UpdateStatus (v_id v) Failed)) (\<lambda>_. ret (None, v)) | Inr _ \<Rightarrow> ret (None, v))) Q"
    by (rule post_bind, rule post_attempt, rule post_shutdownProcess)
      (use assms in \<open>auto simp: option.map_comp comp_def intro!: post_ret post_bind post_attempt post_status\<close>)
  have alive: "post ?g fl s (step_or_return (w_UpdateStatus (v_id v) Stopping) v (bind_prog (attempt (shutdownProcess v force (v_pid v)))
      (\<lambda>r. case r of Inl e \<Rightarrow> bind_prog (attempt (w_UpdateStatus (v_id v) Failed)) (\<lambda>_. ret (None, v)) | Inr _ \<Rightarrow> ret (None, v)))) Q"
    by (rule post_step, rule post_status) (use assms ended in auto)
  have reap: "post ?g fl s (bind_prog (CaptureExitCode pid)
      (\<lambda>_. step_or_return (w_UpdateStatus (v_id v) Stopped) v (ret (None, v)))) Q" for pid
    by (rule post_bind, rule surely_post [OF status_view.blind_capture surely_capture]) (simp add: gone)
  show ?thesis
    unfolding Stop_def Let_def if_not_P [OF up]
    by (rule post_bind, rule surely_post)
      (auto intro!: alive reap gone blind_rules surely_rules status_view.blind_alive surely_alive)
qed

lemma post_Stop_down:
  assumes "v_status v \<notin> {Running, Starting}"
    and "Q (Ok (None, v)) s" "Q (Ok (None, v\<lparr>v_status := Stopped\<rparr>)) (map_option (\<lambda>_. Stopped) s)"
    and "\<And>e. fl \<Longrightarrow> Q (Ok (Some e, v)) s"
  shows "post (status_of (v_id v)) fl s (Stop v force) Q"
proof -
  let ?g = "status_of (v_id v)"
  have down: "v_status v \<noteq> Running \<and> v_status v \<noteq> Starting" using assms(1) by auto
  have orphan: "post ?g fl s (bind_prog (KillProcess pid)
      (\<lambda>_. step_or_return (w_UpdateStatus (v_id v) Stopped) v (ret (None, v\<lparr>v_status := Stopped\<rparr>)))) Q" for pid
    by (rule post_bind, rule surely_post [OF status_view.blind_KillProcess surely_KillProcess])
      (use assms in \<open>auto intro!: post_step post_status post_ret\<close>)
  have reap: "post ?g fl s (bind_prog (CaptureExitCode pid) (\<lambda>_. ret (None, v))) Q" for pid
    by (rule post_bind, rule surely_post [OF status_view.blind_capture surely_capture])
      (use assms in \<open>auto intro!: post_ret\<close>)
  show ?thesis
    unfolding Stop_def Let_def if_P [OF down]
    by (rule post_bind, rule surely_post)
      (use assms in \<open>auto intro!: orphan reap post_ret blind_rules surely_rules status_view.blind_alive surely_alive\<close>)
qed

subsection \<open>Stopping and rebooting a machine that is up\<close>

text \<open>
  Stop on a machine that is starting or running always reports success and, when the
  database works, always stores that the machine is stopped: whether its process went away is
  not looked at. (The comment of Stop promises the error state for a process that cannot be
  stopped.) The copy in memory keeps its old status.
\<close>

lemma stop_reports_stopped:
  assumes "v_status v \<in> {Running, Starting}" "\<And>n. e_fault E n = None"
    and "\<And>n w. status_of (v_id v) (e_step E n w) = status_of (v_id v) w"
    and "Stop v force E (w, n) = (r, w', n')"
  shows "r = Ok (None, v) \<and> status_of (v_id v) w' = map_option (\<lambda>_. Stopped) (status_of (v_id v) w)"
proof -
  let ?Q = "\<lambda>r s'. r = Ok (None, v) \<and> s' = map_option (\<lambda>_. Stopped) (status_of (v_id v) w)"
  have "post (status_of (v_id v)) False (status_of (v_id v) w) (Stop v force) ?Q"
    by (rule post_Stop_up [OF assms(1)]) simp_all
  from postD [OF this assms(3) disjI2 refl assms(4)] assms(2) show ?thesis by blast
qed

text \<open>The requests to start an instance, seen alone: only Start makes one.\<close>

definition starts :: "world \<Rightarrow> api_call list" where
  "starts w = filter (\<lambda>c. c = InstanceStart) (w_calls w)"

interpretation starts_view: process_view starts
  by unfold_locales (simp_all add: starts_def)

lemma starts_db: "blind starts (on_db f)"
  unfolding on_db_def by (rule blind_exec) (simp add: starts_def)

lemma starts_request: "c \<noteq> InstanceStart \<Longrightarrow> blind starts (request c)"
  unfolding request_def log_call_def
  by (intro blind_bind blind_host starts_view.blind_request_loop) (simp add: starts_def)

lemma starts_ctrl: "blind starts SendCtrlAltDel"
  by (auto simp: SendCtrlAltDel_def intro!: blind_rules starts_request split: sum.split)

lemma blind_step: "blind g m \<Longrightarrow> blind g k \<Longrightarrow> blind g (step_or_return m v k)"
  by (auto simp: step_or_return_def intro!: blind_rules split: sum.split)

lemma starts_shutdownProcess: "blind starts (shutdownProcess v force pid)"
  by (auto simp: shutdownProcess_def stop_process_def gentle_stop_def forced_stop_def w_UpdateExitCode_def w_UpdateStatus_def
      intro!: starts_db starts_ctrl starts_view.blind_or_else blind_rules starts_view.blind_shutdown
        starts_view.blind_capture starts_view.blind_KillProcess split: option.split)

lemma starts_Stop: "blind starts (Stop v force)"
  by (auto simp: Stop_def Let_def w_UpdateStatus_def simp del: bind_ret
      intro!: blind_rules blind_step starts_db starts_shutdownProcess starts_view.blind_alive
        starts_view.blind_KillProcess starts_view.blind_capture split: sum.split)

text \<open>
  Reboot of a machine that is up stops it and does not start it again: Start looks at the
  copy in memory, which Stop has left at starting or running, and does nothing. No request to
  start is made, success is reported, and the table says stopped.
\<close>

lemma reboot_does_not_restart:
  assumes "v_status v \<in> {Running, Starting}" "\<And>n. e_fault E n = None"
    and "\<And>n w. status_of (v_id v) (e_step E n w) = status_of (v_id v) w"
    and "\<And>n w. starts (e_step E n w) = starts w"
    and "Reboot v force E (w, n) = (r, w', n')"
  shows "r = Ok (None, v) \<and> status_of (v_id v) w' = map_option (\<lambda>_. Stopped) (status_of (v_id v) w) \<and> starts w' = starts w"
proof -
  have noop: "Start v = ret (None, v)" using assms(1) by (auto simp: Start_def)
  let ?k = "\<lambda>(e, v'). if e \<noteq> None then ret (e, v') else Start v'"
  let ?Q = "\<lambda>r s'. r = Ok (None, v) \<and> s' = map_option (\<lambda>_. Stopped) (status_of (v_id v) w)"
  have "post (status_of (v_id v)) False (status_of (v_id v) w) (Reboot v force) ?Q"
    unfolding Reboot_def by (rule post_bind, rule post_Stop_up [OF assms(1)]) (simp_all add: noop post_ret)
  from postD [OF this assms(3) disjI2 refl assms(5)] assms(2)
  have stopped: "?Q r (status_of (v_id v) w')" by blast
  obtain r1 w1 n1 where run: "Stop v force E (w, n) = (r1, w1, n1)" by (rule prod_cases3)
  have "post (status_of (v_id v)) False (status_of (v_id v) w) (Stop v force) ?Q"
    by (rule post_Stop_up [OF assms(1)]) simp_all
  from postD [OF this assms(3) disjI2 refl run] assms(2) have "r1 = Ok (None, v)" by blast
  with run assms(5) have "w' = w1" by (simp add: Reboot_def bind_run noop ret_def)
  moreover have "post starts True (starts w) (Stop v force) (\<lambda>r l. l = starts w)"
    using starts_Stop by (rule blind_post) simp
  from postD [OF this assms(4) _ refl run] have "starts w1 = starts w" by simp
  ultimately show ?thesis using stopped by simp
qed

subsection \<open>The life cycle that is stored\<close>

text \<open>
  A client's command reads the machine's row and runs one method on it. As a specification,
  what each command may do to the stored status, database failures included.
\<close>

datatype command = CStop bool | CPause | CResume | CStart | CReboot bool
  | CSnapshot snapshot_create | CRestore snapshot_restore

fun handle :: "command \<Rightarrow> vm \<Rightarrow> outcome io" where
  "handle (CStop force) v = Stop v force"
| "handle CPause v = Pause v"
| "handle CResume v = Resume v"
| "handle CStart v = Start v"
| "handle (CReboot force) v = Reboot v force"
| "handle (CSnapshot cfg) v = SnapshotCreate v cfg"
| "handle (CRestore cfg) v = SnapshotRestore v cfg"

definition issue :: "string \<Rightarrow> command \<Rightarrow> err option io" where
  "issue i c = bind_prog (look (\<lambda>w. tbl_get v_id (vms (w_db w)) i)) (\<lambda>row. case row of
     None \<Rightarrow> ret (Some (New ''vm.not_found'' i))
   | Some v \<Rightarrow> bind_prog (handle c v) (\<lambda>(e, _). ret e))"

primrec session :: "string \<Rightarrow> command list \<Rightarrow> unit io" where
  "session i [] = ret ()"
| "session i (c # cs) = bind_prog (issue i c) (\<lambda>_. session i cs)"

inductive move :: "command \<Rightarrow> vm_status \<Rightarrow> vm_status \<Rightarrow> bool" where
  stop_up: "s \<in> {Running, Starting} \<Longrightarrow> s' \<in> {Stopping, Stopped, Failed} \<Longrightarrow> move (CStop f) s s'"
| stop_orphan: "s \<notin> {Running, Starting} \<Longrightarrow> move (CStop f) s Stopped"
| pause: "move CPause Running Paused"
| resume: "move CResume Paused Running"
| start: "move CStart Stopped Running"
| reboot_stop: "move (CStop f) s s' \<Longrightarrow> move (CReboot f) s s'"
| reboot_start: "s \<notin> {Running, Starting} \<Longrightarrow> move (CReboot f) s Running"
| snapshot: "move (CSnapshot cfg) Running Paused"
| restore: "s' = (if sr_resume cfg then Running else Paused) \<Longrightarrow> move (CRestore cfg) s s'"

inductive_cases move_cases: "move c s s'"

inductive_simps move_simps:
  "move (CStop f) s s'" "move CPause s s'" "move CResume s s'" "move CStart s s'" "move (CReboot f) s s'"
  "move (CSnapshot cfg) s s'" "move (CRestore cfg) s s'"

lemma post_Start:
  assumes "\<And>r. Q r s" "\<And>r. v_status v = Stopped \<Longrightarrow> Q r (map_option (\<lambda>_. Running) s)"
  shows "post (status_of (v_id v)) fl s (Start v) Q"
  using assms by (auto simp: Start_def refuse_def no_socket_def StartInstance_def
      intro!: post_ret post_step post_status blind_post [OF status_view.blind_expect] split: vm_status.split sum.split)

lemma blind_take_snapshot: "blind (status_of i) (take_snapshot cfg)"
  by (auto simp: take_snapshot_def Let_def CreateSnapshot_def UpdateDrivePath_def
      intro!: blind_rules status_view.blind_expect split: sum.split)

lemma post_snapshot_body:
  assumes "\<And>r. Q (Ok (r, v)) s" "\<And>e. Q (Err e) s"
    and "\<And>r. v_status v = Running \<Longrightarrow> Q (Ok (r, v\<lparr>v_status := Paused\<rparr>)) (map_option (\<lambda>_. Paused) s)"
    and "\<And>e. v_status v = Running \<Longrightarrow> Q (Err e) (map_option (\<lambda>_. Paused) s)"
  shows "post (status_of (v_id v)) True s (snapshot_body v cfg) Q"
  using assms by (auto simp: snapshot_body_def PauseVM_def
      intro!: post_bind post_ret post_attempt blind_post [OF status_view.blind_expect] blind_post [OF blind_take_snapshot] post_status
      split: sum.split)

lemma post_resume_after:
  assumes "\<And>r. Q r s" "\<And>r. wanted \<Longrightarrow> Q r (map_option (\<lambda>_. Running) s)"
  shows "post (status_of (v_id v)) True s (resume_after v wanted e) Q"
  using assms by (auto simp: resume_after_def Let_def ResumeVM_def
      intro!: post_bind post_ret post_attempt blind_post [OF status_view.blind_expect] post_status split: sum.split)

lemma method_moves:
  assumes "s = Some (v_status v)"
  shows "post (status_of (v_id v)) True s (handle c v) (\<lambda>_ s'. s' = s \<or> (\<exists>st. s' = Some st \<and> move c (v_status v) st))"
proof (cases c)
  case (CStop f)
  show ?thesis
  proof (cases "v_status v \<in> {Running, Starting}")
    case True
    then show ?thesis unfolding CStop handle.simps by (intro post_Stop_up) (auto simp: assms move_simps)
  next
    case False
    then show ?thesis unfolding CStop handle.simps by (intro post_Stop_down) (auto simp: assms move_simps)
  qed
next
  case CPause
  then show ?thesis
    by (auto simp: assms Pause_def refuse_def no_socket_def PauseVM_def move_simps
        intro!: post_ret post_step post_status blind_post [OF status_view.blind_expect] split: vm_status.split sum.split)
next
  case CResume
  then show ?thesis
    by (auto simp: assms Resume_def refuse_def no_socket_def ResumeVM_def move_simps
        intro!: post_ret post_step post_status blind_post [OF status_view.blind_expect] split: vm_status.split sum.split)
next
  case CStart
  then show ?thesis
    by (auto simp: assms Start_def refuse_def no_socket_def StartInstance_def move_simps
        intro!: post_ret post_step post_status blind_post [OF status_view.blind_expect] split: vm_status.split sum.split)
next
  case (CRestore cfg)
  then show ?thesis
    by (auto simp: assms SnapshotRestore_def socket_missing_def LoadSnapshot_def Let_def move_simps
        intro!: post_ret post_step post_status blind_post [OF status_view.blind_expect] split: sum.split)
next
  case (CReboot f)
  show ?thesis
  proof (cases "v_status v \<in> {Running, Starting}")
    case True
    then have "Start v = ret (None, v)" by (auto simp: Start_def)
    with True show ?thesis unfolding CReboot handle.simps Reboot_def
      by (intro post_bind post_Stop_up) (auto simp: assms move_simps intro!: post_ret)
  next
    case False
    then show ?thesis unfolding CReboot handle.simps Reboot_def
      using post_Start [of _ _ "v\<lparr>v_status := Stopped\<rparr>"]
      by (intro post_bind post_Stop_down) (auto simp: assms move_simps intro!: post_ret post_Start)
  qed
next
  case (CSnapshot cfg)
  have "post (status_of (v_id v)) True s (bind_prog (snapshot_body v cfg)
      (\<lambda>(e, v'). resume_after v' (v_status v = Running \<and> \<not> sc_pause_only cfg) e))
    (\<lambda>_ s'. s' = s \<or> (\<exists>st. s' = Some st \<and> move c (v_status v) st))"
    using post_resume_after [of _ _ _ "v\<lparr>v_status := Paused\<rparr>"]
    by (intro post_bind post_snapshot_body) (auto simp: assms CSnapshot move_simps intro!: post_resume_after)
  then show ?thesis
    by (auto simp: CSnapshot SnapshotCreate_def refuse_def socket_missing_def assms intro!: post_ret split: vm_status.split)
qed

definition may :: "command list \<Rightarrow> vm_status \<Rightarrow> vm_status \<Rightarrow> bool" where
  "may cs s s' \<longleftrightarrow> (\<exists>c \<in> set cs. move c s s')"

lemma post_issue:
  "post (status_of i) True s (issue i c) (\<lambda>_ s'. s' = s \<or> (\<exists>a b. s = Some a \<and> s' = Some b \<and> move c a b))"
  unfolding issue_def look_def
proof (rule post_bind, rule post_host, unfold fst_conv snd_conv sum.case)
  let ?Q = "\<lambda>_ s'. s' = s \<or> (\<exists>a b. s = Some a \<and> s' = Some b \<and> move c a b)"
  fix w
  assume w: "status_of i w = s"
  let ?row = "tbl_get v_id (vms (w_db w)) i"
  have "post (status_of i) True s (bind_prog (handle c v) (\<lambda>(e, _). ret e)) ?Q" if row: "?row = Some v" for v
  proof -
    have "v_id v = i" using row by (auto simp: tbl_get_def dest: find_first_Some)
    moreover have "s = Some (v_status v)" using row w by (simp add: status_of_def)
    ultimately show ?thesis
      using method_moves [of s v c] by (intro post_bind) (auto elim!: post_mono intro!: post_ret split: sum.split)
  qed
  then show "post (status_of i) True (status_of i w) (case ?row of
      None \<Rightarrow> ret (Some (New ''vm.not_found'' i)) | Some v \<Rightarrow> bind_prog (handle c v) (\<lambda>(e, _). ret e)) ?Q"
    by (auto simp: w intro!: post_ret split: option.split)
qed

lemma post_session:
  "set cs \<subseteq> set all \<Longrightarrow> post (status_of i) True (Some st) (session i cs) (\<lambda>_ s'. \<exists>b. s' = Some b \<and> (may all)\<^sup>*\<^sup>* st b)"
proof (induction cs arbitrary: st)
  case Nil
  show ?case unfolding session.simps by (rule post_ret) auto
next
  case (Cons c cs)
  have go: "(may all)\<^sup>*\<^sup>* st a \<Longrightarrow>
      post (status_of i) True (Some a) (session i cs) (\<lambda>_ s'. \<exists>b. s' = Some b \<and> (may all)\<^sup>*\<^sup>* st b)" for a
    using Cons.prems by (intro post_mono [OF Cons.IH]) (auto intro: rtranclp_trans)
  have "s' = Some st \<or> (\<exists>a b. Some st = Some a \<and> s' = Some b \<and> move c a b) \<Longrightarrow>
      \<exists>b. s' = Some b \<and> (may all)\<^sup>*\<^sup>* st b" for s'
    using Cons.prems by (auto simp: may_def intro!: r_into_rtranclp bexI [of _ c])
  then show ?case
    unfolding session.simps by (intro post_bind post_mono [OF post_issue]) (use go in \<open>auto split: sum.split\<close>)
qed

lemma session_path:
  assumes "\<And>n w. status_of i (e_step E n w) = status_of i w"
    and "status_of i w = Some st" "session i cs E (w, n) = (r, w', n')"
  obtains st' where "status_of i w' = Some st'" "(may cs)\<^sup>*\<^sup>* st st'"
  using postD [OF post_session [OF subset_refl] assms(1) _ assms(2,3)] by blast

text \<open>
  C12: the implementation refines the life cycle above: after any series of commands, with any
  failures of the database and of the API, the stored status is one that the life cycle reaches
  from the status before by moves of those commands.
\<close>

theorem lifecycle_refined:
  assumes "\<And>n w. status_of i (e_step E n w) = status_of i w"
    and "status_of i w = Some st" "session i cs E (w, n) = (r, w', n')"
  shows "\<exists>st'. status_of i w' = Some st' \<and> (may cs)\<^sup>*\<^sup>* st st'"
  using assms by (rule session_path) blast

text \<open>
  a machine that is failed, crashed or stopping stays so, whatever is paused, resumed,
  started and snapshotted: only stop, reboot and restore lead out.
\<close>

lemma broken_stays_broken:
  assumes "\<And>n w. status_of i (e_step E n w) = status_of i w"
    and "status_of i w = Some st" "st \<in> {Failed, Crashed, Stopping}" "session i cs E (w, n) = (r, w', n')"
    and "\<forall>c \<in> set cs. case c of CStop _ \<Rightarrow> False | CReboot _ \<Rightarrow> False | CRestore _ \<Rightarrow> False | _ \<Rightarrow> True"
  shows "status_of i w' = Some st"
proof -
  have stuck: "\<not> may cs st b" for b
    using assms(3,5) by (auto simp: may_def elim!: move_cases split: command.splits)
  from assms(1,2,4) obtain st' where "status_of i w' = Some st'" "(may cs)\<^sup>*\<^sup>* st st'" by (rule session_path)
  with stuck show ?thesis by (metis converse_rtranclpE)
qed

subsection \<open>The requests of a snapshot\<close>

text \<open>What happens between pause and resume, as far as it gets.\<close>

definition shots :: "snapshot_create \<Rightarrow> api_call list set" where
  "shots cfg =
     (let snap = SnapshotCall (sc_mem cfg) (sc_state cfg); away = DrivePath ''rootfs'' (sc_phantom cfg);
          back = DrivePath ''rootfs'' (sc_rootfs cfg)
      in if sc_phantom cfg = '''' then {[], [snap]} else {[], [away], [away, snap, back]})"

lemma calls_status: "blind w_calls (w_UpdateStatus i st)"
  unfolding w_UpdateStatus_def on_db_def by (rule blind_exec) simp

lemma post_take_snapshot:
  "(\<And>r mid. mid \<in> shots cfg \<Longrightarrow> Q r (cs @ mid)) \<Longrightarrow> post w_calls fl cs (take_snapshot cfg) Q"
  by (auto simp: take_snapshot_def shots_def Let_def CreateSnapshot_def UpdateDrivePath_def
      intro!: post_bind post_ret post_attempt post_expect split: sum.split)

lemma post_calls_body:
  assumes "\<And>r mid v'. mid \<in> shots cfg \<Longrightarrow> Q r (cs @ (if v_status v = Running then [PauseCall] else []) @ mid)"
  shows "post w_calls fl cs (snapshot_body v cfg) Q"
proof -
  have "[] \<in> shots cfg" by (simp add: shots_def Let_def)
  with assms show ?thesis
    using assms [of "[]"] by (auto simp: snapshot_body_def PauseVM_def
      intro!: post_bind post_ret post_attempt post_expect post_take_snapshot blind_post [OF calls_status] split: sum.split)
qed

lemma post_calls_resume:
  "(\<And>r. Q r (cs @ (if wanted then [ResumeCall] else []))) \<Longrightarrow> post w_calls fl cs (resume_after v wanted e) Q"
  by (auto simp: resume_after_def Let_def ResumeVM_def
      intro!: post_bind post_ret post_attempt post_expect blind_post [OF calls_status] split: sum.split)

lemma surely_SnapshotCreate: "surely (SnapshotCreate v cfg)"
  by (auto simp: SnapshotCreate_def snapshot_body_def take_snapshot_def resume_after_def Let_def refuse_def socket_missing_def
      intro!: surely_rules split: vm_status.split sum.split)

text \<open>
  C13: a snapshot of a running machine is bracketed by a pause and, unless the caller wanted it
  to stay paused, by a resume, whatever fails in between; a paused machine is neither paused nor
  resumed. If a snapshot was taken with the drive pointed away, the drive is pointed back.
\<close>

theorem snapshot_brackets:
  assumes "\<And>n w. w_calls (e_step E n w) = w_calls w" "v_status v \<in> {Running, Paused}" "v_socket v \<noteq> ''''"
    and "SnapshotCreate v cfg E (w, n) = (r, w', n')"
  shows "\<exists>mid \<in> shots cfg. w_calls w' = w_calls w @ (if v_status v = Running then [PauseCall] else []) @ mid @
    (if v_status v = Running \<and> \<not> sc_pause_only cfg then [ResumeCall] else [])"
proof -
  let ?open = "if v_status v = Running then [PauseCall] else []"
  let ?wanted = "v_status v = Running \<and> \<not> sc_pause_only cfg"
  have form: "SnapshotCreate v cfg = bind_prog (snapshot_body v cfg) (\<lambda>(e, v'). resume_after v' ?wanted e)"
    using assms(2,3) by (auto simp: SnapshotCreate_def)
  have "post w_calls True (w_calls w) (SnapshotCreate v cfg)
      (\<lambda>r l. is_ok r \<longrightarrow> (\<exists>mid \<in> shots cfg. l = w_calls w @ ?open @ mid @ (if ?wanted then [ResumeCall] else [])))"
    unfolding form by (intro post_bind post_calls_body) (auto intro!: post_calls_resume split: sum.split)
  from postD [OF this assms(1) _ refl assms(4)] surely_SnapshotCreate [of v cfg] assms(4) show ?thesis
    unfolding surely_def by (metis fst_conv is_ok_simps(1))
qed

text \<open>
  A command that the machine's state forbids is refused with the code for that and touches
  nothing: no request is made and the table stays as it is.
\<close>

definition forbidden :: "command \<Rightarrow> vm_status \<Rightarrow> bool" where
  "forbidden c s = (case c of
     CPause \<Rightarrow> s \<notin> {Running, Paused} | CResume \<Rightarrow> s \<notin> {Running, Starting, Paused}
   | CStart \<Rightarrow> s \<in> {Paused, Failed, Crashed} | CSnapshot _ \<Rightarrow> s \<notin> {Running, Paused} | _ \<Rightarrow> False)"

lemma forbidden_commands_refused:
  assumes "forbidden c (v_status v)"
  shows "\<exists>msg. handle c v E (w, n) = (Ok (Some (New ''vm.state.invalid'' msg), v), w, n)"
  using assms
  by (cases c; cases "v_status v")
    (auto simp: forbidden_def Pause_def Resume_def Start_def SnapshotCreate_def refuse_def ret_def)

text \<open>
  Pause of a running, resume of a paused and start of a stopped machine: the request and the
  status it leads to.
\<close>

fun request_of :: "command \<Rightarrow> vm_status \<Rightarrow> (api_call \<times> vm_status) option" where
  "request_of CPause Running = Some (PauseCall, Paused)"
| "request_of CResume Paused = Some (ResumeCall, Running)"
| "request_of CStart Stopped = Some (InstanceStart, Running)"
| "request_of _ _ = None"

definition answered :: "int list \<Rightarrow> answer \<Rightarrow> bool" where
  "answered oks a = (case a of Status st _ \<Rightarrow> st \<in> set oks | _ \<Rightarrow> False)"

lemma request_loop_quiet:
  assumes "quiet E"
  shows "fst (request_loop (Suc k) d c E (w, n)) = Ok (st, b) \<Longrightarrow> \<exists>x. w_http w c = Status st x"
    and "w_http w c = Status st x \<Longrightarrow> fst (request_loop (Suc k) d c E (w, n)) = Ok (st, if st = 204 then [] else x)"
proof (induction k arbitrary: w n d)
  case 0
  {
    case 1
    then show ?case using assms
      by (cases "w_http w c") (auto simp: bind_run http_def look_def prog_simps throw_def ret_def)
  next
    case 2
    then show ?case using assms by (auto simp: bind_run http_def look_def prog_simps ret_def)
  }
next
  case (Suc k)
  {
    case 1
    show ?case
    proof (cases "\<exists>m. w_http w c = Refused m")
      case True
      then obtain m where m: "w_http w c = Refused m" by (elim exE)
      with 1 assms have "fst (request_loop (Suc k) (2 * d) c E (w\<lparr>w_clock := w_clock w + d\<rparr>, Suc (Suc n))) = Ok (st, b)"
        by (subst (asm) request_loop.simps(2))
          (simp add: bind_run http_def look_def sleep_def prog_simps del: request_loop.simps)
      from Suc.IH(1) [OF this] show ?thesis by simp
    next
      case False
      with 1 assms show ?thesis
        by (cases "w_http w c") (auto simp: bind_run http_def look_def prog_simps throw_def ret_def)
    qed
  next
    case 2
    then show ?case using assms by (auto simp: bind_run http_def look_def prog_simps ret_def)
  }
qed

lemma expect_quiet:
  assumes "quiet E"
  shows "is_ok (fst (expect oks msg b c E (w, n))) \<longleftrightarrow> answered oks (w_http w c)"
proof -
  let ?w = "w\<lparr>w_calls := w_calls w @ [c]\<rparr>"
  obtain r w1 n1 where run: "request_loop 5 100 c E (?w, Suc n) = (r, w1, n1)"
    by (rule prod_cases3)
  have five: "(5::nat) = Suc 4" by simp
  have ok: "\<exists>x. w_http w c = Status st x" if "r = Ok (st, y)" for st y
    using request_loop_quiet(1) [OF assms, of 4 100 c ?w "Suc n" st y] run that by (simp only: five) simp
  have known: "r = Ok (st, if st = 204 then [] else x)" if "w_http w c = Status st x" for st x
    using request_loop_quiet(2) [OF assms, of ?w c st x 4 100 "Suc n"] run that by (simp only: five) simp
  have req: "request c E (w, n) = (r, w1, n1)"
    unfolding request_def log_call_def using assms run by (simp add: bind_run host_quiet del: request_loop.simps)
  show ?thesis
  proof (cases r)
    case (Inl e)
    with known have "\<not> answered oks (w_http w c)" by (auto simp: answered_def split: answer.split)
    with Inl show ?thesis by (simp add: expect_def bind_run req)
  next
    case (Inr x)
    obtain st y where x: "x = (st, y)" by (rule prod.exhaust)
    from ok [of st y] Inr x obtain z where "w_http w c = Status st z" by auto
    then show ?thesis by (simp add: expect_def bind_run req Inr x answered_def ret_def throw_def)
  qed
qed

text \<open>
  pause of a running, resume of a paused and start of a stopped machine make their one
  request; success is reported and the new status stored exactly when the API answers 204, and
  otherwise an error is reported and the status is left as it was.
\<close>

lemma request_commands:
  assumes "quiet E" "request_of c (v_status v) = Some (call, st)" "v_socket v \<noteq> ''''"
    and "handle c v E (w, n) = (r, w', n')"
  shows "\<exists>e. r = Ok (e, v) \<and> w_calls w' = w_calls w @ [call] \<and>
    (e = None \<longleftrightarrow> answered [204] (w_http w call)) \<and>
    status_of (v_id v) w' = (if e = None then map_option (\<lambda>_. st) (status_of (v_id v) w) else status_of (v_id v) w)"
proof -
  let ?g = "\<lambda>w. (w_calls w, status_of (v_id v) w)"
  obtain msg where form: "handle c v = step_or_return (expect [204] msg False call) v
      (step_or_return (w_UpdateStatus (v_id v) st) v (ret (None, v)))"
    using assms(2,3) that
    by (cases c; cases "v_status v")
      (auto simp: Pause_def Resume_def Start_def PauseVM_def ResumeVM_def StartInstance_def)
  obtain a w1 n1 where run: "expect [204] msg False call E (w, n) = (a, w1, n1)" by (rule prod_cases3)
  have ok: "is_ok a \<longleftrightarrow> answered [204] (w_http w call)" using expect_quiet [OF assms(1), of "[204]" msg False call w n] run by simp
  have env: "\<And>n w. w_calls (e_step E n w) = w_calls w" "\<And>n w. status_of i (e_step E n w) = status_of i w" for i
    using assms(1) by (simp_all add: quiet_def)
  have calls: "w_calls w1 = w_calls w @ [call]"
    by (rule postD [OF post_expect [where Q = "\<lambda>_ l. l = w_calls w @ [call]"] env(1) disjI1 [OF TrueI] refl run]) simp
  have same: "status_of i w1 = status_of i w" for i
    by (rule postD [OF blind_post [OF status_view.blind_expect, where Q = "\<lambda>_ x. x = status_of i w"] env(2) disjI1 [OF TrueI] refl run]) simp
  show ?thesis
  proof (cases a)
    case (Inl e)
    then show ?thesis using assms(4) run ok calls same unfolding form step_or_return_def
      by (auto simp: bind_run attempt_run ret_def)
  next
    case (Inr u)
    then show ?thesis using assms(1,4) run ok calls same unfolding form step_or_return_def
      by (auto simp: bind_run attempt_run ret_def w_UpdateStatus_def on_db_def exec_def prog_simps status_of_set)
  qed
qed

subsection \<open>Concrete runs\<close>

definition front :: vm where
  "front = demo_vm ''ab12'' ''front'' ''10.0.0.2''"

definition front_at :: "vm_status \<Rightarrow> world" where
  "front_at s = (demo_world (two_db\<lparr>vms := [front\<lparr>v_status := s\<rparr>]\<rparr>) True)"

definition demo_cfg :: snapshot_create where
  "demo_cfg = \<lparr>sc_mem = ''m'', sc_state = ''s'', sc_pause_only = False, sc_phantom = ''p'', sc_rootfs = ''r''\<rparr>"

lemma status_front [simp]: "status_of ''ab12'' (front_at s) = Some s"
  by (simp add: status_of_def front_at_def demo_world_def tbl_get_def front_def demo_vm_def)

lemma front_sel [simp]: "v_id front = ''ab12''" "v_status front = Running" "v_socket front \<noteq> []"
  by (simp_all add: front_def)

theorem stop_reports_stopped_witness:
  "status_of ''ab12'' (fst (snd (Stop front False calm (front_at Running, 0)))) = Some Stopped"
  using stop_reports_stopped [of front calm False "front_at Running" 0, OF _ _ _ prod_eq_triple]
  by (simp add: calm_def)

lemma reboot_does_not_restart_witness:
  "status_of ''ab12'' (fst (snd (Reboot front False calm (front_at Running, 0)))) = Some Stopped"
  using reboot_does_not_restart [of front calm False "front_at Running" 0, OF _ _ _ _ prod_eq_triple]
  by (simp add: calm_def)

theorem lifecycle_refined_witness:
  "\<exists>st. status_of ''ab12'' (fst (snd (session ''ab12'' [CPause, CResume, CStop True] calm (front_at Running, 0)))) = Some st \<and>
     (may [CPause, CResume, CStop True])\<^sup>*\<^sup>* Running st"
  by (rule lifecycle_refined [OF _ status_front prod_eq_triple]) (simp add: calm_def)

theorem broken_stays_broken_witness:
  "status_of ''ab12'' (fst (snd (session ''ab12'' [CPause, CResume, CStart] calm (front_at Crashed, 0)))) = Some Crashed"
  by (rule broken_stays_broken [OF _ status_front _ prod_eq_triple]) (simp_all add: calm_def)

theorem snapshot_brackets_witness:
  "\<exists>mid \<in> shots demo_cfg. w_calls (fst (snd (SnapshotCreate front demo_cfg calm (front_at Running, 0)))) =
    w_calls (front_at Running) @ (if v_status front = Running then [PauseCall] else []) @ mid @
    (if v_status front = Running \<and> \<not> sc_pause_only demo_cfg then [ResumeCall] else [])"
  by (rule snapshot_brackets [OF _ _ _ prod_eq_triple]) (simp_all add: calm_def)

theorem request_commands_witness:
  "status_of ''ab12'' (fst (snd (handle CPause front calm (front_at Running, 0)))) = Some Paused"
  using request_commands [OF quiet_calm _ _ prod_eq_triple, of CPause front PauseCall Paused "front_at Running" 0]
  by (auto simp: answered_def front_at_def [THEN arg_cong [of _ _ w_http]] demo_world_def)

end
