(* ===== verification/BootConfig.thy ===== *)
theory BootConfig
  imports Machines
begin

text \<open>
  The configuration that Firecracker boots a machine from: the kernel's command line and the
  devices (the builders of \<open>internal/core/vm/firecracker.go\<close>), and the later edits of its list
  of drives in the file (\<open>FirecrackerConfigManager\<close>) with the two controller methods that
  make them.
\<close>

subsection \<open>The builder of boot arguments\<close>

record bootArgEntry =
  ba_key :: string
  ba_values :: "string list"

type_synonym builder = "bootArgEntry list"

fun entryIndex :: "builder \<Rightarrow> string \<Rightarrow> nat option" where
  "entryIndex [] k = None"
| "entryIndex (e # es) k = (if ba_key e = k then Some 0 else map_option Suc (entryIndex es k))"

definition set_arg :: "builder \<Rightarrow> string \<Rightarrow> string list \<Rightarrow> builder" where
  "set_arg b k vs = (case entryIndex b k of
     Some i \<Rightarrow> b[i := (b ! i)\<lparr>ba_values := vs\<rparr>]
   | None \<Rightarrow> b @ [\<lparr>ba_key = k, ba_values = vs\<rparr>])"

definition parse_arg :: "builder \<Rightarrow> string \<Rightarrow> builder" where
  "parse_arg b arg = (case Cut arg (CHR ''='') of (k, v, found) \<Rightarrow>
     if found then (case entryIndex b k of
         Some i \<Rightarrow> b[i := (b ! i)\<lparr>ba_values := ba_values (b ! i) @ [v]\<rparr>]
       | None \<Rightarrow> b @ [\<lparr>ba_key = k, ba_values = [v]\<rparr>])
     else if entryIndex b arg = None then b @ [\<lparr>ba_key = arg, ba_values = []\<rparr>]
     else b)"

definition parseFromString :: "builder \<Rightarrow> string \<Rightarrow> builder" where
  "parseFromString b s = (if s = '''' \<or> TrimSpace s = '''' then b else foldl parse_arg b (Fields s))"

definition entry_parts :: "bootArgEntry \<Rightarrow> string list" where
  "entry_parts e = (if ba_values e = [] then [ba_key e] else map (\<lambda>v. ba_key e @ ''='' @ v) (ba_values e))"

definition join_args :: "builder \<Rightarrow> string" where
  "join_args b = Join (concat (map entry_parts b)) '' ''"

subsection \<open>What is known about the machine\<close>

record cpu_config =
  cc_kvm :: "string list"
  cc_rest :: string

record vsock_config =
  vk_cid :: int
  vk_uds :: string

record fc_config =
  fc_rootfs :: string
  fc_kernel :: string
  fc_vcpus :: int
  fc_mem :: int
  fc_ip :: string
  fc_mac :: string
  fc_tap :: string
  fc_gateway :: string
  fc_netmask :: string
  fc_uuid :: string
  fc_fstype :: string
  fc_boot_args :: string
  fc_lsm :: string
  fc_pci :: bool
  fc_nested :: bool
  fc_console :: bool
  fc_logging :: bool
  fc_metrics :: bool
  fc_log_level :: string
  fc_log_path :: string
  fc_metrics_path :: string
  fc_cloud_mode :: "string option"
  fc_iso :: "string option"
  fc_nocloud_url :: "string option"
  fc_cpu :: "cpu_config option"
  fc_vendor :: "string option"
  fc_arch :: "string option"
  fc_drives :: "drive_config list"
  fc_writeback :: bool
  fc_vsock :: "vsock_config option"

subsection \<open>Boot arguments\<close>

text \<open>A pointer to a non-empty text.\<close>

definition given :: "string option \<Rightarrow> bool" where
  "given x \<longleftrightarrow> x \<noteq> None \<and> x \<noteq> Some ''''"

definition nested_arg :: "fc_config \<Rightarrow> string option" where
  "nested_arg c =
     (if fc_nested c \<and> given (fc_vendor c)
      then let vendor = map to_lower (the (fc_vendor c));
               arch = (if given (fc_arch c) then map to_lower (the (fc_arch c)) else '''')
           in if Contains arch ''arm'' \<or> Contains arch ''aarch64'' then None
              else if Contains vendor ''amd'' \<or> Contains vendor ''hygon'' then Some ''kvm-amd.nested''
              else Some ''kvm-intel.nested''
      else None)"

definition cloud_on :: "fc_config \<Rightarrow> bool" where
  "cloud_on c \<longleftrightarrow> given (fc_cloud_mode c) \<and> fc_cloud_mode c \<noteq> Some ''off''"

definition ip_arg :: "fc_config \<Rightarrow> string" where
  "ip_arg c = fc_ip c @ ''::'' @ fc_gateway c @ '':'' @ fc_netmask c @ ''::eth0:off''"

text \<open>The arguments set before the file system is known to be identified, and after.\<close>

definition early_args :: "fc_config \<Rightarrow> builder" where
  "early_args c =
     (let b = (if fc_boot_args c \<noteq> '''' then parseFromString [] (fc_boot_args c) else []);
          b = (if fc_console c \<and> entryIndex b ''console'' = None then set_arg b ''console'' [''ttyS0''] else b);
          b = (if \<not> fc_pci c then set_arg b ''pci'' [''off''] else b);
          b = set_arg b ''ip'' [ip_arg c];
          b = (if fc_lsm c \<noteq> '''' then set_arg b ''lsm'' [fc_lsm c] else b)
      in case nested_arg c of Some k \<Rightarrow> set_arg b k [''1''] | None \<Rightarrow> b)"

definition root_args :: "fc_config \<Rightarrow> builder \<Rightarrow> builder" where
  "root_args c b =
     (let b = set_arg b ''root'' [if fc_uuid c \<noteq> '''' then ''UUID='' @ fc_uuid c else ''/dev/vda''];
          b = (if fc_uuid c \<noteq> '''' then set_arg b ''rootfstype'' [fc_fstype c] else b)
      in set_arg b ''systemd.mask'' [''systemd-networkd-wait-online.service''])"

definition defaultLibguestfsSeedDir :: string where
  "defaultLibguestfsSeedDir = ''/var/lib/cloud/seed/nocloud''"

definition cloud_args :: "fc_config \<Rightarrow> builder \<Rightarrow> (err, builder) res" where
  "cloud_args c b =
     (if \<not> cloud_on c then Ok b
      else if fc_cloud_mode c = Some ''net''
      then if \<not> given (fc_nocloud_url c)
        then Err (New ''firecracker.config.error'' ''NoCloud URL must be set when using NET mode'')
        else Ok (set_arg b ''ds'' [''nocloud;seedfrom='' @ the (fc_nocloud_url c)])
      else if fc_cloud_mode c = Some ''inject''
      then Ok (set_arg b ''ds'' [''ds=nocloud;s=file://'' @ defaultLibguestfsSeedDir @ ''/''])
      else if fc_cloud_mode c = Some ''iso'' then Ok (set_arg b ''ds'' [''nocloud''])
      else Ok b)"

definition boot_entries :: "fc_config \<Rightarrow> (err, builder) res" where
  "boot_entries c =
     (let b = early_args c
      in if fc_pci c \<and> fc_uuid c = '''' then Err (New ''firecracker.config.error''
          ''PCI transport enabled but no filesystem UUID available for root device identification. Use an image with a known filesystem UUID, or pass --no-pci to disable PCI transport.'')
         else cloud_args c (root_args c b))"

definition buildBootArgs :: "fc_config \<Rightarrow> (err, string) res" where
  "buildBootArgs c = bind_res (boot_entries c) (\<lambda>b. Ok (join_args b))"

subsection \<open>The builder as a map from keys to values\<close>

definition arg :: "builder \<Rightarrow> string \<Rightarrow> string list option" where
  "arg b k = map_option ba_values (find_first (\<lambda>e. ba_key e = k) b)"

lemma set_arg_rec [simp]:
  "set_arg [] k vs = [\<lparr>ba_key = k, ba_values = vs\<rparr>]"
  "set_arg (e # es) k vs = (if ba_key e = k then e\<lparr>ba_values := vs\<rparr> # es else e # set_arg es k vs)"
  by (auto simp: set_arg_def split: option.splits)

lemma entryIndex_None [simp]: "entryIndex b k = None \<longleftrightarrow> k \<notin> ba_key ` set b"
  by (induction b) auto

lemma arg_set [simp]: "arg (set_arg b k vs) k' = (if k' = k then Some vs else arg b k')"
  by (induction b) (auto simp: arg_def)

lemma keys_set: "map ba_key (set_arg b k vs) = (if k \<in> ba_key ` set b then map ba_key b else map ba_key b @ [k])"
  by (induction b) auto

lemma arg_None: "arg b k = None \<longleftrightarrow> k \<notin> ba_key ` set b"
  by (auto simp: arg_def find_first_None)

text \<open>The same entry, with one more value.\<close>

fun add_value :: "builder \<Rightarrow> string \<Rightarrow> string \<Rightarrow> builder" where
  "add_value [] k v = [\<lparr>ba_key = k, ba_values = [v]\<rparr>]"
| "add_value (e # es) k v = (if ba_key e = k then e\<lparr>ba_values := ba_values e @ [v]\<rparr> # es else e # add_value es k v)"

lemma add_value_index:
  "(case entryIndex b k of Some i \<Rightarrow> b[i := (b ! i)\<lparr>ba_values := ba_values (b ! i) @ [v]\<rparr>]
     | None \<Rightarrow> b @ [\<lparr>ba_key = k, ba_values = [v]\<rparr>]) = add_value b k v"
proof (induction b)
  case (Cons e b)
  then show ?case by (cases "entryIndex b k") (auto simp del: entryIndex_None)
qed simp

lemma parse_arg_eq:
  "parse_arg b w = (case Cut w (CHR ''='') of (k, v, found) \<Rightarrow>
     if found then add_value b k v else if w \<in> ba_key ` set b then b else b @ [\<lparr>ba_key = w, ba_values = []\<rparr>])"
  by (auto simp: parse_arg_def add_value_index split: prod.split)

subsection \<open>Printing and parsing\<close>

text \<open>What parsing makes: one entry per key; keys without an equals sign; a key without values is not empty.\<close>

definition entry_ok :: "bootArgEntry \<Rightarrow> bool" where
  "entry_ok e \<longleftrightarrow> CHR ''='' \<notin> set (ba_key e) \<and> (ba_values e = [] \<longrightarrow> ba_key e \<noteq> [])"

definition builder_ok :: "builder \<Rightarrow> bool" where
  "builder_ok b \<longleftrightarrow> distinct (map ba_key b) \<and> (\<forall>e \<in> set b. entry_ok e)"

lemma Cut_key_value: "CHR ''='' \<notin> set k \<Longrightarrow> Cut (k @ CHR ''='' # v) (CHR ''='') = (k, v, True)"
  by (induction k) auto

lemma Cut_key_only: "CHR ''='' \<notin> set k \<Longrightarrow> Cut k (CHR ''='') = (k, [], False)"
  by (induction k) auto

lemma add_value_append: "k \<notin> ba_key ` set b \<Longrightarrow> add_value (b @ c) k v = b @ add_value c k v"
  by (induction b) auto

lemma parse_values:
  assumes "CHR ''='' \<notin> set k" "k \<notin> ba_key ` set b"
  shows "foldl parse_arg (b @ [\<lparr>ba_key = k, ba_values = us\<rparr>]) (map (\<lambda>v. k @ ''='' @ v) vs) =
    b @ [\<lparr>ba_key = k, ba_values = us @ vs\<rparr>]"
  using assms by (induction vs arbitrary: us) (simp_all add: parse_arg_eq Cut_key_value add_value_append)

lemma parse_entry:
  assumes "entry_ok e" "ba_key e \<notin> ba_key ` set b"
  shows "foldl parse_arg b (entry_parts e) = b @ [e]"
proof (cases "ba_values e")
  case Nil
  with assms show ?thesis by (simp add: entry_parts_def parse_arg_eq Cut_key_only entry_ok_def)
next
  case (Cons v vs)
  have "add_value b (ba_key e) v = b @ [\<lparr>ba_key = ba_key e, ba_values = [v]\<rparr>]"
    using add_value_append [OF assms(2), of "[]"] by simp
  with Cons assms parse_values [of "ba_key e" b "[v]" vs] show ?thesis
    by (simp add: entry_parts_def parse_arg_eq Cut_key_value entry_ok_def)
qed

lemma parse_parts:
  "builder_ok (b @ c) \<Longrightarrow> foldl parse_arg b (concat (map entry_parts c)) = b @ c"
proof (induction c arbitrary: b)
  case (Cons e c)
  then have "foldl parse_arg b (entry_parts e) = b @ [e]"
    by (intro parse_entry) (auto simp: builder_ok_def)
  with Cons show ?case by simp
qed simp

lemma keys_add_value: "ba_key ` set (add_value b k v) = insert k (ba_key ` set b)"
  by (induction b) auto

lemma add_value_entries: "e \<in> set (add_value b k v) \<Longrightarrow> e \<in> set b \<or> ba_key e = k \<and> ba_values e \<noteq> []"
  by (induction b) (auto split: if_splits)

lemma add_value_distinct: "distinct (map ba_key b) \<Longrightarrow> distinct (map ba_key (add_value b k v))"
  by (induction b) (auto simp: keys_add_value)

lemma add_value_ok: "builder_ok b \<Longrightarrow> CHR ''='' \<notin> set k \<Longrightarrow> builder_ok (add_value b k v)"
  by (auto simp: builder_ok_def entry_ok_def add_value_distinct dest: add_value_entries)

lemma Cut_not_found: "Cut w c = (k, v, False) \<Longrightarrow> c \<notin> set w"
  by (induction w arbitrary: k v) (auto split: if_splits prod.splits)

lemma parse_arg_ok:
  assumes "builder_ok b" "w \<noteq> []"
  shows "builder_ok (parse_arg b w)"
proof -
  obtain k v f where cut: "Cut w (CHR ''='') = (k, v, f)" by (rule prod_cases3)
  have "CHR ''='' \<notin> set k" using Cut_no_sep [where s = w] cut by (metis fst_conv)
  with assms cut Cut_not_found [of w] show ?thesis
    by (cases f) (auto simp: parse_arg_eq add_value_ok, auto simp: builder_ok_def entry_ok_def)
qed

lemma parse_args_ok: "builder_ok b \<Longrightarrow> [] \<notin> set ws \<Longrightarrow> builder_ok (foldl parse_arg b ws)"
proof (induction ws arbitrary: b)
  case (Cons w ws)
  then have "w \<noteq> []" by auto
  with Cons show ?case by (simp add: parse_arg_ok)
qed simp

lemma set_arg_entries: "e \<in> set (set_arg b k vs) \<Longrightarrow> e \<in> set b \<or> ba_key e = k \<and> ba_values e = vs"
  by (induction b) (auto split: if_splits)

lemma set_arg_ok:
  assumes "builder_ok b" "CHR ''='' \<notin> set k" "vs \<noteq> []"
  shows "builder_ok (set_arg b k vs)"
proof -
  have "distinct (map ba_key (set_arg b k vs))" using assms(1) by (auto simp: keys_set builder_ok_def)
  moreover have "\<forall>e \<in> set (set_arg b k vs). entry_ok e"
    using assms by (auto simp: builder_ok_def entry_ok_def dest: set_arg_entries)
  ultimately show ?thesis by (simp add: builder_ok_def)
qed

subsection \<open>Parts of a command line\<close>

lemma parse_Fields: "parseFromString b s = foldl parse_arg b (Fields s)"
  using fields_trimmed [OF TrimSpace_Nil [of s]]
  by (auto simp: parseFromString_def Fields_def word_of_def)

definition parts :: "builder \<Rightarrow> string list" where
  "parts b = concat (map entry_parts b)"

lemma parts_simps [simp]: "parts [] = []" "parts (e # b) = entry_parts e @ parts b" "parts (b @ c) = parts b @ parts c"
  by (simp_all add: parts_def)

lemma Cut_glue: "Cut w c = (k, v, True) \<Longrightarrow> w = k @ c # v"
  by (induction w arbitrary: k v) (auto split: if_splits prod.splits)

lemma parts_add_value: "set (parts (add_value b k v)) \<subseteq> set (parts b) \<union> {k @ ''='' @ v}"
  by (induction b) (auto simp: entry_parts_def split: if_splits)

lemma parts_parse: "set (parts (parse_arg b w)) \<subseteq> set (parts b) \<union> {w}"
proof -
  obtain k v f where cut: "Cut w (CHR ''='') = (k, v, f)" by (rule prod_cases3)
  show ?thesis
  proof (cases f)
    case True
    with cut Cut_glue [of w _ k v] parts_add_value [of b k v] show ?thesis by (simp add: parse_arg_eq)
  next
    case False
    with cut show ?thesis by (auto simp: parse_arg_eq entry_parts_def)
  qed
qed

lemma parts_parse_all: "set (parts (foldl parse_arg b ws)) \<subseteq> set (parts b) \<union> set ws"
  by (induction ws arbitrary: b) (use parts_parse in fastforce)+

lemma parts_set: "set (parts (set_arg b k [v])) \<subseteq> set (parts b) \<union> {k @ ''='' @ v}"
  by (induction b) (auto simp: entry_parts_def split: if_splits)

text \<open>A well-formed builder whose parts are words is read back from what it prints.\<close>

definition printable :: "builder \<Rightarrow> bool" where
  "printable b \<longleftrightarrow> builder_ok b \<and> (\<forall>w \<in> set (parts b). clean w)"

lemma parse_join:
  assumes "printable b"
  shows "parseFromString [] (join_args b) = b"
proof -
  have "w \<noteq> []" if "w \<in> set (parts b)" for w
    using that assms by (auto simp: parts_def entry_parts_def printable_def builder_ok_def entry_ok_def split: if_splits)
  with assms have "Fields (join_args b) = parts b"
    unfolding join_args_def parts_def [symmetric] by (intro Fields_Join) (auto simp: printable_def)
  moreover have "foldl parse_arg [] (parts b) = b"
    using parse_parts [of "[]" b] assms by (simp add: parts_def printable_def)
  ultimately show ?thesis by (simp add: parse_Fields)
qed

lemma printable_parse: "printable (parseFromString [] s)"
proof -
  have "[] \<notin> set (Fields s)" using Fields_clean by blast
  then have "builder_ok (foldl parse_arg [] (Fields s))" by (intro parse_args_ok) (simp_all add: builder_ok_def)
  moreover have "clean w" if "w \<in> set (parts (foldl parse_arg [] (Fields s)))" for w
    using parts_parse_all [of "[]" "Fields s"] that Fields_clean by auto
  ultimately show ?thesis by (simp add: printable_def parse_Fields)
qed

text \<open>
  printing what was parsed from any command line and parsing it again gives the same
  arguments: repeated keys stay together, in the order of their first occurrence.
\<close>

lemma boot_args_roundtrip: "parseFromString [] (join_args (parseFromString [] s)) = parseFromString [] s"
  by (rule parse_join) (rule printable_parse)

subsection \<open>What the kernel is given\<close>

text \<open>A text of visible ASCII characters.\<close>

definition visible_text :: "string \<Rightarrow> bool" where
  "visible_text s \<longleftrightarrow> (\<forall>c \<in> set s. 0x21 \<le> (of_char c :: nat) \<and> (of_char c :: nat) < 0x7F)"

lemma visible_append [simp]: "visible_text (s @ t) \<longleftrightarrow> visible_text s \<and> visible_text t"
  by (auto simp: visible_text_def)

lemma visible_Cons [simp]: "visible_text (c # s) \<longleftrightarrow> 0x21 \<le> (of_char c :: nat) \<and> (of_char c :: nat) < 0x7F \<and> visible_text s"
  by (auto simp: visible_text_def)

lemma visible_Nil [simp]: "visible_text []"
  by (simp add: visible_text_def)

lemma space_head: "p \<in> set spaces \<Longrightarrow> \<not> (0x21 \<le> (of_char (hd p) :: nat) \<and> (of_char (hd p) :: nat) < 0x7F)"
proof -
  have "list_all (\<lambda>p. \<not> (0x21 \<le> (of_char (hd p) :: nat) \<and> (of_char (hd p) :: nat) < 0x7F)) spaces" by code_simp
  then show "p \<in> set spaces \<Longrightarrow> ?thesis" by (auto simp: list_all_iff)
qed

lemma visible_clean: "visible_text s \<Longrightarrow> clean s"
proof (induction s)
  case (Cons c s)
  have "\<not> HasPrefix (c # s) p" if p: "p \<in> set spaces" for p
  proof
    assume "HasPrefix (c # s) p"
    moreover have "p \<noteq> []" using p no_empty_space by blast
    ultimately have "hd p = c" by (cases p) (auto simp: HasPrefix_def)
    with space_head [OF p] Cons.prems show False by simp
  qed
  with Cons show ?case by (simp add: space_at_def find_first_None)
qed simp

lemma printable_set:
  "printable b \<Longrightarrow> visible_text k \<Longrightarrow> CHR ''='' \<notin> set k \<Longrightarrow> visible_text v \<Longrightarrow> printable (set_arg b k [v])"
  using parts_set [of b k v] by (auto simp: printable_def set_arg_ok intro: visible_clean dest!: subsetD)

text \<open>The arguments the program decides on, whatever the user asked for.\<close>

definition ds_arg :: "fc_config \<Rightarrow> string option" where
  "ds_arg c = (if \<not> cloud_on c then None
     else if fc_cloud_mode c = Some ''net'' then Some (''nocloud;seedfrom='' @ the (fc_nocloud_url c))
     else if fc_cloud_mode c = Some ''inject'' then Some (''ds=nocloud;s=file://'' @ defaultLibguestfsSeedDir @ ''/'')
     else if fc_cloud_mode c = Some ''iso'' then Some ''nocloud'' else None)"

definition forced :: "fc_config \<Rightarrow> string \<Rightarrow> string option" where
  "forced c k =
     (if k = ''ds'' \<and> ds_arg c \<noteq> None then ds_arg c
      else if k = ''systemd.mask'' then Some ''systemd-networkd-wait-online.service''
      else if k = ''rootfstype'' \<and> fc_uuid c \<noteq> '''' then Some (fc_fstype c)
      else if k = ''root'' then Some (if fc_uuid c \<noteq> '''' then ''UUID='' @ fc_uuid c else ''/dev/vda'')
      else if Some k = nested_arg c then Some ''1''
      else if k = ''lsm'' \<and> fc_lsm c \<noteq> '''' then Some (fc_lsm c)
      else if k = ''ip'' then Some (ip_arg c)
      else if k = ''pci'' \<and> \<not> fc_pci c then Some ''off''
      else None)"

definition user_arg :: "fc_config \<Rightarrow> string \<Rightarrow> string list option" where
  "user_arg c k = (let u = arg (parseFromString [] (fc_boot_args c)) k
     in if k = ''console'' \<and> fc_console c \<and> u = None then Some [''ttyS0''] else u)"

definition visible_config :: "fc_config \<Rightarrow> bool" where
  "visible_config c \<longleftrightarrow> visible_text (fc_ip c) \<and> visible_text (fc_gateway c) \<and> visible_text (fc_netmask c) \<and>
     visible_text (fc_uuid c) \<and> visible_text (fc_fstype c) \<and> visible_text (fc_lsm c) \<and>
     (\<forall>u. fc_nocloud_url c = Some u \<longrightarrow> visible_text u)"

lemma nested_keys: "nested_arg c = Some k \<Longrightarrow> k = ''kvm-amd.nested'' \<or> k = ''kvm-intel.nested''"
  by (auto simp: nested_arg_def Let_def split: if_splits)

lemma parse_empty [simp]: "parseFromString b [] = b"
  by (simp add: parseFromString_def)

lemma arg_if [simp]: "arg (if p then a else b) k = (if p then arg a k else arg b k)"
  by simp

lemma console_arg:
  "arg (if fc_console c \<and> entryIndex b ''console'' = None then set_arg b ''console'' [''ttyS0''] else b) k =
     (if k = ''console'' \<and> fc_console c \<and> arg b k = None then Some [''ttyS0''] else arg b k)"
  by (auto simp: arg_None)

lemma early_args_arg:
  "arg (early_args c) k =
     (if Some k = nested_arg c then Some [''1''] else if k = ''lsm'' \<and> fc_lsm c \<noteq> '''' then Some [fc_lsm c]
      else if k = ''ip'' then Some [ip_arg c] else if k = ''pci'' \<and> \<not> fc_pci c then Some [''off''] else user_arg c k)"
proof -
  have user: "(if fc_boot_args c \<noteq> [] then parseFromString [] (fc_boot_args c) else []) = parseFromString [] (fc_boot_args c)"
    by simp
  define u where "u = parseFromString [] (fc_boot_args c)"
  define b where "b = (if fc_console c \<and> entryIndex u ''console'' = None then set_arg u ''console'' [''ttyS0''] else u)"
  have wanted: "arg b k = user_arg c k"
    unfolding b_def console_arg by (auto simp: user_arg_def u_def Let_def)
  show ?thesis
    unfolding early_args_def Let_def user
    unfolding u_def [symmetric]
    unfolding b_def [symmetric]
    by (cases "nested_arg c") (simp_all add: wanted)
qed

lemma root_args_arg:
  "arg (root_args c b) k =
     (if k = ''systemd.mask'' then Some [''systemd-networkd-wait-online.service'']
      else if k = ''rootfstype'' \<and> fc_uuid c \<noteq> '''' then Some [fc_fstype c]
      else if k = ''root'' then Some [if fc_uuid c \<noteq> '''' then ''UUID='' @ fc_uuid c else ''/dev/vda'']
      else arg b k)"
  by (simp add: root_args_def Let_def)

lemma cloud_args_eq:
  "cloud_args c b = (if fc_cloud_mode c = Some ''net'' \<and> \<not> given (fc_nocloud_url c)
     then Err (New ''firecracker.config.error'' ''NoCloud URL must be set when using NET mode'')
     else case ds_arg c of None \<Rightarrow> Ok b | Some v \<Rightarrow> Ok (set_arg b ''ds'' [v]))"
  by (auto simp: cloud_args_def ds_arg_def cloud_on_def given_def)

lemma printable_if: "(p \<Longrightarrow> printable a) \<Longrightarrow> (\<not> p \<Longrightarrow> printable b) \<Longrightarrow> printable (if p then a else b)"
  by simp

lemma printable_Nil: "printable []"
  by (simp add: printable_def builder_ok_def)

lemma visible_nested: "nested_arg c = Some k \<Longrightarrow> visible_text k \<and> CHR ''='' \<notin> set k"
  using nested_keys [of c k] by auto

lemma printable_early:
  assumes "visible_config c"
  shows "printable (early_args c)"
proof -
  let ?user = "if fc_boot_args c \<noteq> [] then parseFromString [] (fc_boot_args c) else []"
  have user: "printable ?user" by (intro printable_if printable_parse printable_Nil)
  have vis: "visible_text (ip_arg c)" "visible_text (fc_lsm c)"
    using assms by (simp_all add: visible_config_def ip_arg_def)
  let ?b = "if fc_console c \<and> entryIndex ?user ''console'' = None then set_arg ?user ''console'' [''ttyS0''] else ?user"
  have b: "printable ?b" by (intro printable_if printable_set user) simp_all
  let ?b = "set_arg (if \<not> fc_pci c then set_arg ?b ''pci'' [''off''] else ?b) ''ip'' [ip_arg c]"
  have b: "printable ?b" by (intro printable_if printable_set b vis) simp_all
  let ?b = "if fc_lsm c \<noteq> [] then set_arg ?b ''lsm'' [fc_lsm c] else ?b"
  have b: "printable ?b" by (intro printable_if printable_set b vis) simp_all
  show ?thesis
  proof (cases "nested_arg c")
    case None
    with b show ?thesis by (simp only: early_args_def Let_def option.case)
  next
    case (Some k)
    with printable_set [OF b, of k "''1''"] visible_nested [OF Some] show ?thesis
      by (simp only: early_args_def Let_def option.case) simp
  qed
qed

lemma printable_root: "visible_config c \<Longrightarrow> printable b \<Longrightarrow> printable (root_args c b)"
  by (auto simp: root_args_def Let_def visible_config_def intro!: printable_set)

lemma visible_ds: "visible_config c \<Longrightarrow> \<not> (fc_cloud_mode c = Some ''net'' \<and> \<not> given (fc_nocloud_url c)) \<Longrightarrow>
    ds_arg c = Some v \<Longrightarrow> visible_text v"
  by (auto simp: ds_arg_def visible_config_def given_def defaultLibguestfsSeedDir_def split: if_splits)

text \<open>The command line as the builder would read it again.\<close>

lemma boot_args_built:
  assumes "visible_config c"
  shows "case buildBootArgs c of
      Err e \<Rightarrow> fc_pci c \<and> fc_uuid c = '''' \<or> fc_cloud_mode c = Some ''net'' \<and> \<not> given (fc_nocloud_url c)
    | Ok s \<Rightarrow> \<not> (fc_pci c \<and> fc_uuid c = '''') \<and> (fc_cloud_mode c = Some ''net'' \<longrightarrow> given (fc_nocloud_url c)) \<and>
        (\<exists>b. printable b \<and> s = join_args b \<and> parseFromString [] s = b) \<and>
        (\<forall>k. arg (parseFromString [] s) k = (case forced c k of Some v \<Rightarrow> Some [v] | None \<Rightarrow> user_arg c k))"
proof (cases "fc_pci c \<and> fc_uuid c = '''' \<or> fc_cloud_mode c = Some ''net'' \<and> \<not> given (fc_nocloud_url c)")
  case True
  then show ?thesis by (auto simp: buildBootArgs_def boot_entries_def Let_def cloud_args_eq)
next
  case False
  define b where "b = (case ds_arg c of None \<Rightarrow> root_args c (early_args c)
    | Some v \<Rightarrow> set_arg (root_args c (early_args c)) ''ds'' [v])"
  have run: "buildBootArgs c = Ok (join_args b)"
    using False by (auto simp: buildBootArgs_def boot_entries_def Let_def cloud_args_eq b_def split: option.split)
  have base: "printable (root_args c (early_args c))" using assms by (intro printable_root printable_early)
  have b: "printable b"
    using base visible_ds [OF assms] False by (auto simp: b_def intro!: printable_set split: option.split)
  then have read: "parseFromString [] (join_args b) = b" by (rule parse_join)
  moreover have "arg b k = (case forced c k of Some v \<Rightarrow> Some [v] | None \<Rightarrow> user_arg c k)" for k
    using nested_keys [of c k] by (auto simp: b_def root_args_arg early_args_arg forced_def split: option.split)
  ultimately show ?thesis using False run b by auto
qed

subsection \<open>What the kernel finds\<close>

text \<open>
  A command line is plain if it has visible ASCII characters other than the double quote, blanks
  between the words, and no word that begins with an equals sign. How the kernel reads such a line
  is documented (parameters are separated by blanks, \<open>key=value\<close> or a bare key); \<open>seen\<close> stands for
  its reading of any line. Quotes, by which the kernel keeps blanks inside of a value, are outside
  of this: the builder splits there.
\<close>

definition blank :: "char \<Rightarrow> bool" where
  "blank c \<longleftrightarrow> c = CHR 0x20 \<or> c = CHR 0x09 \<or> c = CHR 0x0A"

fun words_from :: "string \<Rightarrow> string \<Rightarrow> string list" where
  "words_from w [] = (if w = [] then [] else [w])"
| "words_from w (c # s) = (if blank c then (if w = [] then [] else [w]) @ words_from [] s else words_from (w @ [c]) s)"

definition param :: "string \<Rightarrow> string \<times> string option" where
  "param w = (if CHR ''='' \<in> set w
     then (takeWhile (\<lambda>c. c \<noteq> CHR ''='') w, Some (tl (dropWhile (\<lambda>c. c \<noteq> CHR ''='') w))) else (w, None))"

definition plain_char :: "char \<Rightarrow> bool" where
  "plain_char c \<longleftrightarrow> 0x21 \<le> (of_char c :: nat) \<and> (of_char c :: nat) < 0x7F \<and> c \<noteq> CHR 0x22"

definition plain_line :: "string \<Rightarrow> bool" where
  "plain_line s \<longleftrightarrow> list_all (\<lambda>c. blank c \<or> plain_char c) s \<and> list_all (\<lambda>w. hd w \<noteq> CHR ''='') (words_from [] s)"

definition reads_params :: "(string \<Rightarrow> (string \<times> string option) list) \<Rightarrow> bool" where
  "reads_params seen \<longleftrightarrow> (\<forall>s. plain_line s \<longrightarrow> seen s = map param (words_from [] s))"

text \<open>The texts of the configuration that become arguments, without double quotes.\<close>

definition plain_config :: "fc_config \<Rightarrow> bool" where
  "plain_config c \<longleftrightarrow> visible_config c \<and> list_all (\<lambda>t. CHR 0x22 \<notin> set t)
     [fc_ip c, fc_gateway c, fc_netmask c, fc_uuid c, fc_fstype c, fc_lsm c, case fc_nocloud_url c of Some u \<Rightarrow> u | None \<Rightarrow> []]"

text \<open>
  What is left for a key that the program does not decide on: what the kernel would have found in
  the user's text (once, of a bare key; without it, if it is also given values), or the console.
\<close>

definition asked :: "(string \<Rightarrow> (string \<times> string option) list) \<Rightarrow> fc_config \<Rightarrow> string \<Rightarrow> (string \<times> string option) list" where
  "asked seen c k =
     (let u = filter (\<lambda>p. fst p = k) (seen (fc_boot_args c)); vs = filter (\<lambda>p. snd p \<noteq> None) u
      in if u = [] then (if k = ''console'' \<and> fc_console c then [(k, Some ''ttyS0'')] else [])
         else if vs = [] then [(k, None)] else vs)"

lemma plain_space: "plain_char c \<Longrightarrow> space_at (c # s) = None"
proof -
  assume c: "plain_char c"
  have "\<not> HasPrefix (c # s) p" if p: "p \<in> set spaces" for p
  proof
    assume "HasPrefix (c # s) p"
    moreover have "p \<noteq> []" using p no_empty_space by blast
    ultimately have "hd p = c" by (cases p) (auto simp: HasPrefix_def)
    with space_head [OF p] c show False by (simp add: plain_char_def)
  qed
  then show ?thesis by (simp add: space_at_def find_first_None)
qed

lemma blank_at: "blank c \<Longrightarrow> space_at (c # s) = Some [c]"
  unfolding blank_def by (elim disjE) (simp_all add: space_at_def spaces_def HasPrefix_def)

lemma blank_plain: "blank c \<Longrightarrow> \<not> plain_char c"
  by (auto simp: blank_def plain_char_def)

lemma fields_words: "list_all (\<lambda>c. blank c \<or> plain_char c) s \<Longrightarrow> fields_from acc s = words_from (rev acc) s"
proof (induction s arbitrary: acc)
  case (Cons c s)
  show ?case
  proof (cases "blank c")
    case True
    with Cons show ?thesis by (simp add: blank_at word_of_def)
  next
    case False
    with Cons show ?thesis by (simp add: plain_space)
  qed
qed (simp add: word_of_def)

lemma Fields_words: "list_all (\<lambda>c. blank c \<or> plain_char c) s \<Longrightarrow> Fields s = words_from [] s"
  by (simp add: Fields_def fields_words)

lemma param_Cut: "param w = (case Cut w (CHR ''='') of (k, v, found) \<Rightarrow> if found then (k, Some v) else (w, None))"
proof (induction w)
  case (Cons c w)
  then show ?case by (auto simp: param_def split: prod.splits if_splits)
qed (simp add: param_def)

lemma param_parts: "CHR ''='' \<notin> set k \<Longrightarrow> param (k @ CHR ''='' # v) = (k, Some v)" "CHR ''='' \<notin> set k \<Longrightarrow> param k = (k, None)"
  by (simp_all add: param_Cut Cut_key_value Cut_key_only)

text \<open>The parts of a builder under a key.\<close>

definition under :: "string \<Rightarrow> string list \<Rightarrow> (string \<times> string option) list" where
  "under k vs = (if vs = [] then [(k, None)] else map (\<lambda>v. (k, Some v)) vs)"

lemma params_entry: "entry_ok e \<Longrightarrow> map param (entry_parts e) = under (ba_key e) (ba_values e)"
  by (auto simp: entry_ok_def entry_parts_def under_def param_parts)

lemma under_key: "p \<in> set (under k vs) \<Longrightarrow> fst p = k"
  by (auto simp: under_def split: if_splits)

lemma params_under:
  "builder_ok b \<Longrightarrow> filter (\<lambda>p. fst p = k) (map param (parts b)) = (case arg b k of None \<Rightarrow> [] | Some vs \<Rightarrow> under k vs)"
proof (induction b)
  case (Cons e b)
  then have e: "entry_ok e" "builder_ok b" "ba_key e \<notin> ba_key ` set b" by (auto simp: builder_ok_def)
  have head: "filter (\<lambda>p. fst p = k) (under (ba_key e) (ba_values e)) = (if ba_key e = k then under (ba_key e) (ba_values e) else [])"
    using under_key by (auto simp: filter_empty_conv filter_id_conv)
  have "arg b (ba_key e) = None" using e(3) by (simp add: arg_None)
  with Cons.IH [OF e(2)] head show ?case by (auto simp: params_entry [OF e(1)] arg_def)
qed (simp add: arg_def)

text \<open>What parsing collects of the words of a line.\<close>

lemma arg_add: "arg (add_value b k v) k' = (if k' = k then Some ((case arg b k of None \<Rightarrow> [] | Some vs \<Rightarrow> vs) @ [v]) else arg b k')"
  by (induction b) (auto simp: arg_def)

lemma arg_new: "arg (b @ [e]) k = (case arg b k of Some vs \<Rightarrow> Some vs | None \<Rightarrow> if ba_key e = k then Some (ba_values e) else None)"
  by (induction b) (auto simp: arg_def)

lemma arg_parse:
  "arg (parse_arg b w) k = (case param w of (k', None) \<Rightarrow> if k = k' \<and> arg b k = None then Some [] else arg b k
     | (k', Some v) \<Rightarrow> if k = k' then Some ((case arg b k of None \<Rightarrow> [] | Some vs \<Rightarrow> vs) @ [v]) else arg b k)"
proof -
  obtain k' v f where cut: "Cut w (CHR ''='') = (k', v, f)" by (rule prod_cases3)
  have key: "w \<in> ba_key ` set b \<longleftrightarrow> arg b w \<noteq> None" by (simp add: arg_None)
  from cut show ?thesis
    by (cases f; cases "arg b k") (auto simp: parse_arg_eq param_Cut arg_add arg_new key)
qed

definition values_of :: "(string \<times> string option) list \<Rightarrow> string list" where
  "values_of ps = concat (map (\<lambda>p. case snd p of None \<Rightarrow> [] | Some v \<Rightarrow> [v]) ps)"

lemma arg_collects:
  "arg (foldl parse_arg [] ws) k = (let u = filter (\<lambda>p. fst p = k) (map param ws)
     in if u = [] then None else Some (values_of u))"
proof (induction ws rule: rev_induct)
  case (snoc w ws)
  then show ?case by (cases "param w") (auto simp: arg_parse values_of_def Let_def split: option.split)
qed (simp add: arg_def Let_def)

lemma under_values:
  assumes "\<forall>p \<in> set u. fst p = k" "u \<noteq> []"
  shows "under k (values_of u) = (let vs = filter (\<lambda>p. snd p \<noteq> None) u in if vs = [] then [(k, None)] else vs)"
proof -
  have v: "map (\<lambda>v. (k, Some v)) (values_of u) = filter (\<lambda>p. snd p \<noteq> None) u"
    using assms(1) by (induction u) (auto simp: values_of_def)
  then show ?thesis by (auto simp: under_def Let_def)
qed

lemma asked_under:
  assumes "reads_params seen" "plain_line (fc_boot_args c)"
  shows "asked seen c k = (case user_arg c k of None \<Rightarrow> [] | Some vs \<Rightarrow> under k vs)"
proof -
  have "Fields (fc_boot_args c) = words_from [] (fc_boot_args c)"
    using assms(2) by (intro Fields_words) (simp add: plain_line_def)
  with assms have seen: "seen (fc_boot_args c) = map param (Fields (fc_boot_args c))" by (simp add: reads_params_def)
  let ?u = "filter (\<lambda>p. fst p = k) (map param (Fields (fc_boot_args c)))"
  have u: "\<forall>p \<in> set ?u. fst p = k" by simp
  show ?thesis
    using under_values [OF u] unfolding asked_def user_arg_def parse_Fields arg_collects seen
    by (auto simp: Let_def under_def)
qed

lemma parts_arg: "builder_ok b \<Longrightarrow> w \<in> set (parts b) \<Longrightarrow>
    \<exists>k vs. arg b k = Some vs \<and> w \<in> set (entry_parts \<lparr>ba_key = k, ba_values = vs\<rparr>)"
proof (induction b)
  case (Cons e b)
  then have e: "builder_ok b" "ba_key e \<notin> ba_key ` set b" by (auto simp: builder_ok_def)
  show ?case
  proof (cases "w \<in> set (entry_parts e)")
    case True
    then show ?thesis by (intro exI [of _ "ba_key e"] exI [of _ "ba_values e"], cases e) (simp add: arg_def)
  next
    case False
    with Cons.IH [OF e(1)] Cons.prems(2) obtain k vs where k: "arg b k = Some vs" "w \<in> set (entry_parts \<lparr>ba_key = k, ba_values = vs\<rparr>)" by auto
    then have "k \<noteq> ba_key e" using e(2) by (metis arg_None option.distinct(1))
    with k show ?thesis by (intro exI [of _ k] exI [of _ vs]) (auto simp: arg_def)
  qed
qed simp

lemma arg_parts: "arg b k = Some vs \<Longrightarrow> w \<in> set (entry_parts \<lparr>ba_key = k, ba_values = vs\<rparr>) \<Longrightarrow> w \<in> set (parts b)"
  by (induction b) (auto simp: arg_def entry_parts_def split: if_splits)

definition plain_word :: "string \<Rightarrow> bool" where
  "plain_word w \<longleftrightarrow> list_all plain_char w \<and> w \<noteq> [] \<and> hd w \<noteq> CHR ''=''"

lemma visible_plain: "visible_text t \<Longrightarrow> CHR 0x22 \<notin> set t \<Longrightarrow> list_all plain_char t"
  by (auto simp: visible_text_def plain_char_def list_all_iff)

lemma forced_plain:
  assumes "plain_config c" "forced c k = Some v"
    "\<not> (fc_cloud_mode c = Some ''net'' \<and> \<not> given (fc_nocloud_url c))"
  shows "plain_word (k @ ''='' @ v)"
proof -
  have f: "list_all plain_char (fc_ip c)" "list_all plain_char (fc_gateway c)" "list_all plain_char (fc_netmask c)"
    "list_all plain_char (fc_uuid c)" "list_all plain_char (fc_fstype c)" "list_all plain_char (fc_lsm c)"
    "\<And>u. fc_nocloud_url c = Some u \<Longrightarrow> list_all plain_char u"
    using assms(1) by (auto simp: plain_config_def visible_config_def intro!: visible_plain)
  have ds: "list_all plain_char v" if "ds_arg c = Some v"
    using that assms(3) f(7) by (auto simp: ds_arg_def given_def defaultLibguestfsSeedDir_def plain_char_def split: if_splits)
  have ip: "list_all plain_char (ip_arg c)" using f(1-3) by (simp add: ip_arg_def plain_char_def)
  have "k = ''ds'' \<and> ds_arg c = Some v \<or> k = ''systemd.mask'' \<and> v = ''systemd-networkd-wait-online.service'' \<or>
    k = ''rootfstype'' \<and> v = fc_fstype c \<or> k = ''root'' \<and> (v = ''UUID='' @ fc_uuid c \<or> v = ''/dev/vda'') \<or>
    nested_arg c = Some k \<and> v = ''1'' \<or> k = ''lsm'' \<and> v = fc_lsm c \<or> k = ''ip'' \<and> v = ip_arg c \<or> k = ''pci'' \<and> v = ''off''"
    using assms(2) unfolding forced_def by (auto split: if_split_asm)
  moreover have "list_all plain_char k \<and> k \<noteq> [] \<and> hd k \<noteq> CHR ''=''" if "nested_arg c = Some k"
    using nested_keys [OF that] by (elim disjE) (simp_all add: plain_char_def)
  ultimately have "list_all plain_char k \<and> k \<noteq> [] \<and> hd k \<noteq> CHR ''='' \<and> list_all plain_char v"
    using f ip ds by (elim disjE conjE) (simp_all add: plain_char_def)
  then show ?thesis by (cases k) (auto simp: plain_word_def plain_char_def)
qed

lemma plain_words_from: "list_all (\<lambda>c. blank c \<or> plain_char c) s \<Longrightarrow> list_all plain_char acc \<Longrightarrow> w \<in> set (words_from acc s) \<Longrightarrow>
    list_all plain_char w \<and> w \<noteq> []"
proof (induction s arbitrary: acc)
  case (Cons c s)
  show ?case
  proof (cases "blank c")
    case True
    with Cons.prems Cons.IH [of "[]"] show ?thesis by (auto split: if_splits)
  next
    case False
    with Cons.prems Cons.IH [of "acc @ [c]"] show ?thesis by simp
  qed
qed (auto split: if_splits)

lemma joined_chars: "c \<in> set (Join ws '' '') \<Longrightarrow> c = CHR '' '' \<or> (\<exists>w \<in> set ws. c \<in> set w)"
  by (induction ws "'' ''" rule: Join.induct) auto

lemma plain_Join:
  assumes "\<And>w. w \<in> set ws \<Longrightarrow> plain_word w"
  shows "plain_line (Join ws '' '') \<and> words_from [] (Join ws '' '') = ws"
proof -
  have clean: "clean w" if "list_all plain_char w" for w
    using that by (induction w) (simp_all add: plain_space)
  have chars: "list_all (\<lambda>c. blank c \<or> plain_char c) (Join ws '' '')"
    using assms joined_chars [of _ ws] by (fastforce simp: list_all_iff blank_def plain_word_def)
  have "Fields (Join ws '' '') = ws" using assms clean by (intro Fields_Join) (auto simp: plain_word_def)
  with chars have "words_from [] (Join ws '' '') = ws" by (simp add: Fields_words)
  with chars assms show ?thesis by (auto simp: plain_line_def list_all_iff plain_word_def)
qed


text \<open>
  Why the user's text must not have quotes: \<open>a="x y" b="z y"\<close> is split into words, the second
  \<open>y"\<close> is taken for a repeated bare key and dropped, and the closing quote is gone.
\<close>

lemma Fields_visible: "\<forall>w \<in> set ws. visible_text w \<and> w \<noteq> [] \<Longrightarrow> Fields (Join ws '' '') = ws"
  by (rule Fields_Join) (blast intro: visible_clean)

lemma quoted_values_break:
  "join_args (parseFromString [] (''a='' @ [CHR 0x22] @ ''x y'' @ [CHR 0x22] @ '' b='' @ [CHR 0x22] @ ''z y'' @ [CHR 0x22])) =
     ''a='' @ [CHR 0x22] @ ''x y'' @ [CHR 0x22] @ '' b='' @ [CHR 0x22] @ ''z''"
proof -
  let ?ws = "[''a='' @ [CHR 0x22] @ ''x'', ''y'' @ [CHR 0x22], ''b='' @ [CHR 0x22] @ ''z'', ''y'' @ [CHR 0x22]]"
  have "Fields (Join ?ws '' '') = ?ws" by (rule Fields_visible) simp
  moreover have "join_args (foldl parse_arg [] ?ws) = ''a='' @ [CHR 0x22] @ ''x y'' @ [CHR 0x22] @ '' b='' @ [CHR 0x22] @ ''z''"
    by code_simp
  ultimately show ?thesis by (simp add: parse_Fields)
qed

subsection \<open>Devices\<close>

record machine_config =
  mc_vcpus :: int
  mc_mem :: int
  mc_smt :: bool
  mc_dirty :: bool

record iface_config =
  ic_id :: string
  ic_mac :: string
  ic_tap :: string

record logger_config =
  lg_path :: string
  lg_level :: string
  lg_show_level :: bool
  lg_show_origin :: bool

record fc_vm_config =
  fv_kernel :: string
  fv_boot_args :: string
  fv_drives :: "drive_config list"
  fv_ifaces :: "iface_config list"
  fv_machine :: machine_config
  fv_logger :: "logger_config option"
  fv_metrics :: "string option"
  fv_cpu :: "cpu_config option"
  fv_vsock :: "vsock_config option"

text \<open>
  \<open>filepath.Abs\<close> depends on the working directory and fails when that is gone; it is the
  parameter \<open>cwd\<close>, and the path is taken as it is when it fails.
\<close>

definition abs_path :: "(string \<Rightarrow> string option) \<Rightarrow> string \<Rightarrow> string" where
  "abs_path cwd p = (case cwd p of Some q \<Rightarrow> q | None \<Rightarrow> p)"

definition buildDrivesConfig :: "(string \<Rightarrow> string option) \<Rightarrow> fc_config \<Rightarrow> drive_config list" where
  "buildDrivesConfig cwd c =
     (let cache = (if fc_writeback c then ''Writeback'' else ''Unsafe'');
          root = \<lparr>dc_id = ''rootfs'', dc_path = abs_path cwd (fc_rootfs c), dc_root = True, dc_ro = False,
                  dc_cache = cache, dc_engine = ''Sync''\<rparr>;
          seed = (if cloud_on c \<and> given (fc_iso c)
            then [\<lparr>dc_id = ''cloud-init'', dc_path = abs_path cwd (the (fc_iso c)), dc_root = False, dc_ro = True,
                   dc_cache = ''Unsafe'', dc_engine = ''Sync''\<rparr>] else [])
      in root # seed @ fc_drives c)"

record volume =
  vo_id :: string
  vo_path :: string
  vo_ro :: bool
  vo_cache :: string

definition VolumesToDrives :: "volume option list \<Rightarrow> drive_config list" where
  "VolumesToDrives vs = concat (map (\<lambda>x. case x of None \<Rightarrow> []
     | Some v \<Rightarrow> [\<lparr>dc_id = vo_id v, dc_path = vo_path v, dc_root = False, dc_ro = vo_ro v,
         dc_cache = vo_cache v, dc_engine = ''Sync''\<rparr>]) vs)"

definition buildLoggerConfig :: "fc_config \<Rightarrow> logger_config" where
  "buildLoggerConfig c = \<lparr>lg_path = fc_log_path c, lg_level = fc_log_level c, lg_show_level = True, lg_show_origin = True\<rparr>"

definition buildCPUConfig :: "fc_config \<Rightarrow> cpu_config option" where
  "buildCPUConfig c = (case fc_cpu c of Some x \<Rightarrow> Some x
     | None \<Rightarrow> if fc_nested c then Some \<lparr>cc_kvm = [], cc_rest = ''''\<rparr> else None)"

definition buildNetworkConfig :: "fc_config \<Rightarrow> iface_config list" where
  "buildNetworkConfig c = [\<lparr>ic_id = ''eth0'', ic_mac = fc_mac c, ic_tap = fc_tap c\<rparr>]"

definition Generate :: "(string \<Rightarrow> string option) \<Rightarrow> fc_config \<Rightarrow> (err, fc_vm_config) res" where
  "Generate cwd c0 =
     (let c = (if fc_nested c0 then c0\<lparr>fc_pci := True\<rparr> else c0)
      in bind_res (buildBootArgs c) (\<lambda>args. Ok \<lparr>
           fv_kernel = fc_kernel c, fv_boot_args = args,
           fv_drives = buildDrivesConfig cwd c,
           fv_ifaces = buildNetworkConfig c,
           fv_machine = \<lparr>mc_vcpus = fc_vcpus c, mc_mem = fc_mem c, mc_smt = False, mc_dirty = False\<rparr>,
           fv_logger = (if fc_logging c then Some (buildLoggerConfig c) else None),
           fv_metrics = (if fc_metrics c then Some (fc_metrics_path c) else None),
           fv_cpu = buildCPUConfig c,
           fv_vsock = fc_vsock c\<rparr>))"

text \<open>
  C16: a generated configuration boots from exactly one device, the writable root disk, listed
  first; its drives have distinct names if the volumes do and none takes a reserved one; and
  under nested virtualisation PCI is not switched off, a disk without an identified file system
  is refused and CPU features are passed.
\<close>

theorem generated_config:
  assumes "Generate cwd c = Ok fv" "fc_drives c = VolumesToDrives vs" "visible_config c"
  shows "(\<exists>ds. fv_drives fv = ds \<and> filter dc_root ds = [hd ds] \<and> ds \<noteq> [] \<and> \<not> dc_ro (hd ds)) \<and>
    (distinct (map dc_id (fc_drives c)) \<and> {''rootfs'', ''cloud-init''} \<inter> dc_id ` set (fc_drives c) = {} \<longrightarrow>
       distinct (map dc_id (fv_drives fv))) \<and>
    (fc_nested c \<longrightarrow> fc_uuid c \<noteq> '''' \<and> fv_cpu fv \<noteq> None \<and>
       arg (parseFromString [] (fv_boot_args fv)) ''pci'' = arg (parseFromString [] (fc_boot_args c)) ''pci'')"
proof -
  let ?c = "if fc_nested c then c\<lparr>fc_pci := True\<rparr> else c"
  from assms(1) obtain s where s: "buildBootArgs ?c = Ok s"
    and fv: "fv_drives fv = buildDrivesConfig cwd ?c" "fv_cpu fv = buildCPUConfig ?c" "fv_boot_args fv = s"
    unfolding Generate_def Let_def bind_res_eq_Ok by (elim exE conjE) (auto simp del: if_cong)
  have "filter dc_root (fc_drives c) = []" unfolding assms(2) VolumesToDrives_def
    by (auto simp: filter_empty_conv split: option.splits)
  then have drives: "filter dc_root (fv_drives fv) = [hd (fv_drives fv)]" "fv_drives fv \<noteq> []" "\<not> dc_ro (hd (fv_drives fv))"
    unfolding fv(1) by (auto simp: buildDrivesConfig_def Let_def)
  have names: "distinct (map dc_id (fv_drives fv))"
    if "distinct (map dc_id (fc_drives c))" "{''rootfs'', ''cloud-init''} \<inter> dc_id ` set (fc_drives c) = {}"
    using that unfolding fv(1) by (auto simp: buildDrivesConfig_def Let_def)
  have nested: "fc_uuid c \<noteq> '''' \<and> fv_cpu fv \<noteq> None \<and>
       arg (parseFromString [] (fv_boot_args fv)) ''pci'' = arg (parseFromString [] (fc_boot_args c)) ''pci''" if "fc_nested c"
  proof -
    have "visible_config ?c" using assms(3) by (simp add: visible_config_def)
    from boot_args_built [OF this, unfolded s] that nested_keys [of ?c "''pci''"]
    show ?thesis unfolding fv(2,3) by (auto simp: forced_def user_arg_def Let_def buildCPUConfig_def split: option.split)
  qed
  from drives names nested show ?thesis by blast
qed

subsection \<open>A machine to try them on\<close>

definition demo_fc :: fc_config where
  "demo_fc = \<lparr>fc_rootfs = ''rootfs.ext4'', fc_kernel = ''vmlinux'', fc_vcpus = 2, fc_mem = 512, fc_ip = ''10.0.0.2'',
     fc_mac = ''02:fc:00:00:00:01'', fc_tap = ''mvm-tap'', fc_gateway = ''10.0.0.1'', fc_netmask = ''255.255.255.0'',
     fc_uuid = ''c0ffee'', fc_fstype = ''ext4'', fc_boot_args = ''quiet root=/dev/sda'', fc_lsm = '''', fc_pci = False,
     fc_nested = False, fc_console = True, fc_logging = False, fc_metrics = False, fc_log_level = ''Info'', fc_log_path = ''l'',
     fc_metrics_path = ''m'', fc_cloud_mode = Some ''net'', fc_iso = None, fc_nocloud_url = Some ''http://10.0.0.1:8080/'',
     fc_cpu = None, fc_vendor = None, fc_arch = None, fc_drives = [], fc_writeback = False, fc_vsock = None\<rparr>"

lemma demo_visible: "visible_config demo_fc"
  by (simp add: visible_config_def demo_fc_def)

lemma demo_fc_sel [simp]: "fc_pci demo_fc = False" "fc_nested demo_fc = False" "fc_cloud_mode demo_fc = Some ''net''"
  "fc_nocloud_url demo_fc = Some ''http://10.0.0.1:8080/''" "fc_uuid demo_fc = ''c0ffee''" "fc_drives demo_fc = []"
  by (simp_all add: demo_fc_def)


theorem generated_config_witness:
  "\<exists>fv. Generate Some demo_fc = Ok fv \<and> filter dc_root (fv_drives fv) = [hd (fv_drives fv)]"
proof -
  have "buildBootArgs demo_fc = Ok (join_args (projr (boot_entries demo_fc)))"
    by (simp add: buildBootArgs_def boot_entries_def Let_def cloud_args_eq given_def split: option.split)
  then obtain fv where "Generate Some demo_fc = Ok fv" by (simp add: Generate_def)
  with generated_config [OF this, of "[]"] demo_visible show ?thesis by (auto simp: VolumesToDrives_def)
qed

end
