(* ===== verification/Drives.thy ===== *)
theory Drives
  imports BootConfig "HOL-Library.AList"
begin

text \<open>
  Drives plugged into and out of a running machine: the edits of the configuration file by
  \<open>FirecrackerConfigManager\<close> (\<open>internal/core/vm/firecracker.go\<close>) and the controller methods
  AttachVolume and DetachVolume (\<open>internal/core/vm/controller.go\<close>) that pair them with the
  requests.
\<close>

subsection \<open>The list of drives in a configuration file\<close>

text \<open>Sections of the file by name; a section that is not a list counts as no drives.\<close>

type_synonym document = "(string \<times> json) list"

definition drives_of :: "document \<Rightarrow> json list" where
  "drives_of cfg = (case map_of cfg ''drives'' of Some (JArr ds) \<Rightarrow> ds | _ \<Rightarrow> [])"

definition has_id :: "string \<Rightarrow> json \<Rightarrow> bool" where
  "has_id i d = (case d of JObj fs \<Rightarrow> map_of fs ''drive_id'' = Some (JStr i) | _ \<Rightarrow> False)"

definition drive_json :: "drive_config \<Rightarrow> json" where
  "drive_json d = JObj [(''drive_id'', JStr (dc_id d)), (''path_on_host'', JStr (dc_path d)),
     (''is_root_device'', JBool (dc_root d)), (''is_read_only'', JBool (dc_ro d)),
     (''cache_type'', JStr (dc_cache d)), (''io_engine'', JStr (dc_engine d))]"

fun put_drive :: "drive_config \<Rightarrow> json list \<Rightarrow> json list" where
  "put_drive d [] = [drive_json d]"
| "put_drive d (x # xs) = (if has_id (dc_id d) x then drive_json d # xs else x # put_drive d xs)"

text \<open>A Go slice that nothing was appended to is nil, and is written as null.\<close>

definition slice_json :: "json list \<Rightarrow> json" where
  "slice_json ds = (if ds = [] then JNull else JArr ds)"

definition load_config :: "string \<Rightarrow> document io" where
  "load_config path = bind_prog (look (\<lambda>w. w_files w path)) (\<lambda>f. case f of
     Absent \<Rightarrow> ret [(''drives'', JArr [])] | Unreadable e \<Rightarrow> throw e | Document cfg \<Rightarrow> ret cfg)"

definition save_config :: "string \<Rightarrow> document \<Rightarrow> unit io" where
  "save_config path cfg = exec (\<lambda>now w. w\<lparr>w_files := (w_files w)(path := Document cfg)\<rparr>)"

definition AddDrive :: "string \<Rightarrow> drive_config \<Rightarrow> unit io" where
  "AddDrive path d = bind_prog (load_config path) (\<lambda>cfg.
     save_config path (AList.update ''drives'' (JArr (put_drive d (drives_of cfg))) cfg))"

definition RemoveDrive :: "string \<Rightarrow> string \<Rightarrow> bool io" where
  "RemoveDrive path i = bind_prog (load_config path) (\<lambda>cfg.
     let ds = drives_of cfg; rest = filter (\<lambda>d. \<not> has_id i d) ds
     in if length rest < length ds
        then bind_prog (save_config path (AList.update ''drives'' (slice_json rest) cfg)) (\<lambda>_. ret True)
        else ret False)"

definition AttachVolume :: "vm \<Rightarrow> drive_config \<Rightarrow> unit io" where
  "AttachVolume v d = bind_prog (PutDrive d) (\<lambda>_. AddDrive (v_config v) d)"

definition DetachVolume :: "vm \<Rightarrow> string \<Rightarrow> unit io" where
  "DetachVolume v i = bind_prog (DeleteDrive i) (\<lambda>_. bind_prog (RemoveDrive (v_config v) i) (\<lambda>_. ret ()))"

subsection \<open>Edits of the list\<close>

lemma has_id_drive [simp]: "has_id i (drive_json d) \<longleftrightarrow> i = dc_id d"
  by (auto simp: has_id_def drive_json_def)

lemma drives_of_update [simp]:
  "drives_of (AList.update ''drives'' (JArr ds) cfg) = ds"
  "drives_of (AList.update ''drives'' (slice_json ds) cfg) = ds"
  by (simp_all add: drives_of_def update_conv' slice_json_def)

lemma other_sections: "k \<noteq> ''drives'' \<Longrightarrow> map_of (AList.update ''drives'' j cfg) k = map_of cfg k"
  by (simp add: update_conv')

lemma put_drive_new: "\<not> list_ex (has_id (dc_id d)) ds \<Longrightarrow> put_drive d ds = ds @ [drive_json d]"
  by (induction ds) auto

lemma put_drive_once: "put_drive d (put_drive d ds) = put_drive d ds"
  by (induction ds) auto

lemma put_drive_others: "i \<noteq> dc_id d \<Longrightarrow> filter (has_id i) (put_drive d ds) = filter (has_id i) ds"
proof (induction ds)
  case (Cons x ds)
  have "has_id (dc_id d) x \<Longrightarrow> \<not> has_id i x" using Cons.prems by (auto simp: has_id_def split: json.splits)
  with Cons show ?case by simp
qed simp

lemma remove_put: "filter (\<lambda>x. \<not> has_id (dc_id d) x) (put_drive d ds) = filter (\<lambda>x. \<not> has_id (dc_id d) x) ds"
  by (induction ds) auto

text \<open>The drives a file lists: none if it is missing.\<close>

definition listed :: "config_file \<Rightarrow> json list option" where
  "listed f = (case f of Absent \<Rightarrow> Some [] | Unreadable e \<Rightarrow> None | Document cfg \<Rightarrow> Some (drives_of cfg))"

lemma listed_load:
  assumes "quiet E" "listed (w_files w path) = Some ds"
  obtains cfg where "load_config path E (w, n) = (Ok cfg, w, Suc n)" "drives_of cfg = ds"
    and "\<And>k. k \<noteq> ''drives'' \<Longrightarrow> map_of cfg k = (case w_files w path of Document c \<Rightarrow> map_of c k | _ \<Rightarrow> None)"
proof (cases "w_files w path")
  case Absent
  show ?thesis
    by (rule that [of "[(''drives'', JArr [])]"])
      (use assms Absent in \<open>simp_all add: load_config_def look_def bind_run host_quiet ret_def listed_def drives_of_def\<close>)
next
  case (Unreadable e)
  with assms(2) show ?thesis by (simp add: listed_def)
next
  case (Document cfg)
  show ?thesis
    by (rule that [of cfg])
      (use assms Document in \<open>simp_all add: load_config_def look_def bind_run host_quiet ret_def listed_def\<close>)
qed

subsection \<open>Plugging in and out\<close>

interpretation files_view: request_view w_files
  by unfold_locales simp_all

interpretation http_view: request_view w_http
  by unfold_locales simp_all

lemma expect_run:
  assumes "quiet E" "expect oks msg b c E (w, n) = (a, w1, n1)"
  shows "w_files w1 = w_files w" "w_http w1 = w_http w" "is_ok a \<longleftrightarrow> answered oks (w_http w c)"
proof -
  have files: "\<And>n w. w_files (e_step E n w) = w_files w" and http: "\<And>n w. w_http (e_step E n w) = w_http w"
    using assms(1) by (simp_all add: quiet_def)
  show "w_files w1 = w_files w"
    by (rule postD [OF blind_post [OF files_view.blind_expect, where Q = "\<lambda>_ x. x = w_files w"] files disjI1 [OF TrueI] refl assms(2)]) simp
  show "w_http w1 = w_http w"
    by (rule postD [OF blind_post [OF http_view.blind_expect, where Q = "\<lambda>_ x. x = w_http w"] http disjI1 [OF TrueI] refl assms(2)]) simp
  show "is_ok a \<longleftrightarrow> answered oks (w_http w c)"
    using expect_quiet [OF assms(1), of oks msg b c w n] assms(2) by simp
qed

lemma AddDrive_run:
  assumes "quiet E" "listed (w_files w path) = Some ds" "AddDrive path d E (w, n) = (r, w', n')"
  shows "is_ok r" "listed (w_files w' path) = Some (put_drive d ds)" "w_http w' = w_http w"
proof -
  from listed_load [OF assms(1,2), of n] obtain cfg
    where "load_config path E (w, n) = (Ok cfg, w, Suc n)" "drives_of cfg = ds" by metis
  with assms show "is_ok r" "listed (w_files w' path) = Some (put_drive d ds)" "w_http w' = w_http w"
    by (auto simp: AddDrive_def bind_run save_config_def exec_quiet listed_def)
qed

lemma RemoveDrive_run:
  assumes "quiet E" "listed (w_files w path) = Some ds" "RemoveDrive path i E (w, n) = (r, w', n')"
  shows "r = Ok (list_ex (has_id i) ds)" "listed (w_files w' path) = Some (filter (\<lambda>d. \<not> has_id i d) ds)" "w_http w' = w_http w"
proof -
  from listed_load [OF assms(1,2), of n] obtain cfg
    where load: "load_config path E (w, n) = (Ok cfg, w, Suc n)" "drives_of cfg = ds" by metis
  have shorter: "length (filter (\<lambda>d. \<not> has_id i d) ds) < length ds \<longleftrightarrow> list_ex (has_id i) ds"
    using length_filter_less [of _ ds "\<lambda>d. \<not> has_id i d"] by (auto simp: list_ex_iff) (metis filter_True less_irrefl)
  have same: "filter (\<lambda>d. \<not> has_id i d) ds = ds" if "\<not> list_ex (has_id i) ds"
    using that by (auto simp: list_ex_iff filter_id_conv)
  show "r = Ok (list_ex (has_id i) ds)" "listed (w_files w' path) = Some (filter (\<lambda>d. \<not> has_id i d) ds)" "w_http w' = w_http w"
    using assms load shorter same
    by (auto simp: RemoveDrive_def bind_run save_config_def exec_quiet ret_def Let_def split: if_splits)
      (auto simp: listed_def)
qed

text \<open>
  Plugging a new drive in lists it in the configuration exactly when the API took it, and
  plugging it out again restores the list exactly when the API let it go; a refused request
  leaves the file as it was.
\<close>

lemma attach_detach:
  assumes "quiet E" "listed (w_files w (v_config v)) = Some ds" "\<not> list_ex (has_id (dc_id d)) ds"
    and "AttachVolume v d E (w, n) = (r, w1, n1)" "DetachVolume v (dc_id d) E (w1, n1) = (r', w2, n2)"
  shows "(is_ok r \<longleftrightarrow> answered [200, 204] (w_http w (PutDriveCall d))) \<and>
    listed (w_files w1 (v_config v)) = Some (if is_ok r then ds @ [drive_json d] else ds) \<and>
    (is_ok r' \<longleftrightarrow> answered [204] (w_http w (DeleteDriveCall (dc_id d)))) \<and>
    listed (w_files w2 (v_config v)) = Some (if is_ok r \<and> \<not> is_ok r' then ds @ [drive_json d] else ds)"
proof -
  let ?path = "v_config v" and ?i = "dc_id d"
  have new: "put_drive d ds = ds @ [drive_json d]" using assms(3) by (rule put_drive_new)
  have old: "filter (\<lambda>x. \<not> has_id ?i x) ds = ds" using assms(3) by (auto simp: list_ex_iff filter_id_conv)
  obtain a wa na where put: "PutDrive d E (w, n) = (a, wa, na)" by (rule prod_cases3)
  note put_facts = expect_run [OF assms(1) put [unfolded PutDrive_def]]
  have first: "(is_ok r \<longleftrightarrow> answered [200, 204] (w_http w (PutDriveCall d))) \<and> w_http w1 = w_http w \<and>
      listed (w_files w1 ?path) = Some (if is_ok r then ds @ [drive_json d] else ds)"
  proof (cases a)
    case (Inl e)
    with put put_facts assms(2,4) show ?thesis by (auto simp: AttachVolume_def bind_run)
  next
    case (Inr u)
    with put assms(4) have "AddDrive ?path d E (wa, na) = (r, w1, n1)" by (simp add: AttachVolume_def bind_run)
    with AddDrive_run [OF assms(1) _ this, of ds] put_facts assms(2) Inr show ?thesis by (simp add: new)
  qed
  then have mid: "listed (w_files w1 ?path) = Some (if is_ok r then ds @ [drive_json d] else ds)" by simp
  obtain b wb nb where del: "DeleteDrive ?i E (w1, n1) = (b, wb, nb)" by (rule prod_cases3)
  note del_facts = expect_run [OF assms(1) del [unfolded DeleteDrive_def]]
  have second: "(is_ok r' \<longleftrightarrow> answered [204] (w_http w (DeleteDriveCall ?i))) \<and>
      listed (w_files w2 ?path) = Some (if is_ok r \<and> \<not> is_ok r' then ds @ [drive_json d] else ds)"
  proof (cases b)
    case (Inl e)
    with del del_facts assms(5) mid first show ?thesis by (auto simp: DetachVolume_def bind_run)
  next
    case (Inr u)
    obtain c wc nc where rm: "RemoveDrive ?path ?i E (wb, nb) = (c, wc, nc)" by (rule prod_cases3)
    note rm_facts = RemoveDrive_run [OF assms(1) _ rm, of "if is_ok r then ds @ [drive_json d] else ds"]
    show ?thesis using del Inr rm rm_facts del_facts assms(5) mid first old
      by (auto simp: DetachVolume_def bind_run ret_def)
  qed
  from first second show ?thesis by blast
qed

text \<open>A machine without a configuration file, and an interface that accepts everything.\<close>

definition demo_drive :: drive_config where
  "demo_drive = \<lparr>dc_id = ''data'', dc_path = ''/d.img'', dc_root = False, dc_ro = False, dc_cache = ''Unsafe'', dc_engine = ''Sync''\<rparr>"

lemma attach_detach_witness:
  "listed (w_files (fst (snd (AttachVolume front demo_drive calm (front_at Running, 0)))) (v_config front)) = Some [drive_json demo_drive]"
proof -
  have files: "listed (w_files (front_at Running) (v_config front)) = Some []"
    by (simp add: front_at_def demo_world_def listed_def)
  have "answered [200, 204] (w_http (front_at Running) (PutDriveCall demo_drive))"
    by (simp add: front_at_def demo_world_def answered_def)
  with attach_detach [OF quiet_calm files _ prod_eq_triple prod_eq_triple, of demo_drive 0] show ?thesis by auto
qed

end
