(* ===== verification/Spawning.thy ===== *)
theory Spawning
  imports GoStrings
begin

text \<open>
  Starting Firecracker (\<open>FirecrackerSpawner\<close> of \<open>internal/core/vm/firecracker.go\<close>) as a job that asks
  the host for one thing at a time. The host may answer every call in every way: the stale socket
  that cannot be removed, the log file that cannot be opened, the process that dies at once, the
  socket that never listens. What a run leaves behind is read off its trace of calls and answers.
\<close>

subsection \<open>Calls of the host\<close>

datatype answer = Fine | Refused string | Missing | Num int

fun err_of :: "answer \<Rightarrow> string option" where
  "err_of (Refused e) = Some e"
| "err_of Missing = Some ''no such file or directory''"
| "err_of _ = None"

fun num_of :: "answer \<Rightarrow> int option" where
  "num_of (Num n) = Some n"
| "num_of _ = None"

text \<open>
  \<open>AdoptRelay\<close> is \<open>os.NewFile\<close> on the console's descriptor; \<open>WaitForSocket\<close> looks for the socket for at
  most 100 ms, \<open>ReadStartTime\<close> reads \<open>/proc\<close> and \<open>WritePIDFile\<close> opens, locks and writes a file, each of
  them with any answer at all.
\<close>

datatype host_call =
    StatSocket | RemoveSocket | AdoptRelay nat | OpenSerial | OpenLog | StartProcess "string list"
  | CloseRelay | WaitForSocket | Dial | SignalZero | WaitChild | KillChild | CloseLog | CloseSerial
  | ReadStartTime int | WritePIDFile string int

datatype 'r job = Return 'r | Ask host_call "answer \<Rightarrow> 'r job"

primrec and_then :: "'r job \<Rightarrow> ('r \<Rightarrow> 's job) \<Rightarrow> 's job" where
  "and_then (Return r) f = f r"
| "and_then (Ask c k) f = Ask c (\<lambda>a. and_then (k a) f)"

type_synonym trace = "(host_call \<times> answer) list"

primrec runs :: "'r job \<Rightarrow> trace \<Rightarrow> 'r \<Rightarrow> bool" where
  "runs (Return r) = (\<lambda>tr x. tr = [] \<and> x = r)"
| "runs (Ask c k) = (\<lambda>tr x. case tr of [] \<Rightarrow> False | y # tr' \<Rightarrow> fst y = c \<and> runs (k (snd y)) tr' x)"

lemma runs_Ask [simp]: "runs (Ask c k) tr x \<longleftrightarrow> (\<exists>a tr'. tr = (c, a) # tr' \<and> runs (k a) tr' x)"
  by (cases tr) auto

declare runs.simps(2) [simp del]

lemma runs_then [simp]: "runs (and_then t f) tr x \<longleftrightarrow> (\<exists>tr1 tr2 r. tr = tr1 @ tr2 \<and> runs t tr1 r \<and> runs (f r) tr2 x)"
proof (induction t arbitrary: tr)
  case (Ask c k)
  then show ?case by (auto simp: Cons_eq_append_conv) blast+
qed auto

subsection \<open>What a run holds\<close>

text \<open>
  The running process, its entry in the process table until it is waited for, and the open files.
  A call that fails takes nothing; one that gives something up is made once, and its error is
  ignored or only logged, so the call itself counts.
\<close>

datatype holding = Running | Entry | LogFile | SerialFile | RelayFile

fun grasp :: "host_call \<Rightarrow> answer \<Rightarrow> holding set \<Rightarrow> holding set" where
  "grasp (StartProcess args) a H = (if num_of a = None then H else {Running, Entry} \<union> H)"
| "grasp KillChild a H = H - {Running}"
| "grasp WaitChild a H = H - {Entry}"
| "grasp OpenLog a H = (if err_of a = None then insert LogFile H else H)"
| "grasp CloseLog a H = H - {LogFile}"
| "grasp OpenSerial a H = (if err_of a = None then insert SerialFile H else H)"
| "grasp CloseSerial a H = H - {SerialFile}"
| "grasp (AdoptRelay fd) a H = insert RelayFile H"
| "grasp CloseRelay a H = H - {RelayFile}"
| "grasp _ a H = H"

definition held :: "holding set \<Rightarrow> trace \<Rightarrow> holding set" where
  "held H tr = fold (\<lambda>(c, a). grasp c a) tr H"

lemma held_Nil [simp]: "held H [] = H" and held_Cons [simp]: "held H ((c, a) # tr) = held (grasp c a H) tr"
  and held_append [simp]: "held H (tr @ tr') = held (held H tr) tr'"
  by (simp_all add: held_def)

definition times_asked :: "host_call \<Rightarrow> trace \<Rightarrow> nat" where
  "times_asked c tr = length (filter (\<lambda>(d, a). d = c) tr)"

lemma times_asked_simps [simp]: "times_asked c [] = 0" "times_asked c ((d, a) # tr) = (if d = c then 1 else 0) + times_asked c tr"
  "times_asked c (tr @ tr') = times_asked c tr + times_asked c tr'"
  by (simp_all add: times_asked_def)

text \<open>The process is looked for, signalled and waited for only once it has been started.\<close>

fun child_known :: "bool \<Rightarrow> trace \<Rightarrow> bool" where
  "child_known b [] \<longleftrightarrow> True"
| "child_known b ((c, a) # tr) \<longleftrightarrow> (c \<in> {WaitForSocket, Dial, SignalZero, KillChild, WaitChild} \<longrightarrow> b) \<and>
     child_known (b \<or> (\<exists>args. c = StartProcess args) \<and> num_of a \<noteq> None) tr"

lemma child_known_append: "child_known b tr \<Longrightarrow> child_known True tr' \<Longrightarrow> b \<Longrightarrow> child_known b (tr @ tr')"
  by (induction b tr rule: child_known.induct) auto

subsection \<open>The spawner\<close>

record spawn_config =
  sc_binary :: string
  sc_config_path :: string
  sc_socket :: string
  sc_pid_path :: string
  sc_pci :: bool
  sc_snapshot :: bool
  sc_relay_fd :: "nat option"

record spawner =
  sp_pid :: "int option"
  sp_start :: "int option"
  sp_log :: bool
  sp_serial :: bool

definition NewFirecrackerSpawner :: spawner where
  "NewFirecrackerSpawner = \<lparr>sp_pid = None, sp_start = None, sp_log = False, sp_serial = False\<rparr>"

definition CloseFilePointers :: "spawner \<Rightarrow> spawner job" where
  "CloseFilePointers s = and_then
     (if sp_log s then Ask CloseLog (\<lambda>_. Return (s\<lparr>sp_log := False\<rparr>)) else Return s)
     (\<lambda>s. if sp_serial s then Ask CloseSerial (\<lambda>_. Return (s\<lparr>sp_serial := False\<rparr>)) else Return s)"

definition Cleanup :: "spawner \<Rightarrow> spawner job" where
  "Cleanup s = CloseFilePointers s"

text \<open>\<open>relayFile\<close> is set, and then it is closed.\<close>

definition close_relay :: "bool \<Rightarrow> unit job" where
  "close_relay relay = (if relay then Ask CloseRelay (\<lambda>_. Return ()) else Return ())"

text \<open>The deferred part of \<open>Spawn\<close>, when it returns an error.\<close>

definition give_up :: "bool \<Rightarrow> bool \<Rightarrow> spawner \<Rightarrow> string \<Rightarrow> (string option \<times> spawner) job" where
  "give_up started relay s e = and_then
     (if started then Ask KillChild (\<lambda>_. Ask WaitChild (\<lambda>_. Return ())) else Return ())
     (\<lambda>_. and_then (close_relay relay)
     (\<lambda>_. and_then (Cleanup s) (\<lambda>s. Return (Some e, s))))"

definition connect :: "spawn_config \<Rightarrow> int \<Rightarrow> spawner \<Rightarrow> (string option \<times> spawner) job" where
  "connect c pid s = Ask Dial (\<lambda>d. case err_of d of
     Some e \<Rightarrow> give_up True False s (''firecracker API socket not accepting connections after 4s: '' @ e)
   | None \<Rightarrow> and_then (CloseFilePointers s) (\<lambda>s. Ask (ReadStartTime pid) (\<lambda>t.
       Ask (WritePIDFile (sc_pid_path c) pid) (\<lambda>_. Return (None, s\<lparr>sp_pid := Some pid, sp_start := num_of t\<rparr>)))))"

definition verify :: "spawn_config \<Rightarrow> int \<Rightarrow> spawner \<Rightarrow> (string option \<times> spawner) job" where
  "verify c pid s = Ask StatSocket (\<lambda>a. if a = Missing
     then give_up True False s ''firecracker API socket not available after 4s''
     else connect c pid s)"

definition exited_early :: "spawner \<Rightarrow> (string option \<times> spawner) job" where
  "exited_early s = Ask WaitChild (\<lambda>w. give_up True False s (''firecracker process exited immediately with code '' @
     Itoa (case num_of w of Some n \<Rightarrow> n | None \<Rightarrow> -1)))"

text \<open>A round of the loop goes on only when the process is still there.\<close>

definition still_there :: "spawner \<Rightarrow> (string option \<times> spawner) job \<Rightarrow> (string option \<times> spawner) job" where
  "still_there s next = Ask SignalZero (\<lambda>a. if err_of a = None then next else exited_early s)"

primrec poll :: "nat \<Rightarrow> spawn_config \<Rightarrow> int \<Rightarrow> spawner \<Rightarrow> (string option \<times> spawner) job" where
  "poll 0 c pid s = verify c pid s"
| "poll (Suc n) c pid s = Ask WaitForSocket (\<lambda>a. if err_of a = None
     then Ask Dial (\<lambda>d. if err_of d = None then verify c pid s else still_there s (poll n c pid s))
     else still_there s (poll n c pid s))"

definition fcCmd :: "spawn_config \<Rightarrow> string list" where
  "fcCmd c = [sc_binary c, ''--api-sock'', sc_socket c] @ (if sc_pci c then [''--enable-pci''] else []) @
     (if \<not> sc_snapshot c then [''--config-file'', sc_config_path c] else [])"

text \<open>A start that succeeds answers with the number of the process.\<close>

definition start_child :: "spawn_config \<Rightarrow> bool \<Rightarrow> spawner \<Rightarrow> (string option \<times> spawner) job" where
  "start_child c relay s = Ask (StartProcess (fcCmd c)) (\<lambda>a. case num_of a of
     None \<Rightarrow> give_up False relay s (case err_of a of Some e \<Rightarrow> e | None \<Rightarrow> [])
   | Some pid \<Rightarrow> and_then (close_relay relay) (\<lambda>_. poll 150 c pid s))"

definition open_log :: "spawn_config \<Rightarrow> bool \<Rightarrow> spawner \<Rightarrow> (string option \<times> spawner) job" where
  "open_log c relay s = Ask OpenLog (\<lambda>a. case err_of a of
     Some e \<Rightarrow> give_up False relay (s\<lparr>sp_log := False\<rparr>) e
   | None \<Rightarrow> start_child c relay (s\<lparr>sp_log := True\<rparr>))"

definition open_output :: "spawn_config \<Rightarrow> spawner \<Rightarrow> (string option \<times> spawner) job" where
  "open_output c s = (case if sc_snapshot c then None else sc_relay_fd c of
     Some fd \<Rightarrow> if fd = 0 then give_up False False s ''console enabled but PTY client FD is unavailable''
       else Ask (AdoptRelay fd) (\<lambda>_. open_log c True s)
   | None \<Rightarrow> Ask OpenSerial (\<lambda>a. case err_of a of
       Some e \<Rightarrow> give_up False False (s\<lparr>sp_serial := False\<rparr>) e
     | None \<Rightarrow> open_log c False (s\<lparr>sp_serial := True\<rparr>)))"

definition Spawn :: "spawn_config \<Rightarrow> spawner \<Rightarrow> (string option \<times> spawner) job" where
  "Spawn c s = Ask StatSocket (\<lambda>a. if err_of a = None
     then Ask RemoveSocket (\<lambda>b. case err_of b of
       Some e \<Rightarrow> give_up False False s (''remove stale api socket '' @ sc_socket c @ '': '' @ e)
     | None \<Rightarrow> open_output c s)
     else open_output c s)"


subsection \<open>What every run of it leaves\<close>

text \<open>The spawner after its files are closed, and the files closed on the way.\<close>

abbreviation closed :: "spawner \<Rightarrow> spawner" where
  "closed s \<equiv> s\<lparr>sp_log := False, sp_serial := False\<rparr>"

abbreviation files_of :: "spawner \<Rightarrow> holding set" where
  "files_of s \<equiv> (if sp_log s then {LogFile} else {}) \<union> (if sp_serial s then {SerialFile} else {})"

lemma close_runs [simp]:
  "runs (CloseFilePointers s) tr r \<longleftrightarrow> r = closed s \<and> map fst tr = (if sp_log s then [CloseLog] else []) @ (if sp_serial s then [CloseSerial] else [])"
  by (cases s) (auto simp: CloseFilePointers_def map_eq_Cons_conv map_eq_append_conv Cons_eq_map_conv)

lemma close_relay_runs [simp]: "runs (close_relay b) tr r \<longleftrightarrow> map fst tr = (if b then [CloseRelay] else [])"
  by (auto simp: close_relay_def map_eq_Cons_conv)

text \<open>
  How a run ends from where it holds \<open>H\<close>: with the process \<open>pid\<close> running, reached through its socket
  and written down, or with an error and nothing held.
\<close>

definition settled :: "spawn_config \<Rightarrow> int option \<Rightarrow> holding set \<Rightarrow> trace \<Rightarrow> string option \<times> spawner \<Rightarrow> bool" where
  "settled c p H tr r \<longleftrightarrow> \<not> sp_log (snd r) \<and> \<not> sp_serial (snd r) \<and> (case fst r of
     Some e \<Rightarrow> held H tr = {} \<and> sp_pid (snd r) = None
   | None \<Rightarrow> held H tr = {Running, Entry} \<and> p \<noteq> None \<and> sp_pid (snd r) = p
       \<and> times_asked (WritePIDFile (sc_pid_path c) (the p)) tr = 1
       \<and> (\<exists>a. map_of (rev tr) Dial = Some a \<and> err_of a = None))"

text \<open>What a run is allowed to ask for: at most \<open>n\<close> looks at a process, and no process, no descriptor of its own.\<close>

definition modest :: "bool \<Rightarrow> nat \<Rightarrow> nat \<Rightarrow> trace \<Rightarrow> bool" where
  "modest started relay n tr \<longleftrightarrow> child_known started tr \<and> times_asked SignalZero tr \<le> n \<and> times_asked CloseRelay tr = relay
     \<and> (\<forall>x \<in> set tr. \<forall>args fd. fst x \<noteq> StartProcess args \<and> fst x \<noteq> AdoptRelay fd)"

lemma settled_later:
  assumes "settled c p (held H tr) tr' r" "\<And>pid. times_asked (WritePIDFile (sc_pid_path c) pid) tr = 0"
  shows "settled c p H (tr @ tr') r"
  using assms by (auto simp: settled_def map_add_Some_iff split: option.splits)

lemma settled_step:
  assumes "settled c p (grasp d a H) tr' r" "\<forall>pid. d \<noteq> WritePIDFile (sc_pid_path c) pid"
  shows "settled c p H ((d, a) # tr') r"
  using assms settled_later [of c p H "[(d, a)]" tr' r] by simp

lemma gives_up:
  assumes "runs (give_up started relay s e) tr r" "sp_pid s = None"
    "H \<subseteq> (if started then {Running, Entry} else {}) \<union> (if relay then {RelayFile} else {}) \<union> files_of s"
  shows "settled c p H tr r \<and> modest started (if relay then 1 else 0) 0 tr"
proof -
  from assms(1) have "map fst tr = (if started then [KillChild, WaitChild] else []) @ (if relay then [CloseRelay] else []) @
      (if sp_log s then [CloseLog] else []) @ (if sp_serial s then [CloseSerial] else [])" and r: "r = (Some e, closed s)"
    by (auto simp: give_up_def Cleanup_def split: if_splits)
  with assms(2,3) show ?thesis
    by (auto simp: settled_def modest_def map_eq_Cons_conv map_eq_append_conv split: if_splits)
qed

lemma modest_simps [simp]: "modest b 0 n []" 
  "modest b k n ((StatSocket, a) # tr) = modest b k n tr" "modest b k n ((RemoveSocket, a) # tr) = modest b k n tr"
  "modest True k n ((Dial, a) # tr) = modest True k n tr" "modest True k n ((WaitForSocket, a) # tr) = modest True k n tr"
  "modest b k n ((OpenSerial, a) # tr) = modest b k n tr" "modest b k n ((OpenLog, a) # tr) = modest b k n tr"
  "modest b k n ((CloseLog, a) # tr) = modest b k n tr" "modest b k n ((CloseSerial, a) # tr) = modest b k n tr"
  "modest b k n ((ReadStartTime i, a) # tr) = modest b k n tr" "modest b k n ((WritePIDFile q i, a) # tr) = modest b k n tr"
  "modest True k n ((WaitChild, a) # tr) = modest True k n tr" "modest b (Suc k) n ((CloseRelay, a) # tr) = modest b k n tr"
  "modest True k (Suc n) ((SignalZero, a) # tr) = modest True k n tr"
  by (auto simp: modest_def)

lemma connects:
  assumes "runs (connect c pid s) tr r" "sp_pid s = None" "H = {Running, Entry} \<union> files_of s"
  shows "settled c (Some pid) H tr r \<and> modest True 0 0 tr"
proof -
  from assms(1) obtain d tr1 where tr: "tr = (Dial, d) # tr1" and rest: "runs (case err_of d of
      Some e \<Rightarrow> give_up True False s (''firecracker API socket not accepting connections after 4s: '' @ e)
    | None \<Rightarrow> and_then (CloseFilePointers s) (\<lambda>s. Ask (ReadStartTime pid) (\<lambda>t.
        Ask (WritePIDFile (sc_pid_path c) pid) (\<lambda>_. Return (None, s\<lparr>sp_pid := Some pid, sp_start := num_of t\<rparr>))))) tr1 r"
    by (auto simp: connect_def simp del: runs_then)
  show ?thesis
  proof (cases "err_of d")
    case None
    with tr rest assms(2,3) show ?thesis
      by (cases "sp_log s"; cases "sp_serial s") (auto simp: settled_def map_eq_Cons_conv)
  next
    case (Some e)
    with rest gives_up [of True False s _ tr1 r H c "Some pid"] assms(2,3)
    have "settled c (Some pid) H tr1 r \<and> modest True 0 0 tr1" by simp
    with tr show ?thesis by (auto intro!: settled_step)
  qed
qed

lemma verifies:
  assumes "runs (verify c pid s) tr r" "sp_pid s = None" "H = {Running, Entry} \<union> files_of s"
  shows "settled c (Some pid) H tr r \<and> modest True 0 0 tr"
proof -
  from assms(1) obtain a tr1 where tr: "tr = (StatSocket, a) # tr1" and
      rest: "runs (if a = Missing then give_up True False s ''firecracker API socket not available after 4s'' else connect c pid s) tr1 r"
    by (auto simp: verify_def simp del: runs_then)
  have "settled c (Some pid) H tr1 r \<and> modest True 0 0 tr1"
    using rest connects [OF _ assms(2,3)] gives_up [of True False s _ tr1 r H c "Some pid"] assms(2,3)
    by (simp split: if_splits)
  with tr show ?thesis by (auto intro!: settled_step)
qed

lemma exits:
  assumes "runs (exited_early s) tr r" "sp_pid s = None" "H = {Running, Entry} \<union> files_of s"
  shows "settled c p H tr r \<and> modest True 0 0 tr"
proof -
  from assms(1) obtain w tr' e where tr: "tr = (WaitChild, w) # tr'" "runs (give_up True False s e) tr' r"
    by (auto simp: exited_early_def)
  from gives_up [OF tr(2) assms(2), of "H - {Entry}" c p] assms(3) have "settled c p (H - {Entry}) tr' r \<and> modest True 0 0 tr'" by auto
  with tr(1) show ?thesis by (auto intro!: settled_step)
qed

lemma modest_more: "modest b k n tr \<Longrightarrow> n \<le> n' \<Longrightarrow> modest b k n' tr"
  by (auto simp: modest_def)

lemma polls:
  assumes "runs (poll n c pid s) tr r" "sp_pid s = None" "H = {Running, Entry} \<union> files_of s"
  shows "settled c (Some pid) H tr r \<and> modest True 0 n tr"
  using assms(1)
proof (induction n arbitrary: tr)
  case 0
  then show ?case using verifies [OF _ assms(2,3)] by simp
next
  case (Suc n)
  have there: "settled c (Some pid) H tr' r \<and> modest True 0 (Suc n) tr'" if run: "runs (still_there s (poll n c pid s)) tr' r" for tr'
  proof -
    from run obtain a tr1 where "tr' = (SignalZero, a) # tr1" "runs (if err_of a = None then poll n c pid s else exited_early s) tr1 r"
      by (auto simp: still_there_def)
    moreover from this(2) have "settled c (Some pid) H tr1 r \<and> modest True 0 n tr1"
      using exits [OF _ assms(2,3), of tr1 r c "Some pid"] Suc.IH [of tr1] modest_more [of True 0 0 tr1 n] by (simp split: if_splits)
    ultimately show ?thesis by (auto intro!: settled_step)
  qed
  have found: "settled c (Some pid) H tr' r \<and> modest True 0 (Suc n) tr'" if "runs (verify c pid s) tr' r" for tr'
    using verifies [OF that assms(2,3)] modest_more [of True 0 0 tr' "Suc n"] by simp
  from Suc.prems consider a tr1 where "tr = (WaitForSocket, a) # tr1" "runs (still_there s (poll n c pid s)) tr1 r"
    | a d tr1 where "tr = (WaitForSocket, a) # (Dial, d) # tr1" "runs (still_there s (poll n c pid s)) tr1 r"
    | a d tr1 where "tr = (WaitForSocket, a) # (Dial, d) # tr1" "runs (verify c pid s) tr1 r"
    by (auto split: if_splits)
  then show ?case by cases (auto intro!: settled_step dest!: there found)
qed


text \<open>The whole of a run, from where the process is not started yet.\<close>

definition orderly :: "spawn_config \<Rightarrow> nat \<Rightarrow> nat \<Rightarrow> holding set \<Rightarrow> trace \<Rightarrow> string option \<times> spawner \<Rightarrow> bool" where
  "orderly c adopt close H tr r \<longleftrightarrow> child_known False tr \<and> times_asked SignalZero tr \<le> 150
     \<and> times_asked CloseRelay tr = close \<and> (case sc_relay_fd c of None \<Rightarrow> 0 | Some fd \<Rightarrow> times_asked (AdoptRelay fd) tr) = adopt
     \<and> (\<exists>p. settled c p H tr r \<and> (\<forall>pid. p = Some pid \<longrightarrow> (StartProcess (fcCmd c), Num pid) \<in> set tr))"

lemma modest_none: "modest b k n tr \<Longrightarrow> times_asked (AdoptRelay fd) tr = 0"
  by (force simp: modest_def times_asked_def filter_empty_conv)

lemma given_up:
  assumes "runs (give_up False relay s e) tr r" "sp_pid s = None" "H \<subseteq> (if relay then {RelayFile} else {}) \<union> files_of s"
  shows "orderly c 0 (if relay then 1 else 0) H tr r"
proof -
  from gives_up [OF assms(1,2), of H c None] assms(3)
  have "settled c None H tr r" and m: "modest False (if relay then 1 else 0) 0 tr" by auto
  then show ?thesis using modest_none [OF m] by (auto simp: orderly_def modest_def split: option.splits)
qed

lemma orderly_step:
  assumes "orderly c k n (grasp d a H) tr r" "d \<in> {StatSocket, RemoveSocket, OpenSerial, OpenLog}"
  shows "orderly c k n H ((d, a) # tr) r"
  using assms settled_step [of c _ d a H tr r] by (fastforce simp: orderly_def split: option.splits)

lemma adopt_step:
  assumes "orderly c 0 n (insert RelayFile H) tr r" "sc_relay_fd c = Some fd"
  shows "orderly c 1 n H ((AdoptRelay fd, a) # tr) r"
  using assms settled_step [of c _ "AdoptRelay fd" a H tr r] by (fastforce simp: orderly_def split: option.splits)

lemma starts:
  assumes "runs (start_child c relay s) tr r" "sp_pid s = None" "H = (if relay then {RelayFile} else {}) \<union> files_of s"
  shows "orderly c 0 (if relay then 1 else 0) H tr r"
proof -
  from assms(1) obtain a tr1 where tr: "tr = (StartProcess (fcCmd c), a) # tr1" and rest: "runs (case num_of a of
      None \<Rightarrow> give_up False relay s (case err_of a of Some e \<Rightarrow> e | None \<Rightarrow> [])
    | Some pid \<Rightarrow> and_then (close_relay relay) (\<lambda>_. poll 150 c pid s)) tr1 r"
    by (auto simp: start_child_def simp del: runs_then)
  show ?thesis
  proof (cases "num_of a")
    case None
    with rest have "orderly c 0 (if relay then 1 else 0) H tr1 r" using given_up [OF _ assms(2)] assms(3) by auto
    with None tr settled_step [of c _ "StartProcess (fcCmd c)" a H tr1 r] show ?thesis by (fastforce simp: orderly_def split: option.splits)
  next
    case (Some pid)
    then have a: "a = Num pid" by (cases a) auto
    from rest Some obtain tr2 tr3 where tr1: "tr1 = tr2 @ tr3" and relay: "map fst tr2 = (if relay then [CloseRelay] else [])"
      and poll: "runs (poll 150 c pid s) tr3 r" by auto
    define H' where "H' = {Running, Entry} \<union> files_of s"
    from polls [OF poll assms(2) H'_def] have s: "settled c (Some pid) H' tr3 r" and m: "modest True 0 150 tr3" by auto
    have "held H ((StartProcess (fcCmd c), a) # tr2) = H'" and "\<And>q. times_asked (WritePIDFile (sc_pid_path c) q) tr2 = 0"
      using relay assms(3) by (auto simp: a H'_def map_eq_Cons_conv split: if_splits)
    with s have "settled c (Some pid) H tr r"
      using settled_later [of c "Some pid" H "(StartProcess (fcCmd c), a) # tr2" tr3 r] by (simp add: tr tr1)
    with relay m modest_none [OF m] show ?thesis
      by (auto simp: orderly_def modest_def tr tr1 a map_eq_Cons_conv split: if_splits option.splits)
  qed
qed


lemma logs:
  assumes "runs (open_log c relay s) tr r" "sp_pid s = None" "\<not> sp_log s" "H = (if relay then {RelayFile} else {}) \<union> files_of s"
  shows "orderly c 0 (if relay then 1 else 0) H tr r"
proof -
  from assms(1) obtain a tr1 where tr: "tr = (OpenLog, a) # tr1" and rest: "runs (case err_of a of
      Some e \<Rightarrow> give_up False relay (s\<lparr>sp_log := False\<rparr>) e | None \<Rightarrow> start_child c relay (s\<lparr>sp_log := True\<rparr>)) tr1 r"
    by (auto simp: open_log_def)
  have "orderly c 0 (if relay then 1 else 0) (grasp OpenLog a H) tr1 r"
  proof (cases "err_of a")
    case None
    with rest assms(2-4) starts [of c relay "s\<lparr>sp_log := True\<rparr>" tr1 r "insert LogFile H"] show ?thesis by simp
  next
    case (Some e)
    with rest assms(2-4) given_up [of relay "s\<lparr>sp_log := False\<rparr>" e tr1 r H c] show ?thesis by simp
  qed
  with tr show ?thesis by (simp add: orderly_step)
qed

lemma outputs:
  assumes "runs (open_output c s) tr r" "sp_pid s = None" "files_of s = {}"
  shows "\<exists>k. orderly c k k {} tr r"
proof (cases "if sc_snapshot c then None else sc_relay_fd c")
  case (Some fd)
  then have fd: "sc_relay_fd c = Some fd" by (simp split: if_splits)
  show ?thesis
  proof (cases "fd = 0")
    case True
    with assms Some given_up [of False s _ tr r "{}" c] show ?thesis by (auto simp: open_output_def)
  next
    case False
    with assms(1) Some obtain a tr1 where tr: "tr = (AdoptRelay fd, a) # tr1" and "runs (open_log c True s) tr1 r"
      by (auto simp: open_output_def)
    with assms(2,3) logs [of c True s tr1 r "{RelayFile}"] have "orderly c 0 1 {RelayFile} tr1 r" by (simp split: if_splits)
    with adopt_step [OF _ fd, of 1 "{}"] tr show ?thesis by blast
  qed
next
  case None
  with assms(1) obtain a tr1 where tr: "tr = (OpenSerial, a) # tr1" and rest: "runs (case err_of a of
      Some e \<Rightarrow> give_up False False (s\<lparr>sp_serial := False\<rparr>) e | None \<Rightarrow> open_log c False (s\<lparr>sp_serial := True\<rparr>)) tr1 r"
    by (auto simp: open_output_def)
  have "orderly c 0 0 (grasp OpenSerial a {}) tr1 r"
  proof (cases "err_of a")
    case None
    with rest assms(2,3) logs [of c False "s\<lparr>sp_serial := True\<rparr>" tr1 r "{SerialFile}"] show ?thesis by (simp split: if_splits)
  next
    case (Some e)
    with rest assms(2,3) given_up [of False "s\<lparr>sp_serial := False\<rparr>" e tr1 r "{}" c] show ?thesis by (simp split: if_splits)
  qed
  with tr show ?thesis by (auto intro!: orderly_step)
qed

lemma spawns:
  assumes "runs (Spawn c s) tr r" "sp_pid s = None" "files_of s = {}"
  shows "\<exists>k. orderly c k k {} tr r"
proof -
  from assms(1) consider a tr1 where "tr = (StatSocket, a) # tr1" "runs (open_output c s) tr1 r"
    | a b tr1 where "tr = (StatSocket, a) # (RemoveSocket, b) # tr1" "runs (open_output c s) tr1 r"
    | a b tr1 e where "tr = (StatSocket, a) # (RemoveSocket, b) # tr1" "runs (give_up False False s e) tr1 r"
    by (auto simp: Spawn_def split: if_splits) (auto split: option.split_asm)
  then show ?thesis
  proof cases
    case 1
    from outputs [OF 1(2) assms(2,3)] 1(1) show ?thesis by (auto intro!: orderly_step)
  next
    case 2
    from outputs [OF 2(2) assms(2,3)] 2(1) show ?thesis by (auto intro!: orderly_step)
  next
    case 3
    from given_up [OF 3(2) assms(2), of "{}" c] 3(1) show ?thesis by (auto intro!: orderly_step)
  qed
qed

subsection \<open>Properties\<close>

text \<open>
  C17: whatever the host answers to each call, \<open>Spawn\<close> either returns no error, and then Firecracker
  runs with the command line of its configuration, its socket has accepted a connection, its
  number is kept and was given to the PID file once, and no file stays open; or returns an error,
  and then no process is left, neither running nor to be waited for, no file is open and no number
  is kept. In both cases the console's descriptor is closed once if it was taken over, the process is looked for,
  signalled and waited for only after it was started, and it is polled at most 150 times.
\<close>

theorem spawn_all_or_nothing:
  assumes "runs (Spawn c NewFirecrackerSpawner) tr (e, s)"
  shows "(case e of
      Some m \<Rightarrow> held {} tr = {} \<and> sp_pid s = None
    | None \<Rightarrow> held {} tr = {Running, Entry} \<and> (\<exists>a. map_of (rev tr) Dial = Some a \<and> err_of a = None)
        \<and> (\<exists>pid. sp_pid s = Some pid \<and> (StartProcess (fcCmd c), Num pid) \<in> set tr
             \<and> times_asked (WritePIDFile (sc_pid_path c) pid) tr = 1))
    \<and> \<not> sp_log s \<and> \<not> sp_serial s
    \<and> times_asked CloseRelay tr = (case sc_relay_fd c of None \<Rightarrow> 0 | Some fd \<Rightarrow> times_asked (AdoptRelay fd) tr)
    \<and> child_known False tr \<and> times_asked SignalZero tr \<le> 150"
proof -
  obtain k p where s: "settled c p {} tr (e, s)" and p: "\<And>pid. p = Some pid \<Longrightarrow> (StartProcess (fcCmd c), Num pid) \<in> set tr"
    and *: "child_known False tr" "times_asked SignalZero tr \<le> 150" "times_asked CloseRelay tr = k"
      "(case sc_relay_fd c of None \<Rightarrow> 0 | Some fd \<Rightarrow> times_asked (AdoptRelay fd) tr) = k"
    using spawns [OF assms] unfolding orderly_def by (auto simp: NewFirecrackerSpawner_def)
  from s p have "case e of
      Some m \<Rightarrow> held {} tr = {} \<and> sp_pid s = None
    | None \<Rightarrow> held {} tr = {Running, Entry} \<and> (\<exists>a. map_of (rev tr) Dial = Some a \<and> err_of a = None)
        \<and> (\<exists>pid. sp_pid s = Some pid \<and> (StartProcess (fcCmd c), Num pid) \<in> set tr
             \<and> times_asked (WritePIDFile (sc_pid_path c) pid) tr = 1)"
    by (auto simp: settled_def split: option.splits)
  moreover from s have "\<not> sp_log s \<and> \<not> sp_serial s" by (simp add: settled_def)
  ultimately show ?thesis using * by simp
qed

text \<open>A machine with a serial log whose socket answers at once, and one whose process dies before it listens.\<close>

definition plain_spawn :: spawn_config where
  "plain_spawn = \<lparr>sc_binary = ''/fc'', sc_config_path = ''/vm/config.json'', sc_socket = ''/vm/api.sock'',
     sc_pid_path = ''/vm/pid'', sc_pci = False, sc_snapshot = False, sc_relay_fd = None\<rparr>"

definition good_start :: trace where
  "good_start = [(StatSocket, Missing), (OpenSerial, Fine), (OpenLog, Fine), (StartProcess (fcCmd plain_spawn), Num 7),
     (WaitForSocket, Fine), (Dial, Fine), (StatSocket, Fine), (Dial, Fine), (CloseLog, Fine), (CloseSerial, Fine),
     (ReadStartTime 7, Num 5), (WritePIDFile ''/vm/pid'' 7, Fine)]"

definition bad_start :: trace where
  "bad_start = [(StatSocket, Fine), (RemoveSocket, Fine), (AdoptRelay 9, Fine), (OpenLog, Fine),
     (StartProcess (fcCmd (plain_spawn\<lparr>sc_relay_fd := Some 9\<rparr>)), Num 7), (CloseRelay, Fine),
     (WaitForSocket, Refused ''timeout''), (SignalZero, Refused ''gone''), (WaitChild, Num 1),
     (KillChild, Refused ''gone''), (WaitChild, Refused ''gone''), (CloseLog, Fine)]"

lemma split_after: "(\<exists>tr1 tr2. tr = tr1 @ tr2 \<and> map fst tr1 = cs \<and> Q tr2) \<longleftrightarrow>
    map fst (take (length cs) tr) = cs \<and> Q (drop (length cs) tr)"
  by (metis append_eq_conv_conj append_take_drop_id length_map)

lemmas first_poll = poll.simps(2) [of 149, simplified]

lemmas run_spawn = Spawn_def open_output_def open_log_def start_child_def first_poll verify_def connect_def exited_early_def
  still_there_def give_up_def Cleanup_def NewFirecrackerSpawner_def

lemma good_runs: "runs (Spawn plain_spawn NewFirecrackerSpawner) good_start
    (None, \<lparr>sp_pid = Some 7, sp_start = Some 5, sp_log = False, sp_serial = False\<rparr>)"
  by (simp add: run_spawn good_start_def plain_spawn_def split_after)

lemma bad_runs: "runs (Spawn (plain_spawn\<lparr>sc_relay_fd := Some 9\<rparr>) NewFirecrackerSpawner) bad_start
    (Some (''firecracker process exited immediately with code '' @ Itoa 1), NewFirecrackerSpawner)"
  by (simp add: run_spawn bad_start_def plain_spawn_def split_after)

theorem spawn_all_or_nothing_witness:
  "held {} good_start = {Running, Entry} \<and> held {} bad_start = {} \<and> times_asked CloseRelay bad_start = 1"
  using spawn_all_or_nothing [OF good_runs] spawn_all_or_nothing [OF bad_runs]
  by (simp add: bad_start_def)

text \<open>
  The spawner that \<open>vmBuilderCleanup\<close> makes to stop Firecracker is a new one, and cleaning it up
  asks for nothing.
\<close>

lemma cleanup_stops_nothing: "runs (Cleanup NewFirecrackerSpawner) tr r \<longleftrightarrow> tr = [] \<and> r = NewFirecrackerSpawner"
  by (auto simp: Cleanup_def NewFirecrackerSpawner_def)

end
