(* ===== verification/Firewall.thy ===== *)
theory Firewall
  imports Store
begin

text \<open>
  The firewall, first part: rules in the database and in the kernel, and the iptables tracker
  (\<open>internal/lib/firewall/iptables.go\<close>, \<open>iptables_repository.go\<close>), over the runner of commands
  (\<open>internal/lib/system/runner.go\<close>). What a command does is a parameter: a function from a
  command line, its input and the kernel's state to the command's end and the new state;
  \<open>documented\<close> below says what is relied on.
\<close>

subsection \<open>Rules\<close>

record rule =
  fr_table :: string
  fr_chain :: string
  fr_type :: string
  fr_proto :: string
  fr_src :: string
  fr_dst :: string
  fr_in :: string
  fr_out :: string
  fr_target :: string
  fr_sport :: int
  fr_dport :: int
  fr_net :: string
  fr_active :: bool
  fr_id :: "int option"
  fr_netname :: "string option"
  fr_comment :: "string option"
  fr_cmd :: "string option"
  fr_created :: "string option"
  fr_verified :: "string option"

definition zero_rule :: rule where
  "zero_rule = \<lparr>fr_table = '''', fr_chain = '''', fr_type = '''', fr_proto = '''', fr_src = '''', fr_dst = '''',
     fr_in = '''', fr_out = '''', fr_target = '''', fr_sport = 0, fr_dport = 0, fr_net = '''', fr_active = False,
     fr_id = None, fr_netname = None, fr_comment = None, fr_cmd = None, fr_created = None, fr_verified = None\<rparr>"

definition any_cidr :: string where "any_cidr = ''0.0.0.0/0''"
definition any_iface :: string where "any_iface = ''*''"

definition Key :: "rule \<Rightarrow> string" where
  "Key r = Join [fr_table r, fr_chain r, fr_type r, fr_src r, fr_out r, Itoa (fr_sport r), Itoa (fr_dport r)] '':''"

definition forward_rule :: "string \<Rightarrow> string \<Rightarrow> string \<Rightarrow> string \<Rightarrow> string \<Rightarrow> string \<Rightarrow> string \<Rightarrow> rule" where
  "forward_rule ty net bridge src dst inp out = zero_rule\<lparr>fr_table := ''filter'', fr_chain := ''MVM-FORWARD'', fr_type := ty,
     fr_target := ''ACCEPT'', fr_net := net, fr_proto := ''all'', fr_src := src, fr_dst := dst, fr_in := inp, fr_out := out,
     fr_active := True, fr_netname := Some bridge\<rparr>"

definition NewTapForwardRules :: "string \<Rightarrow> string \<Rightarrow> string \<Rightarrow> string \<Rightarrow> rule list" where
  "NewTapForwardRules tap bridge net subnet =
     (let sub = (if subnet \<noteq> '''' then subnet else any_cidr)
      in [forward_rule ''forward_out'' net bridge sub any_cidr bridge tap,
          forward_rule ''forward_in'' net bridge any_cidr sub tap bridge])"

subsection \<open>Rows\<close>

text \<open>
  The host: the kernel, the table of rules with its last identifier, the other tables, and the
  tracker's batch. A tracker works on one of the two tables of rules, which have the same
  columns and the same checks.
\<close>

record 'k fw_host =
  h_kernel :: 'k
  h_rules :: "rule list"
  h_seq :: int
  h_db :: db
  h_batch :: bool
  h_queue :: "rule list"

type_synonym ('k, 'a) fw = "('k fw_host, 'a) prog"

definition same_attrs :: "rule \<Rightarrow> rule \<Rightarrow> bool" where
  "same_attrs r q \<longleftrightarrow> fr_table q = fr_table r \<and> fr_chain q = fr_chain r \<and> fr_type q = fr_type r \<and> fr_net q = fr_net r \<and>
     fr_proto q = fr_proto r \<and> fr_src q = fr_src r \<and> fr_dst q = fr_dst r \<and> fr_in q = fr_in r \<and> fr_out q = fr_out r \<and>
     fr_sport q = fr_sport r \<and> fr_dport q = fr_dport r"

definition FindByAttributes :: "rule \<Rightarrow> ('k, rule option) fw" where
  "FindByAttributes r = query (\<lambda>s. find_first (\<lambda>q. same_attrs r q \<and> fr_active q) (h_rules s))"

definition rule_checks :: "rule \<Rightarrow> bool" where
  "rule_checks r \<longleftrightarrow> fr_table r \<in> {''nat'', ''filter''} \<and> like ''MVM-%'' (fr_chain r) \<and>
     fr_type r \<in> {''masquerade'', ''forward_in'', ''forward_out'', ''nocloudnet_input''} \<and>
     fr_proto r \<in> {''tcp'', ''udp'', ''icmp'', ''all''}"

definition fr_failed :: "string \<Rightarrow> err" where
  "fr_failed what = Plain (what @ '' constraint failed'') None"

definition insert_row :: "(rule \<Rightarrow> rule \<Rightarrow> bool) \<Rightarrow> rule \<Rightarrow> ('k, rule) fw" where
  "insert_row same r = stmt (\<lambda>now s.
     let row = r\<lparr>fr_id := Some (h_seq s + 1), fr_netname := None, fr_verified := None,
           fr_created := Some (case fr_created r of Some t \<Rightarrow> if t = '''' then now else t | None \<Rightarrow> now)\<rparr>
     in if \<not> rule_checks r then (Err (fr_failed ''CHECK''), s)
        else if fr_active r \<and> list_ex (\<lambda>q. fr_active q \<and> same r q \<and> fr_target q = fr_target r) (h_rules s)
          then (Err (fr_failed ''UNIQUE''), s)
        else if fr_net r \<notin> n_id ` set (nets (h_db s)) then (Err (fr_failed ''FOREIGN KEY''), s)
        else (Ok (r\<lparr>fr_id := fr_id row\<rparr>), s\<lparr>h_rules := h_rules s @ [row], h_seq := h_seq s + 1\<rparr>))"

definition Insert :: "rule \<Rightarrow> ('k, rule) fw" where
  "Insert = insert_row same_attrs"

text \<open>The unique index on the rows for nftables does not cover the table.\<close>

definition nft_same :: "rule \<Rightarrow> rule \<Rightarrow> bool" where
  "nft_same r q \<longleftrightarrow> same_attrs (r\<lparr>fr_table := fr_table q\<rparr>) q"

definition nft_Insert :: "rule \<Rightarrow> ('k, rule) fw" where
  "nft_Insert = insert_row nft_same"

definition update_rules :: "(rule \<Rightarrow> bool) \<Rightarrow> (string \<Rightarrow> rule \<Rightarrow> rule) \<Rightarrow> ('k, unit) fw" where
  "update_rules p f = exec (\<lambda>now s. s\<lparr>h_rules := map (\<lambda>q. if p q then f now q else q) (h_rules s)\<rparr>)"

definition UpdateVerifiedAt :: "int \<Rightarrow> ('k, unit) fw" where
  "UpdateVerifiedAt i = update_rules (\<lambda>q. fr_id q = Some i) (\<lambda>now q. q\<lparr>fr_verified := Some now\<rparr>)"

definition MarkDeleted :: "int \<Rightarrow> ('k, unit) fw" where
  "MarkDeleted i = update_rules (\<lambda>q. fr_id q = Some i) (\<lambda>now q. q\<lparr>fr_active := False\<rparr>)"

definition MarkDeletedByTableChainName :: "string \<Rightarrow> string \<Rightarrow> ('k, unit) fw" where
  "MarkDeletedByTableChainName chain table =
     update_rules (\<lambda>q. fr_table q = table \<and> fr_chain q = chain \<and> fr_active q) (\<lambda>now q. q\<lparr>fr_active := False\<rparr>)"

definition GetByNetworkID :: "string \<Rightarrow> bool \<Rightarrow> ('k, rule list) fw" where
  "GetByNetworkID net active = query (\<lambda>s. filter (\<lambda>q. fr_net q = net \<and> (active \<longrightarrow> fr_active q)) (h_rules s))"

definition GetByNetworkIDAndInterface :: "string \<Rightarrow> string \<Rightarrow> bool \<Rightarrow> ('k, rule list) fw" where
  "GetByNetworkIDAndInterface net iface active =
     query (\<lambda>s. filter (\<lambda>q. fr_net q = net \<and> (active \<longrightarrow> fr_active q) \<and> (fr_in q = iface \<or> fr_out q = iface)) (h_rules s))"

text \<open>Rows are kept in the order of their identifiers, so \<open>ORDER BY id\<close> changes nothing.\<close>

definition rules_ListAll :: "('k, rule list) fw" where
  "rules_ListAll = query h_rules"

definition ListByNetworkID :: "string \<Rightarrow> ('k, rule list) fw" where
  "ListByNetworkID net = query (\<lambda>s. filter (\<lambda>q. fr_net q = net) (h_rules s))"

definition ListByNetworkIDBatch :: "string list \<Rightarrow> ('k, rule list) fw" where
  "ListByNetworkIDBatch ids =
     (if ids = [] then ret [] else query (\<lambda>s. filter (\<lambda>q. fr_net q \<in> set ids) (h_rules s)))"

definition rules_Get :: "int \<Rightarrow> ('k, rule option) fw" where
  "rules_Get i = query (\<lambda>s. find_first (\<lambda>q. fr_id q = Some i) (h_rules s))"

definition GetByTableChainName :: "string \<Rightarrow> string \<Rightarrow> bool \<Rightarrow> ('k, rule list) fw" where
  "GetByTableChainName table chain active =
     query (\<lambda>s. filter (\<lambda>q. fr_table q = table \<and> fr_chain q = chain \<and> (active \<longrightarrow> fr_active q)) (h_rules s))"

definition delete_rules :: "(rule \<Rightarrow> bool) \<Rightarrow> ('k, nat) fw" where
  "delete_rules p = stmt (\<lambda>now s. (Ok (length (filter p (h_rules s))), s\<lparr>h_rules := filter (\<lambda>q. \<not> p q) (h_rules s)\<rparr>))"

definition DeleteByNetworkID :: "string \<Rightarrow> ('k, nat) fw" where
  "DeleteByNetworkID net = delete_rules (\<lambda>q. fr_net q = net)"

definition DeleteInactive :: "('k, nat) fw" where
  "DeleteInactive = delete_rules (\<lambda>q. \<not> fr_active q)"

text \<open>An update that fails is ignored here; a search or an insertion that fails ends the loop.\<close>

definition ignore :: "('k, 'a) fw \<Rightarrow> ('k, unit) fw" where
  "ignore m = bind_prog (attempt m) (\<lambda>_. ret ())"

fun upsert_rules :: "(rule \<Rightarrow> ('k, rule) fw) \<Rightarrow> rule list \<Rightarrow> ('k, rule list) fw" where
  "upsert_rules ins [] = ret []"
| "upsert_rules ins (r # rs) = bind_prog (FindByAttributes r) (\<lambda>found. case found of
     Some q \<Rightarrow> (case fr_id q of
         Some i \<Rightarrow> bind_prog (ignore (UpdateVerifiedAt i)) (\<lambda>_. upsert_rules ins rs)
       | None \<Rightarrow> bind_prog (ins r) (\<lambda>x. bind_prog (upsert_rules ins rs) (\<lambda>xs. ret (x # xs))))
   | None \<Rightarrow> bind_prog (ins r) (\<lambda>x. bind_prog (upsert_rules ins rs) (\<lambda>xs. ret (x # xs))))"

definition FindAndUpsertRules :: "rule list \<Rightarrow> ('k, rule list) fw" where
  "FindAndUpsertRules = upsert_rules Insert"

subsection \<open>Command lines\<close>

text \<open>How a started command ends: with an exit code (\<open>-1\<close> when a signal ended it), not at all, or otherwise.\<close>

datatype finish = Exited int | NotInstalled | Broke err

record exec_out =
  xo_end :: finish
  xo_out :: string
  xo_err :: string

record run_result =
  rc_exit :: int
  rc_out :: string
  rc_err :: string

definition Success :: "run_result \<Rightarrow> bool" where
  "Success r \<longleftrightarrow> rc_exit r = 0"

text \<open>
  What the tracker is built with: how a command runs on the kernel, whether the user is root and
  whether comments are available, and the order in which Go walks over the map of chains, which
  is not determined and may differ each time.
\<close>

record 'k sys =
  sy_exec :: "string list \<Rightarrow> string \<Rightarrow> 'k \<Rightarrow> exec_out \<times> 'k"
  sy_root :: bool
  sy_comments :: bool
  sy_order :: "nat \<Rightarrow> (string \<times> string) list"

definition argv :: "'k sys \<Rightarrow> bool \<Rightarrow> string list \<Rightarrow> string list" where
  "argv sy privileged args = (if privileged \<and> \<not> sy_root sy then [''sudo'', ''-n''] @ args else args)"

definition newline :: string where "newline = [CHR 0x0A]"

definition exit_code :: "finish \<Rightarrow> int" where
  "exit_code f = (case f of Exited n \<Rightarrow> n | _ \<Rightarrow> -1)"

definition exit_error :: "int \<Rightarrow> string \<Rightarrow> string \<Rightarrow> err" where
  "exit_error n cmd errtext =
     (let t = TrimSpace errtext; t = (if length t > 100 then take 100 t @ ''...'' else t)
      in New ''process.error'' (''Command failed (exit '' @ Itoa n @ ''): '' @ cmd @ (if t = '''' then '''' else newline @ t)))"

definition run_error :: "bool \<Rightarrow> string \<Rightarrow> finish \<Rightarrow> string \<Rightarrow> err option" where
  "run_error check cmd f errtext = (case f of
     Exited n \<Rightarrow> if n \<noteq> 0 \<and> check then Some (exit_error n cmd errtext) else None
   | NotInstalled \<Rightarrow> Some (New ''process.error'' (''Command not found: '' @ cmd))
   | Broke e \<Rightarrow> Some (Wrap ''process.error'' e))"

definition Run :: "'k sys \<Rightarrow> bool \<Rightarrow> bool \<Rightarrow> string list \<Rightarrow> string \<Rightarrow> ('k, run_result \<times> err option) fw" where
  "Run sy privileged check args inp =
     (let cmd = argv sy privileged args
      in host (\<lambda>s. case sy_exec sy cmd inp (h_kernel s) of (x, k) \<Rightarrow>
        ((\<lparr>rc_exit = exit_code (xo_end x), rc_out = xo_out x, rc_err = TrimSpace (xo_err x)\<rparr>,
          run_error check (hd cmd) (xo_end x) (TrimSpace (xo_err x))), s\<lparr>h_kernel := k\<rparr>)))"

text \<open>The trackers run everything privileged and look only at the exit code, so \<open>Check\<close> does not matter there.\<close>

definition run_cmd :: "'k sys \<Rightarrow> string list \<Rightarrow> string \<Rightarrow> ('k, run_result) fw" where
  "run_cmd sy args inp = bind_prog (Run sy True False args inp) (\<lambda>(r, e). ret r)"

definition chainToTable :: "(string \<times> string) list" where
  "chainToTable = [(''MVM-FORWARD'', ''filter''), (''MVM-POSTROUTING'', ''nat''), (''MVM-NOCLOUDNET-INPUT'', ''filter'')]"

definition walk :: "'k sys \<Rightarrow> ('k, (string \<times> string) list) fw" where
  "walk sy = (\<lambda>E w. case w of (s, n) \<Rightarrow> (Ok (sy_order sy n), e_step E n s, Suc n))"

definition MaxCommentLen :: nat where "MaxCommentLen = 240"

definition buildComment :: "string \<Rightarrow> string \<Rightarrow> string \<Rightarrow> string" where
  "buildComment ty netname label =
     (let c = ''mvm:'' @ ty @ '':'' @ netname; c = (if label \<noteq> '''' then c @ '':'' @ label else c)
      in take MaxCommentLen c)"

definition tagged :: "rule \<Rightarrow> bool" where
  "tagged r \<longleftrightarrow> fr_comment r \<noteq> None \<and> fr_comment r \<noteq> Some ''''"

text \<open>The part of a command line that describes the rule, the same in both builders.\<close>

definition rule_spec :: "'k sys \<Rightarrow> rule \<Rightarrow> string list" where
  "rule_spec sy r =
     (if fr_proto r \<noteq> ''all'' then [''-p'', fr_proto r] else [])
     @ (if fr_src r \<noteq> any_cidr then [''-s'', fr_src r] else [])
     @ (if fr_dst r \<noteq> any_cidr then [''-d'', fr_dst r] else [])
     @ (if fr_in r \<noteq> any_iface then [''-i'', fr_in r] else [])
     @ (if fr_out r \<noteq> any_iface then [''-o'', fr_out r] else [])
     @ (if fr_sport r \<noteq> 0 then [''--sport'', Itoa (fr_sport r)] else [])
     @ (if fr_dport r \<noteq> 0 then [''--dport'', Itoa (fr_dport r)] else [])
     @ [''-j'', fr_target r]
     @ (if tagged r \<and> sy_comments sy then [''-m'', ''comment'', ''--comment'', the (fr_comment r)] else [])"

definition buildIptablesArgs :: "'k sys \<Rightarrow> rule \<Rightarrow> string \<Rightarrow> string list" where
  "buildIptablesArgs sy r action = [''iptables'', ''-t'', fr_table r, action, fr_chain r] @ rule_spec sy r"

text \<open>The input of \<open>iptables-restore\<close>: its lines as words, and as the text they are written to.\<close>

definition restore_line :: "'k sys \<Rightarrow> rule \<Rightarrow> string list" where
  "restore_line sy r = [''-A'', fr_chain r] @ rule_spec sy r"

definition conntrack :: "string list" where
  "conntrack = [''-m'', ''conntrack'', ''--ctstate'', ''ESTABLISHED,RELATED'', ''-j'', ''ACCEPT'']"

definition restore_words :: "'k sys \<Rightarrow> (string \<times> string) list \<Rightarrow> rule list \<Rightarrow> string \<Rightarrow> string list list" where
  "restore_words sy order rs table =
     concat (map (\<lambda>(c, t). if t \<noteq> table then []
       else [['':'' @ c, ''-'', ''[0:0]''], [''-F'', c]] @ (if table = ''filter'' then [[''-A'', c] @ conntrack] else []))
       order)
     @ map (restore_line sy) rs"

definition restore_text :: "string \<Rightarrow> string list list \<Rightarrow> string" where
  "restore_text table ws = Join ([CHR ''*'' # table] @ map (\<lambda>w. Join w '' '') ws @ [''COMMIT'', '''']) newline"

definition buildRestoreInput :: "'k sys \<Rightarrow> (string \<times> string) list \<Rightarrow> rule list \<Rightarrow> string \<Rightarrow> string" where
  "buildRestoreInput sy order rs table = restore_text table (restore_words sy order rs table)"

definition shell_safe :: "char \<Rightarrow> bool" where
  "shell_safe c \<longleftrightarrow> (CHR ''a'' \<le> c \<and> c \<le> CHR ''z'') \<or> (CHR ''A'' \<le> c \<and> c \<le> CHR ''Z'') \<or> (CHR ''0'' \<le> c \<and> c \<le> CHR ''9'')
     \<or> c \<in> set ''@%_+=:,./-''"

definition ShlexQuote :: "string \<Rightarrow> string" where
  "ShlexQuote s = (let q = [CHR 0x27]
     in if s = '''' then q @ q
        else if list_all shell_safe s then s
        else q @ concat (map (\<lambda>c. if c = CHR 0x27 then q @ [CHR 0x22] @ q @ [CHR 0x22] @ q else [c]) s) @ q)"

subsection \<open>The iptables tracker\<close>

record fw_result =
  fx_ok :: bool
  fx_rule :: "rule option"
  fx_error :: "string option"
  fx_cmd :: "string option"

definition fw_success :: fw_result where
  "fw_success = \<lparr>fx_ok = True, fx_rule = None, fx_error = None, fx_cmd = None\<rparr>"

definition fw_failure :: "string \<Rightarrow> string option \<Rightarrow> fw_result" where
  "fw_failure msg cmd = \<lparr>fx_ok = False, fx_rule = None, fx_error = Some msg, fx_cmd = cmd\<rparr>"

definition command_failed :: "string \<Rightarrow> run_result \<Rightarrow> string" where
  "command_failed c r = ''command '' @ c @ '' failed (exit '' @ Itoa (rc_exit r) @ ''): '' @ rc_err r"

definition ipt_RuleExists :: "'k sys \<Rightarrow> rule \<Rightarrow> ('k, bool) fw" where
  "ipt_RuleExists sy r = bind_prog (run_cmd sy (buildIptablesArgs sy r ''-C'') '''') (\<lambda>x. ret (Success x))"

text \<open>
  A search that fails leaves behind a pointer to an empty row, which counts as found; it has no
  identifier.
\<close>

definition found_or_zero :: "err + rule option \<Rightarrow> rule option" where
  "found_or_zero x = (case x of Inl e \<Rightarrow> Some zero_rule | Inr q \<Rightarrow> q)"

definition verify_row :: "rule \<Rightarrow> ('k, unit) fw" where
  "verify_row q = (case fr_id q of Some i \<Rightarrow> ignore (UpdateVerifiedAt i) | None \<Rightarrow> ret ())"

definition with_comment :: "rule \<Rightarrow> string \<Rightarrow> rule" where
  "with_comment r label = (if tagged r then r
     else r\<lparr>fr_comment := Some (buildComment (fr_type r) (case fr_netname r of Some n \<Rightarrow> n | None \<Rightarrow> '''') label)\<rparr>)"

definition add_rule :: "'k sys \<Rightarrow> rule \<Rightarrow> string \<Rightarrow> rule option \<Rightarrow> ('k, fw_result) fw" where
  "add_rule sy r cmd row = bind_prog (run_cmd sy (buildIptablesArgs sy r ''-A'') '''') (\<lambda>x.
     if \<not> Success x then ret (fw_failure (''Failed to create rule: '' @ command_failed ''iptables'' x) (Some cmd))
     else case row of
       Some q \<Rightarrow> bind_prog (verify_row q) (\<lambda>_.
         ret \<lparr>fx_ok = True, fx_rule = Some (r\<lparr>fr_id := fr_id q\<rparr>), fx_error = None, fx_cmd = Some cmd\<rparr>)
     | None \<Rightarrow> bind_prog (attempt (Insert r)) (\<lambda>i. ret (case i of
         Inl e \<Rightarrow> fw_failure (''Failed to insert rule: '' @ err_text e) (Some cmd)
       | Inr q \<Rightarrow> \<lparr>fx_ok = True, fx_rule = Some q, fx_error = None, fx_cmd = Some cmd\<rparr>)))"

definition ipt_EnsureRule :: "'k sys \<Rightarrow> rule \<Rightarrow> string \<Rightarrow> ('k, fw_result) fw" where
  "ipt_EnsureRule sy r0 label =
     (let r1 = with_comment r0 label;
          cmd = Join (map ShlexQuote (buildIptablesArgs sy r1 ''-A'')) '' '';
          r = r1\<lparr>fr_cmd := Some cmd\<rparr>
      in bind_prog (attempt (FindByAttributes r)) (\<lambda>f.
         let row = found_or_zero f
         in bind_prog (run_cmd sy (buildIptablesArgs sy r ''-C'') '''') (\<lambda>c.
           if row \<noteq> None \<and> Success c
           then bind_prog (verify_row (the row)) (\<lambda>_. ret (fw_success\<lparr>fx_rule := row\<rparr>))
           else if Success c
           then bind_prog (attempt (Insert r)) (\<lambda>i. ret (case i of
               Inl e \<Rightarrow> fw_failure (''Failed to record rule: '' @ err_text e) None
             | Inr q \<Rightarrow> fw_success\<lparr>fx_rule := Some q\<rparr>))
           else add_rule sy r cmd row)))"

text \<open>Lines of a listing whose seventh and eighth words are the rule's interfaces.\<close>

definition line_matches :: "rule \<Rightarrow> string \<Rightarrow> bool" where
  "line_matches r line = (let ps = Fields line
     in length ps \<ge> 9 \<and> ps ! 6 = fr_in r \<and> ps ! 7 = fr_out r)"

definition trim_newlines :: "string \<Rightarrow> string" where
  "trim_newlines s = rev (dropWhile (\<lambda>c. c = CHR 0x0A) (rev s))"

definition lines_of :: "string \<Rightarrow> string list" where
  "lines_of s = Split (trim_newlines s) (CHR 0x0A)"

definition removeByLineNumber :: "'k sys \<Rightarrow> rule \<Rightarrow> ('k, bool) fw" where
  "removeByLineNumber sy r =
     bind_prog (run_cmd sy [''iptables'', ''-t'', fr_table r, ''-L'', fr_chain r, ''-n'', ''--line-numbers'', ''-v''] '''') (\<lambda>x.
       if \<not> Success x then ret False
       else case find_first (line_matches r) (lines_of (rc_out x)) of
         None \<Rightarrow> ret False
       | Some line \<Rightarrow> bind_prog (run_cmd sy [''iptables'', ''-t'', fr_table r, ''-D'', fr_chain r, hd (Fields line)] '''')
           (\<lambda>d. ret (Success d)))"

definition ruleExistsByInterfaces :: "'k sys \<Rightarrow> rule \<Rightarrow> ('k, bool) fw" where
  "ruleExistsByInterfaces sy r =
     bind_prog (run_cmd sy [''iptables'', ''-t'', fr_table r, ''-L'', fr_chain r, ''-n'', ''-v''] '''') (\<lambda>x.
       ret (Success x \<and> list_ex (line_matches r) (lines_of (rc_out x))))"

text \<open>The row to delete, and the rule whose command line deletes it.\<close>

definition rule_to_remove :: "rule \<Rightarrow> ('k, int option \<times> rule) fw" where
  "rule_to_remove r = (if fr_id r \<noteq> None then ret (fr_id r, r)
     else bind_prog (attempt (FindByAttributes r)) (\<lambda>f. ret (case f of
         Inr (Some q) \<Rightarrow> (fr_id q, if \<not> tagged r \<and> fr_comment q \<noteq> None then q else r)
       | _ \<Rightarrow> (None, r))))"

definition ipt_RemoveRule :: "'k sys \<Rightarrow> rule \<Rightarrow> ('k, fw_result) fw" where
  "ipt_RemoveRule sy r = bind_prog (rule_to_remove r) (\<lambda>(row, e).
     let cmd = Join (buildIptablesArgs sy e ''-D'') '' ''
     in bind_prog (run_cmd sy (buildIptablesArgs sy e ''-D'') '''') (\<lambda>x.
       bind_prog (if Success x then ret False
         else bind_prog (removeByLineNumber sy e) (\<lambda>gone. if gone then ret False else ruleExistsByInterfaces sy e)) (\<lambda>stays.
         if stays then ret (fw_failure (''Failed to remove rule: '' @ rc_err x) (Some cmd))
         else bind_prog (case row of Some i \<Rightarrow> ignore (MarkDeleted i) | None \<Rightarrow> ret ()) (\<lambda>_.
           ret \<lparr>fx_ok = True, fx_rule = Some e, fx_error = None, fx_cmd = Some cmd\<rparr>))))"

fun ipt_BatchRemoveRules :: "'k sys \<Rightarrow> rule list \<Rightarrow> ('k, fw_result) fw" where
  "ipt_BatchRemoveRules sy [] = ret fw_success"
| "ipt_BatchRemoveRules sy (r # rs) = bind_prog (ipt_RemoveRule sy r) (\<lambda>_. ipt_BatchRemoveRules sy rs)"

definition restore_table :: "'k sys \<Rightarrow> rule list \<Rightarrow> string \<Rightarrow> ('k, string option) fw" where
  "restore_table sy rs table = (if rs = [] then ret None
     else bind_prog (walk sy) (\<lambda>order.
       bind_prog (run_cmd sy [''iptables-restore'', ''-n''] (buildRestoreInput sy order rs table)) (\<lambda>x.
         ret (if Success x then None else Some (command_failed ''iptables-restore -n'' x)))))"

definition ipt_BatchEnsureRules :: "'k sys \<Rightarrow> rule list \<Rightarrow> ('k, fw_result) fw" where
  "ipt_BatchEnsureRules sy rs =
     bind_prog (restore_table sy (filter (\<lambda>r. fr_table r = ''filter'') rs) ''filter'') (\<lambda>e. case e of
       Some msg \<Rightarrow> ret (fw_failure msg None)
     | None \<Rightarrow> bind_prog (restore_table sy (filter (\<lambda>r. fr_table r = ''nat'') rs) ''nat'') (\<lambda>e. case e of
         Some msg \<Rightarrow> ret (fw_failure msg None)
       | None \<Rightarrow> bind_prog (ignore (FindAndUpsertRules rs)) (\<lambda>_. ret fw_success)))"

subsection \<open>Chains\<close>

text \<open>A command whose result nobody looks at.\<close>

definition run_only :: "'k sys \<Rightarrow> string list \<Rightarrow> ('k, unit) fw" where
  "run_only sy args = bind_prog (run_cmd sy args '''') (\<lambda>_. ret ())"

definition ipt_EnsureJumpRule :: "'k sys \<Rightarrow> string \<Rightarrow> string \<Rightarrow> string \<Rightarrow> int \<Rightarrow> ('k, fw_result) fw" where
  "ipt_EnsureJumpRule sy from_chain to_chain table position =
     bind_prog (run_cmd sy [''iptables'', ''-t'', table, ''-C'', from_chain, ''-j'', to_chain] '''') (\<lambda>c.
       if Success c then ret fw_success
       else let args = [''iptables'', ''-t'', table, ''-I'', from_chain, Itoa position, ''-j'', to_chain]
         in bind_prog (run_cmd sy args '''') (\<lambda>x. ret (
           if \<not> Success x
           then fw_failure (''Failed to add jump rule '' @ from_chain @ '' -> '' @ to_chain @ '': '' @ rc_err x) None
           else fw_success\<lparr>fx_cmd := Some (Join args '' '')\<rparr>)))"

definition ipt_chain_exists :: "'k sys \<Rightarrow> string \<Rightarrow> string \<Rightarrow> ('k, bool) fw" where
  "ipt_chain_exists sy chain table =
     bind_prog (run_cmd sy [''iptables'', ''-t'', table, ''-L'', chain, ''-n''] '''') (\<lambda>c. ret (Success c))"

definition ipt_EnsureChain :: "'k sys \<Rightarrow> string \<Rightarrow> string \<Rightarrow> string \<Rightarrow> int \<Rightarrow> ('k, bool) fw" where
  "ipt_EnsureChain sy chain table jump position =
     bind_prog (ipt_chain_exists sy chain table) (\<lambda>there. if there then ret False
       else bind_prog (run_cmd sy [''iptables'', ''-t'', table, ''-N'', chain] '''') (\<lambda>x.
         if \<not> Success x then ret False
         else if jump = '''' then ret True
         else bind_prog (ipt_EnsureJumpRule sy jump chain table position) (\<lambda>j. ret (fx_ok j))))"

text \<open>The program's chains, each with its table and the built-in chain that jumps to it.\<close>

definition mvm_chains :: "(string \<times> string \<times> string) list" where
  "mvm_chains = [(''MVM-FORWARD'', ''filter'', ''FORWARD''), (''MVM-POSTROUTING'', ''nat'', ''POSTROUTING''),
     (''MVM-NOCLOUDNET-INPUT'', ''filter'', ''INPUT'')]"

fun each :: "('a \<Rightarrow> ('s, 'b) prog) \<Rightarrow> 'a list \<Rightarrow> ('s, unit) prog" where
  "each f [] = ret ()"
| "each f (x # xs) = bind_prog (f x) (\<lambda>_. each f xs)"

definition ipt_Initialize :: "'k sys \<Rightarrow> ('k, unit) fw" where
  "ipt_Initialize sy = each (\<lambda>(chain, table, jump). ipt_EnsureChain sy chain table jump 1) mvm_chains"

definition ipt_Teardown :: "'k sys \<Rightarrow> ('k, unit) fw" where
  "ipt_Teardown sy = each (\<lambda>(chain, table, jump).
     each (run_only sy) [[''iptables'', ''-t'', table, ''-D'', jump, ''-j'', chain],
       [''iptables'', ''-t'', table, ''-F'', chain], [''iptables'', ''-t'', table, ''-X'', chain]]) mvm_chains"

definition ipt_FlushChain :: "'k sys \<Rightarrow> string \<Rightarrow> string \<Rightarrow> ('k, bool) fw" where
  "ipt_FlushChain sy chain table =
     bind_prog (ipt_chain_exists sy chain table) (\<lambda>there. if \<not> there then ret False
       else bind_prog (run_cmd sy [''iptables'', ''-t'', table, ''-F'', chain] '''') (\<lambda>x.
         if \<not> Success x then ret False
         else bind_prog (ignore (MarkDeletedByTableChainName chain table)) (\<lambda>_. ret True)))"

definition ipt_RemoveChain :: "'k sys \<Rightarrow> string \<Rightarrow> string \<Rightarrow> ('k, bool) fw" where
  "ipt_RemoveChain sy chain table =
     bind_prog (ipt_chain_exists sy chain table) (\<lambda>there. if \<not> there then ret False
       else bind_prog (ignore (MarkDeletedByTableChainName chain table)) (\<lambda>_.
         bind_prog (run_cmd sy [''iptables'', ''-t'', table, ''-X'', chain] '''') (\<lambda>x. ret (Success x))))"

definition CheckCommentAvailable :: "'k sys \<Rightarrow> ('k, bool) fw" where
  "CheckCommentAvailable sy = bind_prog (run_cmd sy
     [''iptables'', ''-C'', ''INPUT'', ''-m'', ''comment'', ''--comment'', ''mvmctl-probe'', ''-j'', ''ACCEPT''] '''')
     (\<lambda>c. ret (Success c))"

subsection \<open>Orphans\<close>

text \<open>The word after the first \<open>--comment\<close> that has one.\<close>

fun comment_of :: "string list \<Rightarrow> string" where
  "comment_of (w # v # ws) = (if w = ''--comment'' then v else comment_of (v # ws))"
| "comment_of _ = ''''"

definition is_orphan :: "string \<Rightarrow> string list \<Rightarrow> string \<Rightarrow> bool" where
  "is_orphan name known line \<longleftrightarrow> HasPrefix line ''-A MVM-'' \<and>
     (let c = comment_of (Fields line) in c \<noteq> '''' \<and> Contains c name \<and> c \<notin> set known)"

definition comments_of :: "rule list \<Rightarrow> string list" where
  "comments_of rs = concat (map (\<lambda>r. case fr_comment r of Some c \<Rightarrow> [c] | None \<Rightarrow> []) rs)"

definition ipt_CountOrphanedRules :: "'k sys \<Rightarrow> network \<Rightarrow> ('k, nat) fw" where
  "ipt_CountOrphanedRules sy net = bind_prog (attempt (GetByNetworkID (n_id net) True)) (\<lambda>r. case r of
     Inl e \<Rightarrow> ret 0
   | Inr rows \<Rightarrow> bind_prog (run_cmd sy [''iptables-save''] '''') (\<lambda>x. ret (
       if \<not> Success x then 0
       else length (filter (is_orphan (n_name net) (comments_of rows)) (lines_of (rc_out x))))))"

subsection \<open>What is relied on\<close>

text \<open>
  \<open>rules k t c\<close> are the rules of a chain, each as what a command line means. For the words of a
  rule of the program, \<open>-C\<close> changes nothing and succeeds only when the rule is there, and \<open>-A\<close> puts
  the rule at the end; an input of \<open>iptables-restore\<close> made of the lines that the program sends
  takes effect as a whole: a chain that is declared or flushed is emptied, a
  rule is put at its end; a command that fails changes nothing.
\<close>

type_synonym chain_view = "string \<Rightarrow> string \<Rightarrow> string list list"

definition launch :: "'k sys \<Rightarrow> string list \<Rightarrow> string \<Rightarrow> 'k \<Rightarrow> bool \<times> 'k" where
  "launch sy args inp k = (case sy_exec sy (argv sy True args) inp k of (x, k') \<Rightarrow> (xo_end x = Exited 0, k'))"

definition line_effect :: "(string list \<Rightarrow> string list) \<Rightarrow> string \<Rightarrow> string list \<Rightarrow> string list list \<Rightarrow> string list list" where
  "line_effect mean c w rs =
     (if w = ['':'' @ c, ''-'', ''[0:0]''] \<or> w = [''-F'', c] then []
      else if take 2 w = [''-A'', c] then rs @ [mean (drop 2 w)] else rs)"

definition plain :: "string \<Rightarrow> bool" where
  "plain w \<longleftrightarrow> w \<noteq> '''' \<and> list_all (\<lambda>c. shell_safe c \<or> c = CHR ''['' \<or> c = CHR '']'') w"

text \<open>A line that the program sends: it declares or flushes a chain, or appends a rule.\<close>

definition sent_line :: "string list \<Rightarrow> bool" where
  "sent_line w \<longleftrightarrow> list_all plain w \<and> (case w of
       a # c # v \<Rightarrow> a = ''-A'' \<or> a = ''-F'' \<and> v = [] \<or> take 1 a = '':'' \<and> c = ''-'' \<and> v = [''[0:0]'']
     | _ \<Rightarrow> False)"

lemma sent_plain: "list_all sent_line ws \<Longrightarrow> list_all (list_all plain) ws"
  by (auto simp: list_all_iff sent_line_def)

definition documented_check :: "'k sys \<Rightarrow> (string list \<Rightarrow> string list) \<Rightarrow> ('k \<Rightarrow> chain_view) \<Rightarrow> bool" where
  "documented_check sy mean rules \<longleftrightarrow> (\<forall>k t c w ok k'. w \<in> range (rule_spec sy) \<longrightarrow>
     launch sy ([''iptables'', ''-t'', t, ''-C'', c] @ w) '''' k = (ok, k') \<longrightarrow>
     rules k' = rules k \<and> (ok \<longrightarrow> mean w \<in> set (rules k t c)))"

definition appended :: "chain_view \<Rightarrow> string \<Rightarrow> string \<Rightarrow> string list \<Rightarrow> chain_view" where
  "appended v t c w = v(t := (v t)(c := v t c @ [w]))"

definition documented_add :: "'k sys \<Rightarrow> (string list \<Rightarrow> string list) \<Rightarrow> ('k \<Rightarrow> chain_view) \<Rightarrow> bool" where
  "documented_add sy mean rules \<longleftrightarrow> (\<forall>k t c w ok k'. w \<in> range (rule_spec sy) \<longrightarrow>
     launch sy ([''iptables'', ''-t'', t, ''-A'', c] @ w) '''' k = (ok, k') \<longrightarrow>
     rules k' = (if ok then appended (rules k) t c (mean w) else rules k))"

definition documented_restore :: "'k sys \<Rightarrow> (string list \<Rightarrow> string list) \<Rightarrow> ('k \<Rightarrow> chain_view) \<Rightarrow> bool" where
  "documented_restore sy mean rules \<longleftrightarrow> (\<forall>k t ws ok k'. t \<in> {''filter'', ''nat''} \<longrightarrow> list_all sent_line ws \<longrightarrow>
     launch sy [''iptables-restore'', ''-n''] (restore_text t ws) k = (ok, k') \<longrightarrow>
     rules k' = (if ok then (rules k)(t := \<lambda>c. fold (line_effect mean c) ws (rules k t c)) else rules k))"

definition documented :: "'k sys \<Rightarrow> (string list \<Rightarrow> string list) \<Rightarrow> ('k \<Rightarrow> chain_view) \<Rightarrow> bool" where
  "documented sy mean rules \<longleftrightarrow>
     documented_check sy mean rules \<and> documented_add sy mean rules \<and> documented_restore sy mean rules"

lemma run_spec:
  "post (\<lambda>s. s) fl s (run_cmd sy args inp) (\<lambda>r s'. \<exists>x k'. r = Ok x \<and> s' = s\<lparr>h_kernel := k'\<rparr> \<and>
     launch sy args inp (h_kernel s) = (Success x, k'))"
proof -
  obtain x k' where e: "sy_exec sy (argv sy True args) inp (h_kernel s) = (x, k')" by (rule prod.exhaust)
  let ?r = "\<lparr>rc_exit = exit_code (xo_end x), rc_out = xo_out x, rc_err = TrimSpace (xo_err x)\<rparr>"
  have "Success ?r \<longleftrightarrow> xo_end x = Exited 0" by (simp add: Success_def exit_code_def split: finish.splits)
  then show ?thesis unfolding run_cmd_def Run_def Let_def
    by (intro post_bind post_host) (auto simp: e launch_def intro!: post_ret)
qed

subsection \<open>Ensuring one rule\<close>

text \<open>Rows without the time they were last seen.\<close>

abbreviation unseen :: "rule \<Rightarrow> rule" where "unseen q \<equiv> q\<lparr>fr_verified := None\<rparr>"

definition wanted :: "'k sys \<Rightarrow> rule \<Rightarrow> string \<Rightarrow> string list" where
  "wanted sy r label = rule_spec sy (with_comment r label)"

definition rows_kept :: "rule list \<Rightarrow> rule list \<Rightarrow> bool" where
  "rows_kept rs rs' \<longleftrightarrow> (\<exists>new. map unseen rs' = map unseen rs @ new)"

definition has_row :: "rule list \<Rightarrow> rule \<Rightarrow> bool" where
  "has_row rs r \<longleftrightarrow> (\<exists>q \<in> set rs. fr_active q \<and> same_attrs r q)"

lemma rows_kept_refl [simp]: "rows_kept rs rs"
  by (simp add: rows_kept_def)

lemma rows_kept_trans: "rows_kept a b \<Longrightarrow> rows_kept b c \<Longrightarrow> rows_kept a c"
  by (auto simp: rows_kept_def)

lemma unseen_attrs: "unseen a = unseen b \<Longrightarrow> fr_active a = fr_active b \<and> same_attrs r a = same_attrs r b"
  by (cases a, cases b) (simp add: same_attrs_def)

lemma rows_kept_has:
  assumes "rows_kept rs rs'" "has_row rs r"
  shows "has_row rs' r"
proof -
  obtain q where q: "q \<in> set rs" "fr_active q" "same_attrs r q" using assms(2) by (auto simp: has_row_def)
  obtain new where "map unseen rs' = map unseen rs @ new" using assms(1) by (auto simp: rows_kept_def)
  then have "set (map unseen rs') = set (map unseen rs) \<union> set new" by (simp only: set_append)
  with q have "unseen q \<in> set (map unseen rs')" by simp
  then obtain q' where "q' \<in> set rs'" "unseen q = unseen q'" by auto
  with q unseen_attrs [of q q' r] show ?thesis by (auto simp: has_row_def)
qed

lemma rows_kept_verified: "rows_kept rs (map (\<lambda>q. if p q then q\<lparr>fr_verified := v\<rparr> else q) rs)"
  unfolding rows_kept_def by (rule exI [of _ "[]"]) (simp add: if_distrib [of unseen] cong: if_cong)

lemma verify_spec:
  "post (\<lambda>s. s) fl s (verify_row q) (\<lambda>r s'. \<exists>rs'. r = Ok () \<and> s' = s\<lparr>h_rules := rs'\<rparr> \<and> rows_kept (h_rules s) rs')"
proof (cases "fr_id q")
  case None
  have "\<exists>rs'. s = s\<lparr>h_rules := rs'\<rparr> \<and> rows_kept (h_rules s) rs'" by (rule exI [of _ "h_rules s"]) simp
  with None show ?thesis by (simp add: verify_row_def post_ret)
next
  case (Some i)
  have same: "\<exists>rs'. s = s\<lparr>h_rules := rs'\<rparr> \<and> rows_kept (h_rules s) rs'" by (rule exI [of _ "h_rules s"]) simp
  show ?thesis unfolding verify_row_def ignore_def UpdateVerifiedAt_def update_rules_def Some option.case
    by (intro post_bind post_attempt post_exec) (use same in \<open>auto intro!: post_ret rows_kept_verified\<close>)
qed

lemma has_row_append [simp]: "has_row (rs @ [q]) r \<longleftrightarrow> has_row rs r \<or> fr_active q \<and> same_attrs r q"
  by (auto simp: has_row_def)

lemma rows_kept_append [simp]: "rows_kept rs (rs @ qs)"
  by (simp add: rows_kept_def)

lemma same_attrs_row [simp]: "same_attrs r (r\<lparr>fr_id := i, fr_netname := nm, fr_verified := v, fr_created := c\<rparr>)"
  by (simp add: same_attrs_def)

lemma insert_spec:
  "post (\<lambda>s. s) fl s (attempt (insert_row same r)) (\<lambda>i s'. \<exists>x. i = Ok x \<and> h_kernel s' = h_kernel s \<and>
     rows_kept (h_rules s) (h_rules s') \<and> (is_ok x \<longrightarrow> fr_active r \<longrightarrow> has_row (h_rules s') r))"
  unfolding insert_row_def Let_def
  by (intro post_attempt post_stmt) (simp_all split: if_split)

lemma find_spec:
  "post (\<lambda>s. s) fl s (attempt (FindByAttributes r)) (\<lambda>f s'. s' = s \<and>
     (f = Ok (Inr (find_first (\<lambda>q. same_attrs r q \<and> fr_active q) (h_rules s))) \<or> fl \<and> (\<exists>e. f = Ok (Inl e))))"
  unfolding FindByAttributes_def by (intro post_attempt post_query) auto

lemma has_row_found: "has_row rs r \<longleftrightarrow> find_first (\<lambda>q. same_attrs r q \<and> fr_active q) rs \<noteq> None"
  by (auto simp: has_row_def find_first_None)

lemma with_comment_cases:
  obtains c where "with_comment r l = r\<lparr>fr_comment := c\<rparr>"
proof (cases "tagged r")
  case True
  then have "with_comment r l = r\<lparr>fr_comment := fr_comment r\<rparr>" by (simp add: with_comment_def)
  then show ?thesis by (rule that)
next
  case False
  then show ?thesis using that by (simp only: with_comment_def if_False)
qed

lemma same_attrs_tagged [simp]:
  "same_attrs (r\<lparr>fr_comment := c\<rparr>) = same_attrs r" "same_attrs (r\<lparr>fr_cmd := d\<rparr>) = same_attrs r"
  by (simp_all add: same_attrs_def fun_eq_iff)

lemma with_comment_same [simp]:
  "fr_table (with_comment r l) = fr_table r" "fr_chain (with_comment r l) = fr_chain r"
  "fr_active (with_comment r l) = fr_active r" "same_attrs (with_comment r l) = same_attrs r"
  by (rule with_comment_cases [of r l]; simp)+

lemma has_row_same [simp]: "has_row rs (with_comment r l\<lparr>fr_cmd := c\<rparr>) = has_row rs r"
  by (simp add: has_row_def)

lemma args_cmd [simp]: "buildIptablesArgs sy (r\<lparr>fr_cmd := c\<rparr>) a = buildIptablesArgs sy r a"
  by (simp add: buildIptablesArgs_def rule_spec_def tagged_def)

lemma args_wanted:
  "buildIptablesArgs sy (with_comment r l) a = [''iptables'', ''-t'', fr_table r, a, fr_chain r] @ wanted sy r l"
  by (simp add: buildIptablesArgs_def wanted_def)

text \<open>What a call has done when it answers \<open>x\<close>.\<close>

definition ensured :: "'k sys \<Rightarrow> (string list \<Rightarrow> string list) \<Rightarrow> ('k \<Rightarrow> chain_view) \<Rightarrow> rule \<Rightarrow> string \<Rightarrow> bool \<Rightarrow>
    'k fw_host \<Rightarrow> (err, fw_result) res \<Rightarrow> 'k fw_host \<Rightarrow> bool" where
  "ensured sy mean rules r l fl s res s' \<longleftrightarrow>
     (let v = rules (h_kernel s); v' = rules (h_kernel s'); w = mean (wanted sy r l) in
      \<exists>x. res = Ok x \<and> rows_kept (h_rules s) (h_rules s') \<and>
      (v' = v \<or> v' = appended v (fr_table r) (fr_chain r) w) \<and>
      (fx_ok x \<longrightarrow> w \<in> set (v' (fr_table r) (fr_chain r)) \<and> (fl \<or> has_row (h_rules s') r)))"

lemma fw_result_ok [simp]: "fx_ok fw_success" "\<not> fx_ok (fw_failure m c)"
  by (simp_all add: fw_success_def fw_failure_def)

lemma check_documented:
  assumes "documented sy mean rules" "w \<in> range (rule_spec sy)"
    and "launch sy ([''iptables'', ''-t'', t, ''-C'', c] @ w) '''' k = (ok, k')"
  shows "rules k' = rules k \<and> (ok \<longrightarrow> mean w \<in> set (rules k t c))"
  using assms unfolding documented_def documented_check_def by blast

lemma wanted_spec: "wanted sy r l \<in> range (rule_spec sy)"
  by (simp add: wanted_def)

lemma add_documented:
  assumes "documented sy mean rules" "w \<in> range (rule_spec sy)"
    and "launch sy ([''iptables'', ''-t'', t, ''-A'', c] @ w) '''' k = (ok, k')"
  shows "rules k' = (if ok then appended (rules k) t c (mean w) else rules k)"
  using assms unfolding documented_def documented_add_def by blast

lemma restore_documented:
  assumes "documented sy mean rules" "t \<in> {''filter'', ''nat''}" "list_all sent_line ws"
    and "launch sy [''iptables-restore'', ''-n''] (restore_text t ws) k = (ok, k')"
  shows "rules k' = (if ok then (rules k)(t := \<lambda>c. fold (line_effect mean c) ws (rules k t c)) else rules k)"
  using assms unfolding documented_def documented_restore_def by blast

lemma appended_in [simp]: "w \<in> set (appended v t c w t c)"
  by (simp add: appended_def)

lemma post_add_rule:
  assumes doc: "documented sy mean rules" and act: "fr_active r"
    and s0: "rules (h_kernel s) = rules (h_kernel s0)" "h_rules s = h_rules s0"
    and row: "\<not> fl \<Longrightarrow> row \<noteq> None \<Longrightarrow> has_row (h_rules s) r"
  shows "post (\<lambda>s. s) fl s (add_rule sy (with_comment r l\<lparr>fr_cmd := c\<rparr>) cmd row) (ensured sy mean rules r l fl s0)"
  unfolding add_rule_def args_cmd args_wanted
proof (rule post_seq [OF run_spec], goal_cases)
  case (2 x s1)
  then obtain k' where s1: "s1 = s\<lparr>h_kernel := k'\<rparr>"
    and run: "launch sy ([''iptables'', ''-t'', fr_table r, ''-A'', fr_chain r] @ wanted sy r l) '''' (h_kernel s) = (Success x, k')"
    by auto
  from add_documented [OF doc wanted_spec run] have k': "rules k' = (if Success x
    then appended (rules (h_kernel s)) (fr_table r) (fr_chain r) (mean (wanted sy r l)) else rules (h_kernel s))" .
  show ?case
  proof (cases "Success x")
    case False
    with k' s0 show ?thesis by (simp add: post_ret ensured_def s1)
  next
    case True
    have "rules (h_kernel s1) = appended (rules (h_kernel s0)) (fr_table r) (fr_chain r) (mean (wanted sy r l))"
      and "h_rules s1 = h_rules s0" using True k' s0 by (simp_all add: s1)
    note effects = True this ensured_def Let_def
    show ?thesis
    proof (cases row)
      case None
      have "post (\<lambda>s. s) fl s1 (bind_prog (attempt (Insert (with_comment r l\<lparr>fr_cmd := c\<rparr>))) (\<lambda>i. ret (k i)))
          (ensured sy mean rules r l fl s0)"
        if "\<And>i. fx_ok (k i) = is_ok i" for k
        by (rule post_seq [OF insert_spec [where same = same_attrs, folded Insert_def]]) (use act that in \<open>auto intro!: post_ret simp: effects\<close>)
      with True None show ?thesis by (simp add: is_ok_def split: sum.split)
    next
      case (Some q)
      then have "fl \<or> has_row rs' r" if "rows_kept (h_rules s0) rs'" for rs'
        using row s0 that rows_kept_has by (metis option.distinct(1))
      then have "post (\<lambda>s. s) fl s1 (bind_prog (verify_row q) (\<lambda>_. ret x)) (ensured sy mean rules r l fl s0)"
        if "fx_ok x" for x
        by (rule_tac post_seq [OF verify_spec]) (use that in \<open>auto intro!: post_ret simp: effects\<close>)
      with True Some show ?thesis by simp
    qed
  qed
qed simp

lemma post_EnsureRule:
  assumes doc: "documented sy mean rules" and act: "fr_active r"
  shows "post (\<lambda>s. s) fl s (ipt_EnsureRule sy r l) (ensured sy mean rules r l fl s)"
  unfolding ipt_EnsureRule_def Let_def
proof (rule post_seq [OF find_spec], goal_cases)
  case (2 f s1)
  then have s1: "s1 = s" and found: "\<not> fl \<Longrightarrow> found_or_zero f \<noteq> None \<longleftrightarrow> has_row (h_rules s) r"
    by (auto simp: found_or_zero_def has_row_found)
  show ?case
    unfolding args_cmd args_wanted s1
  proof (rule post_seq [OF run_spec], goal_cases)
    case (2 x s2)
    then obtain k' where s2: "s2 = s\<lparr>h_kernel := k'\<rparr>"
      and run: "launch sy ([''iptables'', ''-t'', fr_table r, ''-C'', fr_chain r] @ wanted sy r l) '''' (h_kernel s) = (Success x, k')"
      by auto
    from check_documented [OF doc wanted_spec run] have k': "rules k' = rules (h_kernel s)"
      "Success x \<Longrightarrow> mean (wanted sy r l) \<in> set (rules (h_kernel s) (fr_table r) (fr_chain r))" by auto
    have same: "rules (h_kernel s2) = rules (h_kernel s)" "h_rules s2 = h_rules s" using k' by (simp_all add: s2)
    note effects = k'(2) same ensured_def Let_def
    show ?case
    proof (cases "Success x")
      case False
      have "post (\<lambda>s. s) fl s2 (add_rule sy (with_comment r l\<lparr>fr_cmd := c\<rparr>) cmd row) (ensured sy mean rules r l fl s)"
        if "row = found_or_zero f" for c cmd row
        by (rule post_add_rule [OF doc act same]) (use found that same in auto)
      with False show ?thesis by simp
    next
      case ok: True
      show ?thesis
      proof (cases "found_or_zero f")
        case None
        have "post (\<lambda>s. s) fl s2 (bind_prog (attempt (Insert (with_comment r l\<lparr>fr_cmd := c\<rparr>))) (\<lambda>i. ret (k i)))
          (ensured sy mean rules r l fl s)" if "\<And>i. fx_ok (k i) = is_ok i" for k c
          by (rule post_seq [OF insert_spec [where same = same_attrs, folded Insert_def]]) (use act that ok in \<open>auto intro!: post_ret simp: effects\<close>)
        with ok None show ?thesis by (simp add: is_ok_def fw_success_def split: sum.split)
      next
        case (Some q)
        with found have "fl \<or> has_row rs' r" if "rows_kept (h_rules s) rs'" for rs'
          using that rows_kept_has by (metis option.distinct(1))
        then have "post (\<lambda>s. s) fl s2 (bind_prog (verify_row q) (\<lambda>_. ret y)) (ensured sy mean rules r l fl s)"
          if "fx_ok y" for y
          by (rule_tac post_seq [OF verify_spec]) (use that ok in \<open>auto intro!: post_ret simp: effects\<close>)
        with ok Some show ?thesis by (simp add: fw_success_def)
      qed
    qed
  qed simp
qed simp

subsection \<open>A small packet filter\<close>

text \<open>
  A kernel that does what \<open>documented\<close> relies on, to evaluate the model on: rules with their
  table and chain, in order.
\<close>

type_synonym small_kernel = "(string \<times> string \<times> string list) list"

definition small_rules :: "small_kernel \<Rightarrow> chain_view" where
  "small_rules k t c = map (\<lambda>(_, _, w). w) (filter (\<lambda>(t', c', _). t' = t \<and> c' = c) k)"

definition small_flush :: "string \<Rightarrow> string \<Rightarrow> small_kernel \<Rightarrow> small_kernel" where
  "small_flush t c k = filter (\<lambda>(t', c', _). \<not> (t' = t \<and> c' = c)) k"

definition small_line :: "string \<Rightarrow> string list \<Rightarrow> small_kernel \<Rightarrow> small_kernel" where
  "small_line t w k = (case w of
     [a, b] \<Rightarrow> if a = ''-F'' then small_flush t b k else if a = ''-A'' then k @ [(t, b, [])] else k
   | a # b # ws \<Rightarrow> if a = ''-A'' then k @ [(t, b, ws)]
       else if a = CHR '':'' # tl a \<and> b # ws = [''-'', ''[0:0]''] then small_flush t (tl a) k else k
   | _ \<Rightarrow> k)"

definition small_exec :: "string list \<Rightarrow> string \<Rightarrow> small_kernel \<Rightarrow> exec_out \<times> small_kernel" where
  "small_exec args inp k =
     (let out = (\<lambda>n. \<lparr>xo_end = Exited n, xo_out = '''', xo_err = ''''\<rparr>) in
      case args of
        cmd # _ # t # act # c # w \<Rightarrow>
          if cmd \<noteq> ''iptables'' then (out 1, k)
          else if act = ''-C'' then (out (if (t, c, w) \<in> set k then 0 else 1), k)
          else if act = ''-A'' then (out 0, k @ [(t, c, w)])
          else (out 1, k)
      | cmd # _ \<Rightarrow>
          if cmd \<noteq> ''iptables-restore'' then (out 1, k)
          else let ls = Split inp (CHR 0x0A)
            in (out 0, fold (small_line (tl (hd ls))) (map (\<lambda>l. Split l (CHR 0x20)) (butlast (butlast (tl ls)))) k)
      | [] \<Rightarrow> (out 1, k))"

definition small_sys :: "small_kernel sys" where
  "small_sys = \<lparr>sy_exec = small_exec, sy_root = True, sy_comments = False, sy_order = (\<lambda>n. chainToTable)\<rparr>"

lemma small_rules_append: "small_rules (k @ [(t, c, w)]) = appended (small_rules k) t c w"
  by (auto simp: small_rules_def appended_def fun_eq_iff)

lemma small_rules_flush: "small_rules (small_flush t c k) = (small_rules k)(t := (small_rules k t)(c := []))"
  by (auto simp: small_rules_def small_flush_def fun_eq_iff intro!: filter_all_False arg_cong [of _ _ "map _"] filter_cong)

lemma small_line_rules:
  "list_all plain w \<Longrightarrow> small_rules (small_line t w k) = (small_rules k)(t := \<lambda>c. line_effect id c w (small_rules k t c))"
  by (auto simp: small_line_def line_effect_def small_rules_append small_rules_flush appended_def fun_eq_iff
      plain_def take_Suc split: list.splits)

lemma small_lines_rules:
  "list_all (list_all plain) ws \<Longrightarrow>
     small_rules (fold (small_line t) ws k) = (small_rules k)(t := \<lambda>c. fold (line_effect id c) ws (small_rules k t c))"
  by (induction ws arbitrary: k) (auto simp: small_line_rules)

lemma plain_chars: "plain w \<Longrightarrow> CHR 0x0A \<notin> set w \<and> CHR 0x20 \<notin> set w"
  by (auto simp: plain_def shell_safe_def list_all_iff)

lemma Join_chars: "set (Join ws sep) \<subseteq> (\<Union>w \<in> set ws. set w) \<union> set sep"
  by (induction ws sep rule: Join.induct) auto

lemma restore_text_lines:
  assumes "t \<in> {''filter'', ''nat''}" "list_all (list_all plain) ws"
  shows "Split (restore_text t ws) (CHR 0x0A) = (CHR ''*'' # t) # map (\<lambda>w. Join w '' '') ws @ [''COMMIT'', '''']"
proof -
  have "CHR 0x0A \<notin> set (Join w '' '')" if "w \<in> set ws" for w
    using assms(2) that plain_chars Join_chars [of w "'' ''"] by (force simp: list_all_iff)
  with assms(1) show ?thesis unfolding restore_text_def newline_def by (subst Split_Join) auto
qed

lemma small_line_words:
  assumes "list_all plain w"
  shows "small_line t (Split (Join w '' '') (CHR 0x20)) = small_line t w"
proof (cases "w = []")
  case True
  then show ?thesis by (simp add: small_line_def fun_eq_iff)
next
  case False
  with assms plain_chars have "Split (Join w '' '') (CHR 0x20) = w" by (intro Split_Join) (auto simp: list_all_iff)
  then show ?thesis by simp
qed

lemma small_exec_restore:
  assumes "t \<in> {''filter'', ''nat''}" "list_all (list_all plain) ws"
  shows "small_exec [''iptables-restore'', ''-n''] (restore_text t ws) k =
    (\<lparr>xo_end = Exited 0, xo_out = '''', xo_err = ''''\<rparr>, fold (small_line t) ws k)"
proof -
  have "fold (small_line t) (map (\<lambda>w. Split (Join w '' '') (CHR 0x20)) ws) k = fold (small_line t) ws k"
    using assms(2) by (induction ws arbitrary: k) (simp_all add: small_line_words)
  then show ?thesis
    by (simp add: small_exec_def restore_text_lines [OF assms] butlast_append comp_def)
qed

lemma small_rules_in: "(t, c, w) \<in> set k \<Longrightarrow> w \<in> set (small_rules k t c)"
  by (force simp: small_rules_def)

lemma small_documented: "documented small_sys id small_rules"
  unfolding documented_def
proof (intro conjI)
  show "documented_check small_sys id small_rules"
    by (auto simp: documented_check_def launch_def argv_def small_sys_def small_exec_def small_rules_in split: if_splits)
  show "documented_add small_sys id small_rules"
    by (auto simp: documented_add_def launch_def argv_def small_sys_def small_exec_def small_rules_append split: if_splits)
  show "documented_restore small_sys id small_rules"
    by (auto simp: documented_restore_def launch_def argv_def small_sys_def small_exec_restore small_lines_rules dest!: sent_plain)
qed

subsection \<open>Properties\<close>

text \<open>
  C18: \<open>EnsureRule\<close> (\<open>internal/lib/firewall/iptables.go\<close>), with nobody else at work: it always returns a
  result; whatever it is, the kernel has the rules it had before and at most the wanted one more, at
  the end of its chain, and no row is lost. When it reports success the rule is in the kernel, and,
  unless the database failed, an active row records it.
\<close>

theorem ensure_rule_installs:
  assumes "documented sy mean rules" "fr_active r" "\<And>n s. e_step E n s = s"
  shows "\<exists>x s' n'. ipt_EnsureRule sy r l E (s, n) = (Ok x, s', n') \<and>
    (let v = rules (h_kernel s); v' = rules (h_kernel s'); w = mean (wanted sy r l) in
      (v' = v \<or> v' = appended v (fr_table r) (fr_chain r) w) \<and> rows_kept (h_rules s) (h_rules s') \<and>
      (fx_ok x \<longrightarrow> w \<in> set (v' (fr_table r) (fr_chain r))) \<and>
      (fx_ok x \<longrightarrow> (\<forall>n. e_fault E n = None) \<longrightarrow> has_row (h_rules s') r))"
proof -
  obtain res s' n' where run: "ipt_EnsureRule sy r l E (s, n) = (res, s', n')" by (rule prod_cases3)
  let ?fl = "\<not> (\<forall>n. e_fault E n = None)"
  from postD [OF post_EnsureRule [OF assms(1,2), of ?fl s l] assms(3) _ refl run]
  have "ensured sy mean rules r l ?fl s res s'" by blast
  with run show ?thesis by (auto simp: ensured_def Let_def)
qed

definition demo_net :: network where
  "demo_net = \<lparr>n_id = ''n1'', n_name = ''lab'', n_subnet = ''10.1.0.0/24'', n_bridge = ''mvm-lab'', n_gateway = ''10.1.0.1'',
     n_active = True, n_nat = True, n_default = True, n_present = True, n_created = ''t'', n_updated = ''t'',
     n_deleted = None, n_gateways = Some ''eth0''\<rparr>"

definition demo_host :: "small_kernel fw_host" where
  "demo_host = \<lparr>h_kernel = [], h_rules = [], h_seq = 0,
     h_db = \<lparr>nets = [demo_net], leases = [], lease_seq = 0, vms = [], images = [], kernels = [], binaries = []\<rparr>,
     h_batch = False, h_queue = []\<rparr>"

definition demo_rule :: rule where
  "demo_rule = forward_rule ''forward_out'' ''n1'' ''mvm-lab'' ''10.1.0.0/24'' any_cidr ''mvm-lab'' ''mvm-tap''"

lemma run_cmd_calm:
  "run_cmd sy args inp calm (s, n) = (case sy_exec sy (argv sy True args) inp (h_kernel s) of (x, k) \<Rightarrow>
     (Ok \<lparr>rc_exit = exit_code (xo_end x), rc_out = xo_out x, rc_err = TrimSpace (xo_err x)\<rparr>, s\<lparr>h_kernel := k\<rparr>, Suc n))"
  by (simp add: run_cmd_def Run_def Let_def bind_run host_quiet split_beta)

lemma demo_wanted: "wanted small_sys demo_rule l =
   [''-s'', ''10.1.0.0/24'', ''-i'', ''mvm-lab'', ''-o'', ''mvm-tap'', ''-j'', ''ACCEPT'']"
  by (rule with_comment_cases [of demo_rule l])
    (simp add: wanted_def rule_spec_def demo_rule_def forward_rule_def zero_rule_def any_cidr_def any_iface_def small_sys_def)

lemma demo_checks [simp]:
  "rule_checks (with_comment demo_rule l\<lparr>fr_cmd := c\<rparr>)" "fr_net (with_comment demo_rule l) = ''n1''"
  by (rule with_comment_cases [of demo_rule l]; simp add: rule_checks_def demo_rule_def forward_rule_def)+

lemma ensure_rule_installs_witness:
  "\<exists>x s' n'. ipt_EnsureRule small_sys demo_rule ''tap'' calm (demo_host, 0) = (Ok x, s', n') \<and> fx_ok x \<and>
    small_rules (h_kernel s') ''filter'' ''MVM-FORWARD'' =
      [[''-s'', ''10.1.0.0/24'', ''-i'', ''mvm-lab'', ''-o'', ''mvm-tap'', ''-j'', ''ACCEPT'']] \<and>
    has_row (h_rules s') demo_rule"
proof -
  have act: "fr_active demo_rule" by (simp add: demo_rule_def forward_rule_def)
  have alone: "e_step calm n s = s" "e_fault calm n = None" for n and s :: "small_kernel fw_host"
    by (simp_all add: calm_def)
  have empty: "small_rules (h_kernel demo_host) t c = []" for t c by (simp add: small_rules_def demo_host_def)
  have loc: "fr_table demo_rule = ''filter''" "fr_chain demo_rule = ''MVM-FORWARD''"
    by (simp_all add: demo_rule_def forward_rule_def)
  have "\<exists>x w. ipt_EnsureRule small_sys demo_rule ''tap'' calm (demo_host, 0) = (Ok x, w) \<and> fx_ok x"
    unfolding ipt_EnsureRule_def Let_def args_cmd args_wanted add_rule_def demo_wanted
    by (simp add: bind_run attempt_run FindByAttributes_def query_quiet demo_host_def found_or_zero_def run_cmd_calm
      small_sys_def argv_def small_exec_def Success_def exit_code_def
      Insert_def insert_row_def Let_def stmt_quiet demo_net_def)
  with ensure_rule_installs [OF small_documented act alone(1), of "''tap''" demo_host 0] alone(2)
  show ?thesis by (auto simp: Let_def demo_wanted loc empty appended_def)
qed

end
