(* ===== verification/Nftables.thy ===== *)
theory Nftables
  imports Firewall
begin

text \<open>
  The firewall, second part: the nftables tracker (\<open>internal/lib/firewall/nftables.go\<close>). The
  repository of its rows makes the same statements as the one for iptables.
\<close>

subsection \<open>Tables and chains\<close>

text \<open>Family, table, built-in chain, the program's chain.\<close>

definition nftJumpRules :: "(string \<times> string \<times> string \<times> string) list" where
  "nftJumpRules = [(''ip'', ''filter'', ''FORWARD'', ''MVM-FORWARD''), (''ip'', ''nat'', ''POSTROUTING'', ''MVM-POSTROUTING''),
     (''ip'', ''filter'', ''INPUT'', ''MVM-NOCLOUDNET-INPUT'')]"

definition nftBaseChains :: "(string \<times> string) list" where
  "nftBaseChains =
     [(''ip/filter/FORWARD'', ''{ type filter hook forward priority filter; policy accept; }''),
      (''ip/filter/INPUT'', ''{ type filter hook input priority filter; policy accept; }''),
      (''ip/nat/POSTROUTING'', ''{ type nat hook postrouting priority srcnat; policy accept; }'')]"

definition nftBaseChainKey :: "string \<Rightarrow> string \<Rightarrow> string \<Rightarrow> string" where
  "nftBaseChainKey family table chain = Join [family, table, chain] ''/''"

definition nft_chainExists :: "'k sys \<Rightarrow> string \<Rightarrow> string \<Rightarrow> string \<Rightarrow> ('k, bool) fw" where
  "nft_chainExists sy family table chain =
     bind_prog (run_cmd sy [''nft'', ''list'', ''chain'', family, table, chain] '''') (\<lambda>x. ret (Success x))"

definition jumpRuleExists :: "'k sys \<Rightarrow> string \<Rightarrow> string \<Rightarrow> string \<Rightarrow> string \<Rightarrow> ('k, bool) fw" where
  "jumpRuleExists sy family table builtin target =
     bind_prog (run_cmd sy [''nft'', ''list'', ''chain'', family, table, builtin] '''') (\<lambda>x.
       ret (Success x \<and> Contains (rc_out x) (''jump '' @ target)))"

text \<open>
  The number after the last \<open># handle\<close> of a line, and the text before it.
\<close>

definition handle_mark :: string where "handle_mark = ''# handle ''"

definition handle_of :: "string \<Rightarrow> int option" where
  "handle_of line = (case LastIndex line handle_mark of
     None \<Rightarrow> None
   | Some i \<Rightarrow> (case Atoi (TrimSpace (drop (i + length handle_mark) line)) of
       (n, e) \<Rightarrow> if e = None then Some n else None))"

fun first_some :: "('a \<Rightarrow> 'b option) \<Rightarrow> 'a list \<Rightarrow> 'b option" where
  "first_some f [] = None"
| "first_some f (x # xs) = (case f x of Some y \<Rightarrow> Some y | None \<Rightarrow> first_some f xs)"

definition findJumpRuleHandle :: "'k sys \<Rightarrow> string \<Rightarrow> string \<Rightarrow> string \<Rightarrow> string \<Rightarrow> ('k, int option) fw" where
  "findJumpRuleHandle sy family table builtin target =
     bind_prog (run_cmd sy [''nft'', ''-a'', ''list'', ''chain'', family, table, builtin] '''') (\<lambda>x.
       ret (if \<not> Success x then None
         else first_some (\<lambda>line. let l = TrimSpace line
           in if Contains l (''jump '' @ target) then handle_of l else None) (lines_of (rc_out x))))"

text \<open>A list of steps of which each must succeed before the next; whether all did.\<close>

fun while_ok :: "('a \<Rightarrow> ('s, bool) prog) \<Rightarrow> 'a list \<Rightarrow> ('s, bool) prog" where
  "while_ok f [] = ret True"
| "while_ok f (x # xs) = bind_prog (f x) (\<lambda>ok. if ok then while_ok f xs else ret False)"

definition nft_add_chain :: "'k sys \<Rightarrow> string \<times> string \<Rightarrow> ('k, bool) fw" where
  "nft_add_chain sy = (\<lambda>(chain, table).
     bind_prog (nft_chainExists sy ''ip'' table chain) (\<lambda>there. if there then ret True
       else bind_prog (run_cmd sy [''nft'', ''add'', ''chain'', ''ip'', table, chain] '''') (\<lambda>x. ret (Success x))))"

definition nft_add_base :: "'k sys \<Rightarrow> string \<times> string \<times> string \<times> string \<Rightarrow> ('k, bool) fw" where
  "nft_add_base sy = (\<lambda>(family, table, builtin, target).
     case map_of nftBaseChains (nftBaseChainKey family table builtin) of
       None \<Rightarrow> ret True
     | Some hook \<Rightarrow> bind_prog (nft_chainExists sy family table builtin) (\<lambda>there. if there then ret True
         else bind_prog (run_cmd sy [''nft'', ''add'', ''chain'', family, table, builtin, hook] '''') (\<lambda>x. ret (Success x))))"

definition nft_add_jump :: "'k sys \<Rightarrow> string \<times> string \<times> string \<times> string \<Rightarrow> ('k, bool) fw" where
  "nft_add_jump sy = (\<lambda>(family, table, builtin, target).
     bind_prog (jumpRuleExists sy family table builtin target) (\<lambda>there. if there then ret True
       else bind_prog (run_cmd sy [''nft'', ''insert'', ''rule'', family, table, builtin, ''jump'', target] '''') (\<lambda>x.
         ret (Success x))))"

definition nft_Initialize :: "'k sys \<Rightarrow> ('k, unit) fw" where
  "nft_Initialize sy =
     bind_prog (walk sy) (\<lambda>order. bind_prog
       (each (\<lambda>table. run_only sy [''nft'', ''add'', ''table'', ''ip'', table]) (dedup_from [] (map snd order))) (\<lambda>_.
     bind_prog (walk sy) (\<lambda>order. bind_prog (while_ok (nft_add_chain sy) order) (\<lambda>ok. if \<not> ok then ret ()
       else bind_prog (while_ok (nft_add_base sy) nftJumpRules) (\<lambda>ok. if \<not> ok then ret ()
       else bind_prog (while_ok (nft_add_jump sy) nftJumpRules) (\<lambda>_. ret ()))))))"

definition nft_EnsureChain :: "'k sys \<Rightarrow> string \<Rightarrow> string \<Rightarrow> ('k, bool) fw" where
  "nft_EnsureChain sy chain table =
     bind_prog (nft_chainExists sy ''ip'' table chain) (\<lambda>there. if there then ret False
       else bind_prog (run_only sy [''nft'', ''add'', ''table'', ''ip'', table]) (\<lambda>_.
         bind_prog (run_cmd sy [''nft'', ''add'', ''chain'', ''ip'', table, chain] '''') (\<lambda>x. ret (Success x))))"

definition nft_Teardown :: "'k sys \<Rightarrow> ('k, unit) fw" where
  "nft_Teardown sy = each (\<lambda>(family, table, builtin, target).
     bind_prog (findJumpRuleHandle sy family table builtin target) (\<lambda>h.
     bind_prog (case h of None \<Rightarrow> ret ()
       | Some n \<Rightarrow> run_only sy [''nft'', ''delete'', ''rule'', family, table, builtin, ''handle'', Itoa n]) (\<lambda>_.
     bind_prog (run_only sy [''nft'', ''flush'', ''chain'', family, table, target]) (\<lambda>_.
       run_only sy [''nft'', ''delete'', ''chain'', family, table, target])))) nftJumpRules"

definition MarkDeletedByChain :: "string \<Rightarrow> ('k, unit) fw" where
  "MarkDeletedByChain chain = update_rules (\<lambda>q. fr_chain q = chain \<and> fr_active q) (\<lambda>now q. q\<lparr>fr_active := False\<rparr>)"

definition nft_FlushChain :: "'k sys \<Rightarrow> string \<Rightarrow> string \<Rightarrow> ('k, bool) fw" where
  "nft_FlushChain sy chain table =
     bind_prog (run_cmd sy [''nft'', ''flush'', ''chain'', ''ip'', table, chain] '''') (\<lambda>x. if \<not> Success x then ret False
       else bind_prog (ignore (MarkDeletedByChain chain)) (\<lambda>_. ret True))"

subsection \<open>Rules\<close>

definition ListAllActive :: "('k, rule list) fw" where
  "ListAllActive = query (\<lambda>s. filter fr_active (h_rules s))"

definition nft_FindAndUpsertRules :: "rule list \<Rightarrow> ('k, rule list) fw" where
  "nft_FindAndUpsertRules = upsert_rules nft_Insert"

definition chain_rule :: "string \<Rightarrow> (int \<times> string) option" where
  "chain_rule line = (let l = TrimSpace line
     in if l = '''' \<or> HasPrefix l ''#'' \<or> HasPrefix l ''chain '' \<or> HasPrefix l ''type '' \<or> HasPrefix l ''}'' then None
        else case handle_of l of None \<Rightarrow> None
          | Some n \<Rightarrow> (case LastIndex l handle_mark of None \<Rightarrow> None | Some i \<Rightarrow> Some (n, TrimSpace (take i l))))"

definition listChainRules :: "'k sys \<Rightarrow> string \<Rightarrow> string \<Rightarrow> ('k, (int \<times> string) list) fw" where
  "listChainRules sy chain table =
     bind_prog (run_cmd sy [''nft'', ''-a'', ''list'', ''chain'', ''ip'', table, chain] '''') (\<lambda>x.
       ret (if Success x then concat (map (\<lambda>l. case chain_rule l of Some r \<Rightarrow> [r] | None \<Rightarrow> []) (lines_of (rc_out x)))
            else []))"

definition quoted :: "string \<Rightarrow> string" where
  "quoted s = [CHR 0x22] @ s @ [CHR 0x22]"

definition ruleToNftExpr :: "rule \<Rightarrow> string list" where
  "ruleToNftExpr r =
     (if fr_src r \<noteq> any_cidr then [''ip'', ''saddr'', fr_src r] else [])
     @ (if fr_dst r \<noteq> any_cidr then [''ip'', ''daddr'', fr_dst r] else [])
     @ (if fr_in r \<noteq> any_iface then [''iifname'', quoted (fr_in r)] else [])
     @ (if fr_out r \<noteq> any_iface then [''oifname'', quoted (fr_out r)] else [])
     @ (if fr_proto r \<noteq> ''all'' \<and> fr_sport r = 0 \<and> fr_dport r = 0 then [fr_proto r] else [])
     @ (if fr_sport r \<noteq> 0 then [fr_proto r, ''sport'', Itoa (fr_sport r)] else [])
     @ (if fr_dport r \<noteq> 0 then [fr_proto r, ''dport'', Itoa (fr_dport r)] else [])
     @ [map to_lower (fr_target r)]
     @ (if tagged r then [''comment'', quoted (the (fr_comment r))] else [])"

definition findRuleHandle :: "'k sys \<Rightarrow> rule \<Rightarrow> ('k, int option) fw" where
  "findRuleHandle sy r = bind_prog (listChainRules sy (fr_chain r) (fr_table r)) (\<lambda>ls.
     ret (map_option fst (find_first (\<lambda>(h, text). Contains text (Join (ruleToNftExpr r) '' '')) ls)))"

definition nft_RuleExists :: "'k sys \<Rightarrow> rule \<Rightarrow> ('k, bool) fw" where
  "nft_RuleExists sy r = bind_prog (findRuleHandle sy r) (\<lambda>h. ret (h \<noteq> None))"

definition nft_add_args :: "rule \<Rightarrow> string list" where
  "nft_add_args r = [''nft'', ''add'', ''rule'', ''ip'', fr_table r, fr_chain r] @ ruleToNftExpr r"

definition nft_EnsureRule :: "'k sys \<Rightarrow> rule \<Rightarrow> string \<Rightarrow> ('k, fw_result) fw" where
  "nft_EnsureRule sy r label = bind_prog (attempt (FindByAttributes r)) (\<lambda>f. case f of
     Inl e \<Rightarrow> ret (fw_failure (''Failed to query existing nftables rule: '' @ err_text e) None)
   | Inr (Some q) \<Rightarrow> bind_prog (verify_row q) (\<lambda>_. ret (fw_success\<lparr>fx_rule := Some q\<rparr>))
   | Inr None \<Rightarrow>
       (let cmd = Join (nft_add_args r) '' ''
        in bind_prog (run_cmd sy (nft_add_args r) '''') (\<lambda>x.
          if \<not> Success x
          then ret (fw_failure (''Failed to create nftables rule: '' @ command_failed ''nft'' x) (Some cmd))
          else bind_prog (attempt (nft_Insert (r\<lparr>fr_cmd := Some cmd\<rparr>))) (\<lambda>i. ret (case i of
              Inl e \<Rightarrow> fw_failure (''Failed to insert nftables rule: '' @ err_text e) (Some cmd)
            | Inr q \<Rightarrow> \<lparr>fx_ok = True, fx_rule = Some q, fx_error = None, fx_cmd = Some cmd\<rparr>)))))"

definition nft_delete_args :: "rule \<Rightarrow> int \<Rightarrow> string list" where
  "nft_delete_args r h = [''nft'', ''delete'', ''rule'', ''ip'', fr_table r, fr_chain r, ''handle'', Itoa h]"

definition mark_row :: "rule \<Rightarrow> ('k, unit) fw" where
  "mark_row r = (case fr_id r of Some i \<Rightarrow> ignore (MarkDeleted i) | None \<Rightarrow> ret ())"

definition nft_RemoveRule :: "'k sys \<Rightarrow> rule \<Rightarrow> ('k, fw_result) fw" where
  "nft_RemoveRule sy r =
     bind_prog (if fr_id r \<noteq> None then ret r
       else bind_prog (attempt (FindByAttributes r)) (\<lambda>f. ret (case f of Inr (Some q) \<Rightarrow> q | _ \<Rightarrow> r))) (\<lambda>q.
     bind_prog (findRuleHandle sy q) (\<lambda>h. case h of
       None \<Rightarrow> ret (fw_failure ''Rule not found in nftables (no matching handle)'' None)
     | Some n \<Rightarrow> let cmd = Join (nft_delete_args q n) '' ''
         in bind_prog (run_cmd sy (nft_delete_args q n) '''') (\<lambda>x.
           if \<not> Success x then ret (fw_failure (''Failed to remove nftables rule: '' @ rc_err x) (Some cmd))
           else bind_prog (mark_row q) (\<lambda>_.
             ret \<lparr>fx_ok = True, fx_rule = Some q, fx_error = None, fx_cmd = Some cmd\<rparr>))))"

subsection \<open>Batches\<close>

definition nft_conntrack :: "string list" where
  "nft_conntrack = [''ct'', ''state'', ''established,related'', ''accept'']"

definition nft_line :: "rule \<Rightarrow> string list" where
  "nft_line r = [''add'', ''rule'', ''ip'', fr_table r, fr_chain r] @ ruleToNftExpr r"

definition nft_script :: "(string \<times> string) list \<Rightarrow> (string \<times> string) list \<Rightarrow> rule list \<Rightarrow> string list list" where
  "nft_script order1 order2 rs =
     map (\<lambda>(c, t). [''flush'', ''chain'', ''ip'', t, c]) order1 @ [[]]
     @ map (\<lambda>(c, t). [''add'', ''rule'', ''ip'', t, c] @ nft_conntrack) (filter (\<lambda>(c, t). t = ''filter'') order2) @ [[]]
     @ map (\<lambda>c. [''add'', ''rule'', ''ip'', ''filter'', c] @ nft_conntrack) [''MVM-FORWARD'', ''MVM-NOCLOUDNET-INPUT''] @ [[]]
     @ map nft_line rs"

definition nft_text :: "string list list \<Rightarrow> string" where
  "nft_text ws = Join (map (\<lambda>w. Join w '' '') ws) newline @ newline"

definition nft_BatchEnsureRules :: "'k sys \<Rightarrow> rule list \<Rightarrow> ('k, fw_result) fw" where
  "nft_BatchEnsureRules sy rs = bind_prog (walk sy) (\<lambda>order1. bind_prog (walk sy) (\<lambda>order2.
     bind_prog (run_cmd sy [''nft'', ''-f'', ''-''] (nft_text (nft_script order1 order2 rs))) (\<lambda>x.
       if \<not> Success x then ret (fw_failure (command_failed ''nft -f -'' x) None)
       else bind_prog (ignore (nft_FindAndUpsertRules rs)) (\<lambda>_. ret fw_success))))"

text \<open>Every rule is tried; the message of the last deletion that failed is kept.\<close>

fun remove_each :: "'k sys \<Rightarrow> rule list \<Rightarrow> string \<Rightarrow> ('k, string) fw" where
  "remove_each sy [] last_err = ret last_err"
| "remove_each sy (r # rs) last_err = bind_prog (findRuleHandle sy r) (\<lambda>h. case h of
     None \<Rightarrow> bind_prog (mark_row r) (\<lambda>_. remove_each sy rs last_err)
   | Some n \<Rightarrow> bind_prog (run_cmd sy (nft_delete_args r n) '''') (\<lambda>x.
       if \<not> Success x
       then remove_each sy rs (if rc_err x = '''' then ''exit '' @ Itoa (rc_exit x) else rc_err x)
       else bind_prog (mark_row r) (\<lambda>_. remove_each sy rs last_err)))"

definition nft_BatchRemoveRules :: "'k sys \<Rightarrow> rule list \<Rightarrow> ('k, fw_result) fw" where
  "nft_BatchRemoveRules sy rs = bind_prog (remove_each sy rs '''') (\<lambda>e. ret (
     if e \<noteq> '''' then fw_failure (''Some nftables rules could not be deleted: '' @ e) None else fw_success))"

subsection \<open>Orphans\<close>

text \<open>
  The first text between quotes after the word \<open>comment\<close> and blanks, as the regular expression
  \<open>comment\s+"([^"]+)"\<close> finds it.
\<close>

definition re_blank :: "char \<Rightarrow> bool" where
  "re_blank c \<longleftrightarrow> c \<in> {CHR 0x20, CHR 0x09, CHR 0x0A, CHR 0x0C, CHR 0x0D}"

definition comment_here :: "string \<Rightarrow> string option" where
  "comment_here s = (if \<not> HasPrefix s ''comment'' then None
     else let r = drop 7 s; b = takeWhile re_blank r; q = dropWhile re_blank r
       in if b = [] \<or> take 1 q \<noteq> [CHR 0x22] then None
          else let t = takeWhile (\<lambda>c. c \<noteq> CHR 0x22) (tl q)
            in if t = [] \<or> length t = length (tl q) then None else Some t)"

fun nft_comment :: "string \<Rightarrow> string option" where
  "nft_comment [] = None"
| "nft_comment (c # s) = (case comment_here (c # s) of Some t \<Rightarrow> Some t | None \<Rightarrow> nft_comment s)"

definition nft_is_orphan :: "string \<Rightarrow> string list \<Rightarrow> string \<Rightarrow> bool" where
  "nft_is_orphan name known text \<longleftrightarrow> (case nft_comment text of
     None \<Rightarrow> False | Some c \<Rightarrow> Contains c name \<and> c \<notin> set known)"

definition count_orphans :: "'k sys \<Rightarrow> string \<Rightarrow> string list \<Rightarrow> (string \<times> string \<times> string) list \<Rightarrow> nat \<Rightarrow> ('k, nat) fw" where
  "count_orphans sy name known cs = foldr (\<lambda>(chain, table, _) k n.
     bind_prog (listChainRules sy chain table) (\<lambda>ls. k (n + length (filter (nft_is_orphan name known) (map snd ls))))) cs ret"

definition nft_CountOrphanedRules :: "'k sys \<Rightarrow> network \<Rightarrow> ('k, nat) fw" where
  "nft_CountOrphanedRules sy net = bind_prog (attempt (GetByNetworkID (n_id net) True)) (\<lambda>r. case r of
     Inl e \<Rightarrow> ret 0
   | Inr rows \<Rightarrow> count_orphans sy (n_name net) (comments_of rows) mvm_chains 0)"

end
