(* ===== verification/Tracker.thy ===== *)
theory Tracker
  imports Nftables
begin

text \<open>
  The firewall, third part: the tracker that passes calls on to one of the two back ends and
  collects rules into batches (\<open>internal/lib/firewall/tracker.go\<close>), and the rules of a machine's
  interface (\<open>internal/core/network/service.go\<close>).
\<close>

subsection \<open>Dispatch\<close>

datatype backend = IPTables | NFTables

definition Initialize :: "backend \<Rightarrow> 'k sys \<Rightarrow> ('k, unit) fw" where
  "Initialize be sy = (case be of IPTables \<Rightarrow> ipt_Initialize sy | NFTables \<Rightarrow> nft_Initialize sy)"

definition Teardown :: "backend \<Rightarrow> 'k sys \<Rightarrow> ('k, unit) fw" where
  "Teardown be sy = (case be of IPTables \<Rightarrow> ipt_Teardown sy | NFTables \<Rightarrow> nft_Teardown sy)"

definition BatchEnsureRules :: "backend \<Rightarrow> 'k sys \<Rightarrow> rule list \<Rightarrow> ('k, fw_result) fw" where
  "BatchEnsureRules be sy rs = (case be of IPTables \<Rightarrow> ipt_BatchEnsureRules sy rs | NFTables \<Rightarrow> nft_BatchEnsureRules sy rs)"

definition RemoveRule :: "backend \<Rightarrow> 'k sys \<Rightarrow> rule \<Rightarrow> ('k, fw_result) fw" where
  "RemoveRule be sy r = (case be of IPTables \<Rightarrow> ipt_RemoveRule sy r | NFTables \<Rightarrow> nft_RemoveRule sy r)"

definition BatchRemoveRules :: "backend \<Rightarrow> 'k sys \<Rightarrow> rule list \<Rightarrow> ('k, fw_result) fw" where
  "BatchRemoveRules be sy rs = (case be of IPTables \<Rightarrow> ipt_BatchRemoveRules sy rs | NFTables \<Rightarrow> nft_BatchRemoveRules sy rs)"

definition CountOrphanedRules :: "backend \<Rightarrow> 'k sys \<Rightarrow> network \<Rightarrow> ('k, nat) fw" where
  "CountOrphanedRules be sy net = (case be of IPTables \<Rightarrow> ipt_CountOrphanedRules sy net | NFTables \<Rightarrow> nft_CountOrphanedRules sy net)"

definition RuleExists :: "backend \<Rightarrow> 'k sys \<Rightarrow> rule \<Rightarrow> ('k, bool) fw" where
  "RuleExists be sy r = (case be of IPTables \<Rightarrow> ipt_RuleExists sy r | NFTables \<Rightarrow> nft_RuleExists sy r)"

definition EnsureChain :: "backend \<Rightarrow> 'k sys \<Rightarrow> string \<Rightarrow> string \<Rightarrow> string \<Rightarrow> int \<Rightarrow> ('k, bool) fw" where
  "EnsureChain be sy chain table jump position =
     (case be of IPTables \<Rightarrow> ipt_EnsureChain sy chain table jump position | NFTables \<Rightarrow> nft_EnsureChain sy chain table)"

definition FlushChain :: "backend \<Rightarrow> 'k sys \<Rightarrow> string \<Rightarrow> string \<Rightarrow> ('k, bool) fw" where
  "FlushChain be sy chain table =
     (case be of IPTables \<Rightarrow> ipt_FlushChain sy chain table | NFTables \<Rightarrow> nft_FlushChain sy chain table)"

subsection \<open>Batches\<close>

definition EnsureRule :: "backend \<Rightarrow> 'k sys \<Rightarrow> rule \<Rightarrow> string \<Rightarrow> ('k, fw_result) fw" where
  "EnsureRule be sy r label = bind_prog (host (\<lambda>s. (h_batch s, s))) (\<lambda>batch.
     if batch then bind_prog (host (\<lambda>s. ((), s\<lparr>h_queue := h_queue s @ [r]\<rparr>))) (\<lambda>_. ret fw_success)
     else case be of IPTables \<Rightarrow> ipt_EnsureRule sy r label | NFTables \<Rightarrow> nft_EnsureRule sy r label)"

definition flushBatch :: "backend \<Rightarrow> 'k sys \<Rightarrow> ('k, fw_result) fw" where
  "flushBatch be sy = bind_prog (host (\<lambda>s. (h_queue s, s\<lparr>h_batch := False\<rparr>))) (\<lambda>q.
     if q = [] then ret fw_success
     else bind_prog (BatchEnsureRules be sy q) (\<lambda>x.
       bind_prog (host (\<lambda>s. ((), s\<lparr>h_queue := []\<rparr>))) (\<lambda>_. ret x)))"

text \<open>The flush is deferred: it runs however \<open>fn\<close> ends, and its result only reaches the log.\<close>

definition WithBatch :: "backend \<Rightarrow> 'k sys \<Rightarrow> ('k, 'a) fw \<Rightarrow> ('k, 'a) fw" where
  "WithBatch be sy fn = bind_prog (host (\<lambda>s. ((), s\<lparr>h_batch := True, h_queue := []\<rparr>))) (\<lambda>_.
     bind_prog (attempt fn) (\<lambda>r. bind_prog (flushBatch be sy) (\<lambda>_.
       case r of Inl e \<Rightarrow> throw e | Inr x \<Rightarrow> ret x)))"

text \<open>The rules of a list, one after the other, until one cannot be ensured.\<close>

fun ensure_all :: "backend \<Rightarrow> 'k sys \<Rightarrow> string \<Rightarrow> (string \<Rightarrow> err) \<Rightarrow> rule list \<Rightarrow> ('k, unit) fw" where
  "ensure_all be sy label failed [] = ret ()"
| "ensure_all be sy label failed (r # rs) = bind_prog (EnsureRule be sy r label) (\<lambda>x.
     if fx_ok x then ensure_all be sy label failed rs
     else throw (failed (case fx_error x of Some m \<Rightarrow> m | None \<Rightarrow> '''')))"

text \<open>A service without a tracker adds no rules.\<close>

definition AddTapFirewallRules :: "backend option \<Rightarrow> 'k sys \<Rightarrow> string \<Rightarrow> string \<Rightarrow> string \<Rightarrow> string \<Rightarrow> ('k, unit) fw" where
  "AddTapFirewallRules tracker sy tap bridge net subnet = (case tracker of None \<Rightarrow> ret ()
   | Some be \<Rightarrow> ensure_all be sy (''tap:'' @ tap)
       (\<lambda>m. Wrap ''network.firewall.failed'' (Plain (''failed to add FORWARD rule for TAP '' @ tap @ '': '' @ m) None))
       (NewTapForwardRules tap bridge net subnet))"

subsection \<open>What a restore leaves in the kernel\<close>

definition good_order :: "'k sys \<Rightarrow> bool" where
  "good_order sy \<longleftrightarrow> (\<forall>n. mset (sy_order sy n) = mset chainToTable)"

lemma good_orderD:
  assumes "good_order sy"
  shows "set (sy_order sy n) = set chainToTable" "distinct (map fst (sy_order sy n))"
proof -
  have m: "mset (sy_order sy n) = mset chainToTable" using assms by (simp add: good_order_def)
  then show "set (sy_order sy n) = set chainToTable" by (rule mset_eq_setD)
  have "mset (map fst (sy_order sy n)) = mset (map fst chainToTable)" using m by (simp only: mset_map)
  moreover have "distinct (map fst chainToTable)" by (simp add: chainToTable_def)
  ultimately show "distinct (map fst (sy_order sy n))" by (metis mset_eq_imp_distinct_iff)
qed

definition head_lines :: "string \<Rightarrow> string \<times> string \<Rightarrow> string list list" where
  "head_lines table = (\<lambda>(c, t). if t \<noteq> table then []
     else [['':'' @ c, ''-'', ''[0:0]''], [''-F'', c]] @ (if table = ''filter'' then [[''-A'', c] @ conntrack] else []))"

lemma restore_words_head:
  "restore_words sy order rs table = concat (map (head_lines table) order) @ map (restore_line sy) rs"
  by (simp add: restore_words_def head_lines_def)

definition head_rules :: "(string list \<Rightarrow> string list) \<Rightarrow> string \<Rightarrow> string list list" where
  "head_rules mean table = (if table = ''filter'' then [mean conntrack] else [])"

lemma head_effect:
  "fold (line_effect mean c) (head_lines table ct) old = (if ct = (c, table) then head_rules mean table else old)"
  by (cases ct) (auto simp: head_lines_def line_effect_def head_rules_def conntrack_def)

lemma heads_effect:
  "distinct (map fst order) \<Longrightarrow> fold (line_effect mean c) (concat (map (head_lines table) order)) old =
     (if (c, table) \<in> set order then head_rules mean table else old)"
proof (induction order arbitrary: old)
  case (Cons ct order)
  then have "ct = (c, table) \<Longrightarrow> (c, table) \<notin> set order" by force
  with Cons show ?case by (auto simp: head_effect)
qed simp

lemma lines_effect:
  "fold (line_effect mean c) (map (restore_line sy) rs) old =
     old @ map (mean \<circ> rule_spec sy) (filter (\<lambda>r. fr_chain r = c) rs)"
  by (induction rs arbitrary: old) (auto simp: line_effect_def restore_line_def)

text \<open>A chain of the program after a restore of its table.\<close>

definition restored :: "'k sys \<Rightarrow> (string list \<Rightarrow> string list) \<Rightarrow> rule list \<Rightarrow> string \<Rightarrow> chain_view \<Rightarrow> chain_view" where
  "restored sy mean rs table v = v(table := \<lambda>c.
     (if (c, table) \<in> set chainToTable then head_rules mean table else v table c)
     @ map (mean \<circ> rule_spec sy) (filter (\<lambda>r. fr_chain r = c) rs))"

lemma restore_effect:
  assumes "good_order sy"
  shows "fold (line_effect mean c) (restore_words sy (sy_order sy n) rs table) old =
    (if (c, table) \<in> set chainToTable then head_rules mean table else old)
     @ map (mean \<circ> rule_spec sy) (filter (\<lambda>r. fr_chain r = c) rs)"
  using good_orderD [OF assms] by (simp add: restore_words_head heads_effect lines_effect)

definition plain_rule :: "'k sys \<Rightarrow> rule \<Rightarrow> bool" where
  "plain_rule sy r \<longleftrightarrow> list_all plain (restore_line sy r)"

lemma sent_rule: "plain_rule sy r \<Longrightarrow> sent_line (restore_line sy r)"
  by (simp add: plain_rule_def sent_line_def restore_line_def)

lemma plain_heads: "set order = set chainToTable \<Longrightarrow> list_all sent_line (concat (map (head_lines t) order))"
  by (auto simp: list_all_iff sent_line_def head_lines_def chainToTable_def conntrack_def plain_def shell_safe_def)

lemma walk_spec:
  assumes "\<And>r. Q (Ok (sy_order sy r)) s"
  shows "post (\<lambda>s. s) fl s (walk sy) Q"
  using assms by (intro postI) (simp add: walk_def)

definition fails :: "'k sys \<Rightarrow> string list \<Rightarrow> bool" where
  "fails sy args \<longleftrightarrow> (\<exists>inp k. \<not> fst (launch sy args inp k))"

abbreviation restore_cmd :: "string list" where "restore_cmd \<equiv> [''iptables-restore'', ''-n'']"
abbreviation script_cmd :: "string list" where "script_cmd \<equiv> [''nft'', ''-f'', ''-'']"

lemma failed: "launch sy args inp k = (ok, k') \<Longrightarrow> \<not> ok \<Longrightarrow> fails sy args"
  unfolding fails_def by (metis fst_conv)

lemma restore_table_spec:
  assumes doc: "documented sy mean rules" and order: "good_order sy" and t: "table \<in> {''filter'', ''nat''}"
    and rs: "list_all (plain_rule sy) rs" "rs \<noteq> []"
  shows "post (\<lambda>s. s) fl s (restore_table sy rs table) (\<lambda>r s'. \<exists>e k'. r = Ok e \<and> s' = s\<lparr>h_kernel := k'\<rparr> \<and>
    (e \<noteq> None \<longrightarrow> fails sy restore_cmd) \<and> rules k' = (if e = None then restored sy mean rs table (rules (h_kernel s)) else rules (h_kernel s)))"
proof -
  have plain: "list_all sent_line (restore_words sy (sy_order sy n) rs table)" for n
    using rs plain_heads [OF good_orderD(1) [OF order]]
    unfolding restore_words_head list_all_append by (simp add: list_all_iff sent_rule)
  have step: "post (\<lambda>s. s) fl s (bind_prog
      (run_cmd sy [''iptables-restore'', ''-n''] (buildRestoreInput sy (sy_order sy n) rs table))
      (\<lambda>x. ret (if Success x then None else Some (command_failed ''iptables-restore -n'' x))))
    (\<lambda>r s'. \<exists>e k'. r = Ok e \<and> s' = s\<lparr>h_kernel := k'\<rparr> \<and>
      (e \<noteq> None \<longrightarrow> fails sy restore_cmd) \<and> rules k' = (if e = None then restored sy mean rs table (rules (h_kernel s)) else rules (h_kernel s)))" for n
  proof (rule post_seq [OF run_spec], goal_cases)
    case (2 x s')
    then obtain k' where s': "s' = s\<lparr>h_kernel := k'\<rparr>" and
      "launch sy [''iptables-restore'', ''-n''] (restore_text table (restore_words sy (sy_order sy n) rs table)) (h_kernel s) =
        (Success x, k')" by (auto simp: buildRestoreInput_def)
    note run = this(2)
    have fail: "\<not> Success x \<Longrightarrow> fails sy restore_cmd" by (rule failed [OF run])
    from restore_documented [OF doc t plain run] have "rules k' = (if Success x then restored sy mean rs table (rules (h_kernel s)) else rules (h_kernel s))"
      by (simp only: restored_def restore_effect [OF order])
    with fail have ex: "\<exists>e k''. Ok (if Success x then None else Some (command_failed ''iptables-restore -n'' x)) = Ok e \<and>
        s' = s\<lparr>h_kernel := k''\<rparr> \<and> (e \<noteq> None \<longrightarrow> fails sy restore_cmd) \<and>
        rules k'' = (if e = None then restored sy mean rs table (rules (h_kernel s)) else rules (h_kernel s))"
      by (cases "Success x") (auto simp: s')
    show ?case by (rule post_ret, rule ex)
  qed simp
  show ?thesis unfolding restore_table_def if_not_P [OF rs(2)]
    by (rule post_bind, rule walk_spec, simp only: sum.case, rule step)
qed

subsection \<open>Batches of an interface's rules\<close>

text \<open>Statements on the rows leave the kernel alone and lose no row.\<close>

definition rows_only :: "'k fw_host \<Rightarrow> 'k fw_host \<Rightarrow> bool" where
  "rows_only s s' \<longleftrightarrow> h_kernel s' = h_kernel s \<and> h_batch s' = h_batch s \<and> rows_kept (h_rules s) (h_rules s')"

interpretation rows: guarantee "rows_only :: 'k fw_host \<Rightarrow> 'k fw_host \<Rightarrow> bool"
  by unfold_locales (auto simp: rows_only_def intro: rows_kept_trans)

lemma within_post:
  assumes "within rows_only m"
  shows "post (\<lambda>s. s) fl s m (\<lambda>r s'. rows_only s s')"
proof (rule postI)
  fix E :: "'a fw_host env" and s0 :: "'a fw_host" and n
  assume E: "\<And>n s. e_step E n s = s" "s0 = s"
  have "\<forall>n s. rows_only s (e_step E n s)" by (simp add: E rows.refl)
  then have "rows_only (fst (s0, n)) (fst (snd (m E (s0, n))))" using assms unfolding within_def by blast
  then show "rows_only s (fst (snd (m E (s0, n))))" by (simp add: E)
qed

lemma insert_rows: "within rows_only (insert_row same r)"
  unfolding insert_row_def Let_def by (rule rows.within_stmt) (simp add: rows_only_def split: if_split)

lemma UpdateVerifiedAt_rows: "within rows_only (UpdateVerifiedAt i)"
  unfolding UpdateVerifiedAt_def update_rules_def
  by (rule rows.within_exec) (simp add: rows_only_def rows_kept_verified)

lemma ignore_rows: "within rows_only m \<Longrightarrow> within rows_only (ignore m)"
  unfolding ignore_def by (intro rows.within_bind rows.within_attempt rows.within_ret)

lemma upsert_rows: "within (rows_only :: 'k fw_host \<Rightarrow> _) (upsert_rules (insert_row same) rs)"
proof (induction rs)
  case Nil
  show ?case unfolding upsert_rules.simps by (rule rows.within_ret)
next
  case (Cons r rs)
  have new: "within (rows_only :: 'k fw_host \<Rightarrow> _) (bind_prog (insert_row same r) (\<lambda>x.
      bind_prog (upsert_rules (insert_row same) rs) (\<lambda>xs. ret (x # xs))))"
    by (intro rows.within_bind rows.within_ret insert_rows Cons.IH)
  have old: "within (rows_only :: 'k fw_host \<Rightarrow> _) (bind_prog (ignore (UpdateVerifiedAt i))
      (\<lambda>_. upsert_rules (insert_row same) rs))" for i
    by (intro rows.within_bind ignore_rows UpdateVerifiedAt_rows Cons.IH)
  show ?case unfolding upsert_rules.simps FindByAttributes_def
    by (intro rows.within_bind rows.within_query) (auto split: option.split simp: new old)
qed

lemma surely_ignore: "surely (ignore m)"
  by (simp add: ignore_def surely_bind surely_attempt surely_ret)

lemma upsert_spec:
  "post (\<lambda>s. s) fl s (ignore (upsert_rules (insert_row same) rs)) (\<lambda>r s'. r = Ok () \<and> rows_only s s')"
proof (rule postI)
  fix E :: "'a fw_host env" and s0 :: "'a fw_host" and n
  let ?m = "ignore (upsert_rules (insert_row same) rs)"
  assume E: "\<And>n s. e_step E n s = s" "s0 = s"
  have "rows_only s (fst (snd (?m E (s0, n))))"
    using within_post [OF ignore_rows [OF upsert_rows], of True s same rs] E by (auto simp: post_def)
  moreover obtain x where "fst (?m E (s0, n)) = Ok x"
    using surely_ignore unfolding surely_def by blast
  ultimately show "fst (?m E (s0, n)) = Ok () \<and> rows_only s (fst (snd (?m E (s0, n))))" by simp
qed

lemmas upsert_specs = upsert_spec [where same = same_attrs, folded Insert_def FindAndUpsertRules_def]
  upsert_spec [where same = nft_same, folded nft_Insert_def nft_FindAndUpsertRules_def]

lemma ipt_batch_spec:
  assumes doc: "documented sy mean rules" and order: "good_order sy"
    and rs: "list_all (plain_rule sy) rs" "rs \<noteq> []" "list_all (\<lambda>r. fr_table r = ''filter'') rs"
  shows "post (\<lambda>s. s) fl s (ipt_BatchEnsureRules sy rs) (\<lambda>r s'. \<exists>x. r = Ok x \<and> (\<not> fx_ok x \<longrightarrow> fails sy restore_cmd) \<and>
    h_batch s' = h_batch s \<and> rows_kept (h_rules s) (h_rules s') \<and>
    rules (h_kernel s') = (if fx_ok x then restored sy mean rs ''filter'' (rules (h_kernel s)) else rules (h_kernel s)))"
proof -
  have f: "filter (\<lambda>r. fr_table r = ''filter'') rs = rs" "filter (\<lambda>r. fr_table r = ''nat'') rs = []"
    using rs(3) by (auto simp: list_all_iff filter_id_conv filter_empty_conv)
  show ?thesis unfolding ipt_BatchEnsureRules_def f
  proof (rule post_seq [OF restore_table_spec [OF doc order _ rs(1,2)]], goal_cases)
    case (3 e s1)
    then obtain k' where s1: "s1 = s\<lparr>h_kernel := k'\<rparr>" and fail: "e \<noteq> None \<longrightarrow> fails sy restore_cmd" and
      k': "rules k' = (if e = None then restored sy mean rs ''filter'' (rules (h_kernel s)) else rules (h_kernel s))" by auto
    show ?case
    proof (cases e)
      case (Some m)
      with k' fail show ?thesis by (auto intro!: post_ret simp: s1)
    next
      case None
      have "restore_table sy [] ''nat'' = ret None" by (simp add: restore_table_def)
      moreover have "post (\<lambda>s. s) fl s1 (bind_prog (ignore (FindAndUpsertRules rs)) (\<lambda>_. ret fw_success))
        (\<lambda>r s'. \<exists>x. r = Ok x \<and> (\<not> fx_ok x \<longrightarrow> fails sy restore_cmd) \<and> h_batch s' = h_batch s \<and>
          rows_kept (h_rules s) (h_rules s') \<and> rules (h_kernel s') =
          (if fx_ok x then restored sy mean rs ''filter'' (rules (h_kernel s)) else rules (h_kernel s)))"
      proof (rule post_seq [OF upsert_specs(1)], goal_cases)
        case (2 u s2)
        then have "rows_kept (h_rules s) (h_rules s2)" "h_kernel s2 = k'" "h_batch s2 = h_batch s" by (simp_all add: s1 rows_only_def)
        with k' None show ?case by (intro post_ret) simp
      qed simp
      ultimately show ?thesis by (simp add: None)
    qed
  qed simp_all
qed

lemma queue_all:
  "h_batch s \<Longrightarrow> post (\<lambda>s. s) fl s (ensure_all be sy l f rs) (\<lambda>r s'. r = Ok () \<and> s' = s\<lparr>h_queue := h_queue s @ rs\<rparr>)"
proof (induction rs arbitrary: s)
  case Nil
  show ?case unfolding ensure_all.simps by (rule post_ret) simp
next
  case (Cons r rs)
  let ?s = "s\<lparr>h_queue := h_queue s @ [r]\<rparr>"
  have "post (\<lambda>s. s) fl s (EnsureRule be sy r l) (\<lambda>x s'. x = Ok fw_success \<and> s' = ?s)"
    unfolding EnsureRule_def by (intro post_bind post_host) (simp add: Cons.prems post_bind post_host post_ret)
  moreover have "post (\<lambda>s. s) fl ?s (ensure_all be sy l f rs) (\<lambda>r s'. r = Ok () \<and> s' = ?s\<lparr>h_queue := h_queue ?s @ rs\<rparr>)"
    using Cons.prems by (intro Cons.IH) simp
  ultimately show ?case unfolding ensure_all.simps by (elim post_seq) auto
qed

text \<open>A batch of rules is one call of the back end, whatever the result of that call.\<close>

lemma batch_of_rules:
  assumes "rs \<noteq> []"
    and "\<And>s1. h_kernel s1 = h_kernel s \<Longrightarrow> h_rules s1 = h_rules s \<Longrightarrow> \<not> h_batch s1 \<Longrightarrow>
      post (\<lambda>s. s) fl s1 (BatchEnsureRules be sy rs) (\<lambda>r s'. \<exists>x. r = Ok x \<and> \<not> h_batch s' \<and> P (h_kernel s') (h_rules s'))"
  shows "post (\<lambda>s. s) fl s (WithBatch be sy (ensure_all be sy l f rs)) (\<lambda>r s'. r = Ok () \<and> \<not> h_batch s' \<and> P (h_kernel s') (h_rules s'))"
proof -
  let ?s1 = "s\<lparr>h_batch := True, h_queue := []\<rparr>" and ?s2 = "s\<lparr>h_queue := rs, h_batch := False\<rparr>"
  have "post (\<lambda>s. s) fl ?s1 (attempt (ensure_all be sy l f rs)) (\<lambda>r s'. r = Ok (Ok ()) \<and> s' = ?s1\<lparr>h_queue := rs\<rparr>)"
    using queue_all [of ?s1] by (intro post_attempt) (auto elim!: post_mono)
  note add = this
  have "post (\<lambda>s. s) fl (?s1\<lparr>h_queue := rs\<rparr>) (flushBatch be sy) (\<lambda>r s'. (\<exists>x. r = Ok x) \<and> \<not> h_batch s' \<and> P (h_kernel s') (h_rules s'))"
    unfolding flushBatch_def
  proof (rule post_bind, rule post_host)
    have "post (\<lambda>s. s) fl ?s2 (bind_prog (BatchEnsureRules be sy rs) (\<lambda>x.
        bind_prog (host (\<lambda>s. ((), s\<lparr>h_queue := []\<rparr>))) (\<lambda>_. ret x))) (\<lambda>r s'. (\<exists>x. r = Ok x) \<and> \<not> h_batch s' \<and> P (h_kernel s') (h_rules s'))"
      by (rule post_seq [OF assms(2)]) (auto intro!: post_bind post_host simp: post_ret)
    then show "case Ok (fst (h_queue s', s'\<lparr>h_batch := False\<rparr>)) of
        Inl e \<Rightarrow> (\<exists>x. Err e = Ok x) \<and> \<not> h_batch (snd (h_queue s', s'\<lparr>h_batch := False\<rparr>)) \<and> P (h_kernel (snd (h_queue s', s'\<lparr>h_batch := False\<rparr>))) (h_rules (snd (h_queue s', s'\<lparr>h_batch := False\<rparr>)))
      | Inr q \<Rightarrow> post (\<lambda>s. s) fl (snd (h_queue s', s'\<lparr>h_batch := False\<rparr>)) (if q = [] then ret fw_success
        else bind_prog (BatchEnsureRules be sy q) (\<lambda>x. bind_prog (host (\<lambda>s. ((), s\<lparr>h_queue := []\<rparr>))) (\<lambda>_. ret x)))
        (\<lambda>r s'. (\<exists>x. r = Ok x) \<and> \<not> h_batch s' \<and> P (h_kernel s') (h_rules s'))" if "s' = ?s1\<lparr>h_queue := rs\<rparr>" for s'
      using assms(1) that by simp
  qed
  note flush = this
  show ?thesis unfolding WithBatch_def
  proof (rule post_bind, rule post_host, simp, rule post_seq [OF add], goal_cases)
    case (2 r s2)
    then have s2: "s2 = ?s1\<lparr>h_queue := rs\<rparr>" and r: "r = Ok ()" by simp_all
    show ?case unfolding s2 r sum.case by (rule post_seq [OF flush]) (auto intro!: post_ret)
  qed simp
qed

subsection \<open>A script for nft\<close>

definition nft_effect :: "(string list \<Rightarrow> string list) \<Rightarrow> string \<Rightarrow> string \<Rightarrow> string list \<Rightarrow> string list list \<Rightarrow> string list list" where
  "nft_effect mean t c w rs =
     (if w = [''flush'', ''chain'', ''ip'', t, c] then []
      else if take 5 w = [''add'', ''rule'', ''ip'', t, c] then rs @ [mean (drop 5 w)] else rs)"

definition nft_plain :: "string \<Rightarrow> bool" where
  "nft_plain w \<longleftrightarrow> w \<noteq> '''' \<and> list_all (\<lambda>c. shell_safe c \<or> c = CHR 0x22) w"

text \<open>\<open>nft -f\<close> runs a script as one transaction.\<close>

definition documented_nft :: "'k sys \<Rightarrow> (string list \<Rightarrow> string list) \<Rightarrow> ('k \<Rightarrow> chain_view) \<Rightarrow> bool" where
  "documented_nft sy mean rules \<longleftrightarrow> (\<forall>k ws ok k'. list_all (list_all nft_plain) ws \<longrightarrow>
     launch sy [''nft'', ''-f'', ''-''] (nft_text ws) k = (ok, k') \<longrightarrow>
     rules k' = (if ok then (\<lambda>t c. fold (nft_effect mean t c) ws (rules k t c)) else rules k))"

text \<open>The chains after a batch: the program's own are replaced as a whole.\<close>

definition nft_replaced :: "(string list \<Rightarrow> string list) \<Rightarrow> rule list \<Rightarrow> chain_view \<Rightarrow> chain_view" where
  "nft_replaced mean rs v = (\<lambda>t c.
     (if (c, t) \<in> set chainToTable then (if t = ''filter'' then [mean nft_conntrack, mean nft_conntrack] else []) else v t c)
     @ map (mean \<circ> ruleToNftExpr) (filter (\<lambda>r. fr_table r = t \<and> fr_chain r = c) rs))"

lemma nft_flushes:
  "fold (nft_effect mean t c) (map (\<lambda>(c, t). [''flush'', ''chain'', ''ip'', t, c]) order) old =
     (if (c, t) \<in> set order then [] else old)"
  by (induction order arbitrary: old) (auto simp: nft_effect_def)

lemma nft_heads:
  "distinct (map fst order) \<Longrightarrow>
     fold (nft_effect mean t c) (map (\<lambda>(c, t). [''add'', ''rule'', ''ip'', t, c] @ w) (filter (\<lambda>(c, t). t = ''filter'') order)) old =
     (if (c, t) \<in> set order \<and> t = ''filter'' then old @ [mean w] else old)"
proof (induction order arbitrary: old)
  case (Cons ct order)
  obtain c' t' where ct: "ct = (c', t')" by (rule prod.exhaust)
  with Cons.prems have "c' = c \<Longrightarrow> (c, t) \<notin> set order" by force
  with Cons ct show ?case by (auto simp: nft_effect_def)
qed simp

lemma nft_lines:
  "fold (nft_effect mean t c) (map nft_line rs) old =
     old @ map (mean \<circ> ruleToNftExpr) (filter (\<lambda>r. fr_table r = t \<and> fr_chain r = c) rs)"
  by (induction rs arbitrary: old) (auto simp: nft_effect_def nft_line_def)

lemma nft_script_effect:
  assumes "good_order sy"
  shows "fold (nft_effect mean t c) (nft_script (sy_order sy m) (sy_order sy n) rs) (v t c) = nft_replaced mean rs v t c"
proof -
  have blank: "fold (nft_effect mean t c) [[]] old = old" for old by (simp add: nft_effect_def)
  have own: "fold (nft_effect mean t c) (map (\<lambda>c. [''add'', ''rule'', ''ip'', ''filter'', c] @ nft_conntrack)
      [''MVM-FORWARD'', ''MVM-NOCLOUDNET-INPUT'']) old =
    (if (c, t) \<in> set chainToTable \<and> t = ''filter'' then old @ [mean nft_conntrack] else old)" for old
    by (auto simp: nft_effect_def chainToTable_def)
  note order = good_orderD [OF assms]
  show ?thesis
    unfolding nft_script_def fold_append comp_def nft_flushes nft_heads [OF order(2)] own order(1) nft_replaced_def
      blank nft_lines by simp
qed

definition nft_plain_rule :: "rule \<Rightarrow> bool" where
  "nft_plain_rule r \<longleftrightarrow> list_all nft_plain (nft_line r)"

lemma nft_script_plain:
  assumes "good_order sy" "list_all nft_plain_rule rs"
  shows "list_all (list_all nft_plain) (nft_script (sy_order sy m) (sy_order sy n) rs)"
  using assms(2) good_orderD(1) [OF assms(1)]
  unfolding nft_script_def list_all_append
  by (auto simp: list_all_iff nft_plain_rule_def nft_line_def chainToTable_def nft_conntrack_def nft_plain_def shell_safe_def)

lemma nft_batch_spec:
  assumes doc: "documented_nft sy mean rules" and order: "good_order sy" and rs: "list_all nft_plain_rule rs"
  shows "post (\<lambda>s. s) fl s (nft_BatchEnsureRules sy rs) (\<lambda>r s'. \<exists>x. r = Ok x \<and> (\<not> fx_ok x \<longrightarrow> fails sy script_cmd) \<and>
    h_batch s' = h_batch s \<and> rows_kept (h_rules s) (h_rules s') \<and>
    rules (h_kernel s') = (if fx_ok x then nft_replaced mean rs (rules (h_kernel s)) else rules (h_kernel s)))"
proof -
  have "post (\<lambda>s. s) fl s (bind_prog (run_cmd sy [''nft'', ''-f'', ''-''] (nft_text (nft_script (sy_order sy m) (sy_order sy n) rs))) (\<lambda>x.
       if \<not> Success x then ret (fw_failure (command_failed ''nft -f -'' x) None)
       else bind_prog (ignore (nft_FindAndUpsertRules rs)) (\<lambda>_. ret fw_success)))
    (\<lambda>r s'. \<exists>x. r = Ok x \<and> (\<not> fx_ok x \<longrightarrow> fails sy script_cmd) \<and> h_batch s' = h_batch s \<and>
      rows_kept (h_rules s) (h_rules s') \<and> rules (h_kernel s') =
      (if fx_ok x then nft_replaced mean rs (rules (h_kernel s)) else rules (h_kernel s)))" for m n
  proof (rule post_seq [OF run_spec], goal_cases)
    case (2 x s1)
    then obtain k' where s1: "s1 = s\<lparr>h_kernel := k'\<rparr>" and run: "launch sy [''nft'', ''-f'', ''-'']
        (nft_text (nft_script (sy_order sy m) (sy_order sy n) rs)) (h_kernel s) = (Success x, k')" by auto
    with doc nft_script_plain [OF order rs]
    have "rules k' = (if Success x then (\<lambda>t c. fold (nft_effect mean t c) (nft_script (sy_order sy m) (sy_order sy n) rs)
        (rules (h_kernel s) t c)) else rules (h_kernel s))" unfolding documented_nft_def by blast
    then have k': "rules k' = (if Success x then nft_replaced mean rs (rules (h_kernel s)) else rules (h_kernel s))"
      by (simp only: nft_script_effect [OF order])
    show ?case
    proof (cases "Success x")
      case False
      with k' show ?thesis
        by (simp, intro post_ret exI [of _ "fw_failure (command_failed ''nft -f -'' x) None"]) (simp add: s1 failed [OF run False])
    next
      case True
      then have ok: "\<not> \<not> Success x" by simp
      show ?thesis unfolding if_not_P [OF ok]
      proof (rule post_seq [OF upsert_specs(2)], goal_cases)
        case (2 u s2)
        then have "rows_kept (h_rules s) (h_rules s2)" "h_kernel s2 = k'" "h_batch s2 = h_batch s"
          by (simp_all add: s1 rows_only_def)
        with k' True show ?case by (intro post_ret) simp
      qed simp
    qed
  qed simp
  note step = this
  show ?thesis unfolding nft_BatchEnsureRules_def
    by (rule post_bind, rule walk_spec, simp only: sum.case, rule post_bind, rule walk_spec, simp only: sum.case, rule step)
qed

subsection \<open>Properties\<close>

lemma tap_rules_filter: "list_all (\<lambda>r. fr_table r = ''filter'') (NewTapForwardRules tap bridge net subnet)"
  "filter (\<lambda>r. fr_chain r = c) (NewTapForwardRules tap bridge net subnet) =
     (if c = ''MVM-FORWARD'' then NewTapForwardRules tap bridge net subnet else [])"
  "NewTapForwardRules tap bridge net subnet \<noteq> []"
  by (simp_all add: NewTapForwardRules_def forward_rule_def)

text \<open>Names and addresses as they are given to the back ends.\<close>

definition tame :: "string \<Rightarrow> bool" where
  "tame w \<longleftrightarrow> w \<noteq> '''' \<and> list_all shell_safe w"

lemma tame_plain: "tame w \<Longrightarrow> plain w" "tame w \<Longrightarrow> nft_plain w" "tame w \<Longrightarrow> nft_plain (quoted w)"
  by (auto simp: tame_def plain_def nft_plain_def quoted_def list_all_iff)

lemma tap_rules_plain:
  assumes "tame tap" "tame bridge" "tame subnet"
  shows "list_all (plain_rule sy) (NewTapForwardRules tap bridge net subnet)"
proof -
  have "plain ''-A'' \<and> plain ''MVM-FORWARD'' \<and> plain ''-s'' \<and> plain ''-d'' \<and> plain ''-i'' \<and> plain ''-o'' \<and> plain ''-j'' \<and>
      plain ''ACCEPT'' \<and> plain any_cidr"
    by (simp add: plain_def shell_safe_def any_cidr_def)
  with assms [THEN tame_plain(1)] show ?thesis
    by (simp add: NewTapForwardRules_def forward_rule_def zero_rule_def plain_rule_def restore_line_def rule_spec_def tagged_def)
qed

lemma alone_post:
  assumes "post (\<lambda>s. s) True s m Q" "\<And>n s. e_step E n s = s" "m E (s, n) = (r, s', n')"
  shows "Q r s'"
  using postD [OF assms(1) assms(2) _ refl assms(3)] by simp

text \<open>
  C19: Adding the two rules of one machine's interface in a batch, as creating a machine does
  (\<open>pkg/api/vm.go\<close>), on the iptables back end: unless the command fails, the chains of the filter
  table afterwards hold these rules and nothing of what they held before, so the rules of every
  other machine are gone from the kernel; the other chains are as before. The rows of the other
  machines' rules stay active, and the call reports no error either way.
\<close>

theorem batch_replaces_chains:
  assumes "documented sy mean rules" "good_order sy" "\<And>n s. e_step E n s = s"
    and "tame tap" "tame bridge" "tame subnet"
  shows "\<exists>s' n'. WithBatch IPTables sy (AddTapFirewallRules (Some IPTables) sy tap bridge net subnet) E (s, n) = (Ok (), s', n') \<and>
    rows_kept (h_rules s) (h_rules s') \<and>
    (let v = rules (h_kernel s); v' = rules (h_kernel s') in
      v' = v \<and> fails sy restore_cmd \<or>
      v' ''filter'' ''MVM-FORWARD'' =
        mean conntrack # map (mean \<circ> rule_spec sy) (NewTapForwardRules tap bridge net subnet) \<and>
      v' ''filter'' ''MVM-NOCLOUDNET-INPUT'' = [mean conntrack] \<and>
      (\<forall>t c. t \<noteq> ''filter'' \<or> c \<notin> {''MVM-FORWARD'', ''MVM-NOCLOUDNET-INPUT''} \<longrightarrow> v' t c = v t c))"
proof -
  let ?rs = "NewTapForwardRules tap bridge net subnet" and ?v = "rules (h_kernel s)"
  let ?P = "\<lambda>k rows. rows_kept (h_rules s) rows \<and>
    (rules k = ?v \<and> fails sy restore_cmd \<or> rules k = restored sy mean ?rs ''filter'' ?v)"
  let ?run = "WithBatch IPTables sy (AddTapFirewallRules (Some IPTables) sy tap bridge net subnet)"
  have batch: "post (\<lambda>s. s) True s ?run (\<lambda>r s'. r = Ok () \<and> \<not> h_batch s' \<and> ?P (h_kernel s') (h_rules s'))"
    unfolding AddTapFirewallRules_def option.case
  proof (rule batch_of_rules)
    fix s1 :: "'a fw_host"
    assume s1: "h_kernel s1 = h_kernel s" "h_rules s1 = h_rules s" "\<not> h_batch s1"
    from ipt_batch_spec [OF assms(1,2) tap_rules_plain [OF assms(4-6)] tap_rules_filter(3,1), of True s1 net]
    show "post (\<lambda>s. s) True s1 (BatchEnsureRules IPTables sy ?rs)
        (\<lambda>r s'. \<exists>x. r = Ok x \<and> \<not> h_batch s' \<and> ?P (h_kernel s') (h_rules s'))"
      unfolding BatchEnsureRules_def backend.case by (rule post_mono) (use s1 in \<open>auto split: if_splits\<close>)
  qed (rule tap_rules_filter)
  obtain r s' n' where run: "?run E (s, n) = (r, s', n')" by (rule prod_cases3)
  from alone_post [OF batch assms(3) run]
  have "r = Ok ()" "rows_kept (h_rules s) (h_rules s')" and
    v': "rules (h_kernel s') = ?v \<and> fails sy restore_cmd \<or> rules (h_kernel s') = restored sy mean ?rs ''filter'' ?v" by auto
  moreover have "restored sy mean ?rs ''filter'' ?v t c = (if t = ''filter'' \<and> (c, t) \<in> set chainToTable
      then mean conntrack # (if c = ''MVM-FORWARD'' then map (mean \<circ> rule_spec sy) ?rs else []) else ?v t c)" for t c
    by (simp add: restored_def head_rules_def tap_rules_filter chainToTable_def)
  ultimately show ?thesis using run by (auto simp: Let_def chainToTable_def)
qed

lemma tap_rules_nft_plain:
  assumes "tame tap" "tame bridge" "tame subnet"
  shows "list_all nft_plain_rule (NewTapForwardRules tap bridge net subnet)"
proof -
  have "nft_plain ''add'' \<and> nft_plain ''rule'' \<and> nft_plain ''ip'' \<and> nft_plain ''filter'' \<and> nft_plain ''MVM-FORWARD'' \<and>
      nft_plain ''saddr'' \<and> nft_plain ''daddr'' \<and> nft_plain ''iifname'' \<and> nft_plain ''oifname'' \<and> nft_plain ''accept''"
    by (simp add: nft_plain_def shell_safe_def)
  moreover have "map to_lower ''ACCEPT'' = ''accept''" by code_simp
  moreover have "nft_plain any_cidr" by (simp add: nft_plain_def shell_safe_def any_cidr_def)
  ultimately show ?thesis using assms assms [THEN tame_plain(2)] assms [THEN tame_plain(3)]
    by (simp add: NewTapForwardRules_def forward_rule_def zero_rule_def nft_plain_rule_def nft_line_def ruleToNftExpr_def
        tagged_def del: list.map)
qed

lemma nft_ensure_existing:
  assumes "has_row (h_rules s) r"
  shows "post (\<lambda>s. s) False s (nft_EnsureRule sy r l)
    (\<lambda>x s'. \<exists>y. x = Ok y \<and> fx_ok y \<and> h_kernel s' = h_kernel s \<and> rows_kept (h_rules s) (h_rules s'))"
  unfolding nft_EnsureRule_def
proof (rule post_seq [OF find_spec], goal_cases)
  case (2 f s1)
  with assms obtain q where q: "f = Inr (Some q)" "s1 = s" by (auto simp: has_row_found)
  show ?case unfolding q sum.case option.case
    by (rule post_seq [OF verify_spec]) (auto intro!: post_ret simp: fw_success_def)
qed simp

text \<open>
  On the nftables back end, the same batch followed by ensuring a rule of another machine that
  an active row records: the call reports success without looking at the kernel, so whenever the
  batch took effect the chain holds the conntrack rules and the new machine's two rules only. A rule
  that the kernel has lost is never put back while its row is active.
\<close>

lemma lost_rule_not_restored:
  assumes "documented_nft sy mean rules" "good_order sy" "\<And>n s. e_step E n s = s" "\<And>n. e_fault E n = None"
    and "tame tap" "tame bridge" "tame subnet"
    and "has_row (h_rules s) r"
  shows "\<exists>x s' n'. bind_prog (WithBatch NFTables sy (AddTapFirewallRules (Some NFTables) sy tap bridge net subnet))
      (\<lambda>_. EnsureRule NFTables sy r l) E (s, n) = (Ok x, s', n') \<and> fx_ok x \<and> has_row (h_rules s') r \<and>
    (let v = rules (h_kernel s); v' = rules (h_kernel s') in
      v' = v \<and> fails sy script_cmd \<or>
      v' ''filter'' ''MVM-FORWARD'' = mean nft_conntrack # mean nft_conntrack #
        map (mean \<circ> ruleToNftExpr) (NewTapForwardRules tap bridge net subnet))"
proof -
  let ?rs = "NewTapForwardRules tap bridge net subnet" and ?v = "rules (h_kernel s)"
  let ?P = "\<lambda>k rows. rows_kept (h_rules s) rows \<and>
    (rules k = ?v \<and> fails sy script_cmd \<or> rules k = nft_replaced mean ?rs ?v)"
  let ?run = "WithBatch NFTables sy (AddTapFirewallRules (Some NFTables) sy tap bridge net subnet)"
  have batch: "post (\<lambda>s. s) False s ?run (\<lambda>r s'. r = Ok () \<and> \<not> h_batch s' \<and> ?P (h_kernel s') (h_rules s'))"
    unfolding AddTapFirewallRules_def option.case
  proof (rule batch_of_rules)
    fix s1 :: "'a fw_host"
    assume s1: "h_kernel s1 = h_kernel s" "h_rules s1 = h_rules s" "\<not> h_batch s1"
    from nft_batch_spec [OF assms(1,2) tap_rules_nft_plain [OF assms(5-7)], of False s1 net]
    show "post (\<lambda>s. s) False s1 (BatchEnsureRules NFTables sy ?rs)
        (\<lambda>r s'. \<exists>x. r = Ok x \<and> \<not> h_batch s' \<and> ?P (h_kernel s') (h_rules s'))"
      unfolding BatchEnsureRules_def backend.case by (rule post_mono) (use s1 in \<open>auto split: if_splits\<close>)
  qed (rule tap_rules_filter)
  have both: "post (\<lambda>s. s) False s (bind_prog ?run (\<lambda>_. EnsureRule NFTables sy r l))
      (\<lambda>x s'. \<exists>y. x = Ok y \<and> fx_ok y \<and> ?P (h_kernel s') (h_rules s'))"
  proof (rule post_seq [OF batch], goal_cases)
    case (2 u s1)
    then have s1: "\<not> h_batch s1" "?P (h_kernel s1) (h_rules s1)" by auto
    then have "has_row (h_rules s1) r" using rows_kept_has assms(8) by blast
    from nft_ensure_existing [OF this]
    have "post (\<lambda>s. s) False s1 (nft_EnsureRule sy r l) (\<lambda>x s'. \<exists>y. x = Ok y \<and> fx_ok y \<and> ?P (h_kernel s') (h_rules s'))"
      by (rule post_mono) (use s1 rows_kept_trans in fastforce)
    with s1 show ?case unfolding EnsureRule_def by (intro post_bind post_host) simp
  qed simp
  obtain x s' n' where run: "bind_prog ?run (\<lambda>_. EnsureRule NFTables sy r l) E (s, n) = (x, s', n')" by (rule prod_cases3)
  from postD [OF both assms(3) _ refl run] assms(4) obtain y where
    y: "x = Ok y" "fx_ok y" "?P (h_kernel s') (h_rules s')" by auto
  moreover have "has_row (h_rules s') r" using y(3) rows_kept_has assms(8) by blast
  moreover have "nft_replaced mean ?rs ?v ''filter'' ''MVM-FORWARD'' = mean nft_conntrack # mean nft_conntrack #
      map (mean \<circ> ruleToNftExpr) ?rs"
    by (simp add: nft_replaced_def chainToTable_def NewTapForwardRules_def forward_rule_def)
  ultimately show ?thesis using run by (auto simp: Let_def)
qed

subsection \<open>The properties on a small packet filter\<close>

definition busy_host :: "small_kernel fw_host" where
  "busy_host = demo_host\<lparr>h_kernel := [(''filter'', ''MVM-FORWARD'', wanted small_sys demo_rule ''tap'')],
     h_rules := [demo_rule\<lparr>fr_id := Some 1\<rparr>], h_seq := 1\<rparr>"

lemma busy_row: "has_row (h_rules busy_host) demo_rule"
  by (simp add: busy_host_def has_row_def same_attrs_def demo_rule_def forward_rule_def zero_rule_def)

lemma small_order: "good_order small_sys"
  by (simp add: good_order_def small_sys_def)

lemma small_never_fails: "\<not> fails small_sys restore_cmd"
  by (simp add: fails_def launch_def argv_def small_sys_def small_exec_def Let_def)

lemma demo_names: "tame ''mvm-new''" "tame ''mvm-lab''" "tame ''10.1.0.0/24''"
  by (simp_all add: tame_def shell_safe_def)

lemma batch_replaces_chains_witness:
  "\<exists>s' n'. WithBatch IPTables small_sys (AddTapFirewallRules (Some IPTables) small_sys ''mvm-new'' ''mvm-lab'' ''n1'' ''10.1.0.0/24'')
      calm (busy_host, 0) = (Ok (), s', n') \<and> has_row (h_rules s') demo_rule \<and>
    wanted small_sys demo_rule ''tap'' \<in> set (small_rules (h_kernel busy_host) ''filter'' ''MVM-FORWARD'') \<and>
    wanted small_sys demo_rule ''tap'' \<notin> set (small_rules (h_kernel s') ''filter'' ''MVM-FORWARD'')"
proof -
  have alone: "e_step calm n s = s" for n and s :: "small_kernel fw_host" by (simp add: calm_def)
  have before: "wanted small_sys demo_rule ''tap'' \<in> set (small_rules (h_kernel busy_host) ''filter'' ''MVM-FORWARD'')"
    by (simp add: busy_host_def small_rules_def)
  have other: "wanted small_sys demo_rule ''tap'' \<notin>
      set (id conntrack # map (id \<circ> rule_spec small_sys) (NewTapForwardRules ''mvm-new'' ''mvm-lab'' ''n1'' ''10.1.0.0/24''))"
    by (simp add: demo_wanted conntrack_def NewTapForwardRules_def forward_rule_def zero_rule_def rule_spec_def
        any_cidr_def any_iface_def tagged_def Let_def)
  from batch_replaces_chains [OF small_documented small_order alone demo_names, where s = busy_host and n = 0 and net = "''n1''"]
  obtain s' n' where run: "WithBatch IPTables small_sys (AddTapFirewallRules (Some IPTables) small_sys ''mvm-new'' ''mvm-lab'' ''n1''
      ''10.1.0.0/24'') calm (busy_host, 0) = (Ok (), s', n')" and rows: "rows_kept (h_rules busy_host) (h_rules s')"
    and chain: "small_rules (h_kernel s') ''filter'' ''MVM-FORWARD'' = id conntrack #
      map (id \<circ> rule_spec small_sys) (NewTapForwardRules ''mvm-new'' ''mvm-lab'' ''n1'' ''10.1.0.0/24'')"
    using small_never_fails by (auto simp: Let_def)
  from rows busy_row have "has_row (h_rules s') demo_rule" by (rule rows_kept_has)
  moreover have "wanted small_sys demo_rule ''tap'' \<notin> set (small_rules (h_kernel s') ''filter'' ''MVM-FORWARD'')"
    unfolding chain by (rule other)
  ultimately show ?thesis using run before by blast
qed

definition small_nft_line :: "string list \<Rightarrow> small_kernel \<Rightarrow> small_kernel" where
  "small_nft_line w k = (case w of
     a # b # f # t # c # ws \<Rightarrow>
       if [a, b, f] = [''flush'', ''chain'', ''ip''] \<and> ws = [] then small_flush t c k
       else if [a, b, f] = [''add'', ''rule'', ''ip''] then k @ [(t, c, ws)] else k
   | _ \<Rightarrow> k)"

definition small_nft_exec :: "string list \<Rightarrow> string \<Rightarrow> small_kernel \<Rightarrow> exec_out \<times> small_kernel" where
  "small_nft_exec args inp k =
     (if args = script_cmd
      then (\<lparr>xo_end = Exited 0, xo_out = '''', xo_err = ''''\<rparr>,
            fold small_nft_line (map (\<lambda>l. Split l (CHR 0x20)) (Split inp (CHR 0x0A))) k)
      else (\<lparr>xo_end = Exited 1, xo_out = '''', xo_err = ''''\<rparr>, k))"

definition small_nft :: "small_kernel sys" where
  "small_nft = small_sys\<lparr>sy_exec := small_nft_exec\<rparr>"

lemma small_nft_line_rules:
  "small_rules (small_nft_line w k) t c = nft_effect id t c w (small_rules k t c)"
  by (auto simp: small_nft_line_def nft_effect_def small_rules_append small_rules_flush appended_def split: list.splits)

lemma small_nft_lines_rules:
  "small_rules (fold small_nft_line ws k) t c = fold (nft_effect id t c) ws (small_rules k t c)"
  by (induction ws arbitrary: k) (simp_all add: small_nft_line_rules)

lemma nft_plain_chars: "nft_plain w \<Longrightarrow> CHR 0x0A \<notin> set w \<and> CHR 0x20 \<notin> set w"
  by (auto simp: nft_plain_def shell_safe_def list_all_iff)

lemma small_nft_words: "list_all nft_plain w \<Longrightarrow> small_nft_line (Split (Join w '' '') (CHR 0x20)) = small_nft_line w"
proof (cases "w = []")
  case False
  assume "list_all nft_plain w"
  with False nft_plain_chars have "Split (Join w '' '') (CHR 0x20) = w" by (intro Split_Join) (auto simp: list_all_iff)
  then show ?thesis by simp
qed (simp add: small_nft_line_def fun_eq_iff)

lemma Split_last: "Split (s @ [c]) c = Split s c @ [[]]"
  by (induction s) (auto split: list.splits)

lemma small_nft_text:
  assumes "list_all (list_all nft_plain) ws"
  shows "fold small_nft_line (map (\<lambda>l. Split l (CHR 0x20)) (Split (nft_text ws) (CHR 0x0A))) k = fold small_nft_line ws k"
proof -
  have blank: "small_nft_line [[]] = id" by (simp add: small_nft_line_def fun_eq_iff)
  have "CHR 0x0A \<notin> set (Join w '' '')" if "w \<in> set ws" for w
    using assms that nft_plain_chars Join_chars [of w "'' ''"] by (force simp: list_all_iff)
  then have "Split (Join (map (\<lambda>w. Join w '' '') ws) newline) (CHR 0x0A) = (if ws = [] then [[]] else map (\<lambda>w. Join w '' '') ws)"
    unfolding newline_def using Split_Join [of "map (\<lambda>w. Join w '' '') ws" "CHR 0x0A"] by auto
  then have "Split (nft_text ws) (CHR 0x0A) = (if ws = [] then [[]] else map (\<lambda>w. Join w '' '') ws) @ [[]]"
    by (simp add: nft_text_def newline_def Split_last)
  moreover have "fold small_nft_line (map (\<lambda>w. Split (Join w '' '') (CHR 0x20)) ws) k = fold small_nft_line ws k"
    using assms by (induction ws arbitrary: k) (simp_all add: small_nft_words)
  ultimately show ?thesis by (simp add: blank comp_def)
qed

lemma small_nft_documented: "documented_nft small_nft id small_rules"
  by (auto simp: documented_nft_def launch_def argv_def small_nft_def small_sys_def small_nft_exec_def small_nft_text
      small_nft_lines_rules fun_eq_iff)

lemma lost_rule_not_restored_witness:
  "\<exists>x s' n'. bind_prog (WithBatch NFTables small_nft
      (AddTapFirewallRules (Some NFTables) small_nft ''mvm-new'' ''mvm-lab'' ''n1'' ''10.1.0.0/24''))
      (\<lambda>_. EnsureRule NFTables small_nft demo_rule ''tap'') calm (busy_host, 0) = (Ok x, s', n') \<and> fx_ok x \<and>
    has_row (h_rules s') demo_rule \<and>
    ruleToNftExpr demo_rule \<notin> set (small_rules (h_kernel s') ''filter'' ''MVM-FORWARD'')"
proof -
  have alone: "e_step calm n s = s" "e_fault calm n = None" for n and s :: "small_kernel fw_host" by (simp_all add: calm_def)
  have order: "good_order small_nft" by (simp add: good_order_def small_nft_def small_sys_def)
  have works: "\<not> fails small_nft script_cmd"
    by (simp add: fails_def launch_def argv_def small_nft_def small_sys_def small_nft_exec_def)
  have other: "ruleToNftExpr demo_rule \<notin> set (id nft_conntrack # id nft_conntrack #
      map (id \<circ> ruleToNftExpr) (NewTapForwardRules ''mvm-new'' ''mvm-lab'' ''n1'' ''10.1.0.0/24''))"
    by (simp add: demo_rule_def nft_conntrack_def NewTapForwardRules_def forward_rule_def zero_rule_def ruleToNftExpr_def
        any_cidr_def any_iface_def tagged_def quoted_def Let_def)
  from lost_rule_not_restored [OF small_nft_documented order alone demo_names busy_row, where n = 0 and net = "''n1''" and l = "''tap''"] works
  obtain x s' n' where "bind_prog (WithBatch NFTables small_nft
      (AddTapFirewallRules (Some NFTables) small_nft ''mvm-new'' ''mvm-lab'' ''n1'' ''10.1.0.0/24''))
      (\<lambda>_. EnsureRule NFTables small_nft demo_rule ''tap'') calm (busy_host, 0) = (Ok x, s', n')" "fx_ok x"
    "has_row (h_rules s') demo_rule"
    and chain: "small_rules (h_kernel s') ''filter'' ''MVM-FORWARD'' = id nft_conntrack # id nft_conntrack #
      map (id \<circ> ruleToNftExpr) (NewTapForwardRules ''mvm-new'' ''mvm-lab'' ''n1'' ''10.1.0.0/24'')"
    by (auto simp: Let_def)
  moreover have "ruleToNftExpr demo_rule \<notin> set (small_rules (h_kernel s') ''filter'' ''MVM-FORWARD'')"
    unfolding chain by (rule other)
  ultimately show ?thesis by blast
qed

end
