(* ===== verification/Networks.thy ===== *)
theory Networks
  imports Tracker Resolvers Validators
begin

text \<open>
  Bridges, TAP devices and network address translation on the host:
  \<open>internal/lib/network/netops.go\<close> and \<open>internal/core/network/service.go\<close>. The commands of
  \<open>ip\<close>, like those of the firewall, are a parameter; the service may have no firewall tracker.
\<close>

subsection \<open>Devices\<close>

definition ip_cmd :: "'k sys \<Rightarrow> string list \<Rightarrow> ('k, run_result) fw" where
  "ip_cmd sy args = bind_prog (Run sy False False (''ip'' # args) '''') (\<lambda>(r, e). ret r)"

definition link_exists :: "'k sys \<Rightarrow> string \<Rightarrow> ('k, bool) fw" where
  "link_exists sy dev = bind_prog (ip_cmd sy [''link'', ''show'', dev]) (\<lambda>x. ret (Success x))"

definition BridgeExists :: "'k sys \<Rightarrow> string \<Rightarrow> ('k, bool) fw" where
  "BridgeExists = link_exists"

definition TapExists :: "'k sys \<Rightarrow> string \<Rightarrow> ('k, bool) fw" where
  "TapExists = link_exists"

definition BridgeHasSubnet :: "'k sys \<Rightarrow> string \<Rightarrow> string \<Rightarrow> ('k, bool) fw" where
  "BridgeHasSubnet sy bridge subnet =
     bind_prog (ip_cmd sy [''-o'', ''addr'', ''show'', bridge]) (\<lambda>x. ret (Success x \<and> Contains (rc_out x) subnet))"

definition out_lines :: "run_result \<Rightarrow> string list" where
  "out_lines x = (if Success x then Split (rc_out x) (CHR 0x0A) else [])"

definition TrimColons :: "string \<Rightarrow> string" where
  "TrimColons s = rev (dropWhile (\<lambda>c. c = CHR '':'') (rev s))"

definition tap_of_line :: "string \<Rightarrow> string list" where
  "tap_of_line line = (case Fields line of
     (c # w) # dev # ws \<Rightarrow> if is_digit c then [TrimColons dev] else []
   | _ \<Rightarrow> [])"

definition GetBridgeTaps :: "'k sys \<Rightarrow> string \<Rightarrow> ('k, string list) fw" where
  "GetBridgeTaps sy bridge =
     bind_prog (ip_cmd sy [''link'', ''show'', ''master'', bridge]) (\<lambda>x. ret (concat (map tap_of_line (out_lines x))))"

fun master_of :: "string list \<Rightarrow> string option" where
  "master_of (w # v # ws) = (if w = ''master'' then Some v else master_of (v # ws))"
| "master_of _ = None"

definition GetTapBridge :: "'k sys \<Rightarrow> string \<Rightarrow> ('k, string) fw" where
  "GetTapBridge sy tap = bind_prog (ip_cmd sy [''link'', ''show'', tap]) (\<lambda>x.
     ret (case first_some (\<lambda>l. if Contains l ''master'' then master_of (Fields l) else None) (out_lines x) of
       Some b \<Rightarrow> b | None \<Rightarrow> ''''))"

definition slave_of_line :: "string \<Rightarrow> string \<Rightarrow> string list" where
  "slave_of_line bridge line = (case Fields (TrimSpace line) of
     w # dev # ws \<Rightarrow> let d = takeWhile (\<lambda>c. c \<noteq> CHR ''@'') (TrimColons dev) in if d \<noteq> bridge then [d] else []
   | _ \<Rightarrow> [])"

definition GetBridgeSlaves :: "'k sys \<Rightarrow> string \<Rightarrow> ('k, string list) fw" where
  "GetBridgeSlaves sy bridge = bind_prog (ip_cmd sy [''-o'', ''link'', ''show'', ''master'', bridge]) (\<lambda>x.
     ret (concat (map (slave_of_line bridge) (out_lines x))))"

definition GetSystemBridges :: "'k sys \<Rightarrow> ('k, string list) fw" where
  "GetSystemBridges sy = bind_prog (ip_cmd sy [''-o'', ''link'', ''show'', ''type'', ''bridge'']) (\<lambda>x.
     ret (concat (map (\<lambda>l. case Fields l of w # dev # ws \<Rightarrow> [TrimColons dev] | _ \<Rightarrow> []) (out_lines x))))"

definition RunBatch :: "'k sys \<Rightarrow> string list \<Rightarrow> ('k, unit) fw" where
  "RunBatch sy cmds = bind_prog (Run sy True True [''ip'', ''-batch'', ''-''] (Join cmds newline @ newline)) (\<lambda>(x, e).
     case e of None \<Rightarrow> ret ()
     | Some e \<Rightarrow> throw (Plain (''ip -batch failed: '' @ err_text e @ newline @ rc_err x) (Some e)))"

definition details_of :: "run_result \<Rightarrow> string" where
  "details_of x = (let t = TrimSpace (rc_err x) in if t \<noteq> '''' then '' ('' @ t @ '')'' else '''')"

definition RemoveRawTap :: "'k sys \<Rightarrow> string \<Rightarrow> ('k, unit) fw" where
  "RemoveRawTap sy tap = bind_prog (run_cmd sy [''ip'', ''link'', ''delete'', tap] '''') (\<lambda>x. if Success x then ret ()
     else bind_prog (run_cmd sy [''ip'', ''tuntap'', ''del'', ''dev'', tap, ''mode'', ''tap''] '''') (\<lambda>y. if Success y then ret ()
       else throw (Wrap ''network.bridge.failed'' (Plain (''failed to remove TAP device '' @ [CHR 0x27] @ tap @ [CHR 0x27] @
         '': tried '' @ [CHR 0x27] @ ''ip link delete'' @ [CHR 0x27] @ details_of x @ '' and '' @ [CHR 0x27] @ ''ip tuntap del'' @ [CHR 0x27]) None))))"

definition drop_slave :: "'k sys \<Rightarrow> string \<Rightarrow> ('k, unit) fw" where
  "drop_slave sy dev = bind_prog (run_only sy [''ip'', ''link'', ''set'', dev, ''down'']) (\<lambda>_.
     bind_prog (run_cmd sy [''ip'', ''link'', ''delete'', dev] '''') (\<lambda>x. if Success x then ret ()
       else run_only sy [''ip'', ''tuntap'', ''del'', ''dev'', dev, ''mode'', ''tap'']))"

text \<open>
  The 10 s that the whole of it may take are not kept: a command that is cut short is one that
  fails, which every command here may do.
\<close>

definition RemoveRawBridge :: "'k sys \<Rightarrow> string \<Rightarrow> ('k, unit) fw" where
  "RemoveRawBridge sy bridge = bind_prog (GetBridgeSlaves sy bridge) (\<lambda>slaves. bind_prog (each (drop_slave sy) slaves) (\<lambda>_.
     bind_prog (run_only sy [''ip'', ''link'', ''set'', bridge, ''down'']) (\<lambda>_.
     bind_prog (run_cmd sy [''ip'', ''link'', ''delete'', bridge, ''type'', ''bridge''] '''') (\<lambda>x. if Success x then ret ()
     else bind_prog (run_cmd sy [''ip'', ''link'', ''delete'', bridge] '''') (\<lambda>y. if Success y then ret ()
       else throw (Wrap ''network.bridge.failed'' (Plain (''failed to remove bridge '' @ [CHR 0x27] @ bridge @ [CHR 0x27] @
         '': tried '' @ [CHR 0x27] @ ''ip link delete'' @ [CHR 0x27] @ '' with type'' @ details_of x @ '' and without'') None)))))))"

subsection \<open>Bridges\<close>

definition EnsureBridge :: "'k sys \<Rightarrow> string \<Rightarrow> string \<Rightarrow> ('k, unit) fw" where
  "EnsureBridge sy bridge addr =
     (let give = ''addr add '' @ addr @ '' dev '' @ bridge; up = ''link set '' @ bridge @ '' up'';
          batch = (\<lambda>cmds. bind_prog (attempt (RunBatch sy cmds)) (\<lambda>r. case r of
            Inl e \<Rightarrow> throw (WrapMsg ''network.bridge.failed'' (''Failed to setup bridge '' @ bridge) e)
          | Inr _ \<Rightarrow> bind_prog (run_cmd sy [''sysctl'', ''-w'', ''net.bridge.bridge-nf-call-iptables=0''] '''') (\<lambda>_. ret ())))
      in bind_prog (BridgeExists sy bridge) (\<lambda>there.
        if there then bind_prog (BridgeHasSubnet sy bridge addr) (\<lambda>has. batch ((if has then [] else [give]) @ [up]))
        else batch [''link add name '' @ bridge @ '' type bridge'', give, up]))"

subsection \<open>Address translation\<close>

text \<open>The three rules for one gateway interface.\<close>

definition nat_rules :: "string \<Rightarrow> string \<Rightarrow> string \<Rightarrow> string \<Rightarrow> rule list" where
  "nat_rules bridge subnet net gw =
     [(forward_rule ''masquerade'' net bridge subnet any_cidr any_iface gw)
        \<lparr>fr_table := ''nat'', fr_chain := ''MVM-POSTROUTING'', fr_target := ''MASQUERADE''\<rparr>,
      forward_rule ''forward_out'' net bridge subnet any_cidr bridge gw,
      forward_rule ''forward_in'' net bridge any_cidr subnet gw bridge]"

definition nat_failed :: "string \<Rightarrow> string \<Rightarrow> string \<Rightarrow> string \<Rightarrow> err" where
  "nat_failed kind bridge gw m = Wrap ''network.nat.failed''
     (Plain (''failed to add '' @ kind @ '' rule for '' @ bridge @ '' via '' @ gw @ '': '' @ m) None)"

definition or_zero :: "string option \<Rightarrow> string" where
  "or_zero x = (case x of Some m \<Rightarrow> m | None \<Rightarrow> '''')"

definition ensure_one :: "backend \<Rightarrow> 'k sys \<Rightarrow> string \<Rightarrow> string \<Rightarrow> string \<times> rule \<Rightarrow> ('k, unit) fw" where
  "ensure_one be sy bridge gw = (\<lambda>(kind, r). bind_prog (EnsureRule be sy r (bridge @ '':'' @ gw)) (\<lambda>x.
     if fx_ok x then ret () else throw (nat_failed kind bridge gw (or_zero (fx_error x)))))"

definition EnsureNAT :: "backend option \<Rightarrow> 'k sys \<Rightarrow> string \<Rightarrow> string list \<Rightarrow> string \<Rightarrow> string \<Rightarrow> ('k, unit) fw" where
  "EnsureNAT t sy bridge gws subnet net = (case t of None \<Rightarrow> ret ()
   | Some be \<Rightarrow> bind_prog (Initialize be sy) (\<lambda>_. each (\<lambda>gw.
       each (ensure_one be sy bridge gw)
         (zip [''MASQUERADE'', ''FORWARD out'', ''FORWARD in''] (nat_rules bridge subnet net gw))) gws))"

definition NatGatewaysList :: "network \<Rightarrow> string list" where
  "NatGatewaysList n = (case n_gateways n of None \<Rightarrow> []
   | Some v \<Rightarrow> if v \<in> set ['''', ''0'', ''false'', ''False'', ''none'', ''None''] then []
       else filter (\<lambda>w. w \<noteq> '''') (map TrimSpace (Split v (CHR '',''))))"

text \<open>One statement on the other tables.\<close>

definition in_db :: "(string \<Rightarrow> 'a act) \<Rightarrow> ('k, 'a) fw" where
  "in_db m = stmt (\<lambda>now s. case m now (calm\<lparr>e_now := \<lambda>_. now\<rparr>) (h_db s, 0) of (r, d, _) \<Rightarrow> (r, s\<lparr>h_db := d\<rparr>))"

text \<open>What is missing is looked up in the network whose name is that of the bridge.\<close>

definition nat_target :: "string \<Rightarrow> string list option \<Rightarrow> string \<Rightarrow> ('k, string list option \<times> string) fw" where
  "nat_target bridge gws subnet =
     (if gws \<noteq> None \<and> subnet \<noteq> '''' then ret (gws, subnet)
      else bind_prog (attempt (in_db (\<lambda>_. net_ByName bridge False))) (\<lambda>r. ret (case r of
        Inl e \<Rightarrow> (gws, subnet)
      | Inr n \<Rightarrow> (if gws = None then Some (NatGatewaysList n) else gws, if subnet = '''' then n_subnet n else subnet))))"

definition RemoveNAT :: "backend option \<Rightarrow> 'k sys \<Rightarrow> string \<Rightarrow> string list option \<Rightarrow> string \<Rightarrow> string \<Rightarrow> bool \<Rightarrow> ('k, unit) fw" where
  "RemoveNAT t sy bridge gws0 subnet0 net force = bind_prog (nat_target bridge gws0 subnet0) (\<lambda>(gws, subnet).
     case gws of
       None \<Rightarrow> throw (Wrap ''network.nat.failed'' (Plain (''Could not determine NAT gateways for bridge '' @ bridge @
         ''. Provide nat_gateways explicitly or ensure network exists in database.'') None))
     | Some gs \<Rightarrow>
       if subnet = '''' then throw (Wrap ''network.nat.failed'' (Plain (''Could not determine subnet for bridge '' @ bridge @
         ''. Provide subnet explicitly or ensure network exists in database.'') None))
       else bind_prog (GetBridgeTaps sy bridge) (\<lambda>taps.
         if taps \<noteq> [] \<and> \<not> force then throw (New ''network.error'' (''Cannot remove NAT: '' @ Itoa (int (length taps)) @
           '' TAP(s) still attached on bridge '' @ bridge @ ''. Use --force to override.''))
         else case t of None \<Rightarrow> ret ()
           | Some be \<Rightarrow> bind_prog (BatchRemoveRules be sy (concat (map (nat_rules bridge subnet net) gs))) (\<lambda>_. ret ())))"

subsection \<open>TAP devices\<close>

definition EnsureTapDevice :: "'k sys \<Rightarrow> string \<Rightarrow> string \<Rightarrow> ('k, unit) fw" where
  "EnsureTapDevice sy tap bridge =
     (let down = ''link set '' @ tap @ '' down''; attach = ''link set '' @ tap @ '' master '' @ bridge;
          up = ''link set '' @ tap @ '' up'';
          batch = (\<lambda>cmds msg. bind_prog (attempt (RunBatch sy cmds)) (\<lambda>r. case r of
            Inl e \<Rightarrow> throw (WrapMsg ''network.bridge.failed'' msg e) | Inr _ \<Rightarrow> ret ()))
      in bind_prog (TapExists sy tap) (\<lambda>there.
        if \<not> there then batch [''tuntap add dev '' @ tap @ '' mode tap'', attach, up] (''Failed to create TAP '' @ tap)
        else bind_prog (GetTapBridge sy tap) (\<lambda>cur.
          if cur = bridge then ret ()
          else if cur \<noteq> '''' then batch [down, attach, up] (''Failed to reattach TAP '' @ tap @ '' to bridge '' @ bridge)
          else batch [attach, up] (''Failed to attach TAP '' @ tap @ '' to bridge '' @ bridge))))"

definition RemoveTap :: "backend option \<Rightarrow> 'k sys \<Rightarrow> string \<Rightarrow> string \<Rightarrow> string \<Rightarrow> ('k, unit) fw" where
  "RemoveTap t sy tap bridge net = bind_prog (TapExists sy tap) (\<lambda>there. if \<not> there then ret ()
     else bind_prog (if bridge = '''' then GetTapBridge sy tap else ret bridge) (\<lambda>b.
       bind_prog (case t of None \<Rightarrow> ret ()
         | Some be \<Rightarrow> if b = '''' then ret ()
             else bind_prog (attempt (GetByNetworkIDAndInterface net tap False)) (\<lambda>r. case r of
               Inl e \<Rightarrow> ret ()
             | Inr rows \<Rightarrow> if rows = [] then ret () else bind_prog (BatchRemoveRules be sy rows) (\<lambda>_. ret ()))) (\<lambda>_.
       RemoveRawTap sy tap)))"

definition RemoveBridge :: "backend option \<Rightarrow> 'k sys \<Rightarrow> string \<Rightarrow> string \<Rightarrow> ('k, unit) fw" where
  "RemoveBridge t sy bridge net = bind_prog (GetBridgeTaps sy bridge) (\<lambda>taps.
     bind_prog (each (\<lambda>tap. attempt (RemoveTap t sy tap bridge net)) taps) (\<lambda>_.
     bind_prog (attempt (RemoveRawBridge sy bridge)) (\<lambda>r. case r of
       Inl e \<Rightarrow> throw (WrapMsg ''network.bridge.failed'' (''Failed to teardown bridge '' @ bridge) e)
     | Inr _ \<Rightarrow> ret ())))"

subsection \<open>Removing a network\<close>

definition isNetworkError :: "err \<Rightarrow> bool" where
  "isNetworkError e \<longleftrightarrow> (case AsDomainError e of None \<Rightarrow> False
   | Some d \<Rightarrow> de_code d \<in> set [''network.bridge.failed'', ''network.nat.failed'', ''network.firewall.failed'',
       ''network.not_found'', ''network.lease.failed'', ''network.lease.exhausted'', ''network.subnet.overlap'',
       ''network.already_exists''] \<or> de_op d = ''network'')"

text \<open>Deleting a network's row deletes its rules' rows with it.\<close>

definition db_Delete :: "string \<Rightarrow> ('k, unit) fw" where
  "db_Delete i = stmt (\<lambda>now s. case net_Delete i calm (h_db s, 0) of (r, d, _) \<Rightarrow>
     (r, s\<lparr>h_db := d, h_rules := (if is_ok r then filter (\<lambda>q. fr_net q \<noteq> i) (h_rules s) else h_rules s)\<rparr>))"

text \<open>The steps of the teardown: an error about the network is only logged.\<close>

definition tolerate :: "('k, unit) fw \<Rightarrow> ('k, unit) fw" where
  "tolerate m = bind_prog (attempt m) (\<lambda>r. case r of Inl e \<Rightarrow> if isNetworkError e then ret () else throw e | Inr _ \<Rightarrow> ret ())"

definition referenced_by :: "string list \<Rightarrow> string list \<Rightarrow> err" where
  "referenced_by users snaps = New ''network.error'' (''Network referenced by: '' @ Join (users @
     (if snaps \<noteq> [] then [Itoa (int (length snaps)) @ '' snapshot(s): '' @ Join snaps '', ''] else [])) '', '')"

definition net_Remove :: "backend option \<Rightarrow> 'k sys \<Rightarrow> network \<Rightarrow> string list \<Rightarrow> string list \<Rightarrow> bool \<Rightarrow> ('k, unit) fw" where
  "net_Remove t sy n users snaps force =
     bind_prog (if n_nat n then tolerate (RemoveNAT t sy (n_bridge n) (Some (NatGatewaysList n)) (n_subnet n) (n_id n) force)
       else ret ()) (\<lambda>_.
     bind_prog (tolerate (RemoveBridge t sy (n_bridge n) (n_id n))) (\<lambda>_.
       if users = [] \<and> snaps = [] then db_Delete (n_id n)
       else if \<not> force then throw (referenced_by users snaps)
       else in_db (\<lambda>now. net_SoftDelete now (n_id n))))"

fun net_RemoveMany :: "backend option \<Rightarrow> 'k sys \<Rightarrow> (network \<times> string list \<times> string list) list \<Rightarrow> bool \<Rightarrow> ('k, unit) fw" where
  "net_RemoveMany t sy [] force = ret ()"
| "net_RemoveMany t sy ((n, users, snaps) # ns) force =
     bind_prog (net_Remove t sy n users snaps force) (\<lambda>_. net_RemoveMany t sy ns force)"

subsection \<open>Other operations\<close>

definition net_verify :: "'k sys \<Rightarrow> bool \<Rightarrow> ('k, network list) fw" where
  "net_verify sy verify = bind_prog (in_db (\<lambda>_. net_ListAll)) (\<lambda>ns. if \<not> verify then ret ns
     else bind_prog (foldr (\<lambda>n k missing. bind_prog (BridgeExists sy (n_bridge n)) (\<lambda>there.
         k (if there then missing else missing @ [n_id n]))) ns ret []) (\<lambda>missing.
       if missing = [] then ret ns
       else bind_prog (in_db (\<lambda>_. net_UpdateManyIsPresent missing False)) (\<lambda>_. in_db (\<lambda>_. net_ListAll))))"

record sync_result =
  sr_added :: nat
  sr_verified :: nat
  sr_orphaned :: nat

fun map_prog :: "('a \<Rightarrow> ('s, 'b) prog) \<Rightarrow> 'a list \<Rightarrow> ('s, 'b list) prog" where
  "map_prog f [] = ret []"
| "map_prog f (x # xs) = bind_prog (f x) (\<lambda>y. bind_prog (map_prog f xs) (\<lambda>ys. ret (y # ys)))"

definition net_rows :: "backend \<Rightarrow> 'k sys \<Rightarrow> network \<Rightarrow> ('k, (rule \<times> bool) list) fw" where
  "net_rows be sy n = bind_prog (annotate (''get rules for network '' @ [CHR 0x27] @ n_name n @ [CHR 0x27]) (GetByNetworkID (n_id n) True))
     (map_prog (\<lambda>r. bind_prog (RuleExists be sy r) (\<lambda>there. ret (r, there))))"

definition SyncIPTablesRulesBatch :: "backend option \<Rightarrow> 'k sys \<Rightarrow> network list \<Rightarrow> ('k, (string \<times> sync_result) list) fw" where
  "SyncIPTablesRulesBatch t sy ns = (case t of
     None \<Rightarrow> ret (map (\<lambda>n. (n_id n, \<lparr>sr_added = 0, sr_verified = 0, sr_orphaned = 0\<rparr>)) ns)
   | Some be \<Rightarrow> bind_prog (map_prog (net_rows be sy) ns) (\<lambda>rows.
       let all_rules = map fst (concat rows) in
       bind_prog (if all_rules = [] then ret fw_success else BatchEnsureRules be sy all_rules) (\<lambda>x.
         if \<not> fx_ok x then throw (Plain (''batch firewall rule sync failed: '' @ or_zero (fx_error x)) None)
         else map_prog (\<lambda>(n, rs). bind_prog (CountOrphanedRules be sy n) (\<lambda>k. ret (n_id n,
           \<lparr>sr_added = length (filter (Not \<circ> snd) rs), sr_verified = length (filter snd rs), sr_orphaned = k\<rparr>)))
           (zip ns rows))))"

text \<open>Whether every step of a list succeeded, stopping at the first that did not.\<close>

definition remove_orphan :: "'k sys \<Rightarrow> string \<Rightarrow> ('k, bool) fw" where
  "remove_orphan sy bridge = bind_prog (attempt (bind_prog (GetBridgeSlaves sy bridge) (\<lambda>slaves.
     bind_prog (each (RemoveRawTap sy) slaves) (\<lambda>_. RemoveRawBridge sy bridge)))) (\<lambda>r. ret (is_ok r))"

definition CleanupOrphanedBridges :: "'k sys \<Rightarrow> network list \<Rightarrow> ('k, nat) fw" where
  "CleanupOrphanedBridges sy ns = bind_prog (GetSystemBridges sy) (\<lambda>bs.
     bind_prog (map_prog (remove_orphan sy)
       (filter (\<lambda>b. HasPrefix b (CLIName @ ''-'') \<and> b \<notin> n_bridge ` set ns) bs)) (\<lambda>oks. ret (length (filter id oks))))"

definition remove_stale :: "'k sys \<Rightarrow> string \<Rightarrow> ('k, string) fw" where
  "remove_stale sy dev = bind_prog (attempt (RemoveRawTap sy dev)) (\<lambda>r. ret (case r of
     Inl e \<Rightarrow> ''Warning: failed to remove interface '' @ [CHR 0x27] @ dev @ [CHR 0x27] @ '': '' @ err_text e
   | Inr _ \<Rightarrow> ''Removed interface '' @ [CHR 0x27] @ dev @ [CHR 0x27]))"

definition RemoveStaleInterfaces :: "'k sys \<Rightarrow> string \<Rightarrow> ('k, string list) fw" where
  "RemoveStaleInterfaces sy pfx = bind_prog (GetSystemBridges sy) (\<lambda>bs.
     bind_prog (map_prog (\<lambda>b. bind_prog (GetBridgeSlaves sy b) (map_prog (remove_stale sy)))
       (filter (\<lambda>b. HasPrefix b pfx) bs)) (\<lambda>outs. ret (concat outs)))"

definition nft_probe :: string where
  "nft_probe = concat (map (\<lambda>l. l @ newline)
     [''add table inet __mvm_nft_test'',
      ''add chain inet __mvm_nft_test test_post { type nat hook postrouting priority srcnat; policy accept; }'',
      ''add rule inet __mvm_nft_test test_post masquerade''])"

definition CheckNFTablesAvailable :: "'k sys \<Rightarrow> ('k, bool) fw" where
  "CheckNFTablesAvailable sy = bind_prog (Run sy True False [''nft'', ''--version''] '''') (\<lambda>(x, e).
     if e \<noteq> None \<or> \<not> Success x then ret False
     else bind_prog (run_only sy [''modprobe'', ''nft_chain_nat'']) (\<lambda>_.
       bind_prog (Run sy True False [''nft'', ''-f'', ''-''] nft_probe) (\<lambda>(y, e').
         bind_prog (run_only sy [''nft'', ''delete'', ''table'', ''inet'', ''__mvm_nft_test'']) (\<lambda>_.
           ret (e' = None \<and> Success y)))))"

definition EnrichWithLeases :: "network list \<Rightarrow> ('k, (network \<times> lease list) list) fw" where
  "EnrichWithLeases ns = bind_prog (attempt (in_db (\<lambda>_. lease_ListAllBatch (map n_id ns)))) (\<lambda>r. case r of
     Inl e \<Rightarrow> throw (Wrap ''database.error'' (Plain (''batch load leases: '' @ err_text e) (Some e)))
   | Inr ls \<Rightarrow> ret (map (\<lambda>n. (n, filter (\<lambda>l. l_net l = n_id n) ls)) ns))"

subsection \<open>Synchronising the rules\<close>

lemma map_prog_post:
  assumes "\<And>x s. I s \<Longrightarrow> post (\<lambda>s. s) fl s (f x) (\<lambda>r s'. I s' \<and> (case r of Inl e \<Rightarrow> B | Inr y \<Rightarrow> P x y))" "I s"
  shows "post (\<lambda>s. s) fl s (map_prog f xs) (\<lambda>r s'. I s' \<and> (case r of Inl e \<Rightarrow> B | Inr ys \<Rightarrow> list_all2 P xs ys))"
  using assms(2)
proof (induction xs arbitrary: s)
  case Nil
  then show ?case unfolding map_prog.simps by (intro post_ret) simp
next
  case (Cons x xs)
  show ?case unfolding map_prog.simps
  proof (rule post_seq [OF assms(1) [OF Cons.prems]], simp, simp, elim conjE)
    fix y s1
    assume "I s1" and P: "P x y"
    show "post (\<lambda>s. s) fl s1 (bind_prog (map_prog f xs) (\<lambda>ys. ret (y # ys)))
        (\<lambda>r s'. I s' \<and> (case r of Inl e \<Rightarrow> B | Inr ys \<Rightarrow> list_all2 P (x # xs) ys))"
      by (rule post_seq [OF Cons.IH [OF \<open>I s1\<close>]]) (auto intro!: post_ret simp: P)
  qed
qed

lemma cmd_spec:
  assumes "\<And>k'. rules k' = rules (h_kernel s) \<Longrightarrow> Q (s\<lparr>h_kernel := k'\<rparr>)"
    and "\<And>k. rules (snd (launch sy args inp k)) = rules k"
  shows "post (\<lambda>s. s) fl s (run_cmd sy args inp) (\<lambda>r s'. (\<exists>x. r = Ok x) \<and> Q s')"
  by (rule post_mono [OF run_spec]) (use assms in \<open>force dest: arg_cong [of _ _ snd]\<close>)

lemma exists_spec:
  assumes "documented sy mean rules"
  shows "post (\<lambda>s. s) fl s (ipt_RuleExists sy r) (\<lambda>x s'. \<exists>b k'. x = Ok b \<and> s' = s\<lparr>h_kernel := k'\<rparr> \<and> rules k' = rules (h_kernel s))"
  unfolding ipt_RuleExists_def buildIptablesArgs_def
proof (rule post_seq [OF run_spec], goal_cases)
  case (2 x s')
  then obtain k' where s': "s' = s\<lparr>h_kernel := k'\<rparr>" and
    "launch sy ([''iptables'', ''-t'', fr_table r, ''-C'', fr_chain r] @ rule_spec sy r) '''' (h_kernel s) = (Success x, k')"
    by auto
  from check_documented [OF assms rangeI this(2)] s' show ?case by (intro post_ret) auto
qed simp

text \<open>The active rows of a network, read while the rows stay as they are.\<close>

definition active_rows :: "rule list \<Rightarrow> network \<Rightarrow> rule list" where
  "active_rows rs n = filter (\<lambda>q. fr_net q = n_id n \<and> fr_active q) rs"

lemma net_rows_spec:
  assumes doc: "documented sy mean rules" and rows: "h_rules s = rs"
  shows "post (\<lambda>s. s) fl s (net_rows IPTables sy n)
    (\<lambda>r s'. h_rules s' = rs \<and> (case r of Inl e \<Rightarrow> fl | Inr ys \<Rightarrow> map fst ys = active_rows rs n))"
proof -
  have read: "post (\<lambda>s. s) fl s (annotate what (GetByNetworkID (n_id n) True))
      (\<lambda>r s'. h_rules s' = rs \<and> (case r of Inl e \<Rightarrow> fl | Inr ys \<Rightarrow> ys = active_rows rs n))" for what
    unfolding GetByNetworkID_def by (rule post_annotate, rule post_query) (use rows in \<open>auto simp: active_rows_def\<close>)
  have one: "post (\<lambda>s. s) fl s' (bind_prog (RuleExists IPTables sy r) (\<lambda>there. ret (r, there)))
      (\<lambda>x s''. h_rules s'' = rs \<and> (case x of Inl e \<Rightarrow> fl | Inr y \<Rightarrow> r = fst y))" if "h_rules s' = rs" for s' r
    unfolding RuleExists_def backend.case
    by (rule post_seq [OF exists_spec [OF doc]]) (use that in \<open>auto intro!: post_ret\<close>)
  have fsts: "list_all2 (\<lambda>r y. r = fst y) xs ys \<Longrightarrow> map fst ys = xs" for xs :: "rule list" and ys :: "(rule \<times> bool) list"
    by (induction rule: list_all2_induct) auto
  show ?thesis unfolding net_rows_def
  proof (rule post_seq [OF read], simp, goal_cases)
    case (1 qs s1)
    then have s1: "h_rules s1 = rs" "qs = active_rows rs n" by simp_all
    show ?case unfolding s1(2)
      by (rule post_mono [OF map_prog_post [where I = "\<lambda>s. h_rules s = rs" and P = "\<lambda>r y. r = fst y", OF one s1(1)]])
        (use fsts in \<open>auto split: sum.splits\<close>)
  qed
qed

definition in_kernel :: "'k sys \<Rightarrow> (string list \<Rightarrow> string list) \<Rightarrow> chain_view \<Rightarrow> rule \<Rightarrow> bool" where
  "in_kernel sy mean v r \<longleftrightarrow> mean (rule_spec sy r) \<in> set (v (fr_table r) (fr_chain r))"

lemma restored_in: "r \<in> set rs \<Longrightarrow> fr_table r = t \<Longrightarrow> in_kernel sy mean (restored sy mean rs t v) r"
  by (auto simp: in_kernel_def restored_def)

lemma restored_other: "fr_table r \<noteq> t \<Longrightarrow> in_kernel sy mean (restored sy mean rs t v) r = in_kernel sy mean v r"
  by (simp add: in_kernel_def restored_def)

text \<open>A table is restored when there are rules for it; then they are in the kernel, and rules of other tables stay.\<close>

lemma restore_table_all:
  assumes doc: "documented sy mean rules" and order: "good_order sy" and t: "table \<in> {''filter'', ''nat''}"
    and rs: "list_all (plain_rule sy) rs" "list_all (\<lambda>r. fr_table r = table) rs"
  shows "post (\<lambda>s. s) fl s (restore_table sy rs table) (\<lambda>r s'. \<exists>e. r = Ok e \<and> (e \<noteq> None \<longrightarrow> fails sy restore_cmd) \<and> (e = None \<longrightarrow>
    (\<forall>q \<in> set rs. in_kernel sy mean (rules (h_kernel s')) q) \<and>
    (\<forall>q. fr_table q \<noteq> table \<longrightarrow> in_kernel sy mean (rules (h_kernel s)) q \<longrightarrow> in_kernel sy mean (rules (h_kernel s')) q)))"
proof (cases "rs = []")
  case True
  have "restore_table sy [] table = ret None" by (simp only: restore_table_def if_True simp_thms)
  then show ?thesis unfolding True by (simp only:) (rule post_ret, simp)
next
  case False
  show ?thesis
    by (rule post_mono [OF restore_table_spec [OF doc order t rs(1) False]])
      (use rs(2) restored_in restored_other in \<open>fastforce simp: list_all_iff\<close>)
qed

lemma ipt_batch_all:
  assumes doc: "documented sy mean rules" and order: "good_order sy"
    and rs: "list_all (plain_rule sy) rs" "list_all (\<lambda>r. fr_table r \<in> {''filter'', ''nat''}) rs"
  shows "post (\<lambda>s. s) fl s (ipt_BatchEnsureRules sy rs)
    (\<lambda>r s'. \<exists>x. r = Ok x \<and> (\<not> fx_ok x \<longrightarrow> fails sy restore_cmd) \<and>
      (fx_ok x \<longrightarrow> (\<forall>q \<in> set rs. in_kernel sy mean (rules (h_kernel s')) q)))"
proof -
  let ?f = "filter (\<lambda>r. fr_table r = ''filter'') rs" and ?n = "filter (\<lambda>r. fr_table r = ''nat'') rs"
  have f: "list_all (plain_rule sy) ?f" "list_all (\<lambda>r. fr_table r = ''filter'') ?f"
    and n: "list_all (plain_rule sy) ?n" "list_all (\<lambda>r. fr_table r = ''nat'') ?n"
    using rs(1) by (auto simp: list_all_iff)
  have both: "q \<in> set ?f \<or> q \<in> set ?n" if "q \<in> set rs" for q using rs(2) that by (auto simp: list_all_iff)
  have not_nat: "fr_table q \<noteq> ''nat''" if "q \<in> set ?f" for q using that by auto
  show ?thesis unfolding ipt_BatchEnsureRules_def
  proof (rule post_seq [OF restore_table_all [OF doc order _ f]], simp, simp, goal_cases)
    case (1 e s1)
    show ?case
    proof (cases e)
      case (Some m)
      with 1 show ?thesis by (simp, intro post_ret) simp
    next
      case None
      with 1 have s1: "\<forall>q \<in> set ?f. in_kernel sy mean (rules (h_kernel s1)) q" by simp
      show ?thesis unfolding None option.case
      proof (rule post_seq [OF restore_table_all [OF doc order _ n]], simp, simp, goal_cases)
        case (1 e' s2)
        show ?case
        proof (cases e')
          case (Some m)
          with 1 show ?thesis by (simp, intro post_ret) simp
        next
          case None
          with 1 s1 have s2: "\<forall>q \<in> set rs. in_kernel sy mean (rules (h_kernel s2)) q" using both not_nat by blast
          show ?thesis unfolding None option.case
            by (rule post_seq [OF upsert_specs(1)]) (use s2 in \<open>auto intro!: post_ret simp: rows_only_def\<close>)
        qed
      qed
    qed
  qed
qed

lemma count_spec:
  assumes "\<And>k. rules (snd (launch sy [''iptables-save''] '''' k)) = rules k" "rules (h_kernel s) = v"
  shows "post (\<lambda>s. s) fl s (CountOrphanedRules IPTables sy n) (\<lambda>r s'. is_ok r \<and> rules (h_kernel s') = v)"
proof -
  have save: "post (\<lambda>s. s) fl s (run_cmd sy [''iptables-save''] '''') (\<lambda>r s'. (\<exists>x. r = Ok x) \<and> rules (h_kernel s') = v)"
    by (rule cmd_spec [where rules = rules and Q = "\<lambda>s'. rules (h_kernel s') = v"]) (simp_all add: assms)
  have all: "post (\<lambda>s. s) fl s (bind_prog (run_cmd sy [''iptables-save''] '''') (\<lambda>x. ret (k x)))
      (\<lambda>r s'. is_ok r \<and> rules (h_kernel s') = v)" for k :: "_ \<Rightarrow> nat"
    by (rule post_seq [OF save], simp, rule post_ret, simp)
  have q: "post (\<lambda>s. s) fl s (attempt (GetByNetworkID (n_id n) True)) (\<lambda>r s'. (\<exists>x. r = Ok x) \<and> s' = s)"
    unfolding GetByNetworkID_def by (rule post_attempt, rule post_query) simp_all
  show ?thesis unfolding CountOrphanedRules_def backend.case ipt_CountOrphanedRules_def
  proof (rule post_seq [OF q], simp, elim conjE, goal_cases)
    case (1 x s')
    show ?case unfolding 1(2)
    proof (cases x)
      case (Inl e)
      show "post (\<lambda>s. s) fl s (case x of Inl e \<Rightarrow> ret 0 | Inr rows \<Rightarrow> bind_prog (run_cmd sy [''iptables-save''] '''') (\<lambda>x. ret (
          if \<not> Success x then 0 else length (filter (is_orphan (n_name n) (comments_of rows)) (lines_of (rc_out x))))))
        (\<lambda>r s'. is_ok r \<and> rules (h_kernel s') = v)" unfolding Inl sum.case by (rule post_ret) (simp add: assms(2))
    next
      case (Inr rs)
      show "post (\<lambda>s. s) fl s (case x of Inl e \<Rightarrow> ret 0 | Inr rows \<Rightarrow> bind_prog (run_cmd sy [''iptables-save''] '''') (\<lambda>x. ret (
          if \<not> Success x then 0 else length (filter (is_orphan (n_name n) (comments_of rows)) (lines_of (rc_out x))))))
        (\<lambda>r s'. is_ok r \<and> rules (h_kernel s') = v)" unfolding Inr sum.case by (rule all)
    qed
  qed
qed

definition sync_one :: "'k sys \<Rightarrow> network \<times> (rule \<times> bool) list \<Rightarrow> ('k, string \<times> sync_result) fw" where
  "sync_one sy = (\<lambda>(n, rs). bind_prog (CountOrphanedRules IPTables sy n) (\<lambda>k. ret (n_id n,
     \<lparr>sr_added = length (filter (Not \<circ> snd) rs), sr_verified = length (filter snd rs), sr_orphaned = k\<rparr>)))"

definition sync_tells :: "network \<times> (rule \<times> bool) list \<Rightarrow> string \<times> sync_result \<Rightarrow> bool" where
  "sync_tells nr y \<longleftrightarrow> fst y = n_id (fst nr) \<and> sr_added (snd y) + sr_verified (snd y) = length (snd nr)"

lemma sync_one_spec:
  assumes "\<And>k. rules (snd (launch sy [''iptables-save''] '''' k)) = rules k" "rules (h_kernel s) = v"
  shows "post (\<lambda>s. s) fl s (sync_one sy nr) (\<lambda>r s'. rules (h_kernel s') = v \<and> (case r of Inl e \<Rightarrow> False | Inr y \<Rightarrow> sync_tells nr y))"
proof -
  obtain n rs where nr: "nr = (n, rs)" by (rule prod.exhaust)
  have "length (filter (Not \<circ> snd) rs) + length (filter snd rs) = length rs"
    using sum_length_filter_compl [of snd rs] by (simp add: comp_def)
  then show ?thesis unfolding sync_one_def nr prod.case
    by (intro post_seq [OF count_spec [OF assms]]) (auto intro!: post_ret simp: sync_tells_def)
qed

lemma sync_tells_all:
  assumes "list_all2 sync_tells (zip ns rows) res" "list_all2 (\<lambda>n r. map fst r = active_rows rs n) ns rows"
  shows "map (\<lambda>(i, y). (i, sr_added y + sr_verified y)) res = map (\<lambda>n. (n_id n, length (active_rows rs n))) ns"
  using assms(2,1)
proof (induction arbitrary: res rule: list_all2_induct)
  case (Cons n ns r rows)
  then obtain i c ys where res: "res = (i, c) # ys" and y: "sync_tells (n, r) (i, c)" and ys: "list_all2 sync_tells (zip ns rows) ys"
    by (auto simp: list_all2_Cons1)
  have "length r = length (active_rows rs n)" using arg_cong [OF Cons.hyps(1), of length] by simp
  with y Cons.IH [OF ys] show ?case by (simp add: res sync_tells_def)
qed simp

lemma sync_spec:
  assumes doc: "documented sy mean rules" and order: "good_order sy"
    and save: "\<And>k. rules (snd (launch sy [''iptables-save''] '''' k)) = rules k"
    and rows: "\<And>q. q \<in> set (h_rules s) \<Longrightarrow> fr_active q \<Longrightarrow> plain_rule sy q \<and> fr_table q \<in> {''filter'', ''nat''}"
  shows "post (\<lambda>s. s) fl s (SyncIPTablesRulesBatch (Some IPTables) sy ns) (\<lambda>r s'. case r of Inl e \<Rightarrow> fl \<or> fails sy restore_cmd | Inr res \<Rightarrow>
    map (\<lambda>(i, y). (i, sr_added y + sr_verified y)) res = map (\<lambda>n. (n_id n, length (active_rows (h_rules s) n))) ns \<and>
    (\<forall>n \<in> set ns. \<forall>q \<in> set (active_rows (h_rules s) n). in_kernel sy mean (rules (h_kernel s')) q))"
  (is "post _ _ _ _ ?Q")
  unfolding SyncIPTablesRulesBatch_def option.case
proof (rule post_seq [OF map_prog_post [where I = "\<lambda>s'. h_rules s' = h_rules s" and
      P = "\<lambda>n r. map fst r = active_rows (h_rules s) n", OF net_rows_spec [OF doc] refl]], simp, simp, elim conjE, goal_cases)
  case (1 rows s1)
  let ?all = "map fst (concat rows)"
  have l2: "list_all2 (\<lambda>n r. map fst r = active_rows (h_rules s) n) ns rows" using 1(2) by simp
  then have all: "?all = concat (map (active_rows (h_rules s)) ns)"
    by (induction rule: list_all2_induct) simp_all
  have "\<forall>q \<in> set ?all. plain_rule sy q \<and> fr_table q \<in> {''filter'', ''nat''}"
    unfolding all using assms(4) by (auto simp: active_rows_def)
  then have plain: "list_all (plain_rule sy) ?all" "list_all (\<lambda>r. fr_table r \<in> {''filter'', ''nat''}) ?all"
    by (auto simp: list_all_iff)
  have batch: "post (\<lambda>s. s) fl s1 (if ?all = [] then ret fw_success else BatchEnsureRules IPTables sy ?all)
      (\<lambda>r s'. \<exists>x. r = Ok x \<and> (\<not> fx_ok x \<longrightarrow> fails sy restore_cmd) \<and> (fx_ok x \<longrightarrow> (\<forall>q \<in> set ?all. in_kernel sy mean (rules (h_kernel s')) q)))"
  proof (cases "?all = []")
    case True
    show ?thesis unfolding if_P [OF True] by (rule post_ret) (simp only: True, simp)
  next
    case False
    show ?thesis unfolding if_not_P [OF False] BatchEnsureRules_def backend.case by (rule ipt_batch_all [OF doc order plain])
  qed
  show ?case unfolding Let_def
  proof (rule post_seq [OF batch], simp, goal_cases)
    case (1 x s2)
    show ?case
    proof (cases "fx_ok x")
      case False
      with 1 show ?thesis by (simp, intro post_throw) simp
    next
      case True
      then have ok: "\<not> \<not> fx_ok x" by simp
      from 1 True have k: "\<forall>q \<in> set ?all. in_kernel sy mean (rules (h_kernel s2)) q" by simp
      show ?thesis unfolding if_not_P [OF ok] sync_one_def [symmetric]
      proof (rule post_mono)
        show "post (\<lambda>s. s) fl s2 (map_prog (sync_one sy) (zip ns rows)) (\<lambda>r s'. rules (h_kernel s') = rules (h_kernel s2) \<and>
            (case r of Inl e \<Rightarrow> False | Inr ys \<Rightarrow> list_all2 sync_tells (zip ns rows) ys))"
          by (rule map_prog_post [where I = "\<lambda>s'. rules (h_kernel s') = rules (h_kernel s2)"])
            (rule sync_one_spec [where rules = rules and sy = sy, OF save], simp_all)
      qed (use k sync_tells_all [OF _ l2] in \<open>auto simp: all split: sum.splits\<close>)
    qed
  qed
qed


text \<open>
  C20: Synchronising the firewall rules of networks (\<open>SyncIPTablesRulesBatch\<close>) on the iptables back
  end restores the kernel from the database: when it returns, every active row of every given
  network is a rule of its chain, whatever the kernel held before, and the count it reports for a
  network (added and verified) is the number of the network's active rows. It returns an error
  only when a statement fails or \<open>iptables-restore\<close> can fail.
\<close>

theorem sync_restores_rules:
  assumes "documented sy mean rules" "good_order sy" "\<And>n s. e_step E n s = s"
    and "\<And>k. rules (snd (launch sy [''iptables-save''] '''' k)) = rules k"
    and "\<And>q. q \<in> set (h_rules s) \<Longrightarrow> fr_active q \<Longrightarrow> plain_rule sy q \<and> fr_table q \<in> {''filter'', ''nat''}"
  shows "\<exists>r s' n'. SyncIPTablesRulesBatch (Some IPTables) sy ns E (s, n) = (r, s', n') \<and> (case r of
      Inl e \<Rightarrow> (\<exists>n. e_fault E n \<noteq> None) \<or> fails sy restore_cmd
    | Inr res \<Rightarrow>
        map (\<lambda>(i, y). (i, sr_added y + sr_verified y)) res =
          map (\<lambda>n. (n_id n, length (filter (\<lambda>q. fr_net q = n_id n \<and> fr_active q) (h_rules s)))) ns \<and>
        (\<forall>n \<in> set ns. \<forall>q \<in> set (h_rules s). fr_net q = n_id n \<longrightarrow> fr_active q \<longrightarrow>
          mean (rule_spec sy q) \<in> set (rules (h_kernel s') (fr_table q) (fr_chain q))))"
proof -
  obtain r s' n' where run: "SyncIPTablesRulesBatch (Some IPTables) sy ns E (s, n) = (r, s', n')" by (rule prod_cases3)
  have "case r of Inl e \<Rightarrow> (\<exists>n. e_fault E n \<noteq> None) \<or> fails sy restore_cmd
    | Inr res \<Rightarrow> map (\<lambda>(i, y). (i, sr_added y + sr_verified y)) res = map (\<lambda>n. (n_id n, length (active_rows (h_rules s) n))) ns \<and>
      (\<forall>n \<in> set ns. \<forall>q \<in> set (active_rows (h_rules s) n). in_kernel sy mean (rules (h_kernel s')) q)"
    by (rule postD [OF sync_spec [OF assms(1,2,4,5)] assms(3) _ refl run]) auto
  with run show ?thesis by (auto simp: active_rows_def in_kernel_def split: sum.splits)
qed

definition lost_host :: "small_kernel fw_host" where
  "lost_host = demo_host\<lparr>h_rules := [demo_rule\<lparr>fr_id := Some 1\<rparr>], h_seq := 1\<rparr>"

lemma rule_spec_id: "rule_spec sy (r\<lparr>fr_id := i\<rparr>) = rule_spec sy r"
  by (simp add: rule_spec_def tagged_def)

lemma sync_restores_rules_witness:
  "\<exists>y s' n'. SyncIPTablesRulesBatch (Some IPTables) small_sys [demo_net] calm (lost_host, 0) = (Ok [(''n1'', y)], s', n') \<and>
    sr_added y + sr_verified y = 1 \<and> h_kernel lost_host = [] \<and>
    rule_spec small_sys demo_rule \<in> set (small_rules (h_kernel s') ''filter'' ''MVM-FORWARD'')"
proof -
  have alone: "e_step calm n s = s" "e_fault calm n = None" for n and s :: "small_kernel fw_host" by (simp_all add: calm_def)
  have save: "small_rules (snd (launch small_sys [''iptables-save''] '''' k)) = small_rules k" for k
    by (simp add: launch_def argv_def small_sys_def small_exec_def)
  have rows: "plain_rule small_sys q \<and> fr_table q \<in> {''filter'', ''nat''}" if "q \<in> set (h_rules lost_host)" "fr_active q" for q
    using that by (simp add: lost_host_def demo_rule_def forward_rule_def zero_rule_def plain_rule_def restore_line_def
        rule_spec_def tagged_def plain_def shell_safe_def any_cidr_def any_iface_def)
  let ?q = "demo_rule\<lparr>fr_id := Some 1\<rparr>"
  have lost: "h_rules lost_host = [?q]" by (simp add: lost_host_def)
  have q0: "rule_spec small_sys ?q = rule_spec small_sys demo_rule" by (rule rule_spec_id)
  have q1: "fr_table ?q = ''filter''" "fr_chain ?q = ''MVM-FORWARD''"
    "fr_net ?q = ''n1''" "fr_active ?q"
    by (simp_all add: demo_rule_def forward_rule_def)
  from sync_restores_rules [OF small_documented small_order alone(1) save rows, where ns = "[demo_net]" and n = 0]
  obtain r s' n' where run: "SyncIPTablesRulesBatch (Some IPTables) small_sys [demo_net] calm (lost_host, 0) = (r, s', n')"
    and r: "case r of
      Inl e \<Rightarrow> (\<exists>n. e_fault (calm :: small_kernel fw_host env) n \<noteq> None) \<or> fails small_sys restore_cmd
    | Inr res \<Rightarrow>
        map (\<lambda>(i, y). (i, sr_added y + sr_verified y)) res =
          map (\<lambda>n. (n_id n, length (filter (\<lambda>q. fr_net q = n_id n \<and> fr_active q) (h_rules lost_host)))) [demo_net] \<and>
        (\<forall>n \<in> set [demo_net]. \<forall>q \<in> set (h_rules lost_host). fr_net q = n_id n \<longrightarrow> fr_active q \<longrightarrow>
          id (rule_spec small_sys q) \<in> set (small_rules (h_kernel s') (fr_table q) (fr_chain q)))"
    by blast
  from r obtain res where res: "r = Ok res"
    "map (\<lambda>(i, y). (i, sr_added y + sr_verified y)) res = [(''n1'', 1)]"
    "rule_spec small_sys demo_rule \<in> set (small_rules (h_kernel s') ''filter'' ''MVM-FORWARD'')"
    by (cases r) (simp_all add: alone(2) small_never_fails lost q0 q1 Firewall.demo_net_def)
  from res(2) obtain y where "res = [(''n1'', y)]" "sr_added y + sr_verified y = 1"
    by (auto simp: map_eq_Cons_conv)
  with run res(1,3) show ?thesis by (auto simp: lost_host_def demo_host_def)
qed


subsection \<open>Refusing to remove a network\<close>

text \<open>A kernel that remembers the commands it was given.\<close>

definition records :: "'k sys \<Rightarrow> ('k \<Rightarrow> string list list) \<Rightarrow> bool" where
  "records sy log \<longleftrightarrow> (\<forall>args inp k. log (snd (sy_exec sy args inp k)) = log k @ [args])"

abbreviation logged :: "('k \<Rightarrow> string list list) \<Rightarrow> string list \<Rightarrow> 'k fw_host \<Rightarrow> bool" where
  "logged log c s \<equiv> c \<in> set (log (h_kernel s))"

lemma post_any: "post g fl v m (\<lambda>_ _. True)"
  by (simp add: post_def)

lemma run_log:
  assumes "records sy log"
  shows "post (\<lambda>s. s) fl s (Run sy pr chk args inp)
    (\<lambda>r s'. is_ok r \<and> log (h_kernel s') = log (h_kernel s) @ [argv sy pr args])"
proof -
  have "log k' = log k @ [cmd]" if "sy_exec sy cmd inp k = (x, k')" for cmd x k k'
    using assms that unfolding records_def by (metis snd_conv)
  then show ?thesis unfolding Run_def Let_def by (intro post_host) (auto split: prod.splits)
qed

lemma cmd_log:
  assumes "records sy log"
  shows "post (\<lambda>s. s) fl s (run_cmd sy args inp)
      (\<lambda>r s'. is_ok r \<and> log (h_kernel s') = log (h_kernel s) @ [argv sy True args])"
    and "post (\<lambda>s. s) fl s (ip_cmd sy args) (\<lambda>r s'. is_ok r \<and> log (h_kernel s') = log (h_kernel s) @ [argv sy False (''ip'' # args)])"
  unfolding run_cmd_def ip_cmd_def by (rule post_seq [OF run_log [OF assms]], simp, clarsimp, intro post_ret, simp)+

lemma only_log:
  assumes "records sy log"
  shows "post (\<lambda>s. s) fl s (run_only sy args) (\<lambda>r s'. is_ok r \<and> log (h_kernel s') = log (h_kernel s) @ [argv sy True args])"
  unfolding run_only_def by (rule post_seq [OF cmd_log(1) [OF assms]], simp, intro post_ret, simp)

lemma each_post:
  assumes "\<And>x s. I s \<Longrightarrow> post (\<lambda>s. s) fl s (f x) (\<lambda>r s'. is_ok r \<and> I s')" "I s"
  shows "post (\<lambda>s. s) fl s (each f xs) (\<lambda>r s'. is_ok r \<and> I s')"
  using assms(2)
proof (induction xs arbitrary: s)
  case Nil
  then show ?case unfolding each.simps by (intro post_ret) simp
next
  case (Cons x xs)
  show ?case unfolding each.simps by (rule post_seq [OF assms(1) [OF Cons.prems]], simp, rule Cons.IH, simp)
qed

lemma drop_slave_ok:
  assumes "records sy log"
  shows "post (\<lambda>s. s) fl s (drop_slave sy dev) (\<lambda>r s'. is_ok r \<and> True)"
  unfolding drop_slave_def
proof (rule post_seq [OF only_log [OF assms]], simp, rule post_seq [OF cmd_log(1) [OF assms]], simp, goal_cases)
  case (1 u s1 x s2)
  show ?case
  proof (cases "Success x")
    case True
    then show ?thesis by (simp, intro post_ret) simp
  next
    case False
    then show ?thesis by (simp, intro post_mono [OF only_log [OF assms]]) simp
  qed
qed

definition delete_bridge :: "'k sys \<Rightarrow> string \<Rightarrow> string list" where
  "delete_bridge sy bridge = argv sy True [''ip'', ''link'', ''delete'', bridge, ''type'', ''bridge'']"

lemma raw_bridge_logged:
  assumes "records sy log"
  shows "post (\<lambda>s. s) fl s (RemoveRawBridge sy bridge) (\<lambda>r s'. logged log (delete_bridge sy bridge) s')"
proof -
  have slaves: "post (\<lambda>s. s) fl s (GetBridgeSlaves sy bridge) (\<lambda>r s'. is_ok r)" for s
    unfolding GetBridgeSlaves_def by (rule post_seq [OF cmd_log(2) [OF assms]], simp, intro post_ret, simp)
  have drop: "post (\<lambda>s. s) fl s (each (drop_slave sy) xs) (\<lambda>r s'. is_ok r \<and> True)" for s xs
    by (rule each_post [where I = "\<lambda>_. True", OF drop_slave_ok [OF assms] TrueI])
  show ?thesis unfolding RemoveRawBridge_def
  proof (rule post_seq [OF slaves], simp, rule post_seq [OF drop], simp, rule post_seq [OF only_log [OF assms]], simp,
      rule post_seq [OF cmd_log(1) [OF assms]], simp, goal_cases)
    case (1 sl s1 u s2 u' s3 x s4)
    then have l: "logged log (delete_bridge sy bridge) s4" by (simp add: delete_bridge_def)
    show ?case
    proof (cases "Success x")
      case True
      with l show ?thesis by (simp, intro post_ret) simp
    next
      case False
      show ?thesis unfolding if_not_P [OF False]
      proof (rule post_seq [OF cmd_log(1) [OF assms]], simp, goal_cases)
        case (1 y s5)
        with l have l5: "logged log (delete_bridge sy bridge) s5" by simp
        show ?case by (cases "Success y") (simp_all add: l5 post_throw post_ret [where x = "()"])
      qed
    qed
  qed
qed


lemma network_errors [simp]:
  "isNetworkError (WrapMsg ''network.bridge.failed'' m e)" "isNetworkError (New ''network.error'' m)"
proof -
  have "opForCode ''network.bridge.failed'' = ''network''" "opForCode ''network.error'' = ''network''" by code_simp+
  then show "isNetworkError (WrapMsg ''network.bridge.failed'' m e)" "isNetworkError (New ''network.error'' m)"
    by (simp_all add: isNetworkError_def WrapMsg_def New_def)
qed

lemma tolerate_post:
  assumes "post (\<lambda>s. s) fl s m (\<lambda>r s'. (case r of Inl e \<Rightarrow> isNetworkError e | Inr _ \<Rightarrow> True) \<and> P s')"
  shows "post (\<lambda>s. s) fl s (tolerate m) (\<lambda>r s'. r = Ok () \<and> P s')"
  unfolding tolerate_def
proof (rule post_bind, rule post_attempt, rule post_mono [OF assms], simp only: sum.case, goal_cases)
  case (1 r s')
  then show ?case by (cases r) (simp_all add: post_ret [where x = "()"])
qed

lemma RemoveBridge_tolerated:
  assumes "records sy log"
  shows "post (\<lambda>s. s) fl s (tolerate (RemoveBridge t sy bridge net)) (\<lambda>r s'. r = Ok () \<and> logged log (delete_bridge sy bridge) s')"
proof -
  have taps: "post (\<lambda>s. s) fl s (GetBridgeTaps sy bridge) (\<lambda>r s'. is_ok r)" for s
    unfolding GetBridgeTaps_def by (rule post_seq [OF cmd_log(2) [OF assms]], simp, intro post_ret, simp)
  have tap: "post (\<lambda>s. s) fl s (attempt (RemoveTap t sy x bridge net)) (\<lambda>r s'. is_ok r \<and> True)" for s x
    by (rule post_attempt) (simp add: post_any)
  have all: "post (\<lambda>s. s) fl s (each (\<lambda>x. attempt (RemoveTap t sy x bridge net)) xs) (\<lambda>r s'. is_ok r \<and> True)" for s xs
    by (rule each_post [where I = "\<lambda>_. True", OF tap TrueI])
  have raw: "post (\<lambda>s. s) fl s (attempt (RemoveRawBridge sy bridge))
      (\<lambda>r s'. is_ok r \<and> logged log (delete_bridge sy bridge) s')" for s
    by (rule post_attempt) (simp add: raw_bridge_logged [OF assms])
  have run: "post (\<lambda>s. s) fl s (RemoveBridge t sy bridge net)
      (\<lambda>r s'. (case r of Inl e \<Rightarrow> isNetworkError e | Inr _ \<Rightarrow> True) \<and> logged log (delete_bridge sy bridge) s')"
    unfolding RemoveBridge_def
  proof (rule post_seq [OF taps], simp, rule post_seq [OF all], simp, rule post_seq [OF raw], simp, goal_cases)
    case (1 ts s1 u s2 r s3)
    then show ?case by (cases r) (simp_all add: post_throw post_ret [where x = "()"])
  qed
  show ?thesis by (rule tolerate_post [OF run])
qed


lemma nat_tolerated:
  "post (\<lambda>s. s) fl s (tolerate m) (\<lambda>r s'. case r of Inl e \<Rightarrow> \<not> isNetworkError e | Inr _ \<Rightarrow> True)"
  unfolding tolerate_def
proof (rule post_bind, rule post_attempt, rule post_mono [OF post_any], simp only: sum.case, goal_cases)
  case (1 r s')
  show ?case by (cases r) (simp_all add: post_throw post_ret [where x = "()"])
qed

text \<open>
  C21: Removing a network that machines or snapshots use, without force: the call is refused with
  an error that names them, but only after the bridge has been torn down: the
  command that deletes it was given to the kernel. The one other outcome, for a network with address
  translation, is an error that is not about networks while that is taken away.
\<close>

theorem refused_removal_tears_down:
  assumes "records sy log" "\<And>n s. e_step E n s = s" "users \<noteq> [] \<or> snaps \<noteq> []"
  shows "\<exists>e s' i'. net_Remove t sy n users snaps False E (s, i) = (Err e, s', i') \<and>
    (e = referenced_by users snaps \<and>
       argv sy True [''ip'', ''link'', ''delete'', n_bridge n, ''type'', ''bridge''] \<in> set (log (h_kernel s')) \<or>
     n_nat n \<and> \<not> isNetworkError e)"
proof -
  let ?nat = "if n_nat n then tolerate (RemoveNAT t sy (n_bridge n) (Some (NatGatewaysList n)) (n_subnet n) (n_id n) False) else ret ()"
  let ?Q = "\<lambda>r s'. \<exists>e. r = Err e \<and> (e = referenced_by users snaps \<and> logged log (delete_bridge sy (n_bridge n)) s' \<or>
    n_nat n \<and> \<not> isNetworkError e)"
  have refuse: "\<not> (users = [] \<and> snaps = [])" "\<not> \<not> \<not> False" using assms(3) by auto
  have nat: "post (\<lambda>s. s) True s ?nat (\<lambda>r s'. case r of Inl e \<Rightarrow> n_nat n \<and> \<not> isNetworkError e | Inr _ \<Rightarrow> True)" for s
  proof (cases "n_nat n")
    case True
    show ?thesis unfolding if_P [OF True] by (rule post_mono [OF nat_tolerated]) (simp add: True split: sum.splits)
  next
    case False
    then show ?thesis by (simp add: post_ret [where x = "()"])
  qed
  have all: "post (\<lambda>s. s) True s (net_Remove t sy n users snaps False) ?Q"
    unfolding net_Remove_def if_not_P [OF refuse(1)]
  proof (rule post_seq [OF nat], simp, rule post_seq [OF RemoveBridge_tolerated [OF assms(1)]], simp, goal_cases)
    case (1 u s1 u' s2)
    then show ?case by (simp add: post_throw)
  qed
  obtain r s' i' where run: "net_Remove t sy n users snaps False E (s, i) = (r, s', i')" by (rule prod_cases3)
  have "?Q r s'" by (rule alone_post [OF all assms(2) run])
  with run show ?thesis by (auto simp: delete_bridge_def)
qed


definition log_sys :: "string list list sys" where
  "log_sys = \<lparr>sy_exec = (\<lambda>args inp k. (\<lparr>xo_end = Exited 0, xo_out = '''', xo_err = ''''\<rparr>, k @ [args])),
     sy_root = False, sy_comments = True, sy_order = (\<lambda>n. chainToTable)\<rparr>"

definition used_host :: "string list list fw_host" where
  "used_host = \<lparr>h_kernel = [], h_rules = [], h_seq = 0,
     h_db = \<lparr>nets = [Firewall.demo_net], leases = [], lease_seq = 0, vms = [], images = [], kernels = [], binaries = []\<rparr>,
     h_batch = False, h_queue = []\<rparr>"

lemma refused_removal_tears_down_witness:
  "\<exists>s' i'. net_Remove (Some IPTables) log_sys (Firewall.demo_net\<lparr>n_nat := False\<rparr>) [''web''] [] False calm (used_host, 0) =
     (Err (New ''network.error'' ''Network referenced by: web''), s', i') \<and>
   [''sudo'', ''-n'', ''ip'', ''link'', ''delete'', ''mvm-lab'', ''type'', ''bridge''] \<in> set (h_kernel s')"
proof -
  have "records log_sys id" by (simp add: records_def log_sys_def)
  moreover have "e_step calm n s = s" for n and s :: "string list list fw_host" by (simp add: calm_def)
  moreover have "referenced_by [''web''] [] = New ''network.error'' ''Network referenced by: web''"
    by (simp add: referenced_by_def)
  ultimately show ?thesis
    using refused_removal_tears_down [of log_sys id calm "[''web'']" "[]" "Some IPTables" "Firewall.demo_net\<lparr>n_nat := False\<rparr>" used_host 0]
    by (simp add: Firewall.demo_net_def argv_def log_sys_def)
qed

end
