(* ===== verification/Paths.thy ===== *)
theory Paths
  imports GoStrings
begin

text \<open>
  Slash-separated paths, as Go's package \<open>path/filepath\<close> computes with them: \<open>Clean\<close> walks over
  the components of a path, \<open>Join\<close> cleans the concatenation. The file transfer uses them to
  place what a machine sends.
\<close>

definition slash :: char where "slash = CHR ''/''"

definition rooted :: "string \<Rightarrow> bool" where
  "rooted p \<longleftrightarrow> take 1 p = ''/''"

text \<open>The components kept so far, the last one first.\<close>

definition clean_step :: "bool \<Rightarrow> string list \<Rightarrow> string \<Rightarrow> string list" where
  "clean_step r acc c =
     (if c = '''' \<or> c = ''.'' then acc
      else if c = ''..'' then (case acc of [] \<Rightarrow> if r then [] else [''..'']
        | x # xs \<Rightarrow> if x = ''..'' then ''..'' # acc else xs)
      else c # acc)"

definition parts :: "bool \<Rightarrow> string list \<Rightarrow> string list" where
  "parts r cs = rev (foldl (clean_step r) [] cs)"

definition Clean :: "string \<Rightarrow> string" where
  "Clean p = (let s = Join (parts (rooted p) (Split p slash)) ''/''
     in if rooted p then ''/'' @ s else if s = '''' then ''.'' else s)"

definition PathJoin :: "string list \<Rightarrow> string" where
  "PathJoin es = (case dropWhile (\<lambda>e. e = '''') es of [] \<Rightarrow> '''' | fs \<Rightarrow> Clean (Join fs ''/''))"

definition up_to_slash :: "string \<Rightarrow> string" where
  "up_to_slash p = rev (dropWhile (\<lambda>c. c \<noteq> slash) (rev p))"

definition Dir :: "string \<Rightarrow> string" where
  "Dir p = Clean (up_to_slash p)"

definition Base :: "string \<Rightarrow> string" where
  "Base p = (if p = '''' then ''.'' else
     let q = rev (dropWhile (\<lambda>c. c = slash) (rev p)); b = rev (takeWhile (\<lambda>c. c \<noteq> slash) (rev q))
     in if b = '''' then ''/'' else b)"

text \<open>\<open>filepath.Rel\<close>: what is left of the base is gone up, then what is left of the target down.\<close>

fun strip_common :: "string list \<Rightarrow> string list \<Rightarrow> string list \<times> string list" where
  "strip_common (b # bs) (t # ts) = (if b = t then strip_common bs ts else (b # bs, t # ts))"
| "strip_common bs ts = (bs, ts)"

definition no_dot :: "string list \<Rightarrow> string list" where
  "no_dot cs = filter (\<lambda>c. c \<noteq> '''') cs"

definition Rel :: "string \<Rightarrow> string \<Rightarrow> string option" where
  "Rel base targ = (let b = Clean base; t = Clean targ in
     if t = b then Some ''.''
     else let b' = (if b = ''.'' then '''' else b)
       in if rooted b' \<noteq> rooted t then None
         else case strip_common (no_dot (Split b' slash)) (no_dot (Split t slash)) of (bs, ts) \<Rightarrow>
           if bs \<noteq> [] \<and> ts \<noteq> [] \<and> hd bs = ''..'' then None
           else Some (Join (replicate (length bs) ''..'' @ ts) ''/''))"

lemma rel_examples:
  "Rel ''/a'' ''/a/b/c'' = Some ''b/c''" "Rel ''/a/x'' ''/a/b'' = Some ''../b''" "Rel ''.'' ''x/y'' = Some ''x/y''"
  "Rel ''/'' ''/etc'' = Some ''etc''" "Rel ''a'' ''/a'' = None" "Rel ''..'' ''a'' = None" "Rel ''/a/'' ''/a'' = Some ''.''"
  by code_simp+

lemma paths_examples:
  "Clean ''/a//b/../c/.'' = ''/a/c''" "Clean ''../x/..'' = ''..''" "Clean '''' = ''.''" "Clean ''/..'' = ''/''"
  "PathJoin [''/srv'', ''../etc/x''] = ''/etc/x''" "Dir ''/a/b'' = ''/a''" "Base ''/a/b/'' = ''b''" "Dir ''f'' = ''.''"
  by code_simp+

subsection \<open>Where a joined path lies\<close>

text \<open>A component that names an entry.\<close>

definition entry :: "string \<Rightarrow> bool" where
  "entry c \<longleftrightarrow> c \<noteq> '''' \<and> c \<noteq> ''.'' \<and> c \<noteq> ''..'' \<and> slash \<notin> set c"

lemma clean_entries: "list_all entry cs \<Longrightarrow> foldl (clean_step r) acc cs = rev cs @ acc"
  by (induction cs arbitrary: acc) (auto simp: clean_step_def entry_def)

lemma clean_step_entries: "list_all entry acc \<Longrightarrow> slash \<notin> set c \<Longrightarrow> list_all entry (clean_step True acc c)"
  by (auto simp: clean_step_def entry_def split: list.splits)

lemma clean_fold_entries:
  "list_all entry acc \<Longrightarrow> \<forall>c \<in> set cs. slash \<notin> set c \<Longrightarrow> list_all entry (foldl (clean_step True) acc cs)"
  by (induction cs arbitrary: acc) (simp_all add: clean_step_entries)

lemma Split_slash: "\<forall>c \<in> set (Split p slash). slash \<notin> set c"
  using Split_set by fastforce

lemma climb: "list_all entry acc \<Longrightarrow> length acc \<le> n \<Longrightarrow> foldl (clean_step True) acc (replicate n ''..'') = []"
proof (induction n arbitrary: acc)
  case (Suc n)
  have up: "clean_step True acc ''..'' = tl acc"
    using Suc.prems(1) by (cases acc) (auto simp: clean_step_def entry_def)
  have "list_all entry (tl acc)" "length (tl acc) \<le> n" using Suc.prems by (cases acc; simp)+
  then show ?case by (simp add: up Suc.IH)
qed simp

lemma Split_glue: "Split (a @ c # b) c = Split a c @ Split b c"
proof (induction a)
  case (Cons d a)
  obtain v vs where "Split a c = v # vs" by (cases "Split a c") auto
  with Cons show ?case by simp
qed simp

definition path_parts :: "string \<Rightarrow> string list" where
  "path_parts p = parts (rooted p) (Split p slash)"

lemma rooted_parts: "rooted p \<Longrightarrow> list_all entry (path_parts p)"
  unfolding path_parts_def parts_def list_all_rev by (simp add: clean_fold_entries Split_slash)

lemma rooted_Clean: "rooted p \<Longrightarrow> Clean p = ''/'' @ Join (path_parts p) ''/''"
  by (simp add: Clean_def path_parts_def Let_def)

lemma rooted_append: "rooted p \<Longrightarrow> rooted (p @ q)"
  by (cases p) (auto simp: rooted_def)

lemma rooted_join:
  assumes "rooted d" "cs \<noteq> []" "\<forall>c \<in> set cs. slash \<notin> set c"
  shows "PathJoin [d, Join cs ''/''] =
    ''/'' @ Join (rev (foldl (clean_step True) (rev (path_parts d)) cs)) ''/''"
proof -
  have d: "d \<noteq> ''''" using assms(1) by (auto simp: rooted_def)
  have j: "Split (Join cs ''/'') slash = cs" using Split_Join [OF assms(2), of slash] assms(3) by (simp add: slash_def)
  have "path_parts (d @ ''/'' @ Join cs ''/'') = parts True (Split d slash @ cs)"
    using rooted_append [OF assms(1)] j Split_glue [of d slash] by (simp add: path_parts_def slash_def)
  moreover have "foldl (clean_step True) [] (Split d slash) = rev (path_parts d)"
    using assms(1) by (simp add: path_parts_def parts_def)
  ultimately show ?thesis
    using d rooted_Clean [OF rooted_append [OF assms(1)]] by (simp add: PathJoin_def parts_def)
qed

text \<open>Names that only go down stay below the directory; with enough parents first, a path leads anywhere.\<close>

lemma join_inside:
  assumes "rooted d" "cs \<noteq> []" "list_all entry cs"
  shows "PathJoin [d, Join cs ''/''] = ''/'' @ Join (path_parts d @ cs) ''/''"
  using rooted_join [OF assms(1,2)] assms(3) by (simp add: clean_entries list_all_iff entry_def)

lemma up_no_slash: "slash \<notin> set ''..''"
  by (simp add: slash_def)

lemma join_anywhere:
  assumes "rooted d" "cs \<noteq> []" "list_all entry cs" "length (path_parts d) \<le> n"
  shows "PathJoin [d, Join (replicate n ''..'' @ cs) ''/''] = ''/'' @ Join cs ''/''"
proof -
  have cs: "slash \<notin> set c" if "c \<in> set cs" for c using assms(3) that by (simp add: list_all_iff entry_def)
  have "\<forall>c \<in> set (replicate n ''..'' @ cs). slash \<notin> set c"
  proof
    fix c :: string
    assume "c \<in> set (replicate n ''..'' @ cs)"
    then have "c = ''..'' \<or> c \<in> set cs" by (auto simp only: set_append in_set_replicate)
    with cs up_no_slash show "slash \<notin> set c" by blast
  qed
  moreover have "foldl (clean_step True) (rev (path_parts d)) (replicate n ''..'') = []"
    by (rule climb) (use rooted_parts [OF assms(1)] assms(4) in simp_all)
  ultimately show ?thesis using rooted_join [OF assms(1), of "replicate n ''..'' @ cs"] assms(2)
    by (simp add: clean_entries [OF assms(3)])
qed

end
