(* ===== verification/Frames.thy ===== *)
theory Frames
  imports Prelude
begin

text \<open>
  The binary frames of the file transfer (\<open>internal/service/agent/file_transfer.go\<close>): four bytes
  of length, most significant first, one byte of type, and the payload. The length counts the type
  byte. A reader sees the bytes that have arrived and the end of the stream.
\<close>

unbundle bit_operations_syntax

type_synonym byte = "8 word"

definition FtPush :: byte where "FtPush = 0x10"
definition FtPull :: byte where "FtPull = 0x11"
definition FtMeta :: byte where "FtMeta = 0x20"
definition FtData :: byte where "FtData = 0x21"
definition FtOK :: byte where "FtOK = 0x22"
definition FtMkdir :: byte where "FtMkdir = 0x30"
definition FtError :: byte where "FtError = 0x40"
definition FtProgress :: byte where "FtProgress = 0x50"
definition FtDone :: byte where "FtDone = 0x60"

lemmas ft_types = FtPush_def FtPull_def FtMeta_def FtData_def FtOK_def FtMkdir_def FtError_def FtProgress_def FtDone_def

definition PutUint32 :: "32 word \<Rightarrow> byte list" where
  "PutUint32 v = [ucast (drop_bit 24 v), ucast (drop_bit 16 v), ucast (drop_bit 8 v), ucast v]"

definition Uint32 :: "byte list \<Rightarrow> 32 word" where
  "Uint32 b = push_bit 24 (ucast (b ! 0)) OR push_bit 16 (ucast (b ! 1)) OR push_bit 8 (ucast (b ! 2)) OR ucast (b ! 3)"

definition WriteFTFrame :: "byte \<Rightarrow> byte list \<Rightarrow> byte list" where
  "WriteFTFrame t payload = PutUint32 (word_of_nat (length payload + 1)) @ [t] @ payload"

datatype read_frame =
    Frame byte "byte list" "byte list"
  | ReadFailed string
  | Panic string

definition ReadFTFrame :: "byte list \<Rightarrow> read_frame" where
  "ReadFTFrame inp =
     (if inp = [] then ReadFailed ''read frame length: EOF''
      else if length inp < 4 then ReadFailed ''read frame length: unexpected EOF''
      else let n = unat (Uint32 (take 4 inp)); body = drop 4 inp; buf = take n body
        in if 0 < n \<and> body = [] then ReadFailed ''read frame body: EOF''
           else if length body < n then ReadFailed ''read frame body: unexpected EOF''
           else case buf of [] \<Rightarrow> Panic ''index out of range [0] with length 0''
             | t # payload \<Rightarrow> Frame t payload (drop n body))"

subsection \<open>Round trip\<close>

lemma Uint32_Put: "Uint32 (PutUint32 v) = v"
proof (rule bit_word_eqI)
  fix n
  assume "n < LENGTH(32)"
  then consider "n < 8" | "8 \<le> n" "n < 16" | "16 \<le> n" "n < 24" | "24 \<le> n" "n < 32" by fastforce
  then show "bit (Uint32 (PutUint32 v)) n = bit v n"
    by cases (auto simp: Uint32_def PutUint32_def bit_simps less_diff_conv2)
qed

lemma Uint32_bit:
  "bit (Uint32 [a, b, c, d]) n \<longleftrightarrow> (24 \<le> n \<and> n < 32 \<and> bit a (n - 24)) \<or> (16 \<le> n \<and> n < 24 \<and> bit b (n - 16)) \<or>
     (8 \<le> n \<and> n < 16 \<and> bit c (n - 8)) \<or> (n < 8 \<and> bit d n)"
  by (auto simp: Uint32_def bit_simps less_diff_conv2 dest: bit_imp_le_length)

lemma Put_Uint32: "PutUint32 (Uint32 [a, b, c, d]) = [a, b, c, d]"
proof -
  let ?v = "Uint32 [a, b, c, d]"
  have "(ucast (drop_bit 24 ?v) :: byte) = a" "(ucast (drop_bit 16 ?v) :: byte) = b"
    "(ucast (drop_bit 8 ?v) :: byte) = c" "(ucast ?v :: byte) = d"
    by (rule bit_word_eqI, auto simp: bit_simps Uint32_bit)+
  then show ?thesis by (simp add: PutUint32_def)
qed

lemma Uint32_0: "length b = 4 \<Longrightarrow> Uint32 b = 0 \<longleftrightarrow> b = [0, 0, 0, 0]"
proof -
  assume "length b = 4"
  then obtain w x y z where b: "b = [w, x, y, z]" by (auto simp: numeral_eq_Suc length_Suc_conv)
  have "PutUint32 0 = [0, 0, 0, 0]" by (simp add: PutUint32_def)
  with Put_Uint32 [of w x y z] Uint32_Put [of 0] show ?thesis unfolding b by metis
qed

lemma Put_length [simp]: "length (PutUint32 v) = 4"
  by (simp add: PutUint32_def)

text \<open>A frame followed by anything.\<close>

lemma read_written:
  assumes "length payload + 1 < 2 ^ 32"
  shows "ReadFTFrame (WriteFTFrame t payload @ rest) = Frame t payload rest"
proof -
  have "unat (word_of_nat (length payload + 1) :: 32 word) = length payload + 1"
    using assms by (simp add: unsigned_of_nat take_bit_nat_eq_self del: of_nat_Suc)
  then show ?thesis by (simp add: ReadFTFrame_def WriteFTFrame_def Let_def Uint32_Put)
qed

text \<open>Reading frames until the stream ends.\<close>

function ReadAll :: "byte list \<Rightarrow> (byte \<times> byte list) list \<times> read_frame" where
  "ReadAll inp = (case ReadFTFrame inp of
     Frame t p rest \<Rightarrow> (case ReadAll rest of (fs, e) \<Rightarrow> ((t, p) # fs, e))
   | r \<Rightarrow> ([], r))"
  by auto

lemma read_shrinks: "ReadFTFrame inp = Frame t p rest \<Longrightarrow> length rest < length inp"
  by (auto simp: ReadFTFrame_def Let_def split: if_splits list.splits)

termination ReadAll
  by (relation "measure length") (use read_shrinks in auto)

declare ReadAll.simps [simp del]


text \<open>
  C26: What a sequence of writes puts on the wire, the reader takes apart again: the same frames in
  the same order, and then the end of the stream, whatever bytes the payloads hold, as long as
  each payload is shorter than four gigabytes less one byte.
\<close>

theorem ft_stream_roundtrip:
  assumes "list_all (\<lambda>(t, p). length p + 1 < 2 ^ 32) fs"
  shows "ReadAll (concat (map (\<lambda>(t, p). WriteFTFrame t p) fs)) = (fs, ReadFailed ''read frame length: EOF'')"
  using assms
proof (induction fs)
  case Nil
  show ?case by (simp add: ReadAll.simps ReadFTFrame_def)
next
  case (Cons f fs)
  obtain t p where f: "f = (t, p)" by (rule prod.exhaust)
  with Cons.prems have "length p + 1 < 2 ^ 32" by simp
  note r = read_written [OF this, of t "concat (map (\<lambda>(t, p). WriteFTFrame t p) fs)"]
  from Cons show ?case unfolding f by (subst ReadAll.simps) (simp add: r)
qed

lemma ft_stream_roundtrip_witness:
  "ReadAll (concat (map (\<lambda>(t, p). WriteFTFrame t p) [(FtData, [1, 2, 3]), (FtData, []), (FtDone, [123, 125])])) =
     ([(FtData, [1, 2, 3]), (FtData, []), (FtDone, [123, 125])], ReadFailed ''read frame length: EOF'')"
  by (rule ft_stream_roundtrip) simp

text \<open>
  The reader panics exactly on a frame whose length field is zero: it takes the type byte out of
  an empty buffer. Four zero bytes from the other side are enough, on the host as in the machine.
\<close>

lemma ft_reader_panics: "(\<exists>m. ReadFTFrame inp = Panic m) \<longleftrightarrow> take 4 inp = [0, 0, 0, 0]"
proof (cases "length inp < 4")
  case True
  then have "take 4 inp \<noteq> [0, 0, 0, 0]" by (auto dest: arg_cong [of _ _ length])
  with True show ?thesis by (auto simp: ReadFTFrame_def)
next
  case False
  define n where "n = unat (Uint32 (take 4 inp))"
  have n: "n = 0 \<longleftrightarrow> take 4 inp = [0, 0, 0, 0]"
    using Uint32_0 [of "take 4 inp"] False by (simp add: n_def unat_eq_zero)
  have "inp \<noteq> []" using False by auto
  with False n show ?thesis unfolding ReadFTFrame_def n_def [symmetric] Let_def
    by (auto simp: take_eq_Nil split: list.splits)
qed

end
