(* ===== verification/Links.thy ===== *)
theory Links
  imports Paths Frames
begin

text \<open>
  Copying files between the host and a machine (\<open>internal/core/vsock/file_transfer.go\<close> on the
  host, \<open>internal/service/agent/file_transfer.go\<close> in the machine). The two sides talk over a
  connection that carries frames. A JSON payload is represented by the value it is the text of;
  what decoding a payload gives, the operating system on either side and SHA-256 are parameters.
\<close>

subsection \<open>Payloads\<close>

record ft_push =
  pp_paths :: "string list"
  pp_dest :: string
  pp_overwrite :: bool
  pp_nosync :: bool

record ft_pull =
  pl_path :: string
  pl_dest :: string
  pl_overwrite :: bool
  pl_recursive :: bool

record ft_meta =
  fm_path :: string
  fm_size :: int
  fm_mode :: int
  fm_sha :: string
  fm_accepted :: bool

datatype payload =
    Bytes "byte list"
  | PPush ft_push
  | PPull ft_pull
  | PMeta ft_meta
  | PProgress string int int
  | PError string string
  | PDone int int int
  | PMkdir string

type_synonym frame = "byte \<times> payload"

record json =
  js_text :: "payload \<Rightarrow> byte list"
  js_push :: "payload \<Rightarrow> ft_push option"
  js_pull :: "payload \<Rightarrow> ft_pull option"
  js_meta :: "payload \<Rightarrow> ft_meta option"
  js_err :: "payload \<Rightarrow> (string \<times> string) option"

text \<open>Raw bytes are sent as they are, JSON texts are not empty, and a payload decodes to what it was encoded from.\<close>

definition json_ok :: "json \<Rightarrow> bool" where
  "json_ok js \<longleftrightarrow> (\<forall>b. js_text js (Bytes b) = b) \<and> (\<forall>p. js_push js (PPush p) = Some p) \<and>
     (\<forall>p. js_pull js (PPull p) = Some p) \<and> (\<forall>m. js_meta js (PMeta m) = Some m) \<and>
     (\<forall>c m. js_err js (PError c m) = Some (c, m))"

definition hex_digit :: "nat \<Rightarrow> char" where
  "hex_digit n = (if n < 10 then char_of (48 + n) else char_of (87 + n))"

definition hex2 :: "byte \<Rightarrow> string" where
  "hex2 t = ''0x'' @ [hex_digit (unat t div 16), hex_digit (unat t mod 16)]"

definition in_quotes :: "string \<Rightarrow> string" where
  "in_quotes s = [CHR 0x27] @ s @ [CHR 0x27]"

subsection \<open>The operating system\<close>

text \<open>
  A side's operating system: what it answers in a state of the world, and how the calls that write
  change it. \<open>os_reads\<close> is what reading an opened file to its end gives, one element per
  \<open>Read\<close> that returned bytes, with the error that stopped it if that was not the end of the file.
\<close>

record finfo =
  fi_link :: bool
  fi_dir :: bool
  fi_regular :: bool
  fi_size :: int
  fi_mode :: int

datatype open_error = NotExist string | OtherError string

record 'w os =
  os_stat :: "'w \<Rightarrow> string \<Rightarrow> (string, finfo) res"
  os_lstat :: "'w \<Rightarrow> string \<Rightarrow> (string, finfo) res"
  os_real :: "'w \<Rightarrow> string \<Rightarrow> (string, string) res"
  os_open :: "'w \<Rightarrow> string \<Rightarrow> string option"
  os_names :: "'w \<Rightarrow> string \<Rightarrow> (string, string list) res"
  os_reads :: "'w \<Rightarrow> string \<Rightarrow> byte list list \<times> string option"
  os_mkdirall :: "string \<Rightarrow> 'w \<Rightarrow> string option \<times> 'w"
  os_truncate :: "string \<Rightarrow> 'w \<Rightarrow> open_error option \<times> 'w"
  os_create :: "string \<Rightarrow> int \<Rightarrow> 'w \<Rightarrow> string option \<times> 'w"
  os_write :: "string \<Rightarrow> byte list \<Rightarrow> 'w \<Rightarrow> string option \<times> 'w"
  os_fsync :: "string \<Rightarrow> 'w \<Rightarrow> string option \<times> 'w"
  os_remove :: "string \<Rightarrow> 'w \<Rightarrow> 'w"
  os_cancelled :: "'w \<Rightarrow> string option"

definition is_dir :: "'w os \<Rightarrow> 'w \<Rightarrow> string \<Rightarrow> bool" where
  "is_dir os w p \<longleftrightarrow> (case os_stat os w p of Inl e \<Rightarrow> False | Inr fi \<Rightarrow> fi_dir fi)"

definition exists_file :: "'w os \<Rightarrow> 'w \<Rightarrow> string \<Rightarrow> bool" where
  "exists_file os w p \<longleftrightarrow> is_ok (os_stat os w p)"

subsection \<open>Connections\<close>

datatype recv = Got frame | Lost string | Blocked

record 'c link =
  lk_send :: "frame \<Rightarrow> 'c \<Rightarrow> string option \<times> 'c"
  lk_recv :: "'c \<Rightarrow> recv \<times> 'c"

text \<open>A program of the host: it returns, it returns an error, or it waits for a frame that does not come.\<close>

datatype 'a outcome = Returns 'a | Fails string | Waits

type_synonym ('h, 'c, 'a) io = "'h \<times> 'c \<Rightarrow> 'a outcome \<times> 'h \<times> 'c"

definition ret_io :: "'a \<Rightarrow> ('h, 'c, 'a) io" where
  "ret_io x = (\<lambda>s. (Returns x, s))"

definition fail_io :: "string \<Rightarrow> ('h, 'c, 'a) io" where
  "fail_io e = (\<lambda>s. (Fails e, s))"

definition wait_io :: "('h, 'c, 'a) io" where
  "wait_io = (\<lambda>s. (Waits, s))"

definition bind_io :: "('h, 'c, 'a) io \<Rightarrow> ('a \<Rightarrow> ('h, 'c, 'b) io) \<Rightarrow> ('h, 'c, 'b) io" where
  "bind_io m k = (\<lambda>s. case m s of (Returns x, s') \<Rightarrow> k x s' | (Fails e, s') \<Rightarrow> (Fails e, s') | (Waits, s') \<Rightarrow> (Waits, s'))"

definition ask :: "('h \<Rightarrow> 'a) \<Rightarrow> ('h, 'c, 'a) io" where
  "ask f = (\<lambda>(h, c). (Returns (f h), h, c))"

definition act :: "('h \<Rightarrow> 'a \<times> 'h) \<Rightarrow> ('h, 'c, 'a) io" where
  "act f = (\<lambda>(h, c). case f h of (x, h') \<Rightarrow> (Returns x, h', c))"

definition try_send :: "'c link \<Rightarrow> byte \<Rightarrow> payload \<Rightarrow> ('h, 'c, string option) io" where
  "try_send lk t p = (\<lambda>(h, c). case lk_send lk (t, p) c of (e, c') \<Rightarrow> (Returns e, h, c'))"

definition send_or :: "'c link \<Rightarrow> string \<Rightarrow> byte \<Rightarrow> payload \<Rightarrow> ('h, 'c, unit) io" where
  "send_or lk what t p = bind_io (try_send lk t p) (\<lambda>e. case e of
     None \<Rightarrow> ret_io () | Some m \<Rightarrow> fail_io (what @ '': '' @ m))"

definition recv_or :: "'c link \<Rightarrow> string \<Rightarrow> ('h, 'c, frame) io" where
  "recv_or lk what = (\<lambda>(h, c). case lk_recv lk c of
     (Got f, c') \<Rightarrow> (Returns f, h, c') | (Lost m, c') \<Rightarrow> (Fails (what @ '': '' @ m), h, c') | (Blocked, c') \<Rightarrow> (Waits, h, c'))"

definition check_cancelled :: "'h os \<Rightarrow> string \<Rightarrow> ('h, 'c, unit) io" where
  "check_cancelled os what = bind_io (ask (os_cancelled os)) (\<lambda>d. case d of
     None \<Rightarrow> ret_io () | Some m \<Rightarrow> fail_io (what @ '': '' @ m))"

end
