(* ===== verification/Sources.thy ===== *)
theory Sources
  imports Links
begin

text \<open>
  Which files a copy takes: the host expands its sources (\<open>expandSources\<close>), the machine walks
  a directory for a pull (\<open>walkFn\<close>). Both follow symbolic links and keep the physical paths of
  the directories they are in, to stop at a cycle. The recursion has a bound on its depth; that
  some bound is enough is a theorem.
\<close>

record file_entry =
  fe_abs :: string
  fe_rel :: string

definition or_empty :: "string option \<Rightarrow> string" where
  "or_empty x = (case x of Some s \<Rightarrow> s | None \<Rightarrow> '''')"

subsection \<open>On the host\<close>

text \<open>Entries one after the other; the first error ends the walk. None stands for a bound that was too small.\<close>

fun collect :: "('a \<Rightarrow> (string, 'b list) res option) \<Rightarrow> 'a list \<Rightarrow> (string, 'b list) res option" where
  "collect f [] = Some (Ok [])"
| "collect f (x # xs) = (case f x of
     None \<Rightarrow> None
   | Some (Inl e) \<Rightarrow> Some (Err e)
   | Some (Inr ys) \<Rightarrow> (case collect f xs of
       None \<Rightarrow> None
     | Some (Inl e) \<Rightarrow> Some (Err e)
     | Some (Inr zs) \<Rightarrow> Some (Ok (ys @ zs))))"

definition visit :: "'w os \<Rightarrow> 'w \<Rightarrow> (string \<Rightarrow> (string, file_entry list) res option) \<Rightarrow> string \<Rightarrow> string \<Rightarrow>
    (string, file_entry list) res option" where
  "visit os w sub base path =
     (let here = [\<lparr>fe_abs = path, fe_rel = or_empty (Rel base path)\<rparr>] in
      case os_lstat os w path of
        Inl e \<Rightarrow> Some (Ok [])
      | Inr fi \<Rightarrow>
          if fi_link fi then (case os_stat os w path of
              Inl e \<Rightarrow> Some (Ok [])
            | Inr ti \<Rightarrow> if fi_dir ti then sub path else if fi_regular ti then Some (Ok here) else Some (Ok []))
          else if fi_dir fi then sub path
          else if fi_regular fi then Some (Ok here)
          else Some (Ok []))"

fun walkWithSymlinks :: "nat \<Rightarrow> 'w os \<Rightarrow> 'w \<Rightarrow> string \<Rightarrow> string \<Rightarrow> string list \<Rightarrow> (string, file_entry list) res option" where
  "walkWithSymlinks 0 os w base cur stack = None"
| "walkWithSymlinks (Suc n) os w base cur stack = (case os_real os w cur of
     Inl e \<Rightarrow> Some (Ok [])
   | Inr real \<Rightarrow>
       if real \<in> set stack then Some (Ok [])
       else (case os_open os w cur of
         Some e \<Rightarrow> Some (Err (''open directory '' @ cur @ '': '' @ e))
       | None \<Rightarrow> (case os_names os w cur of
           Inl e \<Rightarrow> Some (Err (''read directory '' @ cur @ '': '' @ e))
         | Inr names \<Rightarrow> collect (visit os w (\<lambda>p. walkWithSymlinks n os w base p (stack @ [real])) base)
             (map (\<lambda>x. PathJoin [cur, x]) names))))"

definition walk_source :: "nat \<Rightarrow> 'w os \<Rightarrow> 'w \<Rightarrow> string \<Rightarrow> string \<Rightarrow> (string, file_entry list) res option" where
  "walk_source n os w src cur = (case walkWithSymlinks n os w (Dir src) cur [] of
     Some (Inl e) \<Rightarrow> Some (Err (''walk source '' @ src @ '': '' @ e)) | r \<Rightarrow> r)"

definition expand_source :: "nat \<Rightarrow> 'w os \<Rightarrow> 'w \<Rightarrow> string \<Rightarrow> (string, file_entry list) res option" where
  "expand_source n os w src =
     (let here = [\<lparr>fe_abs = src, fe_rel = Base src\<rparr>] in
      case os_lstat os w src of
        Inl e \<Rightarrow> Some (Err (''source not found: '' @ src))
      | Inr fi \<Rightarrow>
          if fi_link fi then (case os_stat os w src of
              Inl e \<Rightarrow> Some (Ok [])
            | Inr ti \<Rightarrow> if fi_dir ti then walk_source n os w src src
                else if fi_regular ti then Some (Ok here) else Some (Ok []))
          else if \<not> fi_dir fi then Some (Ok here)
          else walk_source n os w src (Clean src))"

definition expandSources :: "nat \<Rightarrow> 'w os \<Rightarrow> 'w \<Rightarrow> string list \<Rightarrow> (string, file_entry list) res option" where
  "expandSources n os w srcs = collect (expand_source n os w) srcs"

subsection \<open>In the machine\<close>

text \<open>
  The walk of a pull only logs what it cannot read. Its result is the tree of the files it will send,
  in order: leaving a directory early drops what is left of that directory only.
\<close>

datatype item = IFile string | IDir "item list"

fun all_some :: "'a option list \<Rightarrow> 'a list option" where
  "all_some [] = Some []"
| "all_some (x # xs) = (case x of None \<Rightarrow> None | Some y \<Rightarrow> map_option (\<lambda>ys. y # ys) (all_some xs))"

definition pull_visit :: "'w os \<Rightarrow> 'w \<Rightarrow> (string \<Rightarrow> item list option) \<Rightarrow> string \<Rightarrow> item list option" where
  "pull_visit os w sub path = (case os_lstat os w path of
     Inl e \<Rightarrow> Some []
   | Inr fi \<Rightarrow>
       if fi_link fi then (case os_stat os w path of
           Inl e \<Rightarrow> Some []
         | Inr ti \<Rightarrow> if fi_dir ti then map_option (\<lambda>is. [IDir is]) (sub path)
             else if fi_regular ti then Some [IFile path] else Some [])
       else if fi_dir fi then map_option (\<lambda>is. [IDir is]) (sub path)
       else if fi_regular fi then Some [IFile path] else Some [])"

fun walkFn :: "nat \<Rightarrow> 'w os \<Rightarrow> 'w \<Rightarrow> string \<Rightarrow> string list \<Rightarrow> item list option" where
  "walkFn 0 os w cur stack = None"
| "walkFn (Suc n) os w cur stack = (case os_real os w cur of
     Inl e \<Rightarrow> Some []
   | Inr real \<Rightarrow>
       if real \<in> set stack \<or> os_open os w cur \<noteq> None then Some []
       else (case os_names os w cur of
         Inl e \<Rightarrow> Some []
       | Inr names \<Rightarrow> map_option concat (all_some
           (map (\<lambda>x. pull_visit os w (\<lambda>p. walkFn n os w p (stack @ [real])) (PathJoin [cur, x])) names))))"

subsection \<open>The walks end\<close>

lemma collect_Some: "(\<And>x. x \<in> set xs \<Longrightarrow> f x \<noteq> None) \<Longrightarrow> collect f xs \<noteq> None"
  by (induction xs) (auto split: option.splits sum.splits)

lemma visit_Some: "(\<And>p. sub p \<noteq> None) \<Longrightarrow> visit os w sub base path \<noteq> None"
  by (auto simp: visit_def Let_def split: sum.splits)

text \<open>A directory below others has a physical path that is not among theirs.\<close>

lemma stack_room:
  assumes "finite D" "set stack \<subseteq> D" "real \<in> D" "real \<notin> set stack"
  shows "card (D - set (stack @ [real])) < card (D - set stack)"
  using assms by (intro psubset_card_mono) auto

lemma walk_Some:
  assumes "finite D" "\<And>p r. os_real os w p = Ok r \<Longrightarrow> r \<in> D"
  shows "set stack \<subseteq> D \<Longrightarrow> card (D - set stack) < n \<Longrightarrow> walkWithSymlinks n os w base cur stack \<noteq> None"
proof (induction n arbitrary: cur stack)
  case (Suc n)
  have sub: "walkWithSymlinks n os w base p (stack @ [real]) \<noteq> None"
    if "os_real os w cur = Ok real" "real \<notin> set stack" for p real
    by (rule Suc.IH) (use stack_room [OF assms(1) Suc.prems(1) assms(2) [OF that(1)] that(2)] assms(2) [OF that(1)] Suc.prems in
      \<open>simp_all only: set_append set_simps Un_subset_iff, simp_all\<close>)
  have all: "collect (visit os w (\<lambda>p. walkWithSymlinks n os w base p (stack @ [real])) base) xs \<noteq> None"
    if "os_real os w cur = Ok real" "real \<notin> set stack" for xs real
    by (intro collect_Some visit_Some sub [OF that])
  then show ?case by (auto simp del: not_None_eq split: sum.split option.split)
qed simp

lemma all_some_None: "all_some xs = None \<longleftrightarrow> None \<in> set xs"
  by (induction xs) (auto split: option.splits)

lemma pull_visit_Some: "(\<And>p. sub p \<noteq> None) \<Longrightarrow> pull_visit os w sub path \<noteq> None"
  by (auto simp: pull_visit_def split: sum.splits)

lemma walkFn_Some:
  assumes "finite D" "\<And>p r. os_real os w p = Ok r \<Longrightarrow> r \<in> D"
  shows "set stack \<subseteq> D \<Longrightarrow> card (D - set stack) < n \<Longrightarrow> walkFn n os w cur stack \<noteq> None"
proof (induction n arbitrary: cur stack)
  case (Suc n)
  have sub: "walkFn n os w p (stack @ [real]) \<noteq> None"
    if "os_real os w cur = Ok real" "real \<notin> set stack" for p real
    by (rule Suc.IH) (use stack_room [OF assms(1) Suc.prems(1) assms(2) [OF that(1)] that(2)] assms(2) [OF that(1)] Suc.prems in
      \<open>simp_all only: set_append set_simps Un_subset_iff, simp_all\<close>)
  have all: "all_some (map (\<lambda>x. pull_visit os w (\<lambda>p. walkFn n os w p (stack @ [real])) (PathJoin [cur, x])) xs) \<noteq> None"
    if "os_real os w cur = Ok real" "real \<notin> set stack" for xs real
    using pull_visit_Some [where sub = "\<lambda>p. walkFn n os w p (stack @ [real])", OF sub [OF that]]
    unfolding all_some_None set_map image_iff by metis
  then show ?case by (auto simp del: not_None_eq split: sum.split)
qed simp


text \<open>A larger bound changes nothing.\<close>

lemma collect_cong: "collect f xs = Some r \<Longrightarrow> (\<And>x s. x \<in> set xs \<Longrightarrow> f x = Some s \<Longrightarrow> g x = Some s) \<Longrightarrow> collect g xs = Some r"
proof (induction xs arbitrary: r)
  case (Cons x xs)
  from Cons.prems(1) obtain s where s: "f x = Some s" by (auto split: option.splits)
  with Cons.prems(2) have g: "g x = Some s" by simp
  show ?case
  proof (cases s)
    case (Inl e)
    then have "r = Err e" using Cons.prems(1) s by simp
    then show ?thesis by (simp add: g Inl)
  next
    case (Inr ys)
    with Cons.prems(1) s obtain t where t: "collect f xs = Some t" by (auto split: option.splits)
    with Cons.IH Cons.prems(2) have "collect g xs = Some t" by simp
    moreover have "collect f (x # xs) = Some r" by (rule Cons.prems(1))
    ultimately show ?thesis by (simp add: s g Inr t)
  qed
qed simp

lemma visit_mono: "visit os w sub base path = Some r \<Longrightarrow> (\<And>p s. sub p = Some s \<Longrightarrow> sub' p = Some s) \<Longrightarrow>
    visit os w sub' base path = Some r"
  by (auto simp: visit_def Let_def split: sum.splits if_splits)

lemma walk_more: "walkWithSymlinks n os w base cur stack = Some r \<Longrightarrow> walkWithSymlinks (n + k) os w base cur stack = Some r"
proof (induction n arbitrary: cur stack r)
  case (Suc n)
  have "collect (visit os w (\<lambda>p. walkWithSymlinks (n + k) os w base p stack') base) xs = Some t"
    if "collect (visit os w (\<lambda>p. walkWithSymlinks n os w base p stack') base) xs = Some t" for stack' xs t
    by (rule collect_cong [OF that]) (erule visit_mono, erule Suc.IH)
  with Suc.prems show ?case by (auto split: sum.splits option.splits)
qed simp

lemma expand_more: "expandSources n os w srcs = Some r \<Longrightarrow> expandSources (n + k) os w srcs = Some r"
  unfolding expandSources_def
  by (erule collect_cong)
    (auto simp: expand_source_def walk_source_def Let_def split: sum.splits if_splits option.splits dest: walk_more [where k = k])

lemma walk_source_Some:
  assumes "finite D" "\<And>p r. os_real os w p = Ok r \<Longrightarrow> r \<in> D"
  shows "walk_source (Suc (card D)) os w src cur \<noteq> None"
  using walk_Some [where os = os and w = w and stack = "[]" and n = "Suc (card D)" and base = "Dir src" and cur = cur, OF assms]
  by (auto simp: walk_source_def simp del: walkWithSymlinks.simps split: option.splits sum.splits)

lemma expand_source_Some:
  assumes "finite D" "\<And>p r. os_real os w p = Ok r \<Longrightarrow> r \<in> D"
  shows "expand_source (Suc (card D)) os w src \<noteq> None"
  using walk_source_Some [where os = os and w = w, OF assms] by (auto simp: expand_source_def Let_def simp del: not_None_eq split: sum.split)

text \<open>
  C27: Expanding the sources of a copy ends, whatever symbolic links the directories hold, cycles
  included: if the directories have finitely many physical paths, a depth of one more than
  their number is enough, and every larger bound gives the same files or the same error.
\<close>

theorem expand_sources_ends:
  assumes "finite D" "\<And>p r. os_real os w p = Ok r \<Longrightarrow> r \<in> D"
  shows "\<exists>r. \<forall>n > card D. expandSources n os w srcs = Some r"
proof -
  have "expandSources (Suc (card D)) os w srcs \<noteq> None"
    unfolding expandSources_def by (rule collect_Some, rule expand_source_Some [OF assms])
  then obtain r where r: "expandSources (Suc (card D)) os w srcs = Some r" by auto
  have "expandSources n os w srcs = Some r" if "card D < n" for n
    using expand_more [OF r, of "n - Suc (card D)"] that by simp
  then show ?thesis by blast
qed

text \<open>A directory with a file and a link to itself.\<close>

definition info :: "bool \<Rightarrow> bool \<Rightarrow> finfo" where
  "info link dir = \<lparr>fi_link = link, fi_dir = dir, fi_regular = (\<not> link \<and> \<not> dir), fi_size = 0, fi_mode = 420\<rparr>"

definition loop_os :: "unit os" where
  "loop_os = \<lparr>
     os_stat = (\<lambda>_ p. if p = ''/d/f'' then Ok (info False False) else Ok (info False True)),
     os_lstat = (\<lambda>_ p. if p = ''/d/f'' then Ok (info False False) else Ok (info (p \<noteq> ''/d'') (p = ''/d''))),
     os_real = (\<lambda>_ p. Ok ''/d''), os_open = (\<lambda>_ p. None), os_names = (\<lambda>_ p. Ok [''loop'', ''f'']),
     os_reads = (\<lambda>_ p. ([], None)), os_mkdirall = (\<lambda>p w. (None, w)), os_truncate = (\<lambda>p w. (None, w)),
     os_create = (\<lambda>p m w. (None, w)), os_write = (\<lambda>p b w. (None, w)), os_fsync = (\<lambda>p w. (None, w)),
     os_remove = (\<lambda>p w. w), os_cancelled = (\<lambda>_. None)\<rparr>"

lemma loop_entries: "expandSources 2 loop_os () [''/d''] = Some (Ok [\<lparr>fe_abs = ''/d/f'', fe_rel = ''d/f''\<rparr>])"
  by code_simp

lemma expand_sources_ends_witness:
  "\<exists>r. (\<forall>n > card {''/d''}. expandSources n loop_os () [''/d''] = Some r) \<and> r = Ok [\<lparr>fe_abs = ''/d/f'', fe_rel = ''d/f''\<rparr>]"
proof -
  have "\<exists>r. \<forall>n > card {''/d''}. expandSources n loop_os () [''/d''] = Some r"
    by (rule expand_sources_ends) (simp_all add: loop_os_def)
  then obtain r where r: "\<forall>n > card {''/d''}. expandSources n loop_os () [''/d''] = Some r" by blast
  then have "expandSources 2 loop_os () [''/d''] = Some r" by simp
  with r loop_entries show ?thesis by simp
qed

end
