(* ===== verification/Agent.thy ===== *)
theory Agent
  imports Sources
begin

text \<open>
  The machine's side of a file transfer (\<open>handleFileTransfer\<close>). The agent only acts on a frame that
  it has read: what it does between two reads is one step, which may change its files and puts
  frames on the connection. Where the code returns, the connection is closed.
\<close>

subsection \<open>State\<close>

record counts =
  ct_files :: int
  ct_bytes :: int
  ct_errors :: int

definition no_counts :: counts where
  "no_counts = \<lparr>ct_files = 0, ct_bytes = 0, ct_errors = 0\<rparr>"

definition one_error :: "counts \<Rightarrow> counts" where
  "one_error c = c\<lparr>ct_errors := ct_errors c + 1\<rparr>"

record pushing =
  pu_dest :: string
  pu_dir :: bool
  pu_overwrite :: bool
  pu_nosync :: bool

text \<open>A file that is offered: its path, the metadata sent, and where the walk goes on.\<close>

record offer =
  of_path :: string
  of_meta :: ft_meta
  of_root :: string
  of_rest :: "item list list"

datatype agent =
    Start
  | PushLoop pushing counts
  | Receiving pushing counts ft_meta string "byte list"
  | Offered offer
  | Sent offer int
  | WalkOffered offer counts
  | WalkSent offer counts int
  | Closed

type_synonym 'w reply = "(agent \<times> 'w) \<times> frame list"

definition refuse :: "agent \<Rightarrow> 'w \<Rightarrow> string \<Rightarrow> string \<Rightarrow> 'w reply" where
  "refuse st w c m = ((st, w), [(FtError, PError c m)])"

definition hang_up :: "'w \<Rightarrow> 'w reply" where
  "hang_up w = ((Closed, w), [])"

subsection \<open>Push\<close>

text \<open>The destination is a directory when it ends in a slash or is one already.\<close>

definition handleFTPush :: "json \<Rightarrow> 'w os \<Rightarrow> payload \<Rightarrow> 'w \<Rightarrow> 'w reply" where
  "handleFTPush js os p w = (case js_push js p of
     None \<Rightarrow> refuse Closed w ''invalid'' ''invalid push payload''
   | Some push \<Rightarrow>
       let dest = TrimSuffix (pp_dest push) ''/'';
           go = (\<lambda>dir base. case os_mkdirall os base w of
             (Some e, w') \<Rightarrow> refuse Closed w' ''mkdir_failed'' e
           | (None, w') \<Rightarrow> ((PushLoop \<lparr>pu_dest = dest, pu_dir = dir, pu_overwrite = pp_overwrite push, pu_nosync = pp_nosync push\<rparr>
               no_counts, w'), [(FtMkdir, PMkdir base)]))
       in if HasSuffix (pp_dest push) ''/'' then go True dest
          else if is_dir os w dest then go True dest
          else if 1 < length (pp_paths push) then refuse Closed w ''not_a_directory'' (in_quotes (pp_dest push) @ '' is not a directory'')
          else go False (Dir dest))"

definition open_dest :: "'w os \<Rightarrow> string \<Rightarrow> int \<Rightarrow> 'w \<Rightarrow> string option \<times> 'w" where
  "open_dest os path mode w = (case os_truncate os path w of
     (None, w') \<Rightarrow> (None, w')
   | (Some (NotExist e), w') \<Rightarrow> os_create os path mode w'
   | (Some (OtherError e), w') \<Rightarrow> (Some e, w'))"

definition push_meta :: "json \<Rightarrow> 'w os \<Rightarrow> pushing \<Rightarrow> counts \<Rightarrow> payload \<Rightarrow> 'w \<Rightarrow> 'w reply" where
  "push_meta js os pu c p w = (case js_meta js p of
     None \<Rightarrow> hang_up w
   | Some meta \<Rightarrow>
       let path = (if pu_dir pu then PathJoin [pu_dest pu, fm_path meta] else pu_dest pu)
       in if \<not> pu_overwrite pu \<and> exists_file os w path
          then refuse (PushLoop pu (one_error c)) w ''exists'' (''file exists: '' @ path)
          else (case os_mkdirall os (Dir path) w of
            (Some e, w') \<Rightarrow> refuse (PushLoop pu (one_error c)) w' ''mkdir_failed'' e
          | (None, w') \<Rightarrow> (case open_dest os path (fm_mode meta) w' of
              (Some e, w'') \<Rightarrow> refuse (PushLoop pu (one_error c)) w'' ''create_failed'' e
            | (None, w'') \<Rightarrow> ((Receiving pu c meta path [], w''),
                [(FtMeta, PMeta \<lparr>fm_path = '''', fm_size = 0, fm_mode = 0, fm_sha = '''', fm_accepted = True\<rparr>)]))))"

definition push_loop :: "json \<Rightarrow> 'w os \<Rightarrow> pushing \<Rightarrow> counts \<Rightarrow> frame \<Rightarrow> 'w \<Rightarrow> 'w reply" where
  "push_loop js os pu c f w = (case f of (t, p) \<Rightarrow>
     if t = FtDone then ((Closed, w), [(FtDone, PDone (ct_files c) (ct_bytes c) (ct_errors c))])
     else if t = FtError then ((PushLoop pu (one_error c), w), [])
     else if t \<noteq> FtMeta then hang_up w
     else push_meta js os pu c p w)"

definition push_eof :: "'w os \<Rightarrow> (byte list \<Rightarrow> string) \<Rightarrow> pushing \<Rightarrow> counts \<Rightarrow> ft_meta \<Rightarrow> string \<Rightarrow> byte list \<Rightarrow> 'w \<Rightarrow> 'w reply" where
  "push_eof os sha pu c meta path got w =
     (if fm_sha meta \<noteq> '''' \<and> sha got \<noteq> fm_sha meta
      then refuse (PushLoop pu (one_error c)) (os_remove os path w) ''hash_mismatch'' (''SHA-256 mismatch for '' @ path)
      else let ok = (FtOK, PMeta \<lparr>fm_path = fm_path meta, fm_size = int (length got), fm_mode = 0, fm_sha = sha got, fm_accepted = False\<rparr>)
        in case os_fsync os path w of
          (Some e, w') \<Rightarrow> ((Closed, w'), [ok])
        | (None, w') \<Rightarrow> ((PushLoop pu (c\<lparr>ct_files := ct_files c + 1\<rparr>), w'), [ok]))"

definition push_data :: "json \<Rightarrow> 'w os \<Rightarrow> (byte list \<Rightarrow> string) \<Rightarrow> pushing \<Rightarrow> counts \<Rightarrow> ft_meta \<Rightarrow> string \<Rightarrow> byte list \<Rightarrow>
    frame \<Rightarrow> 'w \<Rightarrow> 'w reply" where
  "push_data js os sha pu c meta path got f w = (case f of (t, p) \<Rightarrow>
     let chunk = js_text js p in
     if t = FtData then
       if chunk = [] then push_eof os sha pu c meta path got w
       else (case os_write os path chunk w of
         (Some e, w') \<Rightarrow> hang_up w'
       | (None, w') \<Rightarrow> ((Receiving pu (c\<lparr>ct_bytes := ct_bytes c + int (length chunk)\<rparr>) meta path (got @ chunk), w'), []))
     else if t = FtProgress then ((Receiving pu c meta path got, w), [])
     else if t = FtError then ((PushLoop pu (one_error c), w), [])
     else hang_up w)"

subsection \<open>Pull of one file\<close>

definition file_meta :: "(byte list \<Rightarrow> string) \<Rightarrow> string \<Rightarrow> finfo \<Rightarrow> byte list \<Rightarrow> ft_meta" where
  "file_meta sha name fi b = \<lparr>fm_path = name, fm_size = fi_size fi, fm_mode = fi_mode fi, fm_sha = sha b, fm_accepted = False\<rparr>"

text \<open>The data frames of a file, each followed by a progress frame.\<close>

fun stream :: "string \<Rightarrow> int \<Rightarrow> int \<Rightarrow> byte list list \<Rightarrow> frame list" where
  "stream name tot sent [] = []"
| "stream name tot sent (b # bs) =
     (let sent' = sent + int (length b)
      in (FtData, Bytes b) # (FtProgress, PProgress name sent' tot) # stream name tot sent' bs)"

definition offer_file :: "'w os \<Rightarrow> (byte list \<Rightarrow> string) \<Rightarrow> string \<Rightarrow> finfo \<Rightarrow> 'w \<Rightarrow> 'w reply" where
  "offer_file os sha path fi w = (case os_open os w path of
     Some e \<Rightarrow> refuse Closed w ''open_failed'' e
   | None \<Rightarrow> (case os_reads os w path of
       (bs, Some e) \<Rightarrow> hang_up w
     | (bs, None) \<Rightarrow> let m = file_meta sha (Base path) fi (concat bs)
         in ((Offered \<lparr>of_path = path, of_meta = m, of_root = '''', of_rest = []\<rparr>, w), [(FtMeta, PMeta m)])))"

definition send_file :: "'w os \<Rightarrow> offer \<Rightarrow> frame \<Rightarrow> 'w \<Rightarrow> 'w reply" where
  "send_file os q f w =
     (if fst f \<noteq> FtMeta then hang_up w
      else case os_open os w (of_path q) of
        Some e \<Rightarrow> hang_up w
      | None \<Rightarrow> (case os_reads os w (of_path q) of (bs, e) \<Rightarrow>
          let out = stream (fm_path (of_meta q)) (fm_size (of_meta q)) 0 bs
          in if os_cancelled os w \<noteq> None then hang_up w
             else if e \<noteq> None then ((Closed, w), out)
             else ((Sent q (int (length (concat bs))), w), out @ [(FtData, Bytes [])])))"

text \<open>The host's answer about the file: an empty hash, like an undecodable payload, passes.\<close>

definition hash_differs :: "json \<Rightarrow> ft_meta \<Rightarrow> payload \<Rightarrow> bool" where
  "hash_differs js m p = (case js_meta js p of None \<Rightarrow> False | Some ok \<Rightarrow> fm_sha ok \<noteq> '''' \<and> fm_sha ok \<noteq> fm_sha m)"

definition file_sent :: "json \<Rightarrow> offer \<Rightarrow> int \<Rightarrow> frame \<Rightarrow> 'w \<Rightarrow> 'w reply" where
  "file_sent js q sent f w =
     (if fst f \<noteq> FtOK \<or> hash_differs js (of_meta q) (snd f) then hang_up w
      else ((Closed, w), [(FtDone, PDone 1 sent 0)]))"

subsection \<open>Pull of a directory\<close>

text \<open>
  On to the next file that can be offered: directories left early lose the rest of their entries. A
  cancelled context leaves each directory at its next file.
\<close>

function walk_on :: "'w os \<Rightarrow> (byte list \<Rightarrow> string) \<Rightarrow> string \<Rightarrow> item list list \<Rightarrow> counts \<Rightarrow> 'w \<Rightarrow> 'w reply" where
  "walk_on os sha root [] c w = ((Closed, w), [(FtDone, PDone (ct_files c) (ct_bytes c) (ct_errors c))])"
| "walk_on os sha root ([] # st) c w = walk_on os sha root st c w"
| "walk_on os sha root ((IDir is # rest) # st) c w = walk_on os sha root (is # rest # st) c w"
| "walk_on os sha root ((IFile path # rest) # st) c w =
     (if os_cancelled os w \<noteq> None then walk_on os sha root st c w
      else let skip = walk_on os sha root (rest # st) (one_error c) w in
        case Rel root path of
          None \<Rightarrow> skip
        | Some rel \<Rightarrow> (case os_stat os w path of
            Inl e \<Rightarrow> skip
          | Inr fi \<Rightarrow> (case os_open os w path of
              Some e \<Rightarrow> skip
            | None \<Rightarrow> (case os_reads os w path of
                (bs, Some e) \<Rightarrow> skip
              | (bs, None) \<Rightarrow> let m = file_meta sha rel fi (concat bs)
                  in ((WalkOffered \<lparr>of_path = path, of_meta = m, of_root = root, of_rest = rest # st\<rparr> c, w), [(FtMeta, PMeta m)])))))"
  by pat_completeness auto

text \<open>The number of constructors left to take off.\<close>

fun work :: "item \<Rightarrow> nat" where
  "work (IFile p) = 1"
| "work (IDir is) = 3 + sum_list (map work is)"

definition work_left :: "item list list \<Rightarrow> nat" where
  "work_left st = sum_list (map (\<lambda>is. 1 + sum_list (map work is)) st)"

termination walk_on
  by (relation "measure (\<lambda>(os, sha, root, st, c, w). work_left st)") (auto simp: work_left_def)

text \<open>\<open>return\<close> from the walk of the current directory: the rest of its entries is dropped.\<close>

definition leave_dir :: "'w os \<Rightarrow> (byte list \<Rightarrow> string) \<Rightarrow> offer \<Rightarrow> counts \<Rightarrow> 'w \<Rightarrow> 'w reply" where
  "leave_dir os sha q c w = walk_on os sha (of_root q) (tl (of_rest q)) c w"

definition next_file :: "'w os \<Rightarrow> (byte list \<Rightarrow> string) \<Rightarrow> offer \<Rightarrow> counts \<Rightarrow> 'w \<Rightarrow> 'w reply" where
  "next_file os sha q c w = walk_on os sha (of_root q) (of_rest q) c w"

definition walk_send :: "'w os \<Rightarrow> (byte list \<Rightarrow> string) \<Rightarrow> offer \<Rightarrow> counts \<Rightarrow> frame \<Rightarrow> 'w \<Rightarrow> 'w reply" where
  "walk_send os sha q c f w =
     (if fst f = FtError then next_file os sha q (one_error c) w
      else if fst f \<noteq> FtMeta then leave_dir os sha q c w
      else case os_open os w (of_path q) of
        Some e \<Rightarrow> next_file os sha q (one_error c) w
      | None \<Rightarrow> (case os_reads os w (of_path q) of (bs, e) \<Rightarrow>
          ((WalkSent q (if e \<noteq> None then one_error c else c) (int (length (concat bs))), w),
           stream (fm_path (of_meta q)) (fm_size (of_meta q)) 0 bs @ [(FtData, Bytes [])])))"

definition walk_sent :: "json \<Rightarrow> 'w os \<Rightarrow> (byte list \<Rightarrow> string) \<Rightarrow> offer \<Rightarrow> counts \<Rightarrow> int \<Rightarrow> frame \<Rightarrow> 'w \<Rightarrow> 'w reply" where
  "walk_sent js os sha q c sent f w =
     (if fst f = FtError then next_file os sha q (one_error c) w
      else if fst f \<noteq> FtOK then leave_dir os sha q c w
      else if hash_differs js (of_meta q) (snd f) then next_file os sha q (one_error c) w
      else next_file os sha q (c\<lparr>ct_files := ct_files c + 1, ct_bytes := ct_bytes c + sent\<rparr>) w)"

definition handleFTPull :: "json \<Rightarrow> 'w os \<Rightarrow> (byte list \<Rightarrow> string) \<Rightarrow> nat \<Rightarrow> payload \<Rightarrow> 'w \<Rightarrow> 'w reply" where
  "handleFTPull js os sha depth p w = (case js_pull js p of
     None \<Rightarrow> refuse Closed w ''invalid'' ''invalid pull payload''
   | Some pull \<Rightarrow> (case os_stat os w (pl_path pull) of
       Inl e \<Rightarrow> refuse Closed w ''not_found'' e
     | Inr fi \<Rightarrow>
         if fi_dir fi then
           if \<not> pl_recursive pull
           then refuse Closed w ''is_directory'' (in_quotes (pl_path pull) @ '' is a directory; use recursive=true to pull'')
           else (case walkFn depth os w (Clean (pl_path pull)) [] of
             None \<Rightarrow> hang_up w
           | Some is \<Rightarrow> walk_on os sha (Clean (pl_path pull)) [is] no_counts w)
         else offer_file os sha (pl_path pull) fi w))"

subsection \<open>One step\<close>

definition agent_step :: "json \<Rightarrow> 'w os \<Rightarrow> (byte list \<Rightarrow> string) \<Rightarrow> nat \<Rightarrow> frame \<Rightarrow> agent \<times> 'w \<Rightarrow> 'w reply" where
  "agent_step js os sha depth f = (\<lambda>(st, w). case st of
     Start \<Rightarrow>
       if fst f = FtPush then handleFTPush js os (snd f) w
       else if fst f = FtPull then handleFTPull js os sha depth (snd f) w
       else refuse Closed w ''invalid'' (''unknown frame type: '' @ hex2 (fst f))
   | PushLoop pu c \<Rightarrow> if os_cancelled os w \<noteq> None then hang_up w else push_loop js os pu c f w
   | Receiving pu c meta path got \<Rightarrow> push_data js os sha pu c meta path got f w
   | Offered q \<Rightarrow> send_file os q f w
   | Sent q sent \<Rightarrow> file_sent js q sent f w
   | WalkOffered q c \<Rightarrow> walk_send os sha q c f w
   | WalkSent q c sent \<Rightarrow> walk_sent js os sha q c sent f w
   | Closed \<Rightarrow> hang_up w)"

end
