(* ===== verification/Copying.thy ===== *)
theory Copying
  imports Agent
begin

text \<open>
  The host's side of a file transfer: \<open>FTCopyToVM\<close>, \<open>FTCopyFromVM\<close> and \<open>FTCopyVMToVM\<close>, after the
  handshake that opens the connection. The loops that read frames until the machine says that it
  is done have a bound on the number of frames; a program that has not returned within it waits.
\<close>

record ft_result =
  fr_files :: int
  fr_bytes :: int
  fr_errs :: int

subsection \<open>From the host into a machine\<close>

text \<open>The contents of a file that was opened for reading, when reading it to the end works.\<close>

fun send_chunks :: "'c link \<Rightarrow> byte list list \<Rightarrow> ('h, 'c, unit) io" where
  "send_chunks lk [] = ret_io ()"
| "send_chunks lk (b # bs) = bind_io (send_or lk ''write data frame'' FtData (Bytes b)) (\<lambda>_. send_chunks lk bs)"

definition tell_open_failed :: "'c link \<Rightarrow> string \<Rightarrow> ('h, 'c, unit) io" where
  "tell_open_failed lk e = bind_io (try_send lk FtError (PError ''open_failed'' e)) (\<lambda>_. ret_io ())"

text \<open>What a file adds: the bytes that were sent and the errors that were counted.\<close>

definition finish_file :: "json \<Rightarrow> 'c link \<Rightarrow> string \<Rightarrow> string \<Rightarrow> int \<Rightarrow> ('h, 'c, int \<times> int) io" where
  "finish_file js lk path hash sent = bind_io (send_or lk ''write eos frame'' FtData (Bytes [])) (\<lambda>_.
     bind_io (recv_or lk ''read ok frame'') (\<lambda>(t, p).
       if t = FtError then ret_io (sent, 1)
       else if t \<noteq> FtOK then fail_io (''expected ok frame, got '' @ hex2 t)
       else case js_meta js p of
         None \<Rightarrow> ret_io (sent, 0)
       | Some ok \<Rightarrow> if fm_sha ok \<noteq> '''' \<and> fm_sha ok \<noteq> hash
           then fail_io (''SHA-256 mismatch for '' @ path @ '': local='' @ hash @ '' agent='' @ fm_sha ok)
           else ret_io (sent, 0)))"

definition stream_file :: "json \<Rightarrow> 'h os \<Rightarrow> 'c link \<Rightarrow> file_entry \<Rightarrow> string \<Rightarrow> ('h, 'c, int \<times> int) io" where
  "stream_file js os lk e hash = bind_io (ask (\<lambda>w. os_open os w (fe_abs e))) (\<lambda>r. case r of
     Some m \<Rightarrow> bind_io (tell_open_failed lk m) (\<lambda>_. ret_io (0, 1))
   | None \<Rightarrow> bind_io (ask (\<lambda>w. os_reads os w (fe_abs e))) (\<lambda>(bs, stop).
       bind_io (send_chunks lk bs) (\<lambda>_. case stop of
         Some m \<Rightarrow> fail_io (''read source '' @ fe_abs e @ '': '' @ m)
       | None \<Rightarrow> finish_file js lk (fe_rel e) hash (int (length (concat bs))))))"

definition await_accept :: "json \<Rightarrow> 'c link \<Rightarrow> ('h, 'c, bool) io" where
  "await_accept js lk = bind_io (recv_or lk ''read accept frame'') (\<lambda>(t, p).
     if t = FtError then ret_io False
     else if t \<noteq> FtMeta then fail_io (''expected meta/accept frame, got '' @ hex2 t)
     else case js_meta js p of
       None \<Rightarrow> fail_io ''parse accept: invalid''
     | Some m \<Rightarrow> ret_io (fm_accepted m))"

definition push_file :: "json \<Rightarrow> 'h os \<Rightarrow> (byte list \<Rightarrow> string) \<Rightarrow> 'c link \<Rightarrow> file_entry \<Rightarrow> ('h, 'c, int \<times> int) io" where
  "push_file js os sha lk e = bind_io (check_cancelled os ''push cancelled'') (\<lambda>_.
     bind_io (ask (\<lambda>w. os_stat os w (fe_abs e))) (\<lambda>st. case st of
       Inl m \<Rightarrow> ret_io (0, 1)
     | Inr fi \<Rightarrow> bind_io (ask (\<lambda>w. os_open os w (fe_abs e))) (\<lambda>r. case r of
         Some m \<Rightarrow> bind_io (tell_open_failed lk m) (\<lambda>_. ret_io (0, 1))
       | None \<Rightarrow> bind_io (ask (\<lambda>w. os_reads os w (fe_abs e))) (\<lambda>(bs, stop). case stop of
           Some m \<Rightarrow> fail_io (''read source '' @ fe_abs e @ '': '' @ m)
         | None \<Rightarrow> bind_io (send_or lk ''write meta frame'' FtMeta (PMeta (file_meta sha (fe_rel e) fi (concat bs)))) (\<lambda>_.
             bind_io (await_accept js lk) (\<lambda>accepted.
               if accepted then stream_file js os lk e (sha (concat bs)) else ret_io (0, 1)))))))"

fun push_files :: "json \<Rightarrow> 'h os \<Rightarrow> (byte list \<Rightarrow> string) \<Rightarrow> 'c link \<Rightarrow> file_entry list \<Rightarrow> int \<Rightarrow> int \<Rightarrow> ('h, 'c, int \<times> int) io" where
  "push_files js os sha lk [] bytes errors = ret_io (bytes, errors)"
| "push_files js os sha lk (e # es) bytes errors = bind_io (push_file js os sha lk e) (\<lambda>(b, x).
     push_files js os sha lk es (bytes + b) (errors + x))"

text \<open>A single source that is a directory makes the destination one.\<close>

definition push_dest :: "'h os \<Rightarrow> 'h \<Rightarrow> string list \<Rightarrow> string \<Rightarrow> string" where
  "push_dest os w srcs dest = (case srcs of
     [src] \<Rightarrow> if \<not> HasSuffix dest ''/'' \<and> is_dir os w src then dest @ ''/'' else dest
   | _ \<Rightarrow> dest)"

definition FTCopyToVM :: "json \<Rightarrow> 'h os \<Rightarrow> (byte list \<Rightarrow> string) \<Rightarrow> nat \<Rightarrow> 'c link \<Rightarrow> string list \<Rightarrow> string \<Rightarrow> bool \<Rightarrow> bool \<Rightarrow>
    ('h, 'c, ft_result) io" where
  "FTCopyToVM js os sha depth lk srcs dest overwrite nosync =
     (if \<not> HasSuffix dest ''/'' \<and> 1 < length srcs
      then fail_io ''multiple sources require a directory destination (trailing /)''
      else bind_io (ask (\<lambda>w. push_dest os w srcs dest)) (\<lambda>dest'.
        bind_io (send_or lk ''write push frame'' FtPush (PPush \<lparr>pp_paths = srcs, pp_dest = dest', pp_overwrite = overwrite, pp_nosync = nosync\<rparr>)) (\<lambda>_.
        bind_io (recv_or lk ''read mkdir ack'') (\<lambda>(t, p).
          if t \<noteq> FtMkdir then fail_io (''expected mkdir ack, got frame type '' @ hex2 t)
          else bind_io (ask (\<lambda>w. expandSources depth os w srcs)) (\<lambda>r. case r of
            None \<Rightarrow> wait_io
          | Some (Inl e) \<Rightarrow> fail_io (''expand sources: '' @ e)
          | Some (Inr es) \<Rightarrow> bind_io (push_files js os sha lk es 0 0) (\<lambda>(bytes, errors).
              let n = int (length es) - errors
              in bind_io (send_or lk ''write done frame'' FtDone (PDone n bytes errors)) (\<lambda>_.
                ret_io \<lparr>fr_files = n, fr_bytes = bytes, fr_errs = errors\<rparr>)))))))"

subsection \<open>From a machine to the host\<close>

datatype received = Complete "byte list" | Aborted

text \<open>The frames of one file, up to the empty data frame.\<close>

fun receive_loop :: "nat \<Rightarrow> json \<Rightarrow> 'h os \<Rightarrow> 'c link \<Rightarrow> string \<Rightarrow> byte list \<Rightarrow> ('h, 'c, received) io" where
  "receive_loop 0 js os lk path got = wait_io"
| "receive_loop (Suc n) js os lk path got = bind_io (check_cancelled os ''pull cancelled'') (\<lambda>_.
     bind_io (recv_or lk ''read data frame'') (\<lambda>(t, p).
       let chunk = js_text js p in
       if t = FtData then
         if chunk = [] then ret_io (Complete got)
         else bind_io (act (os_write os path chunk)) (\<lambda>e. case e of
             Some m \<Rightarrow> fail_io (''write file chunk: '' @ m)
           | None \<Rightarrow> receive_loop n js os lk path (got @ chunk))
       else if t = FtProgress then receive_loop n js os lk path got
       else if t = FtError then bind_io (act (\<lambda>w. ((), os_remove os path w))) (\<lambda>_. ret_io Aborted)
       else fail_io (''unexpected frame type during pull: '' @ hex2 t)))"

definition verify_file :: "'h os \<Rightarrow> (byte list \<Rightarrow> string) \<Rightarrow> 'c link \<Rightarrow> ft_meta \<Rightarrow> string \<Rightarrow> received \<Rightarrow> ('h, 'c, ft_result) io" where
  "verify_file os sha lk meta path r = (case r of
     Aborted \<Rightarrow> ret_io \<lparr>fr_files = 0, fr_bytes = 0, fr_errs = 1\<rparr>
   | Complete got \<Rightarrow>
       if fm_sha meta \<noteq> '''' \<and> sha got \<noteq> fm_sha meta
       then bind_io (act (\<lambda>w. ((), os_remove os path w))) (\<lambda>_.
         fail_io (''SHA-256 mismatch for '' @ fm_path meta @ '': local='' @ sha got @ '' remote='' @ fm_sha meta))
       else bind_io (send_or lk ''write ok frame'' FtOK
           (PMeta \<lparr>fm_path = fm_path meta, fm_size = int (length got), fm_mode = 0, fm_sha = sha got, fm_accepted = False\<rparr>)) (\<lambda>_.
         ret_io \<lparr>fr_files = 1, fr_bytes = int (length got), fr_errs = 0\<rparr>))"

definition pull_path :: "string \<Rightarrow> bool \<Rightarrow> ft_meta \<Rightarrow> string" where
  "pull_path dest isdir meta = (if isdir then PathJoin [dest, fm_path meta] else dest)"

definition receivePullFile :: "nat \<Rightarrow> json \<Rightarrow> 'h os \<Rightarrow> (byte list \<Rightarrow> string) \<Rightarrow> 'c link \<Rightarrow> payload \<Rightarrow> string \<Rightarrow> bool \<Rightarrow> bool \<Rightarrow>
    ('h, 'c, ft_result) io" where
  "receivePullFile n js os sha lk p dest isdir overwrite = (case js_meta js p of
     None \<Rightarrow> fail_io ''parse meta: invalid''
   | Some meta \<Rightarrow> let path = pull_path dest isdir meta in
       bind_io (ask (\<lambda>w. \<not> overwrite \<and> exists_file os w path)) (\<lambda>there.
         if there then bind_io (try_send lk FtError (PError ''exists'' (''file exists: '' @ path))) (\<lambda>_.
           ret_io \<lparr>fr_files = 0, fr_bytes = 0, fr_errs = 1\<rparr>)
         else bind_io (send_or lk ''write accept frame'' FtMeta
             (PMeta \<lparr>fm_path = '''', fm_size = 0, fm_mode = 0, fm_sha = '''', fm_accepted = True\<rparr>)) (\<lambda>_.
           bind_io (act (os_mkdirall os (Dir path))) (\<lambda>e. case e of
             Some m \<Rightarrow> fail_io (''create destination directory: '' @ m)
           | None \<Rightarrow> bind_io (act (os_create os path (fm_mode meta))) (\<lambda>e'. case e' of
               Some m \<Rightarrow> fail_io (''create destination file: '' @ m)
             | None \<Rightarrow> bind_io (receive_loop n js os lk path []) (verify_file os sha lk meta path))))))"

definition add_results :: "ft_result \<Rightarrow> ft_result \<Rightarrow> ft_result" where
  "add_results a b = \<lparr>fr_files = fr_files a + fr_files b, fr_bytes = fr_bytes a + fr_bytes b, fr_errs = fr_errs a + fr_errs b\<rparr>"

definition no_result :: ft_result where
  "no_result = \<lparr>fr_files = 0, fr_bytes = 0, fr_errs = 0\<rparr>"

fun pull_loop :: "nat \<Rightarrow> json \<Rightarrow> 'h os \<Rightarrow> (byte list \<Rightarrow> string) \<Rightarrow> 'c link \<Rightarrow> string \<Rightarrow> bool \<Rightarrow> bool \<Rightarrow> ft_result \<Rightarrow>
    ('h, 'c, ft_result) io" where
  "pull_loop 0 js os sha lk dest isdir overwrite acc = wait_io"
| "pull_loop (Suc n) js os sha lk dest isdir overwrite acc = bind_io (check_cancelled os ''pull cancelled'') (\<lambda>_.
     bind_io (recv_or lk ''read frame'') (\<lambda>(t, p).
       if t = FtDone then ret_io acc
       else if t = FtError then fail_io (case js_err js p of
           Some (code, m) \<Rightarrow> ''agent error: '' @ code @ '': '' @ m | None \<Rightarrow> ''agent error during pull'')
       else if t = FtMeta then bind_io (receivePullFile n js os sha lk p dest isdir overwrite) (\<lambda>r.
         pull_loop n js os sha lk dest isdir overwrite (add_results acc r))
       else fail_io (''unexpected frame type during pull: '' @ hex2 t)))"

definition FTCopyFromVM :: "nat \<Rightarrow> json \<Rightarrow> 'h os \<Rightarrow> (byte list \<Rightarrow> string) \<Rightarrow> 'c link \<Rightarrow> string \<Rightarrow> string \<Rightarrow> bool \<Rightarrow>
    ('h, 'c, ft_result) io" where
  "FTCopyFromVM n js os sha lk src dest overwrite =
     bind_io (ask (\<lambda>w. HasSuffix dest ''/'' \<or> is_dir os w dest)) (\<lambda>isdir.
       bind_io (send_or lk ''write pull frame'' FtPull (PPull \<lparr>pl_path = src, pl_dest = dest, pl_overwrite = overwrite,
           pl_recursive = isdir \<or> HasSuffix src ''/''\<rparr>)) (\<lambda>_.
         pull_loop n js os sha lk dest isdir overwrite no_result))"


subsection \<open>From machine to machine\<close>

definition try_recv :: "'c link \<Rightarrow> ('h, 'c, frame option) io" where
  "try_recv lk = (\<lambda>(h, c). case lk_recv lk c of
     (Got f, c') \<Rightarrow> (Returns (Some f), h, c') | (Lost m, c') \<Rightarrow> (Returns None, h, c') | (Blocked, c') \<Rightarrow> (Waits, h, c'))"

fun relay_loop :: "nat \<Rightarrow> json \<Rightarrow> 'h os \<Rightarrow> 'c link \<Rightarrow> 'c link \<Rightarrow> int \<Rightarrow> ('h, 'c, int) io" where
  "relay_loop 0 js os src dst tot = wait_io"
| "relay_loop (Suc n) js os src dst tot = bind_io (check_cancelled os ''relay cancelled'') (\<lambda>_.
     bind_io (recv_or src ''relay read from source'') (\<lambda>(t, p).
       if t = FtData then bind_io (send_or dst ''relay write data to dest'' FtData p) (\<lambda>_.
         if js_text js p = [] then bind_io (recv_or dst ''relay read dest ok'') (\<lambda>(u, q).
           if u = FtError then fail_io ''dest error during relay''
           else if u \<noteq> FtOK then fail_io (''expected dest ok, got '' @ hex2 u)
           else bind_io (send_or src ''relay forward ok to source'' FtOK q) (\<lambda>_. ret_io tot))
         else relay_loop n js os src dst (tot + int (length (js_text js p))))
       else if t = FtProgress then relay_loop n js os src dst tot
       else if t = FtError then bind_io (try_send dst FtError p) (\<lambda>_. fail_io (case js_err js p of
           Some (code, m) \<Rightarrow> ''source error: '' @ code @ '': '' @ m | None \<Rightarrow> ''source error during relay''))
       else fail_io (''unexpected frame type in relay: '' @ hex2 t)))"

definition expect_frame :: "'c link \<Rightarrow> string \<Rightarrow> string \<Rightarrow> byte \<Rightarrow> ('h, 'c, payload) io" where
  "expect_frame lk what name t = bind_io (recv_or lk what) (\<lambda>(u, p).
     if u \<noteq> t then fail_io (''expected '' @ name @ '', got '' @ hex2 u) else ret_io p)"

text \<open>The offer of the source is forwarded, and the answer of the destination goes back.\<close>

definition relay_offer :: "'c link \<Rightarrow> 'c link \<Rightarrow> ('h, 'c, unit) io" where
  "relay_offer src dst = bind_io (recv_or src ''read source meta'') (\<lambda>(t, p).
     if t = FtError then fail_io ''source error during pull''
     else if t \<noteq> FtMeta then fail_io (''expected source meta, got '' @ hex2 t)
     else bind_io (send_or dst ''forward meta to dest'' FtMeta p) (\<lambda>_.
       bind_io (recv_or dst ''read dest accept'') (\<lambda>(u, q).
         if u = FtError then bind_io (try_send src FtError (PError ''dest_rejected'' ''destination rejected file'')) (\<lambda>_.
           fail_io ''destination rejected file'')
         else if u \<noteq> FtMeta then fail_io (''expected dest accept meta, got '' @ hex2 u)
         else send_or src ''forward accept to source'' FtMeta q)))"

definition FTCopyVMToVM :: "nat \<Rightarrow> json \<Rightarrow> 'h os \<Rightarrow> 'c link \<Rightarrow> 'c link \<Rightarrow> string \<Rightarrow> string \<Rightarrow> bool \<Rightarrow> ('h, 'c, ft_result) io" where
  "FTCopyVMToVM n js os src dst srcpath destpath overwrite =
     bind_io (send_or src ''source pull frame'' FtPull (PPull \<lparr>pl_path = srcpath, pl_dest = '''', pl_overwrite = overwrite, pl_recursive = False\<rparr>)) (\<lambda>_.
     bind_io (send_or dst ''dest push frame'' FtPush (PPush \<lparr>pp_paths = [], pp_dest = destpath, pp_overwrite = overwrite, pp_nosync = False\<rparr>)) (\<lambda>_.
     bind_io (expect_frame dst ''read dest mkdir'' ''dest mkdir'' FtMkdir) (\<lambda>_.
     bind_io (relay_offer src dst) (\<lambda>_.
     bind_io (relay_loop n js os src dst 0) (\<lambda>tot.
     bind_io (recv_or src ''read source done'') (\<lambda>_.
     bind_io (send_or dst ''write dest done'' FtDone (PDone 1 tot 0)) (\<lambda>_.
     bind_io (try_recv dst) (\<lambda>_.
       ret_io \<lparr>fr_files = 1, fr_bytes = tot, fr_errs = 0\<rparr>))))))))"

subsection \<open>A connection to an agent\<close>

text \<open>
  The agent answers as soon as it has read a frame; its answers wait in a queue. After it has
  closed the connection, the host's writes may fail or be lost, which \<open>pipe\<close> says.
\<close>

record 'w peer =
  pr_agent :: agent
  pr_world :: 'w
  pr_queue :: "frame list"

definition peer_link :: "json \<Rightarrow> 'w os \<Rightarrow> (byte list \<Rightarrow> string) \<Rightarrow> nat \<Rightarrow> bool \<Rightarrow> 'w peer link" where
  "peer_link js os sha depth pipe = \<lparr>
     lk_send = (\<lambda>f c. if pr_agent c = Closed then (if pipe then Some ''broken pipe'' else None, c)
       else case agent_step js os sha depth f (pr_agent c, pr_world c) of
         ((st, w), out) \<Rightarrow> (None, \<lparr>pr_agent = st, pr_world = w, pr_queue = pr_queue c @ out\<rparr>)),
     lk_recv = (\<lambda>c. case pr_queue c of
         f # fs \<Rightarrow> (Got f, c\<lparr>pr_queue := fs\<rparr>)
       | [] \<Rightarrow> (if pr_agent c = Closed then Lost ''read frame length: EOF'' else Blocked, c))\<rparr>"

definition fst_link :: "'a link \<Rightarrow> ('a \<times> 'b) link" where
  "fst_link lk = \<lparr>lk_send = (\<lambda>f (a, b). case lk_send lk f a of (e, a') \<Rightarrow> (e, a', b)),
     lk_recv = (\<lambda>(a, b). case lk_recv lk a of (r, a') \<Rightarrow> (r, a', b))\<rparr>"

definition snd_link :: "'b link \<Rightarrow> ('a \<times> 'b) link" where
  "snd_link lk = \<lparr>lk_send = (\<lambda>f (a, b). case lk_send lk f b of (e, b') \<Rightarrow> (e, a, b')),
     lk_recv = (\<lambda>(a, b). case lk_recv lk b of (r, b') \<Rightarrow> (r, a, b'))\<rparr>"

subsection \<open>What holds of every run\<close>

text \<open>The program does not end in a state that violates \<open>Q\<close>; \<open>v\<close> says whether it may wait for ever.\<close>

definition runs :: "bool \<Rightarrow> ('h, 'c, 'a) io \<Rightarrow> 'h \<times> 'c \<Rightarrow> ('a \<Rightarrow> 'h \<times> 'c \<Rightarrow> bool) \<Rightarrow> bool" where
  "runs v m s Q = (case m s of (Returns x, s') \<Rightarrow> Q x s' | (Fails e, s') \<Rightarrow> True | (Waits, s') \<Rightarrow> v)"

named_theorems run_simps \<open>what has to be shown for a program, by its form\<close>

lemma runs_ret [run_simps]: "runs v (ret_io x) s Q = Q x s"
  by (simp add: runs_def ret_io_def)

lemma runs_fail [run_simps]: "runs v (fail_io e) s Q = True"
  by (simp add: runs_def fail_io_def)

lemma runs_wait [run_simps]: "runs v wait_io s Q = v"
  by (simp add: runs_def wait_io_def)

lemma runs_bind [run_simps]: "runs v (bind_io m k) s Q = runs v m s (\<lambda>x s'. runs v (k x) s' Q)"
  by (auto simp: runs_def bind_io_def split: prod.split outcome.split)

lemma runs_ask [run_simps]: "runs v (ask f) (h, c) Q = Q (f h) (h, c)"
  by (simp add: runs_def ask_def)

lemma runs_act [run_simps]: "runs v (act f) (h, c) Q = (case f h of (x, h') \<Rightarrow> Q x (h', c))"
  by (simp add: runs_def act_def split: prod.split)

lemma runs_try_send [run_simps]: "runs v (try_send lk t p) (h, c) Q = (case lk_send lk (t, p) c of (e, c') \<Rightarrow> Q e (h, c'))"
  by (simp add: runs_def try_send_def split: prod.split)

lemma runs_send [run_simps]:
  "runs v (send_or lk what t p) (h, c) Q = (case lk_send lk (t, p) c of (None, c') \<Rightarrow> Q () (h, c') | (Some m, c') \<Rightarrow> True)"
  by (simp add: send_or_def run_simps split: prod.split option.split)

lemma runs_recv [run_simps]:
  "runs v (recv_or lk what) (h, c) Q = (case lk_recv lk c of (Got f, c') \<Rightarrow> Q f (h, c') | (Lost m, c') \<Rightarrow> True | (Blocked, c') \<Rightarrow> v)"
  by (simp add: runs_def recv_or_def split: prod.split recv.split)

lemma runs_try_recv [run_simps]:
  "runs v (try_recv lk) (h, c) Q = (case lk_recv lk c of (Got f, c') \<Rightarrow> Q (Some f) (h, c') | (Lost m, c') \<Rightarrow> Q None (h, c') | (Blocked, c') \<Rightarrow> v)"
  by (simp add: runs_def try_recv_def split: prod.split recv.split)

lemma runs_check [run_simps]:
  "runs v (check_cancelled os what) (h, c) Q \<longleftrightarrow> (os_cancelled os h = None \<longrightarrow> Q () (h, c))"
  by (simp add: check_cancelled_def run_simps split: option.split)

lemma runs_mono: "runs v m s Q \<Longrightarrow> (\<And>x s'. Q x s' \<Longrightarrow> R x s') \<Longrightarrow> runs v m s R"
  by (auto simp: runs_def split: prod.splits outcome.splits)

lemma runsD: "runs v m s Q \<Longrightarrow> m s = (Returns x, s') \<Longrightarrow> Q x s'"
  by (simp add: runs_def)

lemma runs_returns: "runs False m s Q \<Longrightarrow> \<exists>r s'. m s = (r, s') \<and> (case r of Returns x \<Rightarrow> Q x s' | Fails e \<Rightarrow> True | Waits \<Rightarrow> False)"
  by (auto simp: runs_def split: prod.splits outcome.splits)


subsection \<open>What is relied on of the files\<close>

text \<open>
  \<open>content w p\<close> are the bytes of the file at a path. On a set \<open>P\<close> of paths no two of which are the
  same file, opening a file for writing empties it, a write that succeeds appends, and no call
  changes the file at another path of \<open>P\<close>; making directories changes no file, and neither does
  \<open>fsync\<close>, failing or not: what is read afterwards is what was written, which says nothing of what
  the disk keeps when the machine goes down. Reading
  a file to its end gives its bytes in pieces that are not empty.
\<close>

definition others_kept :: "('w \<Rightarrow> string \<Rightarrow> byte list option) \<Rightarrow> string set \<Rightarrow> string \<Rightarrow> 'w \<Rightarrow> 'w \<Rightarrow> bool" where
  "others_kept content P p w w' \<longleftrightarrow> (\<forall>q \<in> P. q \<noteq> p \<longrightarrow> content w' q = content w q)"

definition all_kept :: "('w \<Rightarrow> string \<Rightarrow> byte list option) \<Rightarrow> string set \<Rightarrow> 'w \<Rightarrow> 'w \<Rightarrow> bool" where
  "all_kept content P w w' \<longleftrightarrow> (\<forall>q \<in> P. content w' q = content w q)"

definition documented_open :: "'w os \<Rightarrow> ('w \<Rightarrow> string \<Rightarrow> byte list option) \<Rightarrow> string set \<Rightarrow> bool" where
  "documented_open os content P \<longleftrightarrow> (\<forall>p \<in> P. \<forall>w m.
     others_kept content P p w (snd (os_truncate os p w)) \<and> others_kept content P p w (snd (os_create os p m w)) \<and>
     (fst (os_truncate os p w) = None \<longrightarrow> content (snd (os_truncate os p w)) p = Some []) \<and>
     (fst (os_create os p m w) = None \<longrightarrow> content (snd (os_create os p m w)) p = Some []))"

definition documented_write :: "'w os \<Rightarrow> ('w \<Rightarrow> string \<Rightarrow> byte list option) \<Rightarrow> string set \<Rightarrow> bool" where
  "documented_write os content P \<longleftrightarrow> (\<forall>p \<in> P. \<forall>w b.
     others_kept content P p w (snd (os_write os p b w)) \<and> others_kept content P p w (os_remove os p w) \<and>
     (\<forall>c. fst (os_write os p b w) = None \<longrightarrow> content w p = Some c \<longrightarrow> content (snd (os_write os p b w)) p = Some (c @ b)))"

definition documented_rest :: "'w os \<Rightarrow> ('w \<Rightarrow> string \<Rightarrow> byte list option) \<Rightarrow> string set \<Rightarrow> bool" where
  "documented_rest os content P \<longleftrightarrow> (\<forall>p w. all_kept content P w (snd (os_mkdirall os p w)) \<and> all_kept content P w (snd (os_fsync os p w)))"

definition documented_files :: "'w os \<Rightarrow> ('w \<Rightarrow> string \<Rightarrow> byte list option) \<Rightarrow> string set \<Rightarrow> bool" where
  "documented_files os content P \<longleftrightarrow> documented_open os content P \<and> documented_write os content P \<and> documented_rest os content P"

definition documented_reads :: "'w os \<Rightarrow> bool" where
  "documented_reads os \<longleftrightarrow> (\<forall>w p. [] \<notin> set (fst (os_reads os w p)))"

lemma kept_trans:
  "others_kept content P p w w' \<Longrightarrow> others_kept content P p w' w'' \<Longrightarrow> others_kept content P p w w''"
  "all_kept content P w w' \<Longrightarrow> others_kept content P p w' w'' \<Longrightarrow> others_kept content P p w w''"
  "others_kept content P p w w' \<Longrightarrow> all_kept content P w' w'' \<Longrightarrow> others_kept content P p w w''"
  by (simp_all add: others_kept_def all_kept_def)

lemma kept_refl [simp]: "others_kept content P p w w" "all_kept content P w w"
  by (simp_all add: others_kept_def all_kept_def)

lemma kept_all: "all_kept content P w w' \<Longrightarrow> others_kept content P p w w'"
  by (simp add: others_kept_def all_kept_def)

lemma file_openD:
  assumes "documented_files os content P" "p \<in> P"
  shows "os_truncate os p w = (e, w') \<Longrightarrow> others_kept content P p w w' \<and> (e = None \<longrightarrow> content w' p = Some [])"
    and "os_create os p m w = (e', w') \<Longrightarrow> others_kept content P p w w' \<and> (e' = None \<longrightarrow> content w' p = Some [])"
  using assms unfolding documented_files_def documented_open_def by (metis fst_conv snd_conv)+

lemma file_writeD:
  assumes "documented_files os content P" "p \<in> P"
  shows "os_write os p b w = (e, w') \<Longrightarrow> others_kept content P p w w' \<and> (e = None \<longrightarrow> content w p = Some c \<longrightarrow> content w' p = Some (c @ b))"
    and "others_kept content P p w (os_remove os p w)"
  using assms unfolding documented_files_def documented_write_def by (metis fst_conv snd_conv, blast)

lemma file_restD:
  assumes "documented_files os content P"
  shows "os_mkdirall os d w = (e, w') \<Longrightarrow> all_kept content P w w'" "os_fsync os d w = (e, w') \<Longrightarrow> all_kept content P w w'"
  using assms unfolding documented_files_def documented_rest_def by (metis snd_conv)+

subsection \<open>A file from any machine\<close>

lemma receive_loop_runs:
  assumes doc: "documented_files os content P" "path \<in> P"
  shows "content h path = Some got \<Longrightarrow> runs True (receive_loop n js os lk path got) (h, c)
    (\<lambda>r (h', c'). others_kept content P path h h' \<and> (\<forall>b. r = Complete b \<longrightarrow> content h' path = Some b))"
proof (induction n arbitrary: got h c)
  case (Suc n)
  have step: "runs True (receive_loop n js os lk path (got @ b)) (h', c')
      (\<lambda>r (h', c'). others_kept content P path h h' \<and> (\<forall>b. r = Complete b \<longrightarrow> content h' path = Some b))"
    if "os_write os path b h = (None, h')" for b h' c'
    using file_writeD(1) [OF doc that, of got] Suc.prems
    by (intro runs_mono [OF Suc.IH]) (auto intro: kept_trans)
  show ?case
    using Suc step file_writeD(2) [OF doc, of h]
    by (auto simp: run_simps Let_def split: prod.split recv.split option.split)
qed (simp add: run_simps)

text \<open>
  C24: Whatever a machine sends, receiving one file of a pull writes to its destination path only, and
  it counts the file as copied only when the file there holds exactly the received bytes, as many
  as are counted, with the hash that the machine announced, if it announced one.
\<close>

theorem pull_file_verified:
  assumes "documented_files os content P" "js_meta js p = Some meta" "pull_path dest isdir meta \<in> P"
    and "receivePullFile n js os sha lk p dest isdir overwrite (h, c) = (Returns r, h', c')"
  shows "(\<forall>q \<in> P. q \<noteq> pull_path dest isdir meta \<longrightarrow> content h' q = content h q) \<and>
    (fr_files r = 0 \<and> fr_bytes r = 0 \<and> fr_errs r = 1 \<or>
     fr_files r = 1 \<and> fr_errs r = 0 \<and> (\<exists>b. content h' (pull_path dest isdir meta) = Some b \<and> fr_bytes r = int (length b) \<and>
       (fm_sha meta = '''' \<or> sha b = fm_sha meta)))"
proof -
  let ?p = "pull_path dest isdir meta"
  let ?Q = "\<lambda>r (h', c'). others_kept content P ?p h h' \<and>
    (fr_files r = 0 \<and> fr_bytes r = 0 \<and> fr_errs r = 1 \<or>
     fr_files r = 1 \<and> fr_errs r = 0 \<and> (\<exists>b. content h' ?p = Some b \<and> fr_bytes r = int (length b) \<and>
       (fm_sha meta = '''' \<or> sha b = fm_sha meta)))"
  have body: "runs True (receive_loop n js os lk ?p []) (h2, c2) (\<lambda>r s. runs True (verify_file os sha lk meta ?p r) s ?Q)"
    if "os_mkdirall os (Dir ?p) h = (None, h1)" "os_create os ?p (fm_mode meta) h1 = (None, h2)" for h1 h2 c2
  proof -
    note op = file_openD(2) [OF assms(1,3) that(2)]
    have k: "others_kept content P ?p h h2"
      using file_restD(1) [OF assms(1) that(1)] op by (blast intro: kept_trans(2))
    have k2: "content h2 ?p = Some []" using op by simp
    show ?thesis
      by (rule runs_mono [OF receive_loop_runs [OF assms(1,3) k2]])
        (use k file_writeD(2) [OF assms(1,3)] in \<open>auto simp: verify_file_def run_simps intro: kept_trans split: received.split prod.split option.split\<close>)
  qed
  have "runs True (receivePullFile n js os sha lk p dest isdir overwrite) (h, c) ?Q"
    using body unfolding receivePullFile_def
    by (auto simp: assms(2) Let_def run_simps split: prod.split option.split)
  from runsD [OF this assms(4)] show ?thesis by (simp add: others_kept_def)
qed


subsection \<open>A small file system\<close>

type_synonym files = "string \<Rightarrow> byte list option"

definition small_stat :: "files \<Rightarrow> string \<Rightarrow> (string, finfo) res" where
  "small_stat w p = (case w p of
     Some b \<Rightarrow> Ok \<lparr>fi_link = False, fi_dir = False, fi_regular = True, fi_size = int (length b), fi_mode = 420\<rparr>
   | None \<Rightarrow> if p \<in> {''/'', ''/srv''} then Ok \<lparr>fi_link = False, fi_dir = True, fi_regular = False, fi_size = 0, fi_mode = 493\<rparr>
       else Err ''no such file or directory'')"

definition small_os :: "files os" where
  "small_os = \<lparr>
     os_stat = small_stat, os_lstat = small_stat, os_real = (\<lambda>w p. Ok p),
     os_open = (\<lambda>w p. if w p = None then Some ''no such file or directory'' else None),
     os_names = (\<lambda>w p. Err ''not a directory''),
     os_reads = (\<lambda>w p. (case w p of Some (x # b) \<Rightarrow> [x # b] | _ \<Rightarrow> [], None)),
     os_mkdirall = (\<lambda>p w. (None, w)),
     os_truncate = (\<lambda>p w. if w p = None then (Some (NotExist ''no such file or directory''), w) else (None, w(p \<mapsto> []))),
     os_create = (\<lambda>p m w. (None, w(p \<mapsto> []))),
     os_write = (\<lambda>p b w. case w p of None \<Rightarrow> (Some ''bad descriptor'', w) | Some c \<Rightarrow> (None, w(p \<mapsto> c @ b))),
     os_fsync = (\<lambda>p w. (None, w)), os_remove = (\<lambda>p w. w(p := None)), os_cancelled = (\<lambda>w. None)\<rparr>"

lemma small_files: "documented_files small_os (\<lambda>w. w) P"
  by (auto simp: documented_files_def documented_open_def documented_write_def documented_rest_def small_os_def
      others_kept_def all_kept_def split: option.splits)

lemma small_reads: "documented_reads small_os"
  by (auto simp: documented_reads_def small_os_def split: option.split list.split)

definition plain_json :: json where
  "plain_json = \<lparr>js_text = (\<lambda>p. case p of Bytes b \<Rightarrow> b | _ \<Rightarrow> [123, 125]),
     js_push = (\<lambda>p. case p of PPush x \<Rightarrow> Some x | _ \<Rightarrow> None), js_pull = (\<lambda>p. case p of PPull x \<Rightarrow> Some x | _ \<Rightarrow> None),
     js_meta = (\<lambda>p. case p of PMeta x \<Rightarrow> Some x | _ \<Rightarrow> None),
     js_err = (\<lambda>p. case p of PError c m \<Rightarrow> Some (c, m) | _ \<Rightarrow> None)\<rparr>"

lemma plain_json_ok: "json_ok plain_json"
  by (simp add: json_ok_def plain_json_def)

text \<open>A machine that sends what it likes.\<close>

definition script_link :: "frame list link" where
  "script_link = \<lparr>lk_send = (\<lambda>f c. (None, c)),
     lk_recv = (\<lambda>c. case c of [] \<Rightarrow> (Lost ''read frame length: EOF'', []) | f # fs \<Rightarrow> (Got f, fs))\<rparr>"

definition sent_meta :: "string \<Rightarrow> string \<Rightarrow> ft_meta" where
  "sent_meta path hash = \<lparr>fm_path = path, fm_size = 0, fm_mode = 420, fm_sha = hash, fm_accepted = False\<rparr>"

lemma sent_meta [simp]: "fm_path (sent_meta p hash) = p" "fm_sha (sent_meta p hash) = hash" "fm_mode (sent_meta p hash) = 420"
  by (simp_all add: sent_meta_def)

lemma pull_file_verified_witness:
  "\<exists>r h' c'. receivePullFile 3 plain_json small_os (\<lambda>b. if b = [1, 2, 3] then ''6ca1'' else ''ffff'') script_link
      (PMeta (sent_meta ''notes'' ''6ca1'')) ''/srv'' True False ((\<lambda>p. None), [(FtData, Bytes [1, 2]), (FtData, Bytes [3]), (FtData, Bytes [])]) =
      (Returns r, h', c') \<and> fr_files r = 1 \<and> h' ''/srv/notes'' = Some [1, 2, 3]"
proof -
  let ?sha = "\<lambda>b :: byte list. if b = [1, 2, 3] then ''6ca1'' else ''ffff''"
  let ?run = "receivePullFile 3 plain_json small_os ?sha script_link
      (PMeta (sent_meta ''notes'' ''6ca1'')) ''/srv'' True False ((\<lambda>p. None), [(FtData, Bytes [1, 2]), (FtData, Bytes [3]), (FtData, Bytes [])])"
  have path: "pull_path ''/srv'' True (sent_meta ''notes'' ''6ca1'') = ''/srv/notes''"
    unfolding pull_path_def sent_meta_def by code_simp
  have "?run = (Returns \<lparr>fr_files = 1, fr_bytes = 3, fr_errs = 0\<rparr>, [''/srv/notes'' \<mapsto> [1, 2, 3]], [])"
    unfolding receivePullFile_def
    by (simp add: plain_json_def path Let_def bind_io_def ask_def try_send_def send_or_def act_def ret_io_def exists_file_def small_os_def
        small_stat_def script_link_def numeral_3_eq_3 check_cancelled_def recv_or_def verify_file_def FtData_def fail_io_def)
  then obtain r h' c' where run: "?run = (Returns r, h', c')" and r: "fr_errs r = 0" by simp
  have dec: "js_meta plain_json (PMeta (sent_meta ''notes'' ''6ca1'')) = Some (sent_meta ''notes'' ''6ca1'')"
    by (simp add: plain_json_def)
  from pull_file_verified [OF small_files [of UNIV] dec UNIV_I run] r obtain b
    where "fr_files r = 1" "h' ''/srv/notes'' = Some b" "?sha b = ''6ca1''" by (auto simp: path)
  with run show ?thesis by (auto split: if_splits)
qed


subsection \<open>Where a machine can write\<close>

definition calls_work :: "'w os \<Rightarrow> ('w \<Rightarrow> string \<Rightarrow> byte list option) \<Rightarrow> bool" where
  "calls_work os content \<longleftrightarrow> (\<forall>w. os_cancelled os w = None) \<and> (\<forall>p w. fst (os_mkdirall os p w) = None) \<and>
     (\<forall>p m w. fst (os_create os p m w) = None) \<and> (\<forall>w p b. content w p \<noteq> None \<longrightarrow> fst (os_write os p b w) = None)"

text \<open>
  C25: A pull into a directory lets the machine write to every path of the host that the user may
  write to: for every target outside the directory there are frames with which the pull succeeds,
  reports no error, and has put what the machine wants into the target, if overwriting was asked for
  or the target does not exist. The path in the metadata is joined to the destination as it comes.
\<close>

theorem machine_writes_anywhere:
  fixes hos :: "'h os"
  assumes "documented_files hos content P" "json_ok js" "calls_work hos content"
    and "rooted dest" "HasSuffix dest ''/'' \<or> is_dir hos h dest"
    and "cs \<noteq> []" "list_all entry cs" "''/'' @ Join cs ''/'' \<in> P"
    and "overwrite \<or> \<not> exists_file hos h (''/'' @ Join cs ''/'')"
  shows "\<exists>n frames r h' c'. FTCopyFromVM n js hos sha script_link src dest overwrite (h, frames) = (Returns r, h', c') \<and>
    fr_errs r = 0 \<and> content h' (''/'' @ Join cs ''/'') = Some b"
proof -
  define t where "t = ''/'' @ Join cs ''/''"
  let ?m = "sent_meta (Join (replicate (length (path_parts dest)) ''..'' @ cs) ''/'') ''''"
  let ?data = "if b = [] then [] else [(FtData, Bytes b)]"
  let ?frames = "(FtMeta, PMeta ?m) # ?data @ [(FtData, Bytes []), (FtDone, PDone 1 0 0)]"
  have path: "pull_path dest (HasSuffix dest ''/'' \<or> is_dir hos h dest) ?m = t"
    using join_anywhere [OF assms(4,6,7)] assms(5) by (simp add: pull_path_def t_def)
  have t: "t \<in> P" using assms(8) by (simp add: t_def)
  have free: "(\<not> overwrite \<and> exists_file hos h t) = False" using assms(9) by (simp add: t_def)
  note works = assms(3) [unfolded calls_work_def]
  obtain h1 where h1: "os_mkdirall hos (Dir t) h = (None, h1)" using works by (metis prod.collapse)
  obtain h2 where h2: "os_create hos t 420 h1 = (None, h2)" using works by (metis prod.collapse)
  have c2: "content h2 t = Some []" using file_openD(2) [OF assms(1) t h2] by simp
  obtain h3 where h3: "os_write hos t b h2 = (None, h3)" using works c2 by (metis option.distinct(1) prod.collapse)
  from c2 have c3: "content h3 t = Some b" using file_writeD(1) [OF assms(1) t h3, of "[]"] by simp
  let ?h = "if b = [] then h2 else h3"
  have "FTCopyFromVM (Suc (Suc (Suc (Suc (Suc 0))))) js hos sha script_link src dest overwrite (h, ?frames) =
      (Returns \<lparr>fr_files = 1, fr_bytes = int (length b), fr_errs = 0\<rparr>, ?h, [])"
    unfolding FTCopyFromVM_def bind_io_def ask_def
    using works assms(2)
    by (simp add: receivePullFile_def bind_io_def ask_def send_or_def try_send_def ret_io_def script_link_def ft_types
      check_cancelled_def recv_or_def path free h1 h2 h3 act_def Let_def verify_file_def json_ok_def no_result_def add_results_def)
  moreover have "content ?h t = Some b" using c2 c3 by simp
  ultimately show ?thesis unfolding t_def by (metis ft_result.select_convs(3))
qed


lemma machine_writes_anywhere_witness:
  "\<exists>n frames r h' c'. FTCopyFromVM n plain_json small_os (\<lambda>b. '''') script_link ''/home/logs'' ''/srv'' False ((\<lambda>p. None), frames) =
      (Returns r, h', c') \<and> fr_errs r = 0 \<and> h' ''/etc/x'' = Some [7]"
proof -
  have work: "calls_work small_os (\<lambda>w. w)" by (auto simp: calls_work_def small_os_def split: option.split)
  have dir: "HasSuffix ''/srv'' ''/'' \<or> is_dir small_os (\<lambda>p. None) ''/srv''"
    by (simp add: is_dir_def small_os_def small_stat_def)
  have free: "False \<or> \<not> exists_file small_os (\<lambda>p. None) (''/'' @ Join [''etc'', ''x''] ''/'')"
    by (simp add: exists_file_def small_os_def small_stat_def)
  have "rooted ''/srv''" "list_all entry [''etc'', ''x'']" by (simp_all add: rooted_def entry_def slash_def)
  from machine_writes_anywhere [OF small_files [of UNIV] plain_json_ok work this(1) dir _ this(2) UNIV_I free, of "\<lambda>b. ''''" "''/home/logs''" "[7]"]
  show ?thesis by simp
qed

end
