(* ===== verification/Delivery.thy ===== *)
theory Delivery
  imports Copying
begin

text \<open>
  The two sides of a copy together: the host's programs run against the machine's agent. Whatever
  fails in the machine, no copy waits for ever, and what is counted as copied has arrived.
\<close>

subsection \<open>Talking to an agent\<close>

lemma peer_send [run_simps]:
  "lk_send (peer_link js os sha depth pipe) f c =
     (if pr_agent c = Closed then (if pipe then Some ''broken pipe'' else None, c)
      else case agent_step js os sha depth f (pr_agent c, pr_world c) of
        ((st, w), out) \<Rightarrow> (None, \<lparr>pr_agent = st, pr_world = w, pr_queue = pr_queue c @ out\<rparr>))"
  by (simp add: peer_link_def)

lemma peer_recv [run_simps]:
  "lk_recv (peer_link js os sha depth pipe) c = (case pr_queue c of
     f # fs \<Rightarrow> (Got f, c\<lparr>pr_queue := fs\<rparr>)
   | [] \<Rightarrow> (if pr_agent c = Closed then Lost ''read frame length: EOF'' else Blocked, c))"
  by (simp add: peer_link_def)

lemma ft_differ [simp]:
  "FtMeta \<noteq> FtError" "FtMeta \<noteq> FtDone" "FtMeta \<noteq> FtData" "FtMeta \<noteq> FtOK" "FtMeta \<noteq> FtProgress"
  "FtError \<noteq> FtMeta" "FtError \<noteq> FtDone" "FtError \<noteq> FtData" "FtError \<noteq> FtOK" "FtError \<noteq> FtProgress" "FtError \<noteq> FtMkdir"
  "FtData \<noteq> FtMeta" "FtData \<noteq> FtError" "FtData \<noteq> FtDone" "FtData \<noteq> FtOK" "FtData \<noteq> FtProgress"
  "FtOK \<noteq> FtMeta" "FtOK \<noteq> FtError" "FtOK \<noteq> FtDone" "FtOK \<noteq> FtData" "FtOK \<noteq> FtProgress"
  "FtProgress \<noteq> FtData" "FtProgress \<noteq> FtError" "FtProgress \<noteq> FtMeta" "FtProgress \<noteq> FtDone"
  "FtDone \<noteq> FtMeta" "FtDone \<noteq> FtError" "FtDone \<noteq> FtData" "FtPull \<noteq> FtPush" "FtPush \<noteq> FtPull"
  "FtError \<noteq> FtPush" "FtError \<noteq> FtPull" "FtMeta \<noteq> FtPush" "FtMeta \<noteq> FtPull" "FtData \<noteq> FtPush" "FtData \<noteq> FtPull"
  by (simp_all add: ft_types)

text \<open>Where a pushed file goes.\<close>

definition placed :: "pushing \<Rightarrow> string \<Rightarrow> string" where
  "placed pu rel = (if pu_dir pu then PathJoin [pu_dest pu, rel] else pu_dest pu)"

text \<open>Between two files, and within one of which the bytes \<open>got\<close> have arrived.\<close>

definition idle :: "pushing \<Rightarrow> 'w peer \<Rightarrow> bool" where
  "idle pu c \<longleftrightarrow> pr_queue c = [] \<and> (pr_agent c = Closed \<or> (\<exists>k. pr_agent c = PushLoop pu k))"

definition within_file :: "('w \<Rightarrow> string \<Rightarrow> byte list option) \<Rightarrow> pushing \<Rightarrow> ft_meta \<Rightarrow> string \<Rightarrow> byte list \<Rightarrow> 'w peer \<Rightarrow> bool" where
  "within_file content pu meta path got c \<longleftrightarrow> pr_queue c = [] \<and> (pr_agent c = Closed \<or>
     (\<exists>k. pr_agent c = Receiving pu k meta path got \<and> content (pr_world c) path = Some got))"

lemma send_chunks_runs:
  assumes doc: "documented_files gos content P" "path \<in> P" and js: "json_ok js"
  shows "within_file content pu meta path got c \<Longrightarrow> [] \<notin> set bs \<Longrightarrow>
    runs False (send_chunks (peer_link js gos sha depth pipe) bs) (h, c) (\<lambda>_ (h', c'). h' = h \<and>
      within_file content pu meta path (got @ concat bs) c' \<and> others_kept content P path (pr_world c) (pr_world c'))"
proof (induction bs arbitrary: got c)
  case (Cons b bs)
  let ?lk = "peer_link js gos sha depth pipe"
  have step: "lk_send ?lk (FtData, Bytes b) c = (None, c') \<Longrightarrow>
      within_file content pu meta path (got @ b) c' \<and> others_kept content P path (pr_world c) (pr_world c')" for c'
    using Cons.prems js file_writeD(1) [OF doc, of b "pr_world c"]
    by (auto simp: peer_send within_file_def agent_step_def push_data_def hang_up_def json_ok_def Let_def split: prod.splits option.splits)
  have "runs False (send_chunks ?lk bs) (h, c') (\<lambda>_ (h', c'). h' = h \<and>
      within_file content pu meta path (got @ concat (b # bs)) c' \<and> others_kept content P path (pr_world c) (pr_world c'))"
    if "lk_send ?lk (FtData, Bytes b) c = (None, c')" for c'
    by (rule runs_mono [OF Cons.IH [of "got @ b" c']]) (use step [OF that] Cons.prems(2) in \<open>auto intro: kept_trans(1)\<close>)
  then show ?case by (simp add: runs_bind runs_send split: prod.split option.split)
qed (simp add: run_simps)

lemma finish_file_runs:
  assumes doc: "documented_files gos content P" "path \<in> P" and js: "json_ok js"
    and mid: "within_file content pu meta path got c" and sha: "fm_sha meta = sha got"
  shows "runs False (finish_file js (peer_link js gos sha depth pipe) name (sha got) sent) (h, c) (\<lambda>(b, x) (h', c'). h' = h \<and>
    idle pu c' \<and> others_kept content P path (pr_world c) (pr_world c') \<and> b = sent \<and>
    (x = 1 \<or> x = 0 \<and> content (pr_world c') path = Some got))"
proof (cases "pr_agent c = Closed")
  case True
  with mid show ?thesis by (auto simp: finish_file_def run_simps within_file_def)
next
  case False
  with mid obtain k where c: "pr_queue c = []" "pr_agent c = Receiving pu k meta path got" "content (pr_world c) path = Some got"
    by (auto simp: within_file_def)
  show ?thesis
  proof (cases "os_fsync gos path (pr_world c)")
    case (Pair e w')
    from file_restD(2) [OF doc(1) this] have k: "others_kept content P path (pr_world c) w'" "content w' path = Some got"
      using kept_all doc(2) c(3) by (auto simp: all_kept_def)
    from js have js': "js_text js (Bytes []) = []" "\<And>m. js_meta js (PMeta m) = Some m" by (simp_all add: json_ok_def)
    from c Pair k js' show ?thesis
      by (cases e) (auto simp: finish_file_def run_simps agent_step_def push_data_def push_eof_def sha Let_def idle_def)
  qed
qed


text \<open>What the agent answers to a file that is offered.\<close>

lemma push_meta_answer:
  assumes doc: "documented_files gos content P" "placed pu (fm_path meta) \<in> P" and js: "js_meta js p = Some meta"
    and r: "push_meta js gos pu k p w = ((st, w'), out)"
  shows "others_kept content P (placed pu (fm_path meta)) w w' \<and>
    ((\<exists>k' c m. st = PushLoop pu k' \<and> out = [(FtError, PError c m)]) \<or>
     (\<exists>m. st = Receiving pu k meta (placed pu (fm_path meta)) [] \<and> out = [(FtMeta, PMeta m)] \<and> fm_accepted m \<and>
       content w' (placed pu (fm_path meta)) = Some []))"
proof -
  let ?p = "placed pu (fm_path meta)"
  have op: "others_kept content P ?p v v' \<and> (e = None \<longrightarrow> content v' ?p = Some [])" if "open_dest gos ?p m v = (e, v')" for v e v' m
  proof (cases "os_truncate gos ?p v")
    case (Pair t u)
    with that file_openD [OF doc] show ?thesis
      by (auto simp: open_dest_def split: option.splits open_error.splits intro: kept_trans(1) dest: file_openD [OF doc])
  qed
  have path: "(if pu_dir pu then PathJoin [pu_dest pu, fm_path meta] else pu_dest pu) = ?p" by (simp add: placed_def)
  show ?thesis
  proof (cases "\<not> pu_overwrite pu \<and> exists_file gos w ?p")
    case True
    with r show ?thesis by (auto simp: push_meta_def js Let_def path refuse_def)
  next
    case False
    obtain e w1 where mk: "os_mkdirall gos (Dir ?p) w = (e, w1)" by (rule prod.exhaust)
    obtain e' w2 where od: "open_dest gos ?p (fm_mode meta) w1 = (e', w2)" by (rule prod.exhaust)
    have k: "all_kept content P w w1" by (rule file_restD(1) [OF doc(1) mk])
    from op [OF od] have "others_kept content P ?p w w2" "e' = None \<longrightarrow> content w2 ?p = Some []"
      using kept_trans(2) [OF k] by blast+
    with False r mk od kept_all [OF k] show ?thesis
      by (cases e; cases e'; auto simp: push_meta_def js Let_def path refuse_def)
  qed
qed

lemma stream_file_runs:
  assumes doc: "documented_files gos content P" "path \<in> P" and js: "json_ok js" and reads: "documented_reads hos"
    and mid: "within_file content pu meta path [] c" and rd: "os_reads hos h (fe_abs e) = (bs, None)" and sha: "fm_sha meta = sha (concat bs)"
    and op: "os_open hos h (fe_abs e) = None"
  shows "runs False (stream_file js hos (peer_link js gos sha depth pipe) e (sha (concat bs))) (h, c) (\<lambda>(b, x) (h', c'). h' = h \<and>
    idle pu c' \<and> others_kept content P path (pr_world c) (pr_world c') \<and> b = int (length (concat bs)) \<and>
    (x = 1 \<or> x = 0 \<and> content (pr_world c') path = Some (concat bs)))"
proof -
  let ?lk = "peer_link js gos sha depth pipe"
  have ne: "[] \<notin> set bs" using reads rd unfolding documented_reads_def by (metis fst_conv)
  have fin: "runs False (finish_file js ?lk (fe_rel e) (sha (concat bs)) (int (length (concat bs)))) (h, c') (\<lambda>(b, x) (h', c'). h' = h \<and>
      idle pu c' \<and> others_kept content P path (pr_world c) (pr_world c') \<and> b = int (length (concat bs)) \<and>
      (x = 1 \<or> x = 0 \<and> content (pr_world c') path = Some (concat bs)))"
    if "within_file content pu meta path (concat bs) c'" "others_kept content P path (pr_world c) (pr_world c')" for c'
    by (rule runs_mono [OF finish_file_runs [where sha = sha, OF doc js that(1) sha]]) (use that(2) in \<open>auto intro: kept_trans(1)\<close>)
  have "runs False (send_chunks ?lk bs) (h, c) (\<lambda>_ (h', c'). h' = h \<and>
      within_file content pu meta path ([] @ concat bs) c' \<and> others_kept content P path (pr_world c) (pr_world c'))"
    by (rule send_chunks_runs [OF doc js mid ne])
  then show ?thesis
    by (simp add: stream_file_def run_simps rd op) (erule runs_mono, clarsimp simp: fin)
qed

definition delivered :: "'h os \<Rightarrow> 'h \<Rightarrow> ('w \<Rightarrow> string \<Rightarrow> byte list option) \<Rightarrow> pushing \<Rightarrow> 'w \<Rightarrow> file_entry \<Rightarrow> bool" where
  "delivered hos h content pu w e \<longleftrightarrow>
     (\<exists>bs. os_reads hos h (fe_abs e) = (bs, None) \<and> content w (placed pu (fe_rel e)) = Some (concat bs))"

definition file_size :: "'h os \<Rightarrow> 'h \<Rightarrow> file_entry \<Rightarrow> int" where
  "file_size hos h e = int (length (concat (fst (os_reads hos h (fe_abs e)))))"

lemma push_file_runs:
  assumes doc: "documented_files gos content P" "placed pu (fe_rel e) \<in> P" and js: "json_ok js" and reads: "documented_reads hos"
    and idle: "idle pu c"
  shows "runs False (push_file js hos sha (peer_link js gos sha depth pipe) e) (h, c) (\<lambda>(b, x) (h', c'). h' = h \<and>
    idle pu c' \<and> others_kept content P (placed pu (fe_rel e)) (pr_world c) (pr_world c') \<and>
    (x = 1 \<or> x = 0 \<and> b = file_size hos h e \<and> delivered hos h content pu (pr_world c') e))"
  (is "runs False ?m (h, c) ?Q")
proof -
  let ?lk = "peer_link js gos sha depth pipe"
  let ?offer = "\<lambda>fi bs. bind_io (send_or ?lk ''write meta frame'' FtMeta (PMeta (file_meta sha (fe_rel e) fi (concat bs)))) (\<lambda>_.
    bind_io (await_accept js ?lk) (\<lambda>accepted. if accepted then stream_file js hos ?lk e (sha (concat bs)) else ret_io (0, 1)))"
  have quiet: "?Q (0, 1) (h, c)" using idle by simp
  have told: "runs False (tell_open_failed ?lk m) (h, c) (\<lambda>_. ?Q (0, 1))" for m
    using idle by (auto simp: tell_open_failed_def run_simps idle_def agent_step_def push_loop_def hang_up_def split: prod.split if_splits)
  have offer: "runs False (?offer fi bs) (h, c) ?Q"
    if rd: "os_reads hos h (fe_abs e) = (bs, None)" and op: "os_open hos h (fe_abs e) = None" for fi bs
  proof (cases "pr_agent c = Closed \<or> os_cancelled gos (pr_world c) \<noteq> None")
    case True
    with idle show ?thesis by (auto simp: run_simps idle_def await_accept_def agent_step_def hang_up_def)
  next
    case False
    with idle obtain k where c: "pr_queue c = []" "pr_agent c = PushLoop pu k" "os_cancelled gos (pr_world c) = None"
      by (auto simp: idle_def)
    let ?m = "file_meta sha (fe_rel e) fi (concat bs)"
    have m: "fm_path ?m = fe_rel e" "fm_sha ?m = sha (concat bs)" by (simp_all add: file_meta_def)
    have dec: "\<And>m. js_meta js (PMeta m) = Some m" using js by (simp add: json_ok_def)
    obtain st w' out where a: "push_meta js gos pu k (PMeta ?m) (pr_world c) = ((st, w'), out)" by (metis prod.exhaust)
    note ans = push_meta_answer [OF doc(1) _ dec a, unfolded m, OF doc(2)]
    let ?c = "\<lparr>pr_agent = st, pr_world = w', pr_queue = []\<rparr>"
    have go: "runs False (stream_file js hos ?lk e (sha (concat bs))) (h, ?c) ?Q"
      if "st = Receiving pu k ?m (placed pu (fe_rel e)) []" "content w' (placed pu (fe_rel e)) = Some []"
    proof (rule runs_mono)
      show "runs False (stream_file js hos ?lk e (sha (concat bs))) (h, ?c) (\<lambda>(b, x) (h', c'). h' = h \<and>
        idle pu c' \<and> others_kept content P (placed pu (fe_rel e)) (pr_world ?c) (pr_world c') \<and> b = int (length (concat bs)) \<and>
        (x = 1 \<or> x = 0 \<and> content (pr_world c') (placed pu (fe_rel e)) = Some (concat bs)))"
        by (rule stream_file_runs [where sha = sha, OF doc js reads _ rd m(2) op]) (simp add: within_file_def that)
    qed (use ans rd in \<open>auto simp: delivered_def file_size_def intro: kept_trans(1)\<close>)
    show ?thesis using ans go dec c a
      by (auto simp: run_simps await_accept_def agent_step_def push_loop_def idle_def)
  qed
  show ?thesis
    using quiet told offer by (auto simp: push_file_def runs_bind runs_check runs_ask runs_ret runs_fail split: sum.split option.split prod.split)
qed


subsection \<open>Pushing files\<close>

text \<open>The outcome of a series of files: those that count as copied, and the counts.\<close>

definition copied :: "'h os \<Rightarrow> 'h \<Rightarrow> ('w \<Rightarrow> string \<Rightarrow> byte list option) \<Rightarrow> pushing \<Rightarrow> 'w \<Rightarrow> file_entry list \<Rightarrow> int \<Rightarrow> int \<Rightarrow> bool" where
  "copied hos h content pu w es bytes errors \<longleftrightarrow> (\<exists>ds. subseq ds es \<and> errors = int (length es) - int (length ds) \<and>
     (\<forall>d \<in> set ds. delivered hos h content pu w d) \<and> (errors = 0 \<longrightarrow> bytes = sum_list (map (file_size hos h) es)))"

lemma delivered_kept: "content w' (placed pu (fe_rel e)) = content w (placed pu (fe_rel e)) \<Longrightarrow>
    delivered hos h content pu w' e = delivered hos h content pu w e"
  by (simp add: delivered_def)

lemma copied_Cons:
  assumes "copied hos h content pu w es bytes errors"
    and "x = 1 \<or> x = 0 \<and> b = file_size hos h e \<and> delivered hos h content pu w e"
  shows "copied hos h content pu w (e # es) (b + bytes) (x + errors)"
proof -
  from assms(1) obtain ds where ds: "subseq ds es" "errors = int (length es) - int (length ds)"
    "\<forall>d \<in> set ds. delivered hos h content pu w d" "errors = 0 \<longrightarrow> bytes = sum_list (map (file_size hos h) es)"
    unfolding copied_def by blast
  have "length ds \<le> length es" using list_emb_length [OF ds(1)] .
  show ?thesis
  proof (cases "x = 0")
    case True
    with assms(2) ds show ?thesis unfolding copied_def by (intro exI [of _ "e # ds"]) auto
  next
    case False
    with assms(2) have "x = 1" by simp
    with ds \<open>length ds \<le> length es\<close> show ?thesis unfolding copied_def by (intro exI [of _ ds]) auto
  qed
qed

lemma push_files_runs:
  assumes doc: "documented_files gos content P" and js: "json_ok js" and reads: "documented_reads hos"
  shows "idle pu c \<Longrightarrow> (\<lambda>e. placed pu (fe_rel e)) ` set es \<subseteq> P \<Longrightarrow> distinct (map (\<lambda>e. placed pu (fe_rel e)) es) \<Longrightarrow>
    runs False (push_files js hos sha (peer_link js gos sha depth pipe) es b0 x0) (h, c) (\<lambda>(b, x) (h', c'). h' = h \<and> idle pu c' \<and>
      (\<forall>q \<in> P. q \<notin> (\<lambda>e. placed pu (fe_rel e)) ` set es \<longrightarrow> content (pr_world c') q = content (pr_world c) q) \<and>
      copied hos h content pu (pr_world c') es (b - b0) (x - x0))"
proof (induction es arbitrary: c b0 x0)
  case Nil
  then show ?case by (simp add: run_simps copied_def)
next
  case (Cons e es)
  let ?lk = "peer_link js gos sha depth pipe" and ?at = "\<lambda>e. placed pu (fe_rel e)"
  have rest: "runs False (push_files js hos sha ?lk es (b0 + b) (x0 + x)) (h, c1) (\<lambda>(b', x') (h', c'). h' = h \<and> idle pu c' \<and>
      (\<forall>q \<in> P. q \<notin> ?at ` set (e # es) \<longrightarrow> content (pr_world c') q = content (pr_world c) q) \<and>
      copied hos h content pu (pr_world c') (e # es) (b' - b0) (x' - x0))"
    if "idle pu c1" "others_kept content P (?at e) (pr_world c) (pr_world c1)"
      "x = 1 \<or> x = 0 \<and> b = file_size hos h e \<and> delivered hos h content pu (pr_world c1) e" for b x c1
  proof (rule runs_mono [OF Cons.IH [OF that(1)]])
    fix r s'
    assume r: "(case r of (b', x') \<Rightarrow> \<lambda>(h', c'). h' = h \<and> idle pu c' \<and>
      (\<forall>q \<in> P. q \<notin> ?at ` set es \<longrightarrow> content (pr_world c') q = content (pr_world c1) q) \<and>
      copied hos h content pu (pr_world c') es (b' - (b0 + b)) (x' - (x0 + x))) s'"
    obtain b' x' h' c' where rs: "r = (b', x')" "s' = (h', c')" by (metis prod.exhaust)
    from r have r': "h' = h" "idle pu c'" "\<And>q. q \<in> P \<Longrightarrow> q \<notin> ?at ` set es \<Longrightarrow> content (pr_world c') q = content (pr_world c1) q"
      "copied hos h content pu (pr_world c') es (b' - (b0 + b)) (x' - (x0 + x))" by (simp_all add: rs)
    have "x = 1 \<or> x = 0 \<and> b = file_size hos h e \<and> delivered hos h content pu (pr_world c') e"
      using that(3) delivered_kept [where hos = hos and h = h and content = content and w' = "pr_world c'" and pu = pu and e = e and w = "pr_world c1"] r'(3) [of "?at e"] Cons.prems(2,3) by auto
    from copied_Cons [OF r'(4) this] have "copied hos h content pu (pr_world c') (e # es) (b' - b0) (x' - x0)" by simp
    then show "(case r of (b', x') \<Rightarrow> \<lambda>(h', c'). h' = h \<and> idle pu c' \<and>
      (\<forall>q \<in> P. q \<notin> ?at ` set (e # es) \<longrightarrow> content (pr_world c') q = content (pr_world c) q) \<and>
      copied hos h content pu (pr_world c') (e # es) (b' - b0) (x' - x0)) s'"
      using r' that(2) by (simp add: rs others_kept_def)
  qed (use Cons.prems in simp_all)
  have one: "runs False (push_file js hos sha ?lk e) (h, c) (\<lambda>(b, x) (h', c'). h' = h \<and> idle pu c' \<and>
      others_kept content P (?at e) (pr_world c) (pr_world c') \<and>
      (x = 1 \<or> x = 0 \<and> b = file_size hos h e \<and> delivered hos h content pu (pr_world c') e))"
    by (rule push_file_runs [OF doc _ js reads Cons.prems(1)]) (use Cons.prems(2) in simp)
  show ?case unfolding push_files.simps runs_bind
  proof (rule runs_mono [OF one], goal_cases)
    case (1 r s')
    obtain b x h' c' where rs: "r = (b, x)" "s' = (h', c')" by (metis prod.exhaust)
    from 1 have r: "h' = h" "idle pu c'" "others_kept content P (?at e) (pr_world c) (pr_world c')"
      "x = 1 \<or> x = 0 \<and> b = file_size hos h e \<and> delivered hos h content pu (pr_world c') e" by (simp_all add: rs)
    show ?case unfolding rs prod.case r(1) by (rule rest [OF r(2-4)])
  qed
qed

text \<open>What the agent makes of a destination.\<close>

definition pushed_to :: "'w os \<Rightarrow> 'w \<Rightarrow> string \<Rightarrow> bool \<Rightarrow> bool \<Rightarrow> pushing" where
  "pushed_to gos g dest overwrite nosync = \<lparr>pu_dest = TrimSuffix dest ''/'',
     pu_dir = (HasSuffix dest ''/'' \<or> is_dir gos g (TrimSuffix dest ''/'')), pu_overwrite = overwrite, pu_nosync = nosync\<rparr>"

text \<open>
  C22: Copying files into a machine, host and agent together, to places that are different files:
  whatever fails in the machine, the copy does not wait for ever; and when it returns, the files that it counts as copied, which are
  all but as many as it counts errors, are in the machine, each at its place, with the bytes it has
  on the host. Without errors the bytes reported are the bytes of all files.
\<close>

theorem push_delivers:
  assumes "json_ok js" "documented_reads hos" "documented_files gos content P"
    and "expandSources depth hos h srcs = Some (Ok es)" "pu = pushed_to gos g (push_dest hos h srcs dest) overwrite nosync"
    and "(\<lambda>e. placed pu (fe_rel e)) ` set es \<subseteq> P" "distinct (map (\<lambda>e. placed pu (fe_rel e)) es)"
  shows "\<exists>r h' c'. FTCopyToVM js hos sha depth (peer_link js gos sha n pipe) srcs dest overwrite nosync
      (h, \<lparr>pr_agent = Start, pr_world = g, pr_queue = []\<rparr>) = (r, h', c') \<and> (case r of
        Waits \<Rightarrow> False
      | Fails e \<Rightarrow> True
      | Returns x \<Rightarrow> (\<exists>ds. subseq ds es \<and> fr_files x = int (length ds) \<and> fr_errs x = int (length es) - int (length ds) \<and>
          (\<forall>d \<in> set ds. \<exists>bs. os_reads hos h (fe_abs d) = (bs, None) \<and> content (pr_world c') (placed pu (fe_rel d)) = Some (concat bs)) \<and>
          (fr_errs x = 0 \<longrightarrow> fr_bytes x = (\<Sum>e \<leftarrow> es. int (length (concat (fst (os_reads hos h (fe_abs e)))))))))"
proof -
  let ?lk = "peer_link js gos sha n pipe"
  let ?dest = "push_dest hos h srcs dest"
  let ?Q = "\<lambda>x (h', c'). copied hos h content pu (pr_world c') es (fr_bytes x) (fr_errs x) \<and>
    fr_files x = int (length es) - fr_errs x"
  have last: "runs False (bind_io (push_files js hos sha ?lk es 0 0) (\<lambda>(bytes, errors). let k = int (length es) - errors
      in bind_io (send_or ?lk ''write done frame'' FtDone (PDone k bytes errors)) (\<lambda>_.
        ret_io \<lparr>fr_files = k, fr_bytes = bytes, fr_errs = errors\<rparr>))) (h, \<lparr>pr_agent = PushLoop pu k0, pr_world = w, pr_queue = []\<rparr>) ?Q" for k0 w
    unfolding runs_bind
    by (rule runs_mono [OF push_files_runs [OF assms(3,1,2) _ assms(6,7)]])
      (auto simp: idle_def run_simps Let_def agent_step_def push_loop_def hang_up_def split: if_splits)
  have pu: "\<lparr>pu_dest = TrimSuffix ?dest ''/'', pu_dir = True, pu_overwrite = overwrite, pu_nosync = nosync\<rparr> = pu"
    if "HasSuffix ?dest ''/'' \<or> is_dir gos g (TrimSuffix ?dest ''/'')" using that by (simp add: assms(5) pushed_to_def)
  have pu': "\<lparr>pu_dest = TrimSuffix ?dest ''/'', pu_dir = False, pu_overwrite = overwrite, pu_nosync = nosync\<rparr> = pu"
    if "\<not> HasSuffix ?dest ''/''" "\<not> is_dir gos g (TrimSuffix ?dest ''/'')" using that by (simp add: assms(5) pushed_to_def)
  have "runs False (FTCopyToVM js hos sha depth ?lk srcs dest overwrite nosync)
      (h, \<lparr>pr_agent = Start, pr_world = g, pr_queue = []\<rparr>) ?Q"
    using assms(1) last pu pu'
    by (auto simp: FTCopyToVM_def run_simps assms(4) agent_step_def handleFTPush_def refuse_def json_ok_def Let_def
        split: prod.splits option.splits if_splits)
  from runs_returns [OF this] show ?thesis
    unfolding copied_def delivered_def file_size_def by (force split: outcome.splits)
qed


definition home_files :: files where
  "home_files = [''/home/a'' \<mapsto> [1, 2]]"

lemma push_delivers_witness:
  "\<exists>h' c'. FTCopyToVM plain_json small_os (\<lambda>b. ''h'') 1 (peer_link plain_json small_os (\<lambda>b. ''h'') 1 True) [''/home/a''] ''/srv/'' False False
      (home_files, \<lparr>pr_agent = Start, pr_world = (\<lambda>p. None), pr_queue = []\<rparr>) =
      (Returns \<lparr>fr_files = 1, fr_bytes = 2, fr_errs = 0\<rparr>, h', c') \<and> pr_world c' ''/srv/a'' = Some [1, 2]"
proof -
  let ?run = "FTCopyToVM plain_json small_os (\<lambda>b. ''h'') 1 (peer_link plain_json small_os (\<lambda>b. ''h'') 1 True) [''/home/a''] ''/srv/'' False False
      (home_files, \<lparr>pr_agent = Start, pr_world = (\<lambda>p. None), pr_queue = []\<rparr>)"
  let ?pu = "pushed_to small_os (\<lambda>p. None) (push_dest small_os home_files [''/home/a''] ''/srv/'') False False"
  let ?e = "\<lparr>fe_abs = ''/home/a'', fe_rel = ''a''\<rparr>"
  have es: "expandSources 1 small_os home_files [''/home/a''] = Some (Ok [?e])" by code_simp
  have run: "fst ?run = Returns \<lparr>fr_files = 1, fr_bytes = 2, fr_errs = 0\<rparr>" by code_simp
  have at: "placed ?pu ''a'' = ''/srv/a''" by code_simp
  have rd: "os_reads small_os home_files ''/home/a'' = ([[1, 2]], None)" by code_simp
  have P: "(\<lambda>e. placed ?pu (fe_rel e)) ` set [?e] \<subseteq> UNIV" "distinct (map (\<lambda>e. placed ?pu (fe_rel e)) [?e])" by simp_all
  let ?x = "\<lparr>fr_files = 1, fr_bytes = 2, fr_errs = 0\<rparr>"
  obtain h' c' where eq: "?run = (Returns ?x, h', c')" using run by (metis prod.collapse)
  from push_delivers [where n = 1 and pipe = True and sha = "\<lambda>b. ''h''", OF plain_json_ok small_reads small_files [of UNIV] es refl P]
  obtain ds where "subseq ds [?e]" "fr_files ?x = int (length ds)"
    and d: "\<forall>d \<in> set ds. \<exists>bs. os_reads small_os home_files (fe_abs d) = (bs, None) \<and> pr_world c' (placed ?pu (fe_rel d)) = Some (concat bs)"
    unfolding eq prod.inject by (elim exE conjE, hypsubst, unfold outcome.case) blast
  moreover from this(1,2) have "ds = [?e]" by (cases ds) (auto split: if_splits)
  ultimately show ?thesis using rd at eq by simp
qed


subsection \<open>Pulling a file that exists\<close>

text \<open>
  Pulling a single file onto one that exists, without overwriting: the host rejects the file and
  counts an error, but the agent of a single file closes the connection on a rejection, so
  the copy as a whole fails with a lost connection instead of returning the count.
\<close>

lemma existing_file_lost:
  assumes "json_ok js" "os_cancelled hos h = None"
    and "os_stat gos g src = Ok fi" "\<not> fi_dir fi" "os_open gos g src = None" "os_reads gos g src = (bs, None)"
    and "exists_file hos h (if HasSuffix dest ''/'' \<or> is_dir hos h dest then PathJoin [dest, Base src] else dest)"
  shows "\<exists>c'. FTCopyFromVM (Suc (Suc n)) js hos sha (peer_link js gos sha depth pipe) src dest False
      (h, \<lparr>pr_agent = Start, pr_world = g, pr_queue = []\<rparr>) = (Fails ''read frame: read frame length: EOF'', h, c')"
proof -
  have dec: "\<And>p. js_pull js (PPull p) = Some p" "\<And>m. js_meta js (PMeta m) = Some m" using assms(1) by (simp_all add: json_ok_def)
  have path: "pull_path dest (HasSuffix dest ''/'' \<or> is_dir hos h dest) (file_meta sha (Base src) fi b) =
      (if HasSuffix dest ''/'' \<or> is_dir hos h dest then PathJoin [dest, Base src] else dest)" for b
    by (simp add: pull_path_def file_meta_def)
  show ?thesis
    unfolding FTCopyFromVM_def
    by (simp add: bind_io_def ask_def send_or_def try_send_def ret_io_def peer_send agent_step_def handleFTPull_def dec assms(2-6) offer_file_def
        Let_def check_cancelled_def recv_or_def peer_recv receivePullFile_def path assms(7) send_file_def hang_up_def add_results_def no_result_def)
qed

lemma existing_file_lost_witness:
  "\<exists>c'. FTCopyFromVM 2 plain_json small_os (\<lambda>b. ''h'') (peer_link plain_json small_os (\<lambda>b. ''h'') 1 False) ''/home/a'' ''/srv'' False
      ([''/srv/a'' \<mapsto> [9]], \<lparr>pr_agent = Start, pr_world = home_files, pr_queue = []\<rparr>) =
      (Fails ''read frame: read frame length: EOF'', [''/srv/a'' \<mapsto> [9]], c')"
proof -
  let ?h = "[''/srv/a'' \<mapsto> [9 :: byte]]"
  let ?fi = "\<lparr>fi_link = False, fi_dir = False, fi_regular = True, fi_size = 2, fi_mode = 420\<rparr>"
  have "os_cancelled small_os ?h = None" "os_stat small_os home_files ''/home/a'' = Ok ?fi" "\<not> fi_dir ?fi"
    "os_open small_os home_files ''/home/a'' = None" "os_reads small_os home_files ''/home/a'' = ([[1, 2]], None)"
    "exists_file small_os ?h (if HasSuffix ''/srv'' ''/'' \<or> is_dir small_os ?h ''/srv'' then PathJoin [''/srv'', Base ''/home/a''] else ''/srv'')"
    by code_simp+
  from existing_file_lost [OF plain_json_ok this, where n = 0] show ?thesis by (simp add: numeral_2_eq_2)
qed

subsection \<open>Copying from machine to machine\<close>

lemma pair_links [run_simps]:
  "lk_send (fst_link l) f (a, b) = (case lk_send l f a of (e, a') \<Rightarrow> (e, a', b))"
  "lk_recv (fst_link l) (a, b) = (case lk_recv l a of (r, a') \<Rightarrow> (r, a', b))"
  "lk_send (snd_link m) f (a, b) = (case lk_send m f b of (e, b') \<Rightarrow> (e, a, b'))"
  "lk_recv (snd_link m) (a, b) = (case lk_recv m b of (r, b') \<Rightarrow> (r, a, b'))"
  by (simp_all add: fst_link_def snd_link_def)

text \<open>The end of the file at the destination, and what the source makes of the answer.\<close>

lemma relay_end:
  assumes doc: "documented_files gos content P" "path \<in> P" and js: "json_ok js"
    and mid: "within_file content pu meta path got b" and sha: "fm_sha meta = sha got" "of_meta q = meta"
    and a: "pr_agent a = Sent q k" "pr_queue a = [(FtData, Bytes [])]"
  shows "runs False (relay_loop (Suc n) js hos (fst_link (peer_link js gos' sha d' pipe')) (snd_link (peer_link js gos sha d pipe)) tot) (h, a, b)
    (\<lambda>t (h', a', b'). t = tot \<and> content (pr_world b') path = Some got \<and> idle pu b' \<and> pr_queue a' \<noteq> [])"
proof -
  have dec: "js_text js (Bytes []) = []" "\<And>m. js_meta js (PMeta m) = Some m" using js by (simp_all add: json_ok_def)
  show ?thesis
  proof (cases "pr_agent b = Closed")
    case True
    with mid a dec show ?thesis by (auto simp: run_simps within_file_def)
  next
    case False
    with mid obtain c where b: "pr_queue b = []" "pr_agent b = Receiving pu c meta path got" "content (pr_world b) path = Some got"
      by (auto simp: within_file_def)
    obtain e w' where f: "os_fsync gos path (pr_world b) = (e, w')" by (rule prod.exhaust)
    from file_restD(2) [OF doc(1) f] doc(2) b(3) have "content w' path = Some got" by (simp add: all_kept_def)
    with a b f dec sha show ?thesis
      by (cases e) (auto simp: run_simps agent_step_def push_data_def push_eof_def Let_def idle_def file_sent_def hash_differs_def)
  qed
qed

lemma relay_runs:
  assumes doc: "documented_files gos content P" "path \<in> P" and js: "json_ok js" and q: "of_meta q = meta"
  shows "within_file content pu meta path got b \<Longrightarrow> fm_sha meta = sha (got @ concat bs) \<Longrightarrow> [] \<notin> set bs \<Longrightarrow>
    pr_agent a = Sent q k \<Longrightarrow> pr_queue a = stream nm siz snt bs @ [(FtData, Bytes [])] \<Longrightarrow> 2 * length bs < n \<Longrightarrow>
    runs False (relay_loop n js hos (fst_link (peer_link js gos' sha d' pipe')) (snd_link (peer_link js gos sha d pipe)) tot) (h, a, b)
      (\<lambda>t (h', a', b'). t = tot + int (length (concat bs)) \<and> content (pr_world b') path = Some (got @ concat bs) \<and> idle pu b' \<and> pr_queue a' \<noteq> [])"
proof (induction bs arbitrary: got b a snt tot n)
  case Nil
  then obtain m where "n = Suc m" by (cases n) auto
  with relay_end [where sha = sha and got = got, OF doc js Nil.prems(1) _ q Nil.prems(4)] Nil.prems show ?case by simp
next
  case (Cons x bs)
  then obtain m where n: "n = Suc (Suc m)" "2 * length bs < m" by (cases n; cases "n - 1") auto
  have js': "\<And>y. js_text js (Bytes y) = y" using js by (simp add: json_ok_def)
  let ?snt = "snt + int (length x)"
  let ?a = "a\<lparr>pr_queue := stream nm siz ?snt bs @ [(FtData, Bytes [])]\<rparr>"
  have q': "pr_queue a = (FtData, Bytes x) # (FtProgress, PProgress nm ?snt siz) # pr_queue ?a"
    using Cons.prems(5) by (simp add: Let_def)
  have step: "lk_send (peer_link js gos sha d pipe) (FtData, Bytes x) b = (None, b') \<Longrightarrow> within_file content pu meta path (got @ x) b'" for b'
    using Cons.prems(1,3) js' file_writeD(1) [OF doc, of x "pr_world b"]
    by (auto simp: peer_send within_file_def agent_step_def push_data_def hang_up_def Let_def split: prod.splits option.splits)
  have rest: "runs False (relay_loop m js hos (fst_link (peer_link js gos' sha d' pipe')) (snd_link (peer_link js gos sha d pipe)) (tot + int (length x))) (h, ?a, b')
      (\<lambda>t (h', a', b'). t = tot + int (length (concat (x # bs))) \<and> content (pr_world b') path = Some (got @ concat (x # bs)) \<and> idle pu b' \<and> pr_queue a' \<noteq> [])"
    if "lk_send (peer_link js gos sha d pipe) (FtData, Bytes x) b = (None, b')" for b'
    by (rule runs_mono [OF Cons.IH [OF step [OF that], where a = ?a and snt = ?snt]]) (use Cons.prems n in auto)
  obtain e b' where sd: "lk_send (peer_link js gos sha d pipe) (FtData, Bytes x) b = (e, b')" by (rule prod.exhaust)
  have ne: "x \<noteq> []" using Cons.prems(3) by auto
  show ?case
  proof (cases e)
    case None
    from rest [OF sd [unfolded None]] show ?thesis unfolding n relay_loop.simps
      by (simp only: runs_bind runs_check runs_recv runs_send pair_links peer_recv q' js' list.case prod.case recv.case sd None option.case
          Let_def ne if_False if_True ft_differ peer.simps simp_thms) simp
  next
    case (Some m)
    show ?thesis unfolding n relay_loop.simps
      by (simp add: runs_bind runs_check runs_recv runs_send pair_links peer_recv q' sd Some)
  qed
qed


lemma relay_offer_runs:
  assumes doc: "documented_files gos content P" "placed pu (fm_path m) \<in> P" and js: "json_ok js"
    and a: "pr_agent a = Offered q" "pr_queue a = [(FtMeta, PMeta m)]" "of_meta q = m" "os_reads gos' (pr_world a) (of_path q) = (bs, None)"
    and b: "pr_queue b = []" "pr_agent b = PushLoop pu k"
  shows "runs False (relay_offer (fst_link (peer_link js gos' sha d' pipe')) (snd_link (peer_link js gos sha d pipe))) (h, a, b)
    (\<lambda>_ (h', a', b'). h' = h \<and> within_file content pu m (placed pu (fm_path m)) [] b' \<and>
      (pr_agent a' = Closed \<and> pr_queue a' = [] \<or>
       (\<exists>k. pr_agent a' = Sent q k \<and> pr_queue a' = stream (fm_path m) (fm_size m) 0 bs @ [(FtData, Bytes [])])))"
proof -
  have dec: "\<And>m. js_meta js (PMeta m) = Some m" using js by (simp add: json_ok_def)
  obtain st w' out where r: "push_meta js gos pu k (PMeta m) (pr_world b) = ((st, w'), out)" by (metis prod.exhaust)
  from push_meta_answer [OF doc dec r] consider
      k' c n where "st = PushLoop pu k'" "out = [(FtError, PError c n)]"
    | n where "st = Receiving pu k m (placed pu (fm_path m)) []" "out = [(FtMeta, PMeta n)]" "content w' (placed pu (fm_path m)) = Some []"
    by blast
  then show ?thesis
  proof cases
    case 1
    with a b r show ?thesis
      by (auto simp: relay_offer_def run_simps agent_step_def push_loop_def hang_up_def split: prod.split)
  next
    case 2
    with a b r show ?thesis
      by (auto simp: relay_offer_def run_simps agent_step_def push_loop_def hang_up_def send_file_def Let_def within_file_def
          split: prod.split option.split)
  qed
qed

text \<open>The loop after an offer that was taken, and the end of the transfer.\<close>

lemma relay_rest_runs:
  assumes doc: "documented_files gos content P" "path \<in> P" and js: "json_ok js" and q: "of_meta q = m" "fm_sha m = sha (concat bs)"
    and ne: "[] \<notin> set bs" "2 * length bs < n" and b: "within_file content pu m path [] b"
    and a: "pr_agent a = Closed \<and> pr_queue a = [] \<or> (\<exists>k. pr_agent a = Sent q k \<and> pr_queue a = stream nm siz 0 bs @ [(FtData, Bytes [])])"
  shows "runs False (bind_io (relay_loop n js hos (fst_link (peer_link js gos' sha d' pipe')) (snd_link (peer_link js gos sha d pipe)) 0) (\<lambda>tot.
     bind_io (recv_or (fst_link (peer_link js gos' sha d' pipe')) ''read source done'') (\<lambda>_.
     bind_io (send_or (snd_link (peer_link js gos sha d pipe)) ''write dest done'' FtDone (PDone 1 tot 0)) (\<lambda>_.
     bind_io (try_recv (snd_link (peer_link js gos sha d pipe))) (\<lambda>_. ret_io \<lparr>fr_files = 1, fr_bytes = tot, fr_errs = 0\<rparr>))))) (h, a, b)
    (\<lambda>x (h', a', b'). fr_bytes x = int (length (concat bs)) \<and> content (pr_world b') path = Some (concat bs))"
proof (cases "pr_agent a = Closed")
  case True
  with a ne(2) show ?thesis by (cases n) (auto simp: run_simps)
next
  case False
  with a obtain k where k: "pr_agent a = Sent q k" "pr_queue a = stream nm siz 0 bs @ [(FtData, Bytes [])]" by auto
  have sha: "fm_sha m = sha ([] @ concat bs)" using q(2) by simp
  show ?thesis unfolding runs_bind
  proof (rule runs_mono [OF relay_runs [where sha = sha and got = "[]", OF doc js q(1) b sha ne(1) k ne(2)]], goal_cases)
    case (1 t s')
    obtain h' a' b' where s': "s' = (h', a', b')" by (metis prod.exhaust)
    from 1 have t: "t = int (length (concat bs))" "content (pr_world b') path = Some (concat bs)" "idle pu b'" "pr_queue a' \<noteq> []"
      by (simp_all add: s')
    then obtain f fs where f: "pr_queue a' = f # fs" by (cases "pr_queue a'") auto
    from t(3) consider "pr_agent b' = Closed" "pr_queue b' = []" | c where "pr_agent b' = PushLoop pu c" "pr_queue b' = []"
      by (auto simp: idle_def)
    then show ?case
      by cases (use t(1,2) f in \<open>simp_all add: s' run_simps agent_step_def push_loop_def hang_up_def\<close>)
  qed
qed

text \<open>The answers to the two requests.\<close>

lemma pull_answer:
  assumes "json_ok js" "agent_step js os sha depth (FtPull, PPull p) (Start, w) = ((st, w'), out)" "\<not> pl_recursive p"
  shows "w' = w \<and> (st = Closed \<and> (out = [] \<or> (\<exists>c m. out = [(FtError, PError c m)])) \<or>
    (\<exists>q fi bs. st = Offered q \<and> of_path q = pl_path p \<and> of_meta q = file_meta sha (Base (pl_path p)) fi (concat bs) \<and>
      os_reads os w (pl_path p) = (bs, None) \<and> out = [(FtMeta, PMeta (of_meta q))]))"
  using assms by (auto simp: agent_step_def handleFTPull_def json_ok_def refuse_def offer_file_def hang_up_def Let_def
      split: sum.splits if_splits option.splits prod.splits)

lemma push_answer:
  assumes "json_ok js" "agent_step js os sha depth (FtPush, PPush p) (Start, w) = ((st, w'), out)"
  shows "(st = Closed \<and> (\<exists>c m. out = [(FtError, PError c m)])) \<or>
    (st = PushLoop (pushed_to os w (pp_dest p) (pp_overwrite p) (pp_nosync p)) no_counts \<and> (\<exists>d. out = [(FtMkdir, PMkdir d)]))"
  using assms by (auto simp: agent_step_def handleFTPush_def json_ok_def refuse_def pushed_to_def Let_def
      split: if_splits option.splits prod.splits)

text \<open>
  C23: Copying a file from one machine to another through the host, with the agents of both: with
  enough frames allowed for its pieces, the copy does not wait for ever whatever fails in the
  machines, and when it returns, the destination has the file under the source's name, or
  at the given path, with the bytes the source read, as many as are reported.
\<close>

theorem relay_delivers:
  assumes "json_ok js" "documented_reads sos" "documented_files dos content P"
    and "pu = pushed_to dos w dest overwrite False" "placed pu (Base src) \<in> P"
    and "2 * length (fst (os_reads sos g src)) < n"
  shows "\<exists>r h' a' b'. FTCopyVMToVM n js hos (fst_link (peer_link js sos sha d' pipe')) (snd_link (peer_link js dos sha d pipe)) src dest overwrite
      (h, \<lparr>pr_agent = Start, pr_world = g, pr_queue = []\<rparr>, \<lparr>pr_agent = Start, pr_world = w, pr_queue = []\<rparr>) = (r, h', a', b') \<and> (case r of
        Waits \<Rightarrow> False
      | Fails e \<Rightarrow> True
      | Returns x \<Rightarrow> \<exists>bs. os_reads sos g src = (bs, None) \<and> fr_bytes x = int (length (concat bs)) \<and>
          content (pr_world b') (placed pu (Base src)) = Some (concat bs))"
proof -
  let ?s = "fst_link (peer_link js sos sha d' pipe')" and ?d = "snd_link (peer_link js dos sha d pipe)"
  let ?Q = "\<lambda>x (h', a', b'). \<exists>bs. os_reads sos g src = (bs, None) \<and> fr_bytes x = int (length (concat bs)) \<and>
    content (pr_world b') (placed pu (Base src)) = Some (concat bs)"
  let ?rest = "\<lambda>_ :: unit. bind_io (relay_loop n js hos ?s ?d 0) (\<lambda>tot. bind_io (recv_or ?s ''read source done'') (\<lambda>_.
     bind_io (send_or ?d ''write dest done'' FtDone (PDone 1 tot 0)) (\<lambda>_.
     bind_io (try_recv ?d) (\<lambda>_. ret_io \<lparr>fr_files = 1, fr_bytes = tot, fr_errs = 0\<rparr>))))"
  have offered: "runs False (bind_io (relay_offer ?s ?d) ?rest) (h, a, \<lparr>pr_agent = PushLoop pu k, pr_world = v, pr_queue = []\<rparr>) ?Q"
    if "a = \<lparr>pr_agent = Offered q, pr_world = g, pr_queue = [(FtMeta, PMeta (of_meta q))]\<rparr>" "of_path q = src"
      "of_meta q = file_meta sha (Base src) fi (concat bs)" "os_reads sos g src = (bs, None)" for a q fi bs k v
  proof -
    have m: "fm_path (of_meta q) = Base src" "fm_sha (of_meta q) = sha (concat bs)" using that(3) by (simp_all add: file_meta_def)
    have ne: "[] \<notin> set bs" "2 * length bs < n" using assms(2,6) that(4) unfolding documented_reads_def by (metis fst_conv)+
    have o: "runs False (relay_offer ?s ?d) (h, a, \<lparr>pr_agent = PushLoop pu k, pr_world = v, pr_queue = []\<rparr>)
      (\<lambda>_ (h', a', b'). h' = h \<and> within_file content pu (of_meta q) (placed pu (fm_path (of_meta q))) [] b' \<and>
      (pr_agent a' = Closed \<and> pr_queue a' = [] \<or>
       (\<exists>k. pr_agent a' = Sent q k \<and> pr_queue a' = stream (fm_path (of_meta q)) (fm_size (of_meta q)) 0 bs @ [(FtData, Bytes [])])))"
      by (rule relay_offer_runs [OF assms(3) _ assms(1)]) (simp_all add: that(1,2,4) m assms(5))
    show ?thesis unfolding runs_bind [of False "relay_offer ?s ?d"]
    proof (rule runs_mono [OF o], goal_cases)
      case (1 x s')
      obtain h' a' b' where s': "s' = (h', a', b')" by (metis prod.exhaust)
      from 1 have b: "within_file content pu (of_meta q) (placed pu (Base src)) [] b'" and a: "pr_agent a' = Closed \<and> pr_queue a' = [] \<or>
          (\<exists>k. pr_agent a' = Sent q k \<and> pr_queue a' = stream (fm_path (of_meta q)) (fm_size (of_meta q)) 0 bs @ [(FtData, Bytes [])])"
        by (simp_all add: s' m)
      show ?case unfolding s'
        by (rule runs_mono [OF relay_rest_runs [where sha = sha, OF assms(3,5,1) refl m(2) ne b a]]) (use that(4) in auto)
    qed
  qed
  have "runs False (FTCopyVMToVM n js hos ?s ?d src dest overwrite)
      (h, \<lparr>pr_agent = Start, pr_world = g, pr_queue = []\<rparr>, \<lparr>pr_agent = Start, pr_world = w, pr_queue = []\<rparr>) ?Q"
  proof -
    let ?pull = "PPull \<lparr>pl_path = src, pl_dest = '''', pl_overwrite = overwrite, pl_recursive = False\<rparr>"
    let ?push = "PPush \<lparr>pp_paths = [], pp_dest = dest, pp_overwrite = overwrite, pp_nosync = False\<rparr>"
    obtain st g' out where a: "agent_step js sos sha d' (FtPull, ?pull) (Start, g) = ((st, g'), out)" by (metis prod.exhaust)
    obtain st' w' out' where b: "agent_step js dos sha d (FtPush, ?push) (Start, w) = ((st', w'), out')" by (metis prod.exhaust)
    let ?a = "\<lparr>pr_agent = st, pr_world = g', pr_queue = out\<rparr>"
    have start: "runs False (FTCopyVMToVM n js hos ?s ?d src dest overwrite)
        (h, \<lparr>pr_agent = Start, pr_world = g, pr_queue = []\<rparr>, \<lparr>pr_agent = Start, pr_world = w, pr_queue = []\<rparr>) ?Q \<longleftrightarrow>
      runs False (bind_io (expect_frame ?d ''read dest mkdir'' ''dest mkdir'' FtMkdir) (\<lambda>_. bind_io (relay_offer ?s ?d) ?rest))
        (h, ?a, \<lparr>pr_agent = st', pr_world = w', pr_queue = out'\<rparr>) ?Q"
      unfolding FTCopyVMToVM_def runs_bind by (simp add: runs_send pair_links peer_send a b)
    show ?thesis
    proof (cases "st' = Closed")
      case True
      with push_answer [OF assms(1) b] show ?thesis unfolding start by (auto simp: expect_frame_def run_simps)
    next
      case False
      with push_answer [OF assms(1) b] assms(4) obtain x where b': "st' = PushLoop pu no_counts" "out' = [(FtMkdir, PMkdir x)]"
        by (auto simp: pushed_to_def)
      have rest: "runs False (bind_io (relay_offer ?s ?d) ?rest) (h, ?a, \<lparr>pr_agent = PushLoop pu no_counts, pr_world = w', pr_queue = []\<rparr>) ?Q"
      proof (cases "st = Closed")
        case True
        with pull_answer [OF assms(1) a] show ?thesis by (auto simp: relay_offer_def run_simps)
      next
        case False
        with pull_answer [OF assms(1) a] obtain q fi bs where "g' = g" "st = Offered q" "of_path q = src"
          "of_meta q = file_meta sha (Base src) fi (concat bs)" "os_reads sos g src = (bs, None)" "out = [(FtMeta, PMeta (of_meta q))]" by auto
        then show ?thesis by (intro offered) simp_all
      qed
      show ?thesis unfolding start runs_bind [of False "expect_frame _ _ _ _"]
        by (simp only: expect_frame_def runs_bind [of False "recv_or _ _"] runs_recv pair_links peer_recv b' peer.simps list.case prod.case recv.case)
          (use rest in \<open>simp add: runs_ret\<close>)
    qed
  qed
  from runs_returns [OF this] obtain r s' where
    eq: "FTCopyVMToVM n js hos ?s ?d src dest overwrite
      (h, \<lparr>pr_agent = Start, pr_world = g, pr_queue = []\<rparr>, \<lparr>pr_agent = Start, pr_world = w, pr_queue = []\<rparr>) = (r, s')"
    and post: "case r of Returns x \<Rightarrow> ?Q x s' | Fails e \<Rightarrow> True | Waits \<Rightarrow> False" by blast
  obtain h' a' b' where s': "s' = (h', a', b')" by (metis prod.exhaust)
  show ?thesis by (intro exI conjI, rule eq [unfolded s']) (use post in \<open>simp add: s' cong: outcome.case_cong\<close>)
qed

lemma relay_delivers_witness:
  "\<exists>h' a' b'. FTCopyVMToVM 9 plain_json small_os (fst_link (peer_link plain_json small_os (\<lambda>b. ''h'') 1 True))
      (snd_link (peer_link plain_json small_os (\<lambda>b. ''h'') 1 True)) ''/home/a'' ''/srv/'' False
      ((\<lambda>p. None), \<lparr>pr_agent = Start, pr_world = home_files, pr_queue = []\<rparr>, \<lparr>pr_agent = Start, pr_world = (\<lambda>p. None), pr_queue = []\<rparr>) =
      (Returns \<lparr>fr_files = 1, fr_bytes = 2, fr_errs = 0\<rparr>, h', a', b') \<and> pr_world b' ''/srv/a'' = Some [1, 2]"
proof -
  let ?run = "FTCopyVMToVM 9 plain_json small_os (fst_link (peer_link plain_json small_os (\<lambda>b. ''h'') 1 True))
      (snd_link (peer_link plain_json small_os (\<lambda>b. ''h'') 1 True)) ''/home/a'' ''/srv/'' False
      ((\<lambda>p. None), \<lparr>pr_agent = Start, pr_world = home_files, pr_queue = []\<rparr>, \<lparr>pr_agent = Start, pr_world = (\<lambda>p. None), pr_queue = []\<rparr>)"
  let ?pu = "pushed_to small_os (\<lambda>p. None) ''/srv/'' False False" and ?x = "\<lparr>fr_files = 1, fr_bytes = 2, fr_errs = 0\<rparr>"
  have run: "fst ?run = Returns ?x" by code_simp
  obtain h' a' b' where eq: "?run = (Returns ?x, h', a', b')" using run by (metis prod.collapse)
  have at: "placed ?pu (Base ''/home/a'') = ''/srv/a''" by code_simp
  have rd: "os_reads small_os home_files ''/home/a'' = ([[1, 2]], None)" by code_simp
  have n: "2 * length (fst (os_reads small_os home_files ''/home/a'')) < 9" by (simp add: rd)
  from relay_delivers [OF plain_json_ok small_reads small_files [of UNIV] refl UNIV_I n, where hos = small_os and sha = "\<lambda>b. ''h''"
      and h = "\<lambda>p. None" and d = 1 and d' = 1 and pipe = True and pipe' = True and dest = "''/srv/''" and overwrite = False
      and w = "\<lambda>p. None"]
  obtain bs where "os_reads small_os home_files ''/home/a'' = (bs, None)" "pr_world b' (placed ?pu (Base ''/home/a'')) = Some (concat bs)"
    unfolding eq prod.inject by (elim exE conjE, hypsubst, unfold outcome.case) blast
  with eq rd at show ?thesis by auto
qed

end
