(* ===== verification/EnvData.thy ===== *)
theory EnvData
  imports Pipeline GoStrings Errs
begin

text \<open>
  The data of environment specifications (\<open>internal/workflow/env\<close>): names and references, the
  state that a step leaves, its conversion to and from a map, and the saved state of a workflow.
  The YAML library is a parameter: how it reads a value into a string or an integer field, how it
  decodes a specification into the input of a step, and the hash of a specification's text.
\<close>

subsection \<open>Names and references\<close>

definition FormatStepName :: "string \<Rightarrow> string \<Rightarrow> string" where
  "FormatStepName ty n = ty @ '':'' @ n"

definition InferStepType :: "string \<Rightarrow> string" where
  "InferStepType n = (case Index n '':'' of
     Some i \<Rightarrow> if 0 < i then take i n else ''unknown''
   | None \<Rightarrow> ''unknown'')"

definition BareStepName :: "string \<Rightarrow> string \<Rightarrow> string" where
  "BareStepName n ty = (if HasPrefix n (ty @ '':'') \<and> n \<noteq> ty @ '':'' then TrimPrefix n (ty @ '':'') else n)"

fun strip_item :: "any \<Rightarrow> any" where
  "strip_item (AStr s) = AStr (TrimPrefix s ''@'')"
| "strip_item v = v"

fun stripRefPrefix :: "any \<Rightarrow> any" where
  "stripRefPrefix (AStr s) = AStr (TrimPrefix s ''@'')"
| "stripRefPrefix (AList vs) = AList (map strip_item vs)"
| "stripRefPrefix v = v"

definition stripSpecRefs :: "resource_map \<Rightarrow> resource_map" where
  "stripSpecRefs m = (\<lambda>k. map_option stripRefPrefix (m k))"

definition stripBareName :: "string \<Rightarrow> string" where
  "stripBareName s = (case Cut s CHR '':'' of (_, after, found) \<Rightarrow> if found \<and> after \<noteq> '''' then after else s)"

text \<open>Strip the type off the references in the given fields.\<close>

fun strip_fields :: "string list \<Rightarrow> resource_map \<Rightarrow> resource_map" where
  "strip_fields [] m = m"
| "strip_fields (f # fs) m = strip_fields fs (case m f of Some (AStr s) \<Rightarrow> m(f \<mapsto> AStr (stripBareName s)) | _ \<Rightarrow> m)"

definition entries :: "resource_map option \<Rightarrow> resource_map" where
  "entries m = (case m of None \<Rightarrow> Map.empty | Some f \<Rightarrow> f)"

subsection \<open>The state of a step\<close>

datatype step_state =
    NetworkState string string
  | KeyState string
  | ImageState string
  | ImageImportState string
  | KernelState string
  | BinaryState string
  | VMState string string int string
  | SSHState string
  | ExecState string
  | CPState string

text \<open>The fields of the steps' input structs that the steps look at; the others are passed on as they are.\<close>

record env_input =
  in_name :: string
  in_type :: string
  in_version :: string
  in_kernel :: "string option"
  in_binary :: "string option"
  in_image :: "string option"
  in_network :: "string option"
  in_keys :: "string list"
  in_nat :: bool
  in_command :: string
  in_cmd :: "string option"
  in_sources :: "string list"
  in_env :: "string \<rightharpoonup> string"
  in_rest :: resource_map

record yaml =
  y_text :: "any \<Rightarrow> string option"
  y_int :: "any \<Rightarrow> int option"
  y_input :: "string \<Rightarrow> resource_map \<Rightarrow> (string, env_input) res"
  y_hash :: "resource_map \<Rightarrow> string"

definition yaml_ok :: "yaml \<Rightarrow> bool" where
  "yaml_ok y \<longleftrightarrow> (\<forall>s. y_text y (AStr s) = Some s) \<and> (\<forall>i. y_int y (AInt i) = Some i)"

fun StructToMap :: "step_state \<Rightarrow> resource_map" where
  "StructToMap (NetworkState i sn) = [''network_id'' \<mapsto> AStr i, ''subnet'' \<mapsto> AStr sn]"
| "StructToMap (KeyState i) = [''key_id'' \<mapsto> AStr i]"
| "StructToMap (ImageState i) = [''image_id'' \<mapsto> AStr i]"
| "StructToMap (ImageImportState i) = [''image_id'' \<mapsto> AStr i]"
| "StructToMap (KernelState i) = [''kernel_id'' \<mapsto> AStr i]"
| "StructToMap (BinaryState i) = [''binary_id'' \<mapsto> AStr i]"
| "StructToMap (VMState i dir port tap) = ([''vm_id'' \<mapsto> AStr i, ''vm_dir'' \<mapsto> AStr dir] ++
     (if port = 0 then Map.empty else [''nocloud_port'' \<mapsto> AInt port])) ++
     (if tap = '''' then Map.empty else [''tap_name'' \<mapsto> AStr tap])"
| "StructToMap (SSHState c) = [''command'' \<mapsto> AStr c]"
| "StructToMap (ExecState c) = [''command'' \<mapsto> AStr c]"
| "StructToMap (CPState s) = [''source'' \<mapsto> AStr s]"

text \<open>A field that is absent keeps its zero value; one that cannot be read makes the decoding fail.\<close>

definition text_field :: "yaml \<Rightarrow> resource_map \<Rightarrow> string \<Rightarrow> string option" where
  "text_field y m k = (case m k of None \<Rightarrow> Some '''' | Some v \<Rightarrow> y_text y v)"

definition int_field :: "yaml \<Rightarrow> resource_map \<Rightarrow> string \<Rightarrow> int option" where
  "int_field y m k = (case m k of None \<Rightarrow> Some 0 | Some v \<Rightarrow> y_int y v)"

definition decode_state :: "yaml \<Rightarrow> string \<Rightarrow> resource_map \<Rightarrow> step_state option" where
  "decode_state y ty m =
     (if ty = ''network'' then (case (text_field y m ''network_id'', text_field y m ''subnet'') of
        (Some i, Some sn) \<Rightarrow> Some (NetworkState i sn) | _ \<Rightarrow> None)
      else if ty = ''key'' then map_option KeyState (text_field y m ''key_id'')
      else if ty = ''image'' then map_option ImageState (text_field y m ''image_id'')
      else if ty = ''image_import'' then map_option ImageImportState (text_field y m ''image_id'')
      else if ty = ''kernel'' then map_option KernelState (text_field y m ''kernel_id'')
      else if ty = ''binary'' then map_option BinaryState (text_field y m ''binary_id'')
      else if ty = ''vm'' then (case (text_field y m ''vm_id'', text_field y m ''vm_dir'', int_field y m ''nocloud_port'', text_field y m ''tap_name'') of
        (Some i, Some dir, Some port, Some tap) \<Rightarrow> Some (VMState i dir port tap) | _ \<Rightarrow> None)
      else if ty = ''ssh'' then map_option SSHState (text_field y m ''command'')
      else if ty = ''exec'' then map_option ExecState (text_field y m ''command'')
      else if ty = ''copy'' then map_option CPState (text_field y m ''source'')
      else None)"

definition StateFromMap :: "yaml \<Rightarrow> string \<Rightarrow> resource_map option \<Rightarrow> step_state option" where
  "StateFromMap y ty m = (case m of None \<Rightarrow> None | Some f \<Rightarrow> decode_state y ty f)"

fun state_type :: "step_state \<Rightarrow> string" where
  "state_type (NetworkState _ _) = ''network''"
| "state_type (KeyState _) = ''key''"
| "state_type (ImageState _) = ''image''"
| "state_type (ImageImportState _) = ''image_import''"
| "state_type (KernelState _) = ''kernel''"
| "state_type (BinaryState _) = ''binary''"
| "state_type (VMState _ _ _ _) = ''vm''"
| "state_type (SSHState _) = ''ssh''"
| "state_type (ExecState _) = ''exec''"
| "state_type (CPState _) = ''copy''"

lemma field_simps_yaml [simp]:
  "yaml_ok y \<Longrightarrow> m k = Some (AStr s) \<Longrightarrow> text_field y m k = Some s"
  "m k = None \<Longrightarrow> text_field y m k = Some ''''"
  "yaml_ok y \<Longrightarrow> m k = Some (AInt i) \<Longrightarrow> int_field y m k = Some i"
  "m k = None \<Longrightarrow> int_field y m k = Some 0"
  by (simp_all add: text_field_def int_field_def yaml_ok_def)

text \<open>What a step saves, it gets back.\<close>

lemma state_roundtrip: "yaml_ok y \<Longrightarrow> StateFromMap y (state_type s) (Some (StructToMap s)) = Some s"
  by (cases s) (simp_all add: StateFromMap_def decode_state_def)

lemma InferStepType_Format: "ty \<noteq> '''' \<Longrightarrow> CHR '':'' \<notin> set ty \<Longrightarrow> InferStepType (FormatStepName ty n) = ty"
proof -
  assume "ty \<noteq> ''''" "CHR '':'' \<notin> set ty"
  moreover have "CHR '':'' \<notin> set t \<Longrightarrow> Index (t @ '':'' @ n) '':'' = Some (length t)" for t
    by (induction t) (auto simp: HasPrefix_def)
  ultimately show ?thesis by (simp add: InferStepType_def FormatStepName_def)
qed

lemma BareStepName_Format: "n \<noteq> '''' \<Longrightarrow> BareStepName (FormatStepName ty n) ty = n"
  by (auto simp: BareStepName_def FormatStepName_def HasPrefix_def TrimPrefix_def)

subsection \<open>The saved workflow\<close>

record workflow_state =
  wf_id :: string
  wf_spec :: string
  wf_schema :: string
  wf_created :: string
  wf_updated :: string
  wf_hash :: string
  wf_resources :: "applied_resource list"

end
