(* ===== verification/EnvSteps.thy ===== *)
theory EnvSteps
  imports EnvData
begin

text \<open>
  The steps of an environment (\<open>internal/workflow/env/step_*.go\<close>). \<open>Apply\<close> and \<open>Destroy\<close> run
  concurrently with those of other steps, so each is a process: it calls the API, which is an
  interface to it, reads and writes the shared state, hands its state to the writer, and returns.
  The progress messages in between are left out.
\<close>

subsection \<open>Calls of the API\<close>

datatype request =
    NetworkGet string bool | NetworkCreate env_input | NetworkRemove string
  | KeyGet string | KeyCreate env_input | KeyRemove string
  | ImageGet string | ImagePull env_input | ImageImport env_input | ImageRemove string
  | KernelGet string | KernelPull env_input | KernelRemove string
  | BinaryGet string | BinaryPull env_input | BinaryRemove string
  | VMGet string | VMCreate env_input | VMRemove string bool
  | VolumeRemove string | SnapshotRemove string
  | SSHConnect env_input | ExecCall env_input | CPCopy env_input

record item =
  it_id :: string
  it_subnet :: string
  it_version :: string
  it_present :: bool
  it_rootfs :: string
  it_port :: "int option"
  it_tap :: string

text \<open>
  An answer: an error, the items found or made (none for a nil pointer), the results of a
  removal, each with its error if there is one, or the exit code of a command, if there is one.
\<close>

datatype response = Failure err | Gives "item list" | Batch "err option list" | ExitCode "int option"

fun gives :: "response \<Rightarrow> (err, item list) res" where
  "gives (Failure e) = Err e"
| "gives (Gives xs) = Ok xs"
| "gives _ = Ok []"

definition first_item :: "item list \<Rightarrow> item option" where
  "first_item xs = (case xs of [] \<Rightarrow> None | x # _ \<Rightarrow> Some x)"

text \<open>The first error of a removal: every caller returns at it.\<close>

fun first_error :: "response \<Rightarrow> err option" where
  "first_error (Failure e) = Some e"
| "first_error (Batch es) = (case find_first (\<lambda>e. e \<noteq> None) es of Some e \<Rightarrow> e | None \<Rightarrow> None)"
| "first_error _ = None"

subsection \<open>Processes\<close>

datatype proc =
    Call request "response \<Rightarrow> proc"
  | Share string step_state proc
  | Look string "step_state option \<Rightarrow> proc"
  | Persist resource_state "string option \<Rightarrow> proc"
  | Done "string option"

record env_step =
  es_type :: string
  es_name :: string
  es_deps :: "string list"
  es_removes :: "string list"
  es_hash :: string
  es_input :: env_input
  es_spec :: "resource_map option"
  es_ignore :: bool
  es_op :: bool
  es_saved :: "step_state option"
  es_meta :: resource_meta

definition sname :: "env_step \<Rightarrow> string" where
  "sname s = FormatStepName (es_type s) (es_name s)"

definition q_text :: "string \<Rightarrow> string" where
  "q_text s = [CHR 0x22] @ s @ [CHR 0x22]"

definition state_data :: "env_step \<Rightarrow> step_state option \<Rightarrow> resource_meta \<Rightarrow> resource_state" where
  "state_data s st meta = (case st of
     None \<Rightarrow> zero_state
   | Some x \<Rightarrow> \<lparr>rs_spec = es_spec s, rs_output = Some (StructToMap x), rs_meta = meta\<rparr>)"

definition persist :: "string \<Rightarrow> resource_state \<Rightarrow> proc" where
  "persist what d = Persist d (\<lambda>r. Done (map_option (\<lambda>e. what @ '': '' @ e) r))"

text \<open>The end of an \<open>Apply\<close>: the state goes to the other steps and to the writer.\<close>

definition keep_state :: "string \<Rightarrow> env_step \<Rightarrow> step_state \<Rightarrow> bool \<Rightarrow> proc" where
  "keep_state what s st created = Share (sname s) st
     (persist what (state_data s (Some st) \<lparr>rm_was_created = created, rm_spec_hash = es_hash s\<rparr>))"

definition with_op :: "env_step \<Rightarrow> proc \<Rightarrow> proc" where
  "with_op s p = (if es_op s then p else Done (Some (sname s @ '': operation not initialized (nil op)'')))"

text \<open>Create a resource, which never answers with a nil pointer and no error.\<close>

definition create_new :: "env_step \<Rightarrow> request \<Rightarrow> string \<Rightarrow> (item \<Rightarrow> step_state) \<Rightarrow> proc" where
  "create_new s create none new = Call create (\<lambda>r. case gives r of
     Inl e \<Rightarrow> Done (Some (err_text e))
   | Inr xs \<Rightarrow> (case first_item xs of
       None \<Rightarrow> Done (Some none)
     | Some x \<Rightarrow> keep_state ''persist step state'' s (new x) True))"

definition provision :: "env_step \<Rightarrow> resource_state \<Rightarrow> request \<Rightarrow> string \<Rightarrow> (item list \<Rightarrow> item option) \<Rightarrow> (item \<Rightarrow> step_state) \<Rightarrow> proc \<Rightarrow> proc" where
  "provision s saved get what pick old create = Call get (\<lambda>r. case gives r of
     Inl e \<Rightarrow> if \<not> IsNotFound e then Done (Some (what @ '': '' @ err_text e)) else create
   | Inr xs \<Rightarrow> (case pick xs of
       Some x \<Rightarrow> keep_state ''persist step state after skip'' s (old x) (rm_was_created (rs_meta saved))
     | None \<Rightarrow> create))"

definition nil_pointer :: string where
  "nil_pointer = ''invalid memory address or nil pointer dereference''"

subsection \<open>Apply\<close>

definition network_state :: "item \<Rightarrow> step_state" where
  "network_state x = NetworkState (it_id x) (it_subnet x)"

definition network_apply :: "env_step \<Rightarrow> resource_state \<Rightarrow> proc" where
  "network_apply s saved = with_op s (let n = in_name (es_input s) in
     provision s saved (NetworkGet n False) (''check network '' @ q_text n) first_item network_state
       (create_new s (NetworkCreate (es_input s)) nil_pointer network_state))"

definition key_apply :: "env_step \<Rightarrow> resource_state \<Rightarrow> proc" where
  "key_apply s saved = with_op s (let n = in_name (es_input s) in
     provision s saved (KeyGet n) (''check key '' @ q_text n) first_item (KeyState \<circ> it_id)
       (create_new s (KeyCreate (es_input s)) nil_pointer (KeyState \<circ> it_id)))"

definition image_apply :: "env_step \<Rightarrow> resource_state \<Rightarrow> proc" where
  "image_apply s saved = with_op s (let n = in_type (es_input s) in
     provision s saved (ImageGet n) (''check image type '' @ q_text n) first_item (ImageState \<circ> it_id)
       (create_new s (ImagePull (es_input s)) nil_pointer (ImageState \<circ> it_id)))"

definition image_import_apply :: "env_step \<Rightarrow> resource_state \<Rightarrow> proc" where
  "image_import_apply s saved = with_op s (create_new s (ImageImport (es_input s)) nil_pointer (ImageImportState \<circ> it_id))"

definition kernel_apply :: "env_step \<Rightarrow> resource_state \<Rightarrow> proc" where
  "kernel_apply s saved = with_op s (let n = in_type (es_input s) in
     provision s saved (KernelGet n) (''check kernel type '' @ q_text n) first_item (KernelState \<circ> it_id)
       (create_new s (KernelPull (es_input s)) nil_pointer (KernelState \<circ> it_id)))"

definition same_version :: "env_step \<Rightarrow> item list \<Rightarrow> item option" where
  "same_version s = find_first (\<lambda>x. it_version x = in_version (es_input s))"

definition binary_apply :: "env_step \<Rightarrow> resource_state \<Rightarrow> proc" where
  "binary_apply s saved = with_op s (let n = in_type (es_input s) in
     provision s saved (BinaryGet n) (''check binary '' @ q_text n) (same_version s) (BinaryState \<circ> it_id)
       (create_new s (BinaryPull (es_input s)) (''binary pull returned no items for '' @ q_text n) (BinaryState \<circ> it_id)))"

text \<open>A reference to a step of this run becomes the identifier it has left in the shared state.\<close>

definition step_ref :: "string \<Rightarrow> step_state option \<Rightarrow> string" where
  "step_ref n r = (case r of
     Some (NetworkState i _) \<Rightarrow> i | Some (KernelState i) \<Rightarrow> i | Some (ImageState i) \<Rightarrow> i | Some (BinaryState i) \<Rightarrow> i
   | _ \<Rightarrow> n)"

definition resolveStepRef :: "string \<Rightarrow> string option \<Rightarrow> (string option \<Rightarrow> proc) \<Rightarrow> proc" where
  "resolveStepRef ty ref k = (case ref of
     None \<Rightarrow> k None
   | Some n \<Rightarrow> if n = '''' then k None else Look (ty @ '':'' @ n) (\<lambda>r. k (Some (step_ref n r))))"

definition new_vm :: "item \<Rightarrow> step_state" where
  "new_vm x = VMState (it_id x) (it_rootfs x) (case it_port x of None \<Rightarrow> 0 | Some p \<Rightarrow> p) (it_tap x)"

definition old_vm :: "item \<Rightarrow> step_state" where
  "old_vm x = VMState (it_id x) (it_rootfs x) 0 ''''"

definition vm_apply :: "env_step \<Rightarrow> resource_state \<Rightarrow> proc" where
  "vm_apply s saved = with_op s (let i = es_input s in
     resolveStepRef ''kernel'' (in_kernel i) (\<lambda>kern. resolveStepRef ''binary'' (in_binary i) (\<lambda>bin.
     resolveStepRef ''image'' (in_image i) (\<lambda>img. resolveStepRef ''network'' (in_network i) (\<lambda>net.
       provision s saved (VMGet (es_name s)) (''check vm '' @ q_text (es_name s)) first_item old_vm
         (create_new s (VMCreate (i\<lparr>in_kernel := kern, in_binary := bin, in_image := img, in_network := net\<rparr>))
           (''vm create returned zero VMs for '' @ q_text (in_name i)) new_vm))))))"

definition ssh_apply :: "env_step \<Rightarrow> resource_state \<Rightarrow> proc" where
  "ssh_apply s saved = Call (SSHConnect (es_input s)) (\<lambda>r. case gives r of
     Inl e \<Rightarrow> Done (Some (err_text e))
   | Inr _ \<Rightarrow> keep_state ''persist step state'' s (SSHState (case in_cmd (es_input s) of None \<Rightarrow> '''' | Some c \<Rightarrow> c)) True)"

definition exec_apply :: "env_step \<Rightarrow> resource_state \<Rightarrow> proc" where
  "exec_apply s saved = (if in_command (es_input s) = '''' then Done (Some (sname s @ '': empty command''))
     else Call (ExecCall (es_input s)) (\<lambda>r. case r of
       Failure e \<Rightarrow> Done (Some (err_text e))
     | ExitCode (Some n) \<Rightarrow> if n \<noteq> 0 \<and> \<not> es_ignore s
         then Done (Some (sname s @ '': command exited with code '' @ Itoa n))
         else keep_state ''persist step state'' s (ExecState (in_command (es_input s))) True
     | _ \<Rightarrow> keep_state ''persist step state'' s (ExecState (in_command (es_input s))) True))"

definition copy_apply :: "env_step \<Rightarrow> resource_state \<Rightarrow> proc" where
  "copy_apply s saved = Call (CPCopy (es_input s)) (\<lambda>r. case gives r of
     Inl e \<Rightarrow> Done (Some (err_text e))
   | Inr _ \<Rightarrow> keep_state ''persist step state'' s (CPState (case in_sources (es_input s) of [] \<Rightarrow> '''' | x # _ \<Rightarrow> x)) True)"

subsection \<open>Destroy\<close>

text \<open>The state and metadata a \<open>Destroy\<close> works on: the step's own, or else those that were saved.\<close>

definition recover :: "yaml \<Rightarrow> env_step \<Rightarrow> resource_state \<Rightarrow> step_state option \<times> resource_meta" where
  "recover y s saved = (case es_saved s of
     Some st \<Rightarrow> (Some st, es_meta s)
   | None \<Rightarrow> ((case StateFromMap y (es_type s) (rs_output saved) of
       Some st \<Rightarrow> Some st | None \<Rightarrow> StateFromMap y (es_type s) (rs_spec saved)), rs_meta saved))"

definition after_destroy :: "string \<Rightarrow> env_step \<Rightarrow> step_state option \<times> resource_meta \<Rightarrow> proc" where
  "after_destroy what s own = persist what (state_data s (fst own) (snd own))"

definition remove_network :: "env_step \<Rightarrow> step_state option \<times> resource_meta \<Rightarrow> string \<Rightarrow> proc" where
  "remove_network s own i = Call (NetworkRemove i) (\<lambda>r. case gives r of
     Inl e \<Rightarrow> if IsNotFound e then after_destroy ''persist step state after destroy skip'' s own else Done (Some (err_text e))
   | Inr _ \<Rightarrow> after_destroy ''persist step state after destroy'' s own)"

text \<open>A network that was there before is removed only if it has been marked as deleted since.\<close>

definition network_destroy :: "yaml \<Rightarrow> env_step \<Rightarrow> resource_state \<Rightarrow> proc" where
  "network_destroy y s saved = with_op s (let own = recover y s saved in
     case fst own of
       Some (NetworkState i sn) \<Rightarrow>
         if rm_was_created (snd own) then remove_network s own i
         else if i = '''' then after_destroy ''persist step state after destroy skip'' s own
         else Call (NetworkGet i True) (\<lambda>r. case gives r of
             Inr (x # _) \<Rightarrow> if \<not> it_present x then remove_network s own i
               else after_destroy ''persist step state after destroy skip'' s own
           | _ \<Rightarrow> after_destroy ''persist step state after destroy skip'' s own)
     | _ \<Rightarrow> after_destroy ''persist step state after destroy skip'' s own)"

definition key_destroy :: "yaml \<Rightarrow> env_step \<Rightarrow> resource_state \<Rightarrow> proc" where
  "key_destroy y s saved = with_op s (let own = recover y s saved in
     case fst own of
       Some (KeyState i) \<Rightarrow>
         if \<not> rm_was_created (snd own) then after_destroy ''persist step state after destroy skip'' s own
         else Call (KeyRemove i) (\<lambda>r. case first_error r of
             Some e \<Rightarrow> if IsNotFound e then after_destroy ''persist step state after destroy skip'' s own else Done (Some (err_text e))
           | None \<Rightarrow> after_destroy ''persist step state after destroy'' s own)
     | _ \<Rightarrow> after_destroy ''persist step state after destroy skip'' s own)"

definition vm_to_remove :: "env_step \<Rightarrow> step_state option \<Rightarrow> string" where
  "vm_to_remove s st = (case st of
     Some (VMState i _ _ _) \<Rightarrow> if i \<noteq> '''' then i else es_name s
   | _ \<Rightarrow> es_name s)"

definition vm_destroy :: "yaml \<Rightarrow> env_step \<Rightarrow> resource_state \<Rightarrow> proc" where
  "vm_destroy y s saved = with_op s (let own = recover y s saved; i = vm_to_remove s (fst own) in
     Call (VMGet i) (\<lambda>r. case gives r of
       Inl e \<Rightarrow> if \<not> IsNotFound e then Done (Some (''check vm '' @ q_text i @ '' for destroy: '' @ err_text e))
         else after_destroy ''persist step state after destroy skip'' s own
     | Inr [] \<Rightarrow> after_destroy ''persist step state after destroy skip'' s own
     | Inr (x # _) \<Rightarrow> Call (VMRemove i True) (\<lambda>r. case first_error r of
           Some e \<Rightarrow> Done (Some (err_text e))
         | None \<Rightarrow> after_destroy ''persist step state after destroy'' s own)))"

text \<open>Images, kernels and binaries stay; commands and copies leave nothing to undo.\<close>

definition pulled_destroy :: "yaml \<Rightarrow> env_step \<Rightarrow> resource_state \<Rightarrow> proc" where
  "pulled_destroy y s saved = with_op s (after_destroy ''persist step state after destroy'' s (recover y s saved))"

definition imperative_destroy :: "yaml \<Rightarrow> env_step \<Rightarrow> resource_state \<Rightarrow> proc" where
  "imperative_destroy y s saved = after_destroy ''persist step state after destroy'' s (recover y s saved)"

subsection \<open>Steps from specifications and from saved state\<close>

text \<open>\<open>op\<close> says whether the API the steps are to use is there.\<close>

definition base_step :: "yaml \<Rightarrow> string \<Rightarrow> string \<Rightarrow> resource_map \<Rightarrow> resource_map \<Rightarrow> env_input \<Rightarrow> env_step" where
  "base_step y ty n spec hashed i = \<lparr>es_type = ty, es_name = n, es_deps = GetStringList spec ''depends_on'',
     es_removes = GetStringList spec ''removes'', es_hash = y_hash y hashed, es_input = i, es_spec = Some spec,
     es_ignore = False, es_op = True, es_saved = None, es_meta = \<lparr>rm_was_created = False, rm_spec_hash = ''''\<rparr>\<rparr>"

definition decoded :: "yaml \<Rightarrow> string \<Rightarrow> bool \<Rightarrow> resource_map \<Rightarrow> (env_input \<Rightarrow> env_step) \<Rightarrow> (string, env_step) res" where
  "decoded y ty op m f = (if \<not> op then Err ''operation not initialized'' else bind_res (y_input y ty m) (\<lambda>i. Ok (f i)))"

definition default_name :: "string \<Rightarrow> env_input \<Rightarrow> env_input" where
  "default_name n i = (if in_name i = '''' then i\<lparr>in_name := n\<rparr> else i)"

definition newNetworkStepFromSpec :: "yaml \<Rightarrow> string \<Rightarrow> string \<Rightarrow> resource_map \<Rightarrow> bool \<Rightarrow> (string, env_step) res" where
  "newNetworkStepFromSpec y ty n spec op = decoded y ty op spec (\<lambda>i. base_step y ty n spec spec
     ((default_name n i)\<lparr>in_nat := (if spec ''nat_enabled'' \<noteq> None then GetBool spec ''nat_enabled'' else True)\<rparr>))"

definition newKeyStepFromSpec :: "yaml \<Rightarrow> string \<Rightarrow> string \<Rightarrow> resource_map \<Rightarrow> bool \<Rightarrow> (string, env_step) res" where
  "newKeyStepFromSpec y ty n spec op = decoded y ty op spec (\<lambda>i. base_step y ty n spec spec (default_name n i))"

definition newImageStepFromSpec :: "yaml \<Rightarrow> string \<Rightarrow> string \<Rightarrow> resource_map \<Rightarrow> bool \<Rightarrow> (string, env_step) res" where
  "newImageStepFromSpec y ty n spec op = decoded y ty op spec (base_step y ty n spec spec)"

definition newKernelStepFromSpec :: "yaml \<Rightarrow> string \<Rightarrow> string \<Rightarrow> resource_map \<Rightarrow> bool \<Rightarrow> (string, env_step) res" where
  "newKernelStepFromSpec y ty n spec op = decoded y ty op spec (\<lambda>i. base_step y ty n spec spec
     (let k = GetString spec ''type'' in if k \<noteq> '''' then i\<lparr>in_type := k\<rparr> else i))"

definition newBinaryStepFromSpec :: "yaml \<Rightarrow> string \<Rightarrow> string \<Rightarrow> resource_map \<Rightarrow> bool \<Rightarrow> (string, env_step) res" where
  "newBinaryStepFromSpec y ty n spec op = decoded y ty op spec (base_step y ty n spec spec)"

definition non_empty :: "string option \<Rightarrow> string option" where
  "non_empty r = (if r = Some '''' then None else r)"

definition vm_input :: "string \<Rightarrow> resource_map \<Rightarrow> env_input \<Rightarrow> env_input" where
  "vm_input n spec i = (let k = GetString spec ''key''; j = default_name n i
     in j\<lparr>in_keys := (if k \<noteq> '''' \<and> in_keys j = [] then [k] else in_keys j), in_network := non_empty (in_network j),
          in_image := non_empty (in_image j), in_kernel := non_empty (in_kernel j), in_binary := non_empty (in_binary j)\<rparr>)"

definition newVMStepFromSpec :: "yaml \<Rightarrow> string \<Rightarrow> string \<Rightarrow> resource_map \<Rightarrow> bool \<Rightarrow> (string, env_step) res" where
  "newVMStepFromSpec y ty n spec op =
     (let m = strip_fields [''network'', ''key'', ''image'', ''kernel'', ''binary''] spec
      in decoded y ty op m (\<lambda>i. base_step y ty n m m (vm_input n m i)))"

definition newSSHStepFromSpec :: "yaml \<Rightarrow> string \<Rightarrow> string \<Rightarrow> resource_map \<Rightarrow> bool \<Rightarrow> (string, env_step) res" where
  "newSSHStepFromSpec y ty n spec op =
     (let m = strip_fields [''target'', ''key''] spec in decoded y ty op m (base_step y ty n m m))"

definition newExecStepFromSpec :: "yaml \<Rightarrow> string \<Rightarrow> string \<Rightarrow> resource_map \<Rightarrow> bool \<Rightarrow> (string, env_step) res" where
  "newExecStepFromSpec y ty n spec op =
     (let m = strip_fields [''target''] spec
      in decoded y ty op m (\<lambda>i. (base_step y ty n m m i)\<lparr>es_ignore := GetBool m ''ignore_errors''\<rparr>))"

text \<open>A single source becomes a list for decoding; the hash is that of the specification as it was.\<close>

definition newCopyStepFromSpec :: "yaml \<Rightarrow> string \<Rightarrow> string \<Rightarrow> resource_map \<Rightarrow> bool \<Rightarrow> (string, env_step) res" where
  "newCopyStepFromSpec y ty n spec op =
     (let s = GetString spec ''src''; m = (if s \<noteq> '''' then spec(''src'' \<mapsto> AList [AStr s]) else spec)
      in decoded y ty op m (\<lambda>i. (base_step y ty n m spec i)
           \<lparr>es_deps := GetStringList spec ''depends_on'', es_removes := GetStringList spec ''removes''\<rparr>))"

definition newImageImportStepFromSpec :: "yaml \<Rightarrow> string \<Rightarrow> string \<Rightarrow> resource_map \<Rightarrow> bool \<Rightarrow> (string, env_step) res" where
  "newImageImportStepFromSpec y ty n spec op =
     (let m = strip_fields [''source''] spec in decoded y ty op m (\<lambda>i. base_step y ty n m m (default_name n i)))"

definition empty_input :: env_input where
  "empty_input = \<lparr>in_name = '''', in_type = '''', in_version = '''', in_kernel = None, in_binary = None, in_image = None,
     in_network = None, in_keys = [], in_nat = False, in_command = '''', in_cmd = None, in_sources = [], in_env = Map.empty,
     in_rest = Map.empty\<rparr>"

text \<open>Every type rebuilds its step alike; the input only names what the type looks at.\<close>

definition state_input :: "string \<Rightarrow> string \<Rightarrow> env_input" where
  "state_input ty n = (if ty = ''network'' \<or> ty = ''key'' \<or> ty = ''vm'' then empty_input\<lparr>in_name := n\<rparr>
     else if ty = ''binary'' then empty_input\<lparr>in_type := n\<rparr> else empty_input)"

definition newStepFromState :: "yaml \<Rightarrow> string \<Rightarrow> string \<Rightarrow> resource_state \<Rightarrow> string list \<Rightarrow> bool \<Rightarrow> (string, env_step) res" where
  "newStepFromState y ty n saved deps op =
     (if \<not> op then Err ''operation not initialized''
      else Ok \<lparr>es_type = ty, es_name = n, es_deps = deps, es_removes = [], es_hash = '''', es_input = state_input ty n,
        es_spec = None, es_ignore = False, es_op = True,
        es_saved = (case StateFromMap y ty (rs_output saved) of Some st \<Rightarrow> Some st | None \<Rightarrow> StateFromMap y ty (rs_spec saved)),
        es_meta = rs_meta saved\<rparr>)"

subsection \<open>The registry\<close>

record step_factory =
  sf_from_spec :: "yaml \<Rightarrow> string \<Rightarrow> string \<Rightarrow> resource_map \<Rightarrow> bool \<Rightarrow> (string, env_step) res"
  sf_from_state :: "yaml \<Rightarrow> string \<Rightarrow> string \<Rightarrow> resource_state \<Rightarrow> string list \<Rightarrow> bool \<Rightarrow> (string, env_step) res"
  sf_apply :: "env_step \<Rightarrow> resource_state \<Rightarrow> proc"
  sf_destroy :: "yaml \<Rightarrow> env_step \<Rightarrow> resource_state \<Rightarrow> proc"

definition registry :: "(string \<times> step_factory) list" where
  "registry = [
     (''network'', \<lparr>sf_from_spec = newNetworkStepFromSpec, sf_from_state = newStepFromState, sf_apply = network_apply, sf_destroy = network_destroy\<rparr>),
     (''key'', \<lparr>sf_from_spec = newKeyStepFromSpec, sf_from_state = newStepFromState, sf_apply = key_apply, sf_destroy = key_destroy\<rparr>),
     (''image'', \<lparr>sf_from_spec = newImageStepFromSpec, sf_from_state = newStepFromState, sf_apply = image_apply, sf_destroy = pulled_destroy\<rparr>),
     (''kernel'', \<lparr>sf_from_spec = newKernelStepFromSpec, sf_from_state = newStepFromState, sf_apply = kernel_apply, sf_destroy = pulled_destroy\<rparr>),
     (''binary'', \<lparr>sf_from_spec = newBinaryStepFromSpec, sf_from_state = newStepFromState, sf_apply = binary_apply, sf_destroy = pulled_destroy\<rparr>),
     (''vm'', \<lparr>sf_from_spec = newVMStepFromSpec, sf_from_state = newStepFromState, sf_apply = vm_apply, sf_destroy = vm_destroy\<rparr>),
     (''ssh'', \<lparr>sf_from_spec = newSSHStepFromSpec, sf_from_state = newStepFromState, sf_apply = ssh_apply, sf_destroy = imperative_destroy\<rparr>),
     (''exec'', \<lparr>sf_from_spec = newExecStepFromSpec, sf_from_state = newStepFromState, sf_apply = exec_apply, sf_destroy = imperative_destroy\<rparr>),
     (''copy'', \<lparr>sf_from_spec = newCopyStepFromSpec, sf_from_state = newStepFromState, sf_apply = copy_apply, sf_destroy = imperative_destroy\<rparr>),
     (''image_import'', \<lparr>sf_from_spec = newImageImportStepFromSpec, sf_from_state = newStepFromState, sf_apply = image_import_apply,
        sf_destroy = pulled_destroy\<rparr>)]"

definition Registry :: "string \<Rightarrow> step_factory option" where
  "Registry = map_of registry"

text \<open>The methods of a step, by its type.\<close>

definition step_apply :: "env_step \<Rightarrow> resource_state \<Rightarrow> proc" where
  "step_apply s saved = (case Registry (es_type s) of Some f \<Rightarrow> sf_apply f s saved | None \<Rightarrow> Done (Some nil_pointer))"

definition step_destroy :: "yaml \<Rightarrow> env_step \<Rightarrow> resource_state \<Rightarrow> proc" where
  "step_destroy y s saved = (case Registry (es_type s) of Some f \<Rightarrow> sf_destroy f y s saved | None \<Rightarrow> Done (Some nil_pointer))"

subsection \<open>Resolving a specification\<close>

record env_spec =
  sp_version :: string
  sp_ephemeral :: bool
  sp_steps :: "string \<Rightarrow> (string \<times> resource_map) list"

text \<open>\<open>order\<close> is the order in which the registry is iterated; \<open>sp_steps\<close> gives the entries of a type in theirs.\<close>

definition resolve_entry :: "yaml \<Rightarrow> bool \<Rightarrow> string \<Rightarrow> step_factory \<Rightarrow> string \<times> resource_map \<Rightarrow> (string, env_step) res" where
  "resolve_entry y op ty f e = (case e of (n, m) \<Rightarrow>
     if n = '''' then Err (''env spec '' @ q_text ty @ '' entry has empty name key'')
     else sf_from_spec f y ty n (stripSpecRefs m) op)"

fun resolveSpecV1 :: "yaml \<Rightarrow> bool \<Rightarrow> (string \<times> step_factory) list \<Rightarrow> env_spec \<Rightarrow> (string, env_step list) res" where
  "resolveSpecV1 y op [] spec = Ok []"
| "resolveSpecV1 y op ((ty, f) # order) spec =
     bind_res (mapM_res (resolve_entry y op ty f) (sp_steps spec ty)) (\<lambda>ss.
     bind_res (resolveSpecV1 y op order spec) (\<lambda>rest. Ok (ss @ rest)))"

text \<open>
  \<open>data\<close> is what reading the path or the URL gave: a text, or an error and whether it says that there
  is no such file; \<open>decode\<close> reads the text as YAML. A missing API is replaced by an empty one.
\<close>

definition ResolveSpec :: "yaml \<Rightarrow> (string \<times> step_factory) list \<Rightarrow> string option \<Rightarrow> string \<Rightarrow> (bool \<times> string, string) res \<Rightarrow>
    (string \<Rightarrow> (string, env_spec) res) \<Rightarrow> (err, env_spec \<times> env_step list) res" where
  "ResolveSpec y order cancelled src data decode = (case cancelled of
     Some e \<Rightarrow> Err (WrapMsg ''internal'' (''resolve env spec '' @ src @ '': '' @ e) (Plain e None))
   | None \<Rightarrow> (case data of
       Inl (missing, e) \<Rightarrow> if missing then Err (New ''validation.failed'' (''env spec file not found: '' @ src))
         else Err (WrapMsg ''internal'' (''read env spec '' @ src @ '': '' @ e) (Plain e None))
     | Inr txt \<Rightarrow> (case decode txt of
         Inl e \<Rightarrow> Err (New ''validation.failed'' (''env spec validation: invalid YAML: '' @ e))
       | Inr spec \<Rightarrow>
           if sp_version spec = '''' then Err (New ''validation.failed'' ''env spec version is required'')
           else if sp_version spec \<noteq> ''1'' then Err (New ''validation.failed''
             (''unsupported env spec version: '' @ q_text (sp_version spec) @ '' (supported: '' @ q_text ''1'' @ '')''))
           else (case resolveSpecV1 y True order spec of
             Inl e \<Rightarrow> Err (Plain e None)
           | Inr ss \<Rightarrow> Ok (spec, ss)))))"

end
