(* ===== verification/EnvRun.thy ===== *)
theory EnvRun
  imports EnvSteps
begin

text \<open>
  The steps of an environment inside the pipeline engine: every goroutine that is in its call runs
  the process of its step, one action at a time, interleaved with the moves of the engine and the
  actions of the other steps. Handing a state to the writer runs the callback of \<open>Apply\<close> or
  \<open>Destroy\<close> under its mutex: the list of resources is changed and the state file is written,
  which may fail and then leaves the file as it was (\<open>StateFile\<close>).
\<close>

definition as_step :: "env_step \<Rightarrow> step" where
  "as_step s = \<lparr>st_name = sname s, st_type = es_type s, st_deps = es_deps s, st_removes = es_removes s, st_spec_hash = es_hash s\<rparr>"

definition applied :: "env_step \<Rightarrow> resource_state \<Rightarrow> applied_resource" where
  "applied s d = \<lparr>ar_name = sname s, ar_type = es_type s, ar_deps = es_deps s, ar_state = d\<rparr>"

text \<open>The actions of a process, with what it got back.\<close>

datatype act =
    Asked request response
  | Shared string step_state
  | Looked string "step_state option"
  | Saved resource_state "string option"

record 'w env_config =
  vc_engine :: config
  vc_body :: "string \<Rightarrow> resource_state \<Rightarrow> proc"
  vc_step :: "string \<Rightarrow> env_step"
  vc_api :: "request \<Rightarrow> 'w \<Rightarrow> response \<times> 'w"
  vc_id :: string
  vc_spec :: string

record 'w env_run =
  ev_engine :: engine
  ev_procs :: "string \<rightharpoonup> proc"
  ev_api :: 'w
  ev_shared :: "string \<rightharpoonup> step_state"
  ev_acc :: "applied_resource list"
  ev_created :: string
  ev_file :: "workflow_state option"
  ev_hist :: "(string \<times> act) list"

subsection \<open>The callbacks\<close>

definition envStateSchemaVersion :: string where
  "envStateSchemaVersion = ''1.0''"

definition wf_state :: "'w env_config \<Rightarrow> string \<Rightarrow> string \<Rightarrow> applied_resource list \<Rightarrow> workflow_state" where
  "wf_state c created now rs = \<lparr>wf_id = vc_id c, wf_spec = vc_spec c, wf_schema = envStateSchemaVersion, wf_created = created,
     wf_updated = now, wf_hash = '''', wf_resources = rs\<rparr>"

fun completed :: "mode \<Rightarrow> env_step \<Rightarrow> resource_state \<Rightarrow> applied_resource list \<Rightarrow> applied_resource list" where
  "completed Executing s d acc = acc @ [applied s d]"
| "completed Destroying s d acc = filter (\<lambda>r. ar_name r \<noteq> sname s) acc"

fun created_at :: "mode \<Rightarrow> string \<Rightarrow> string \<Rightarrow> string" where
  "created_at Executing c now = (if c = '''' then now else c)"
| "created_at Destroying c now = c"

fun persist_failed :: "mode \<Rightarrow> string \<Rightarrow> string \<Rightarrow> string" where
  "persist_failed Executing n e = ''persist workflow state after step '' @ q_text n @ '': '' @ e"
| "persist_failed Destroying n e = ''persist workflow state after destroy step '' @ q_text n @ '': '' @ e"

definition on_complete :: "'w env_config \<Rightarrow> string \<Rightarrow> resource_state \<Rightarrow> string \<Rightarrow> string \<Rightarrow> string option \<Rightarrow> 'w env_run \<Rightarrow> 'w env_run" where
  "on_complete c n d t u e v =
     (let m = c_mode (vc_engine c); cr = created_at m (ev_created v) t; rs = completed m (vc_step c n) d (ev_acc v)
      in v\<lparr>ev_created := cr, ev_acc := rs, ev_file := (if e = None then Some (wf_state c cr u rs) else ev_file v)\<rparr>)"

subsection \<open>Moves\<close>

text \<open>Saving has the times read at it and the error that writing the file gave.\<close>

datatype env_label =
    Engine label
  | Ask nat
  | ShareNow nat
  | LookNow nat
  | Save nat string string "string option"
  | Leave nat

definition running :: "'w env_run \<Rightarrow> nat \<Rightarrow> (string \<times> proc) option" where
  "running v i = (case e_gos (ev_engine v) of
     Some gs \<Rightarrow> if i < length gs \<and> snd (gs ! i) = InCall
       then map_option (\<lambda>p. (st_name (fst (gs ! i)), p)) (ev_procs v (st_name (fst (gs ! i)))) else None
   | None \<Rightarrow> None)"

definition next_proc :: "string \<Rightarrow> proc \<Rightarrow> act \<Rightarrow> 'w env_run \<Rightarrow> 'w env_run" where
  "next_proc n p a v = v\<lparr>ev_procs := (ev_procs v)(n \<mapsto> p), ev_hist := ev_hist v @ [(n, a)]\<rparr>"

definition enter :: "'w env_config \<Rightarrow> engine \<Rightarrow> nat \<Rightarrow> 'w env_run \<Rightarrow> 'w env_run" where
  "enter c e i v = (case e_gos e of
     Some gs \<Rightarrow> (let n = st_name (fst (gs ! i)) in v\<lparr>ev_engine := e, ev_procs := (ev_procs v)(n \<mapsto> vc_body c n (c_saved (vc_engine c) n))\<rparr>)
   | None \<Rightarrow> v)"

fun engine_move :: "'w env_config \<Rightarrow> 'w env_run \<Rightarrow> label \<Rightarrow> 'w env_run option" where
  "engine_move c v (Go i (Return r)) = None"
| "engine_move c v (Go i (Write d)) = None"
| "engine_move c v (Go i Enter) = map_option (\<lambda>e. enter c e i v) (fire (vc_engine c) (ev_engine v) (Go i Enter))"
| "engine_move c v l = map_option (\<lambda>e. v\<lparr>ev_engine := e\<rparr>) (fire (vc_engine c) (ev_engine v) l)"

fun fire_env :: "'w env_config \<Rightarrow> 'w env_run \<Rightarrow> env_label \<Rightarrow> 'w env_run option" where
  "fire_env c v (Engine l) = engine_move c v l"
| "fire_env c v (Ask i) = (case running v i of
     Some (n, Call r k) \<Rightarrow> (case vc_api c r (ev_api v) of (x, w) \<Rightarrow> Some (next_proc n (k x) (Asked r x) (v\<lparr>ev_api := w\<rparr>)))
   | _ \<Rightarrow> None)"
| "fire_env c v (ShareNow i) = (case running v i of
     Some (n, Share key st p) \<Rightarrow> Some (next_proc n p (Shared key st) (v\<lparr>ev_shared := (ev_shared v)(key \<mapsto> st)\<rparr>))
   | _ \<Rightarrow> None)"
| "fire_env c v (LookNow i) = (case running v i of
     Some (n, Look key k) \<Rightarrow> Some (next_proc n (k (ev_shared v key)) (Looked key (ev_shared v key)) v)
   | _ \<Rightarrow> None)"
| "fire_env c v (Save i t u e) = (case running v i of
     Some (n, Persist d k) \<Rightarrow> (case fire (vc_engine c) (ev_engine v) (Go i (Write d)) of
         None \<Rightarrow> None
       | Some g \<Rightarrow> Some (next_proc n (k (map_option (persist_failed (c_mode (vc_engine c)) n) e)) (Saved d e)
           (on_complete c n d t u e (v\<lparr>ev_engine := g\<rparr>))))
   | _ \<Rightarrow> None)"
| "fire_env c v (Leave i) = (case running v i of
     Some (n, Done r) \<Rightarrow> map_option (\<lambda>e. v\<lparr>ev_engine := e\<rparr>) (fire (vc_engine c) (ev_engine v) (Go i (Return r)))
   | _ \<Rightarrow> None)"

fun fires_env :: "'w env_config \<Rightarrow> 'w env_run \<Rightarrow> env_label list \<Rightarrow> 'w env_run option" where
  "fires_env c v [] = Some v"
| "fires_env c v (l # ls) = (case fire_env c v l of None \<Rightarrow> None | Some v' \<Rightarrow> fires_env c v' ls)"

definition start_env :: "'w env_config \<Rightarrow> step list list \<Rightarrow> 'w \<Rightarrow> applied_resource list \<Rightarrow> string \<Rightarrow> workflow_state option \<Rightarrow> 'w env_run" where
  "start_env c lev w acc created file = \<lparr>ev_engine = start_engine (c_mode (vc_engine c)) lev, ev_procs = Map.empty, ev_api = w,
     ev_shared = Map.empty, ev_acc = acc, ev_created = created, ev_file = file, ev_hist = []\<rparr>"

inductive reach_env :: "'w env_config \<Rightarrow> step list list \<Rightarrow> 'w env_run \<Rightarrow> 'w env_run \<Rightarrow> bool" for c lev v0 where
  start: "reach_env c lev v0 v0"
| move: "reach_env c lev v0 v \<Longrightarrow> fire_env c v l = Some v' \<Longrightarrow> reach_env c lev v0 v'"

lemma reach_fires_env: "reach_env c lev v0 v \<Longrightarrow> fires_env c v ls = Some v' \<Longrightarrow> reach_env c lev v0 v'"
  by (induction ls arbitrary: v) (auto split: option.splits intro: reach_env.move)

subsection \<open>The engine inside\<close>

text \<open>Every move is a move of the engine, or leaves the engine as it is.\<close>

lemma fire_env_engine:
  assumes "fire_env c v l = Some v'"
  shows "ev_engine v' = ev_engine v \<or> (\<exists>m. fire (vc_engine c) (ev_engine v) m = Some (ev_engine v'))"
proof (cases l)
  case (Engine m)
  with assms show ?thesis
    by (cases "(c, v, m)" rule: engine_move.cases) (auto simp: enter_def Let_def simp del: fire.simps split: option.splits)
qed (use assms in \<open>auto simp: next_proc_def on_complete_def Let_def simp del: fire.simps split: option.splits prod.splits proc.splits\<close>)

lemma reach_env_engine:
  "reach_env c lev (start_env c lev w acc created file) v \<Longrightarrow> reach (vc_engine c) lev (ev_engine v)"
proof (induction rule: reach_env.induct)
  case start
  show ?case by (simp add: start_env_def reach.init)
next
  case (move v l v')
  then show ?case using fire_env_engine [OF move.hyps(2)] by (metis estep_fire reach.step)
qed

subsection \<open>Histories\<close>

text \<open>What a process is after a list of actions, if they can be its actions.\<close>

fun replay :: "mode \<Rightarrow> string \<Rightarrow> proc \<Rightarrow> act list \<Rightarrow> proc option" where
  "replay m n p [] = Some p"
| "replay m n (Call r k) (Asked r' x # tr) = (if r' = r then replay m n (k x) tr else None)"
| "replay m n (Share key st p) (Shared key' st' # tr) = (if key' = key \<and> st' = st then replay m n p tr else None)"
| "replay m n (Look key k) (Looked key' x # tr) = (if key' = key then replay m n (k x) tr else None)"
| "replay m n (Persist d k) (Saved d' e # tr) = (if d' = d then replay m n (k (map_option (persist_failed m n) e)) tr else None)"
| "replay m n p tr = None"

lemma replay_snoc: "replay m n p (tr @ [a]) = (case replay m n p tr of None \<Rightarrow> None | Some q \<Rightarrow> replay m n q [a])"
  by (induction m n p tr rule: replay.induct) auto

named_theorems replay_simps \<open>the histories of a process, by its form\<close>

lemma replay_Call [replay_simps]: "replay m n (Call r k) tr = Some q \<longleftrightarrow>
    (tr = [] \<and> q = Call r k) \<or> (\<exists>x tr'. tr = Asked r x # tr' \<and> replay m n (k x) tr' = Some q)"
  by (cases "(m, n, Call r k, tr)" rule: replay.cases) auto

lemma replay_Share [replay_simps]: "replay m n (Share key st p) tr = Some q \<longleftrightarrow>
    (tr = [] \<and> q = Share key st p) \<or> (\<exists>tr'. tr = Shared key st # tr' \<and> replay m n p tr' = Some q)"
  by (cases "(m, n, Share key st p, tr)" rule: replay.cases) auto

lemma replay_Look [replay_simps]: "replay m n (Look key k) tr = Some q \<longleftrightarrow>
    (tr = [] \<and> q = Look key k) \<or> (\<exists>x tr'. tr = Looked key x # tr' \<and> replay m n (k x) tr' = Some q)"
  by (cases "(m, n, Look key k, tr)" rule: replay.cases) auto

lemma replay_Persist [replay_simps]: "replay m n (Persist d k) tr = Some q \<longleftrightarrow>
    (tr = [] \<and> q = Persist d k) \<or>
    (\<exists>e tr'. tr = Saved d e # tr' \<and> replay m n (k (map_option (persist_failed m n) e)) tr' = Some q)"
  by (cases "(m, n, Persist d k, tr)" rule: replay.cases) auto

lemma replay_Done [replay_simps]: "replay m n (Done r) tr = Some q \<longleftrightarrow> tr = [] \<and> q = Done r"
  by (cases "(m, n, Done r, tr)" rule: replay.cases) auto

definition history :: "'w env_run \<Rightarrow> string \<Rightarrow> act list" where
  "history v n = map snd (filter (\<lambda>h. fst h = n) (ev_hist v))"

lemma history_next:
  "history (next_proc n p a v) k = history v k @ (if k = n then [a] else [])"
  by (simp add: history_def next_proc_def)

text \<open>
  Every step that has been entered is where its process leads with its history, and what it has
  returned is the end of its process.
\<close>

definition follows :: "'w env_config \<Rightarrow> 'w env_run \<Rightarrow> bool" where
  "follows c v \<longleftrightarrow> (\<forall>n. case ev_procs v n of
     None \<Rightarrow> history v n = []
   | Some q \<Rightarrow> calls (e_log (ev_engine v)) n \<noteq> 0 \<and>
       replay (c_mode (vc_engine c)) n (vc_body c n (c_saved (vc_engine c) n)) (history v n) = Some q) \<and>
   (\<forall>n r. Returned n r \<in> set (e_log (ev_engine v)) \<longrightarrow> ev_procs v n = Some (Done r))"

lemma fire_log:
  assumes "fire c p l = Some p'"
  shows "(\<exists>evs. e_log p' = e_log p @ evs) \<and>
    (\<forall>n r. Returned n r \<in> set (e_log p') \<longrightarrow> Returned n r \<in> set (e_log p) \<or> (\<exists>i gs. l = Go i (Return r) \<and> e_gos p = Some gs \<and>
       i < length gs \<and> n = st_name (fst (gs ! i))))"
  using assms
proof (cases l)
  case (Go i m)
  with assms obtain gs ph evs where "e_gos p = Some gs" "i < length gs"
    and g: "go_move c (fst (gs ! i)) (snd (gs ! i)) m = Some (ph, evs)" and "e_log p' = e_log p @ evs"
    by (auto split: option.splits if_splits)
  then show ?thesis by (auto simp: Go elim!: go_moveE split: if_splits)
qed (auto split: if_splits option.splits list.splits)

lemma calls_grow: "fire c p l = Some p' \<Longrightarrow> calls (e_log p) n \<noteq> 0 \<Longrightarrow> calls (e_log p') n \<noteq> 0"
  using fire_log [of c p l p'] by auto

lemma running_Some:
  "running v i = Some (n, p) \<longleftrightarrow> (\<exists>gs. e_gos (ev_engine v) = Some gs \<and> i < length gs \<and> snd (gs ! i) = InCall \<and>
     n = st_name (fst (gs ! i)) \<and> ev_procs v n = Some p)"
  by (auto simp: running_def split: option.splits)

lemma next_fields [simp]:
  "ev_engine (next_proc n p a v) = ev_engine v" "ev_procs (next_proc n p a v) = (ev_procs v)(n \<mapsto> p)"
  "ev_acc (next_proc n p a v) = ev_acc v" "ev_file (next_proc n p a v) = ev_file v" "ev_hist (next_proc n p a v) = ev_hist v @ [(n, a)]"
  "ev_created (next_proc n p a v) = ev_created v" "ev_api (next_proc n p a v) = ev_api v" "ev_shared (next_proc n p a v) = ev_shared v"
  by (simp_all add: next_proc_def)

lemma on_complete_fields [simp]:
  "ev_engine (on_complete c n d t u e v) = ev_engine v" "ev_procs (on_complete c n d t u e v) = ev_procs v"
  "ev_hist (on_complete c n d t u e v) = ev_hist v" "history (on_complete c n d t u e v) k = history v k"
  "ev_acc (on_complete c n d t u e v) = completed (c_mode (vc_engine c)) (vc_step c n) d (ev_acc v)"
  "ev_shared (on_complete c n d t u e v) = ev_shared v" "ev_api (on_complete c n d t u e v) = ev_api v"
  by (simp_all add: on_complete_def Let_def history_def)

lemma history_update [simp]:
  "history (v\<lparr>ev_engine := g\<rparr>) n = history v n" "history (v\<lparr>ev_api := w\<rparr>) n = history v n"
  "history (v\<lparr>ev_shared := h\<rparr>) n = history v n" "history (v\<lparr>ev_engine := g, ev_procs := ps\<rparr>) n = history v n"
  by (simp_all add: history_def)

abbreviation body_of :: "'w env_config \<Rightarrow> string \<Rightarrow> proc" where
  "body_of c n \<equiv> vc_body c n (c_saved (vc_engine c) n)"

lemma followsD:
  assumes "follows c v"
  shows "ev_procs v n = None \<Longrightarrow> history v n = []"
    and "ev_procs v n = Some q \<Longrightarrow> calls (e_log (ev_engine v)) n \<noteq> 0"
    and "ev_procs v n = Some q \<Longrightarrow> replay (c_mode (vc_engine c)) n (body_of c n) (history v n) = Some q"
    and "Returned n r \<in> set (e_log (ev_engine v)) \<Longrightarrow> ev_procs v n = Some (Done r)"
proof -
  have at: "case ev_procs v n of None \<Rightarrow> history v n = [] | Some q \<Rightarrow> calls (e_log (ev_engine v)) n \<noteq> 0 \<and>
      replay (c_mode (vc_engine c)) n (body_of c n) (history v n) = Some q"
    using assms unfolding follows_def by blast
  show "ev_procs v n = None \<Longrightarrow> history v n = []" "ev_procs v n = Some q \<Longrightarrow> calls (e_log (ev_engine v)) n \<noteq> 0"
    "ev_procs v n = Some q \<Longrightarrow> replay (c_mode (vc_engine c)) n (body_of c n) (history v n) = Some q"
    using at by simp_all
  show "Returned n r \<in> set (e_log (ev_engine v)) \<Longrightarrow> ev_procs v n = Some (Done r)" using assms unfolding follows_def by blast
qed

lemma followsI:
  assumes "\<And>n. ev_procs v n = None \<Longrightarrow> history v n = []"
    and "\<And>n q. ev_procs v n = Some q \<Longrightarrow> calls (e_log (ev_engine v)) n \<noteq> 0"
    and "\<And>n q. ev_procs v n = Some q \<Longrightarrow> replay (c_mode (vc_engine c)) n (body_of c n) (history v n) = Some q"
    and "\<And>n r. Returned n r \<in> set (e_log (ev_engine v)) \<Longrightarrow> ev_procs v n = Some (Done r)"
  shows "follows c v"
  using assms unfolding follows_def by (simp split: option.splits)

text \<open>An action that a running process can take.\<close>

lemma follows_next:
  assumes F: "follows c v" and run: "running v i = Some (n, p)" and act: "replay (c_mode (vc_engine c)) n p [a] = Some q"
    and v': "ev_procs v' = ev_procs v" "\<And>k. history v' k = history v k"
      "\<And>k. calls (e_log (ev_engine v)) k \<noteq> 0 \<Longrightarrow> calls (e_log (ev_engine v')) k \<noteq> 0"
      "\<And>k r. Returned k r \<in> set (e_log (ev_engine v')) \<Longrightarrow> Returned k r \<in> set (e_log (ev_engine v))"
  shows "follows c (next_proc n q a v')"
proof (rule followsI)
  have p: "ev_procs v n = Some p" using run by (auto simp: running_Some)
  note here = followsD [OF F]
  {
    fix k assume "ev_procs (next_proc n q a v') k = None"
    then show "history (next_proc n q a v') k = []" using here(1) [of k] v' by (auto simp: history_next split: if_splits)
  next
    fix k q' assume "ev_procs (next_proc n q a v') k = Some q'"
    then show "calls (e_log (ev_engine (next_proc n q a v'))) k \<noteq> 0"
      using here(2) [OF p] here(2) [of k q'] v' by (auto split: if_splits)
  next
    fix k q' assume k: "ev_procs (next_proc n q a v') k = Some q'"
    show "replay (c_mode (vc_engine c)) k (body_of c k) (history (next_proc n q a v') k) = Some q'"
    proof (cases "k = n")
      case True
      then show ?thesis using k here(3) [OF p] act by (simp add: history_next v'(2) replay_snoc)
    next
      case False
      then show ?thesis using k here(3) [of k q'] by (simp add: history_next v')
    qed
  next
    fix k r assume "Returned k r \<in> set (e_log (ev_engine (next_proc n q a v')))"
    then have r: "ev_procs v k = Some (Done r)" using here(4) v'(4) by simp
    have "k \<noteq> n"
    proof
      assume "k = n"
      with r p act show False by simp
    qed
    with r v' show "ev_procs (next_proc n q a v') k = Some (Done r)" by simp
  }
qed

text \<open>A move of the engine alone.\<close>

lemma follows_engine:
  assumes F: "follows c v" and v': "ev_procs v' = ev_procs v" "\<And>k. history v' k = history v k"
    and fire: "fire (vc_engine c) (ev_engine v) l = Some (ev_engine v')"
    and ret: "\<And>i r gs. l = Go i (Return r) \<Longrightarrow> e_gos (ev_engine v) = Some gs \<Longrightarrow> i < length gs \<Longrightarrow> ev_procs v (st_name (fst (gs ! i))) = Some (Done r)"
  shows "follows c v'"
proof (rule followsI)
  fix n r assume r: "Returned n r \<in> set (e_log (ev_engine v'))"
  show "ev_procs v' n = Some (Done r)"
  proof (cases "Returned n r \<in> set (e_log (ev_engine v))")
    case True
    then show ?thesis using followsD(4) [OF F] v'(1) by simp
  next
    case False
    with fire_log [OF fire, THEN conjunct2, rule_format, OF r] obtain i gs where "l = Go i (Return r)" "e_gos (ev_engine v) = Some gs"
      "i < length gs" "n = st_name (fst (gs ! i))" by auto
    then show ?thesis using ret v'(1) by simp
  qed
next
  fix n assume "ev_procs v' n = None"
  then show "history v' n = []" using followsD(1) [OF F] v' by simp
next
  fix n q assume "ev_procs v' n = Some q"
  then show "calls (e_log (ev_engine v')) n \<noteq> 0" using followsD(2) [OF F] v'(1) calls_grow [OF fire] by simp
next
  fix n q assume "ev_procs v' n = Some q"
  then show "replay (c_mode (vc_engine c)) n (body_of c n) (history v' n) = Some q" using followsD(3) [OF F] v' by simp
qed

lemma fire_Enter:
  assumes "fire c p (Go i Enter) = Some e"
  obtains gs s where "e_gos p = Some gs" "i < length gs" "gs ! i = (s, Announced)" "e_gos e = Some (gs[i := (s, InCall)])"
    "e_log e = e_log p @ [Called (st_name s) (c_saved c (st_name s))]"
proof -
  from assms obtain gs ph evs where gs: "e_gos p = Some gs" "i < length gs"
    and m: "go_move c (fst (gs ! i)) (snd (gs ! i)) Enter = Some (ph, evs)"
    and e: "e_gos e = Some (gs[i := (fst (gs ! i), ph)])" "e_log e = e_log p @ evs"
    by (auto split: option.splits if_splits)
  obtain s ph0 where s: "gs ! i = (s, ph0)" by (rule prod.exhaust)
  with m have "ph0 = Announced" "ph = InCall" "evs = [Called (st_name s) (c_saved c (st_name s))]"
    by (auto elim!: go_moveE)
  with gs e s that show ?thesis by simp
qed

lemma follows_enter:
  assumes F: "follows c v" and inv: "einv m order (ev_engine v)"
    and fire: "fire (vc_engine c) (ev_engine v) (Go i Enter) = Some e"
  shows "follows c (enter c e i v)"
proof -
  obtain gs s where gs: "e_gos (ev_engine v) = Some gs" "i < length gs" "gs ! i = (s, Announced)"
    and e: "e_gos e = Some (gs[i := (s, InCall)])" "e_log e = e_log (ev_engine v) @ [Called (st_name s) (c_saved (vc_engine c) (st_name s))]"
    using fire_Enter [OF fire] .
  let ?n = "st_name s"
  have v': "enter c e i v = v\<lparr>ev_engine := e, ev_procs := (ev_procs v)(?n \<mapsto> body_of c ?n)\<rparr>"
    using gs e by (simp add: enter_def Let_def)
  from inv gs(1) obtain past where "gos_ok m (e_log (ev_engine v)) (e_err (ev_engine v)) (Some gs) past" unfolding einv_def by auto
  then have "\<forall>(s, ph) \<in> set gs. tracked (e_log (ev_engine v)) (e_err (ev_engine v)) s ph" unfolding gos_ok_def by simp
  moreover have "(s, Announced) \<in> set gs" using gs(2,3) by (metis nth_mem)
  ultimately have "tracked (e_log (ev_engine v)) (e_err (ev_engine v)) s Announced" by (auto dest: bspec)
  then have "calls (e_log (ev_engine v)) ?n = 0" by simp
  with followsD(2) [OF F] have fresh: "ev_procs v ?n = None" by (metis not_None_eq)
  show ?thesis
  proof (rule followsI)
    fix n assume "ev_procs (enter c e i v) n = None"
    then show "history (enter c e i v) n = []" using followsD(1) [OF F, of n] by (auto simp: v' split: if_splits)
  next
    fix n q assume "ev_procs (enter c e i v) n = Some q"
    then show "calls (e_log (ev_engine (enter c e i v))) n \<noteq> 0"
      using followsD(2) [OF F, of n] by (auto simp: v' e calls_def split: if_splits)
  next
    fix n q assume q: "ev_procs (enter c e i v) n = Some q"
    show "replay (c_mode (vc_engine c)) n (body_of c n) (history (enter c e i v) n) = Some q"
      using q followsD(1) [OF F fresh] followsD(3) [OF F, of n q] by (cases "n = ?n") (simp_all add: v')
  next
    fix n r assume "Returned n r \<in> set (e_log (ev_engine (enter c e i v)))"
    then have "ev_procs v n = Some (Done r)" using followsD(4) [OF F] by (simp add: v' e)
    with fresh show "ev_procs (enter c e i v) n = Some (Done r)" by (auto simp: v')
  qed
qed

lemma follows_fire:
  assumes F: "follows c v" and inv: "einv m order (ev_engine v)" and fire: "fire_env c v l = Some v'"
  shows "follows c v'"
proof (cases l)
  case (Engine g)
  have plain: "follows c (v\<lparr>ev_engine := e\<rparr>)" if "fire (vc_engine c) (ev_engine v) g = Some e" "\<And>i r. g \<noteq> Go i (Return r)" for e
    by (rule follows_engine [OF F]) (use that in auto)
  show ?thesis
  proof (cases "\<exists>i. g = Go i Enter")
    case True
    then show ?thesis using fire Engine follows_enter [OF F inv] by (auto simp del: fire.simps)
  next
    case False
    with fire Engine have "\<exists>e. fire (vc_engine c) (ev_engine v) g = Some e \<and> v' = v\<lparr>ev_engine := e\<rparr>" "\<And>i r. g \<noteq> Go i (Return r)"
      by (cases "(c, v, g)" rule: engine_move.cases; auto simp del: fire.simps)+
    then show ?thesis using plain by blast
  qed
next
  case (Ask i)
  with fire obtain n r k x w where run: "running v i = Some (n, Call r k)" and v': "v' = next_proc n (k x) (Asked r x) (v\<lparr>ev_api := w\<rparr>)"
    by (auto split: option.splits prod.splits proc.splits)
  show ?thesis unfolding v' by (rule follows_next [OF F run]) simp_all
next
  case (ShareNow i)
  with fire obtain n key st p where run: "running v i = Some (n, Share key st p)"
    and v': "v' = next_proc n p (Shared key st) (v\<lparr>ev_shared := (ev_shared v)(key \<mapsto> st)\<rparr>)"
    by (auto split: option.splits prod.splits proc.splits)
  show ?thesis unfolding v' by (rule follows_next [OF F run]) simp_all
next
  case (LookNow i)
  with fire obtain n key k where run: "running v i = Some (n, Look key k)"
    and v': "v' = next_proc n (k (ev_shared v key)) (Looked key (ev_shared v key)) v"
    by (auto split: option.splits prod.splits proc.splits)
  show ?thesis unfolding v' by (rule follows_next [OF F run]) simp_all
next
  case (Save i t u e)
  with fire obtain n d k g where run: "running v i = Some (n, Persist d k)"
    and g: "fire (vc_engine c) (ev_engine v) (Go i (Write d)) = Some g"
    and v': "v' = next_proc n (k (map_option (persist_failed (c_mode (vc_engine c)) n) e)) (Saved d e)
       (on_complete c n d t u e (v\<lparr>ev_engine := g\<rparr>))"
    by (auto simp del: fire.simps split: option.splits prod.splits proc.splits)
  show ?thesis unfolding v'
  proof (rule follows_next [OF F run])
    show "calls (e_log (ev_engine (on_complete c n d t u e (v\<lparr>ev_engine := g\<rparr>)))) k \<noteq> 0"
      if "calls (e_log (ev_engine v)) k \<noteq> 0" for k using calls_grow [OF g that] by simp
    show "Returned k r \<in> set (e_log (ev_engine v))"
      if "Returned k r \<in> set (e_log (ev_engine (on_complete c n d t u e (v\<lparr>ev_engine := g\<rparr>))))" for k r
      using fire_log [OF g] that by auto
  qed simp_all
next
  case (Leave i)
  with fire obtain n r g where run: "running v i = Some (n, Done r)"
    and g: "fire (vc_engine c) (ev_engine v) (Go i (Return r)) = Some g" and v': "v' = v\<lparr>ev_engine := g\<rparr>"
    by (auto simp del: fire.simps split: option.splits prod.splits proc.splits)
  show ?thesis by (rule follows_engine [OF F, of _ "Go i (Return r)"]) (use run g v' in \<open>auto simp: running_Some simp del: fire.simps\<close>)
qed

lemma reach_follows:
  assumes "reach_env c lev (start_env c lev w acc created file) v"
    and "distinct (names (concat (level_order (c_mode (vc_engine c)) lev)))"
  shows "follows c v"
  using assms(1)
proof (induction rule: reach_env.induct)
  case start
  show ?case by (rule followsI) (simp_all add: start_env_def history_def start_engine_def)
next
  case (move v l v')
  then show ?case by (meson follows_fire reach_env_engine reach_inv assms(2))
qed

subsection \<open>The resources and the state file\<close>

text \<open>What has been handed to the writer, in order, with the error of writing the file.\<close>

fun saves :: "(string \<times> act) list \<Rightarrow> (string \<times> resource_state \<times> string option) list" where
  "saves [] = []"
| "saves ((n, Saved d e) # h) = (n, d, e) # saves h"
| "saves ((n, Asked r x) # h) = saves h"
| "saves ((n, Shared k x) # h) = saves h"
| "saves ((n, Looked k x) # h) = saves h"

lemma saves_append [simp]: "saves (h @ h') = saves h @ saves h'"
  by (induction h rule: saves.induct) auto

lemma saves_iff: "(n, d, e) \<in> set (saves h) \<longleftrightarrow> (n, Saved d e) \<in> set h"
  by (induction h rule: saves.induct) auto

definition acc_after :: "'w env_config \<Rightarrow> (string \<times> resource_state \<times> string option) list \<Rightarrow> applied_resource list \<Rightarrow> applied_resource list" where
  "acc_after c ss acc = foldl (\<lambda>acc (n, d, e). completed (c_mode (vc_engine c)) (vc_step c n) d acc) acc ss"

lemma acc_after_snoc: "acc_after c (ss @ [(n, d, e)]) acc = completed (c_mode (vc_engine c)) (vc_step c n) d (acc_after c ss acc)"
  by (simp add: acc_after_def)

lemma acc_Executing: "c_mode (vc_engine c) = Executing \<Longrightarrow> acc_after c ss acc = acc @ map (\<lambda>(n, d, e). applied (vc_step c n) d) ss"
  by (induction ss rule: rev_induct) (auto simp: acc_after_snoc, simp add: acc_after_def)

lemma acc_Destroying:
  "c_mode (vc_engine c) = Destroying \<Longrightarrow>
    acc_after c ss acc = filter (\<lambda>r. ar_name r \<notin> (\<lambda>(n, d, e). sname (vc_step c n)) ` set ss) acc"
proof (induction ss rule: rev_induct)
  case Nil
  show ?case by (simp add: acc_after_def)
next
  case (snoc s ss)
  obtain n d e where s: "s = (n, d, e)" by (rule prod_cases3)
  from snoc show ?case by (auto simp: s acc_after_snoc intro!: filter_cong)
qed

definition all_failed :: "(string \<times> resource_state \<times> string option) list \<Rightarrow> bool" where
  "all_failed ss \<longleftrightarrow> (\<forall>(n, d, e) \<in> set ss. e \<noteq> None)"

definition filed :: "'w env_config \<Rightarrow> applied_resource list \<Rightarrow> workflow_state option \<Rightarrow> (string \<times> resource_state \<times> string option) list \<Rightarrow>
    workflow_state option \<Rightarrow> bool" where
  "filed c acc file ss f \<longleftrightarrow> (all_failed ss \<and> f = file) \<or>
     (\<exists>pre n d post st. ss = pre @ (n, d, None) # post \<and> all_failed post \<and> f = Some st \<and>
        wf_resources st = acc_after c (pre @ [(n, d, None)]) acc \<and> wf_id st = vc_id c \<and> wf_hash st = '''')"

lemma filed_snoc:
  assumes "filed c acc file ss f"
  shows "filed c acc file (ss @ [(n, d, Some x)]) f"
  using assms unfolding filed_def
proof (elim disjE exE conjE, goal_cases)
  case 1
  then show ?case by (auto simp: all_failed_def)
next
  case (2 pre m b post st)
  then show ?case by (intro disjI2 exI [of _ pre] exI [of _ m] exI [of _ b] exI [of _ "post @ [(n, d, Some x)]"] exI [of _ st])
    (auto simp: all_failed_def)
qed

lemma filed_new:
  assumes "wf_resources st = acc_after c (ss @ [(n, d, None)]) acc" "wf_id st = vc_id c" "wf_hash st = ''''"
  shows "filed c acc file (ss @ [(n, d, None)]) (Some st)"
  unfolding filed_def using assms
  by (intro disjI2 exI [of _ ss] exI [of _ n] exI [of _ d] exI [of _ "[]"] exI [of _ st]) (simp add: all_failed_def)

lemma fire_env_saves:
  assumes "fire_env c v l = Some v'"
  shows "(saves (ev_hist v') = saves (ev_hist v) \<and> ev_acc v' = ev_acc v \<and> ev_file v' = ev_file v) \<or>
    (\<exists>n d t u e. saves (ev_hist v') = saves (ev_hist v) @ [(n, d, e)] \<and>
       ev_acc v' = completed (c_mode (vc_engine c)) (vc_step c n) d (ev_acc v) \<and>
       ev_file v' = (if e = None then Some (wf_state c t u (ev_acc v')) else ev_file v))"
proof (cases l)
  case (Engine m)
  with assms show ?thesis
    by (cases "(c, v, m)" rule: engine_move.cases) (auto simp: enter_def Let_def simp del: fire.simps split: option.splits)
next
  case (Save i t u e)
  with assms obtain n d k g where v': "v' = next_proc n (k (map_option (persist_failed (c_mode (vc_engine c)) n) e)) (Saved d e)
       (on_complete c n d t u e (v\<lparr>ev_engine := g\<rparr>))"
    by (auto simp del: fire.simps split: option.splits prod.splits proc.splits)
  have "ev_file v' = (if e = None then Some (wf_state c (created_at (c_mode (vc_engine c)) (ev_created v) t) u (ev_acc v')) else ev_file v)"
    "saves (ev_hist v') = saves (ev_hist v) @ [(n, d, e)]"
    "ev_acc v' = completed (c_mode (vc_engine c)) (vc_step c n) d (ev_acc v)"
    by (simp_all add: v' on_complete_def Let_def)
  then show ?thesis by blast
qed (use assms in \<open>auto split: option.splits prod.splits proc.splits\<close>)

lemma reach_filed:
  assumes "reach_env c lev (start_env c lev w acc created file) v"
  shows "ev_acc v = acc_after c (saves (ev_hist v)) acc \<and> filed c acc file (saves (ev_hist v)) (ev_file v)"
  using assms
proof (induction rule: reach_env.induct)
  case start
  show ?case by (simp add: start_env_def acc_after_def filed_def all_failed_def)
next
  case (move v l v')
  from fire_env_saves [OF move.hyps(2)] show ?case
  proof (elim disjE exE conjE)
    fix n d t u e
    assume ss: "saves (ev_hist v') = saves (ev_hist v) @ [(n, d, e)]"
      and acc: "ev_acc v' = completed (c_mode (vc_engine c)) (vc_step c n) d (ev_acc v)"
      and new: "ev_file v' = (if e = None then Some (wf_state c t u (ev_acc v')) else ev_file v)"
    have a: "ev_acc v' = acc_after c (saves (ev_hist v')) acc" using move.IH by (simp add: ss acc acc_after_snoc)
    have "filed c acc file (saves (ev_hist v')) (ev_file v')"
    proof (cases e)
      case None
      then show ?thesis unfolding ss new by (simp, intro filed_new) (use a in \<open>simp_all add: ss None wf_state_def\<close>)
    next
      case (Some x)
      then show ?thesis unfolding ss new using move.IH by (simp add: filed_snoc)
    qed
    with a show ?thesis by simp
  qed (use move.IH in simp)
qed

lemma history_saves: "(n, d, e) \<in> set (saves (ev_hist v)) \<longleftrightarrow> Saved d e \<in> set (history v n)"
  by (force simp: saves_iff history_def)

end
