(* ===== verification/EnvContracts.thy ===== *)
theory EnvContracts
  imports EnvRun
begin

text \<open>
  What every type of step promises the engine, as an interface: which calls its methods make, that
  success comes only after the state has been saved, and that what \<open>Apply\<close> creates is recorded.
  The ten types of the registry provide it, and the runs of \<open>EnvRun\<close> rest on it.
\<close>

fun creates :: "request \<Rightarrow> bool" where
  "creates (NetworkCreate _) = True"
| "creates (KeyCreate _) = True"
| "creates (ImagePull _) = True"
| "creates (ImageImport _) = True"
| "creates (KernelPull _) = True"
| "creates (BinaryPull _) = True"
| "creates (VMCreate _) = True"
| "creates _ = False"

fun removes :: "request \<Rightarrow> bool" where
  "removes (NetworkRemove _) = True"
| "removes (KeyRemove _) = True"
| "removes (VMRemove _ _) = True"
| "removes (ImageRemove _) = True"
| "removes (KernelRemove _) = True"
| "removes (BinaryRemove _) = True"
| "removes (VolumeRemove _) = True"
| "removes (SnapshotRemove _) = True"
| "removes _ = False"

fun looks_up :: "request \<Rightarrow> bool" where
  "looks_up (NetworkGet _ _) = True"
| "looks_up (KeyGet _) = True"
| "looks_up (ImageGet _) = True"
| "looks_up (KernelGet _) = True"
| "looks_up (BinaryGet _) = True"
| "looks_up (VMGet _) = True"
| "looks_up _ = False"

fun is_save :: "act \<Rightarrow> bool" where
  "is_save (Saved _ _) = True"
| "is_save _ = False"

fun state_id :: "step_state \<Rightarrow> string" where
  "state_id (NetworkState i _) = i"
| "state_id (KeyState i) = i"
| "state_id (ImageState i) = i"
| "state_id (ImageImportState i) = i"
| "state_id (KernelState i) = i"
| "state_id (BinaryState i) = i"
| "state_id (VMState i _ _ _) = i"
| "state_id (SSHState c) = c"
| "state_id (ExecState c) = c"
| "state_id (CPState c) = c"

text \<open>A saved state that records an item as created.\<close>

definition records :: "item \<Rightarrow> resource_state \<Rightarrow> bool" where
  "records x d \<longleftrightarrow> rm_was_created (rs_meta d) \<and> (\<exists>st. rs_output d = Some (StructToMap st) \<and> state_id st = it_id x)"

text \<open>What a process saves before it does anything that others see.\<close>

fun next_save :: "proc \<Rightarrow> resource_state option" where
  "next_save (Persist d k) = Some d"
| "next_save (Share key st p) = next_save p"
| "next_save _ = None"

text \<open>
  When a mark is justified: the answer to a creation is a success and the saved state is that of
  the item it returned, a command was carried out, or a lookup found the item of the saved state.
\<close>

fun commanded :: "env_step \<Rightarrow> request \<Rightarrow> response \<Rightarrow> bool" where
  "commanded s (SSHConnect i) x = (\<forall>e. x \<noteq> Failure e)"
| "commanded s (CPCopy i) x = (\<forall>e. x \<noteq> Failure e)"
| "commanded s (ExecCall i) x = ((\<forall>e. x \<noteq> Failure e) \<and> (\<forall>k. x = ExitCode (Some k) \<longrightarrow> k = 0 \<or> es_ignore s))"
| "commanded s r x = False"

definition produced :: "env_step \<Rightarrow> request \<Rightarrow> response \<Rightarrow> resource_state \<Rightarrow> bool" where
  "produced s r x d \<longleftrightarrow> creates r \<and> (\<exists>y ys. gives x = Ok (y # ys) \<and> records y d) \<or> commanded s r x"

definition found_again :: "request \<Rightarrow> response \<Rightarrow> resource_state \<Rightarrow> bool" where
  "found_again r x d \<longleftrightarrow> looks_up r \<and> (\<exists>ys y. gives x = Ok ys \<and> y \<in> set ys \<and> records y d)"

definition sound_apply :: "env_step \<Rightarrow> resource_state \<Rightarrow> act list \<Rightarrow> proc \<Rightarrow> bool" where
  "sound_apply s saved tr q \<longleftrightarrow>
     (\<forall>r x. Asked r x \<in> set tr \<longrightarrow> \<not> removes r) \<and>
     (q = Done None \<longrightarrow> (\<exists>d. Saved d None \<in> set tr)) \<and>
     length (filter is_save tr) \<le> 1 \<and>
     (\<forall>d e. Saved d (Some e) \<in> set tr \<longrightarrow> q \<noteq> Done None) \<and>
     (\<forall>r x y ys. Asked r x \<in> set tr \<longrightarrow> creates r \<longrightarrow> gives x = Ok (y # ys) \<longrightarrow>
        (\<exists>d. records y d \<and> ((\<exists>e. Saved d e \<in> set tr) \<or> next_save q = Some d))) \<and>
     (\<forall>d e. Saved d e \<in> set tr \<longrightarrow> rm_was_created (rs_meta d) \<longrightarrow>
        (\<exists>r x. Asked r x \<in> set tr \<and> (produced s r x d \<or> rm_was_created (rs_meta saved) \<and> found_again r x d)))"

definition sound_destroy :: "act list \<Rightarrow> proc \<Rightarrow> bool" where
  "sound_destroy tr q \<longleftrightarrow>
     (\<forall>r x. Asked r x \<in> set tr \<longrightarrow> looks_up r \<or> removes r) \<and>
     (q = Done None \<longrightarrow> (\<exists>d. Saved d None \<in> set tr)) \<and>
     length (filter is_save tr) \<le> 1"

locale step_type =
  fixes app :: "env_step \<Rightarrow> resource_state \<Rightarrow> proc"
    and des :: "yaml \<Rightarrow> env_step \<Rightarrow> resource_state \<Rightarrow> proc"
  assumes apply_sound: "replay m n (app s saved) tr = Some q \<Longrightarrow> sound_apply s saved tr q"
    and destroy_sound: "replay m n (des y s saved) tr = Some q \<Longrightarrow> sound_destroy tr q"
begin

lemma apply_keeps: "replay m n (app s saved) tr = Some q \<Longrightarrow> Asked r x \<in> set tr \<Longrightarrow> \<not> removes r"
  using apply_sound unfolding sound_apply_def by blast

lemma apply_success: "replay m n (app s saved) tr = Some (Done None) \<Longrightarrow> \<exists>d. Saved d None \<in> set tr"
  using apply_sound unfolding sound_apply_def by blast

lemma destroy_success: "replay m n (des y s saved) tr = Some (Done None) \<Longrightarrow> \<exists>d. Saved d None \<in> set tr"
  using destroy_sound unfolding sound_destroy_def by blast

end

subsection \<open>The contract of the parts\<close>

lemma persist_sound:
  assumes "replay m n (persist what d) tr = Some q"
  shows "tr = [] \<and> q = persist what d \<or> (\<exists>e. tr = [Saved d e] \<and> (q = Done None \<longleftrightarrow> e = None) \<and> next_save q = None)"
  using assms by (auto simp: persist_def replay_simps)

lemma keep_state_sound:
  assumes "replay m n (keep_state what s st created) tr = Some q"
  shows "\<exists>d. d = state_data s (Some st) \<lparr>rm_was_created = created, rm_spec_hash = es_hash s\<rparr> \<and>
    ((q \<noteq> Done None \<and> next_save q = Some d \<and> (tr = [] \<or> tr = [Shared (sname s) st])) \<or>
     (\<exists>e. tr = [Shared (sname s) st, Saved d e] \<and> (q = Done None \<longleftrightarrow> e = None)))"
proof -
  let ?d = "state_data s (Some st) \<lparr>rm_was_created = created, rm_spec_hash = es_hash s\<rparr>"
  from assms consider "tr = []" "q = keep_state what s st created"
    | tr' where "tr = Shared (sname s) st # tr'" "replay m n (persist what ?d) tr' = Some q"
    unfolding keep_state_def replay_Share by blast
  then show ?thesis
  proof cases
    case 1
    then show ?thesis by (simp add: keep_state_def persist_def)
  next
    case (2 tr')
    from persist_sound [OF 2(2)] 2(1) show ?thesis by (auto simp: persist_def)
  qed
qed

lemma records_data [simp]:
  "c \<Longrightarrow> state_id st = it_id x \<Longrightarrow> records x (state_data s (Some st) \<lparr>rm_was_created = c, rm_spec_hash = h\<rparr>)"
  "rm_was_created (rs_meta (state_data s (Some st) \<lparr>rm_was_created = c, rm_spec_hash = h\<rparr>)) = c"
  by (auto simp: records_def state_data_def)

lemma create_new_sound:
  assumes "replay m n (create_new s create none new) tr = Some q" "creates create" "\<And>x. state_id (new x) = it_id x"
  shows "sound_apply s saved tr q"
proof -
  have c: "\<not> removes create" "\<not> looks_up create" using assms(2) by (cases create; simp)+
  from assms(1) consider "tr = []" "q = create_new s create none new" | x tr' where "tr = Asked create x # tr'"
    "replay m n (case gives x of Inl e \<Rightarrow> Done (Some (err_text e)) | Inr xs \<Rightarrow> (case first_item xs of
       None \<Rightarrow> Done (Some none) | Some x \<Rightarrow> keep_state ''persist step state'' s (new x) True)) tr' = Some q"
    unfolding create_new_def replay_Call by blast
  then show ?thesis
  proof cases
    case 1
    then show ?thesis by (simp add: sound_apply_def create_new_def)
  next
    case (2 x tr')
    show ?thesis
    proof (cases "\<exists>y ys. gives x = Ok (y # ys)")
      case False
      then have "tr' = [] \<and> (\<exists>e. q = Done (Some e))" using 2(2)
        by (auto simp: first_item_def replay_simps split: sum.splits list.splits)
      with False c 2(1) show ?thesis by (auto simp: sound_apply_def)
    next
      case True
      then obtain y ys where y: "gives x = Ok (y # ys)" by blast
      with 2(2) have "replay m n (keep_state ''persist step state'' s (new y) True) tr' = Some q" by (simp add: first_item_def)
      moreover let ?d = "state_data s (Some (new y)) \<lparr>rm_was_created = True, rm_spec_hash = es_hash s\<rparr>"
      have "records y ?d" using assms(3) by simp
      moreover from this have "produced s create x ?d" using assms(2) y unfolding produced_def by blast
      ultimately show ?thesis using keep_state_sound c y 2(1)
        by (fastforce simp: sound_apply_def intro!: exI [of _ ?d])
    qed
  qed
qed

text \<open>Looking something up before does no harm.\<close>

fun harmless :: "act \<Rightarrow> bool" where
  "harmless (Asked r x) \<longleftrightarrow> \<not> removes r \<and> \<not> creates r"
| "harmless (Looked k x) \<longleftrightarrow> True"
| "harmless _ \<longleftrightarrow> False"

lemma harmless_Asked: "\<not> removes r \<Longrightarrow> \<not> creates r \<Longrightarrow> harmless (Asked r x)"
  by simp

lemma sound_more: "sound_apply s saved tr q \<Longrightarrow> harmless a \<Longrightarrow> sound_apply s saved (a # tr) q"
proof -
  assume k: "sound_apply s saved tr q" and a: "harmless a"
  from a have l: "\<not> is_save a" "\<And>d e. a \<noteq> Saved d e" "\<And>r x. a = Asked r x \<Longrightarrow> \<not> removes r \<and> \<not> creates r"
    by (cases a; simp)+
  note S = k [unfolded sound_apply_def]
  show ?thesis unfolding sound_apply_def
  proof (intro conjI)
    show "\<forall>r x. Asked r x \<in> set (a # tr) \<longrightarrow> \<not> removes r" using S [THEN conjunct1] l(3) by auto
    show "q = Done None \<longrightarrow> (\<exists>d. Saved d None \<in> set (a # tr))" using S [THEN conjunct2, THEN conjunct1] by auto
    show "length (filter is_save (a # tr)) \<le> 1" using S l(1) by simp
    show "\<forall>d e. Saved d (Some e) \<in> set (a # tr) \<longrightarrow> q \<noteq> Done None"
      using S [THEN conjunct2, THEN conjunct2, THEN conjunct2, THEN conjunct1] l(2) by auto
    show "\<forall>r x y ys. Asked r x \<in> set (a # tr) \<longrightarrow> creates r \<longrightarrow> gives x = Ok (y # ys) \<longrightarrow>
        (\<exists>d. records y d \<and> ((\<exists>e. Saved d e \<in> set (a # tr)) \<or> next_save q = Some d))"
      using S [THEN conjunct2, THEN conjunct2, THEN conjunct2, THEN conjunct2, THEN conjunct1] l(3)
      unfolding list.set insert_iff by metis
    show "\<forall>d e. Saved d e \<in> set (a # tr) \<longrightarrow> rm_was_created (rs_meta d) \<longrightarrow>
        (\<exists>r x. Asked r x \<in> set (a # tr) \<and> (produced s r x d \<or> rm_was_created (rs_meta saved) \<and> found_again r x d))"
      using S [THEN conjunct2, THEN conjunct2, THEN conjunct2, THEN conjunct2, THEN conjunct2] l(2)
      unfolding list.set insert_iff by metis
  qed
qed

lemma first_item_mem: "first_item xs = Some z \<Longrightarrow> z \<in> set xs"
  by (auto simp: first_item_def split: list.splits)

lemma same_version_mem: "same_version s xs = Some z \<Longrightarrow> z \<in> set xs"
  by (auto simp: same_version_def dest: find_first_Some)

lemma provision_sound:
  assumes "replay m n (provision s saved get what pick old create) tr = Some q" "looks_up get"
    and rest: "\<And>tr q. replay m n create tr = Some q \<Longrightarrow> sound_apply s saved tr q"
    and pick: "\<And>xs z. pick xs = Some z \<Longrightarrow> z \<in> set xs" "\<And>z. state_id (old z) = it_id z"
  shows "sound_apply s saved tr q"
proof -
  have c: "\<not> removes get" "\<not> creates get" using assms(2) by (cases get; simp)+
  note more = sound_more [OF _ harmless_Asked [OF c]]
  from assms(1) consider "tr = []" "q = provision s saved get what pick old create" | x tr' where "tr = Asked get x # tr'"
    "replay m n (case gives x of
       Inl e \<Rightarrow> if \<not> IsNotFound e then Done (Some (what @ '': '' @ err_text e)) else create
     | Inr xs \<Rightarrow> (case pick xs of
         Some x \<Rightarrow> keep_state ''persist step state after skip'' s (old x) (rm_was_created (rs_meta saved))
       | None \<Rightarrow> create)) tr' = Some q"
    unfolding provision_def replay_Call by blast
  then show ?thesis
  proof cases
    case 1
    then show ?thesis by (simp add: sound_apply_def provision_def)
  next
    case (2 x tr')
    show ?thesis
    proof (cases "\<exists>xs y. gives x = Ok xs \<and> pick xs = Some y")
      case True
      then obtain xs y where y: "gives x = Ok xs" "pick xs = Some y" by blast
      with 2(2) have k: "replay m n (keep_state ''persist step state after skip'' s (old y) (rm_was_created (rs_meta saved))) tr' = Some q"
        by simp
      let ?d = "state_data s (Some (old y)) \<lparr>rm_was_created = rm_was_created (rs_meta saved), rm_spec_hash = es_hash s\<rparr>"
      have "found_again get x ?d" if "rm_was_created (rs_meta saved)"
        using that assms(2) y pick unfolding found_again_def by (blast intro: records_data(1))
      with keep_state_sound [OF k] 2(1) c show ?thesis by (fastforce simp: sound_apply_def)
    next
      case False
      with 2(2) rest have "sound_apply s saved tr' q"
        by (auto simp: replay_simps sound_apply_def split: sum.splits option.splits if_splits)
      with more 2(1) show ?thesis by simp
    qed
  qed
qed

lemma look_sound:
  assumes "replay m n (resolveStepRef ty ref k) tr = Some q" "\<And>r tr q. replay m n (k r) tr = Some q \<Longrightarrow> sound_apply s saved tr q"
  shows "sound_apply s saved tr q"
proof (cases "ref = None \<or> ref = Some ''''")
  case True
  with assms show ?thesis by (auto simp: resolveStepRef_def)
next
  case False
  then obtain x where x: "ref = Some x" "x \<noteq> ''''" by auto
  have more: "sound_apply s saved tr q \<Longrightarrow> sound_apply s saved (Looked key l # tr) q" for key l tr q by (rule sound_more) simp_all
  from assms(1) x consider "tr = []" "q = resolveStepRef ty ref k" | l tr' where "tr = Looked (ty @ '':'' @ x) l # tr'"
    "replay m n (k (Some (step_ref x l))) tr' = Some q" by (auto simp: resolveStepRef_def replay_Look)
  then show ?thesis
  proof cases
    case 1
    then show ?thesis using x by (simp add: sound_apply_def resolveStepRef_def)
  next
    case 2
    with assms(2) more show ?thesis by simp
  qed
qed

lemma with_op_sound:
  assumes "replay m n (with_op s p) tr = Some q" "\<And>tr q. replay m n p tr = Some q \<Longrightarrow> sound_apply s saved tr q"
  shows "sound_apply s saved tr q"
  using assms by (auto simp: with_op_def replay_simps sound_apply_def split: if_splits)

text \<open>A command: one call, and then the state.\<close>

lemma command_sound:
  assumes "replay m n (Call r k) tr = Some q" "\<not> removes r" "\<not> creates r" "\<not> looks_up r"
    and "\<And>x. (\<exists>e. k x = Done (Some e)) \<or> commanded s r x \<and> (\<exists>st. k x = keep_state ''persist step state'' s st True)"
  shows "sound_apply s saved tr q"
proof -
  from assms(1) consider "tr = []" "q = Call r k" | x tr' where "tr = Asked r x # tr'" "replay m n (k x) tr' = Some q"
    unfolding replay_Call by blast
  then show ?thesis
  proof cases
    case 1
    then show ?thesis by (simp add: sound_apply_def)
  next
    case (2 x tr')
    from assms(5) [of x] show ?thesis
    proof (elim disjE exE conjE)
      fix e assume "k x = Done (Some e)"
      with 2 assms(2-4) show ?thesis by (simp add: replay_Done sound_apply_def)
    next
      fix st assume c: "commanded s r x" "k x = keep_state ''persist step state'' s st True"
      then have "produced s r x d" for d by (simp add: produced_def)
      moreover from c 2 have "replay m n (keep_state ''persist step state'' s st True) tr' = Some q" by simp
      ultimately show ?thesis using keep_state_sound 2(1) assms(2-4) by (fastforce simp: sound_apply_def)
    qed
  qed
qed

subsection \<open>The parts of a \<open>Destroy\<close>\<close>

lemma after_destroy_sound: "replay m n (after_destroy what s own) tr = Some q \<Longrightarrow> sound_destroy tr q"
  unfolding after_destroy_def by (drule persist_sound) (auto simp: sound_destroy_def persist_def)

lemma fail_sound: "replay m n (Done (Some e)) tr = Some q \<Longrightarrow> sound_destroy tr q"
  by (simp add: replay_Done sound_destroy_def)

lemma ask_sound:
  assumes "replay m n (Call r k) tr = Some q" "looks_up r \<or> removes r"
    and "\<And>x tr q. replay m n (k x) tr = Some q \<Longrightarrow> sound_destroy tr q"
  shows "sound_destroy tr q"
proof -
  from assms(1) consider "tr = []" "q = Call r k" | x tr' where "tr = Asked r x # tr'" "replay m n (k x) tr' = Some q"
    unfolding replay_Call by blast
  then show ?thesis
  proof cases
    case 1
    then show ?thesis by (simp add: sound_destroy_def)
  next
    case (2 x tr')
    from assms(3) [OF 2(2)] assms(2) 2(1) show ?thesis by (auto simp: sound_destroy_def)
  qed
qed

lemma with_op_destroy: "replay m n (with_op s p) tr = Some q \<Longrightarrow> (\<And>tr q. replay m n p tr = Some q \<Longrightarrow> sound_destroy tr q) \<Longrightarrow> sound_destroy tr q"
  by (auto simp: with_op_def split: if_splits dest: fail_sound)

lemmas destroy_parts = after_destroy_sound fail_sound

lemma remove_network_sound: "replay m n (remove_network s own i) tr = Some q \<Longrightarrow> sound_destroy tr q"
  unfolding remove_network_def by (erule ask_sound) (auto split: sum.splits if_splits dest: destroy_parts)

lemma network_destroy_sound: "replay m n (network_destroy y s saved) tr = Some q \<Longrightarrow> sound_destroy tr q"
  unfolding network_destroy_def Let_def
  by (erule with_op_destroy)
    (auto split: option.splits step_state.splits if_splits sum.splits list.splits
      elim!: ask_sound dest: destroy_parts remove_network_sound)

lemma key_destroy_sound: "replay m n (key_destroy y s saved) tr = Some q \<Longrightarrow> sound_destroy tr q"
  unfolding key_destroy_def Let_def
  by (erule with_op_destroy)
    (auto split: option.splits step_state.splits if_splits elim!: ask_sound dest: destroy_parts)

lemma vm_destroy_sound: "replay m n (vm_destroy y s saved) tr = Some q \<Longrightarrow> sound_destroy tr q"
  unfolding vm_destroy_def Let_def
proof (erule with_op_destroy, erule ask_sound, goal_cases)
  case (2 x tr q)
  then show ?case
    by (simp split: sum.splits list.splits if_splits del: append.simps) (auto dest: destroy_parts elim!: ask_sound split: option.splits)
qed simp

lemma pulled_destroy_sound: "replay m n (pulled_destroy y s saved) tr = Some q \<Longrightarrow> sound_destroy tr q"
  unfolding pulled_destroy_def by (erule with_op_destroy, erule after_destroy_sound)

lemma imperative_destroy_sound: "replay m n (imperative_destroy y s saved) tr = Some q \<Longrightarrow> sound_destroy tr q"
  unfolding imperative_destroy_def by (rule after_destroy_sound)

subsection \<open>The types of steps provide it\<close>

lemma network_apply_sound: "replay m n (network_apply s saved) tr = Some q \<Longrightarrow> sound_apply s saved tr q"
  unfolding network_apply_def Let_def
  by (erule with_op_sound, erule provision_sound) (auto simp: network_state_def dest: first_item_mem elim: create_new_sound)

lemma key_apply_sound: "replay m n (key_apply s saved) tr = Some q \<Longrightarrow> sound_apply s saved tr q"
  unfolding key_apply_def Let_def by (erule with_op_sound, erule provision_sound) (auto dest: first_item_mem elim: create_new_sound)

lemma image_apply_sound: "replay m n (image_apply s saved) tr = Some q \<Longrightarrow> sound_apply s saved tr q"
  unfolding image_apply_def Let_def by (erule with_op_sound, erule provision_sound) (auto dest: first_item_mem elim: create_new_sound)

lemma kernel_apply_sound: "replay m n (kernel_apply s saved) tr = Some q \<Longrightarrow> sound_apply s saved tr q"
  unfolding kernel_apply_def Let_def by (erule with_op_sound, erule provision_sound) (auto dest: first_item_mem elim: create_new_sound)

lemma binary_apply_sound: "replay m n (binary_apply s saved) tr = Some q \<Longrightarrow> sound_apply s saved tr q"
  unfolding binary_apply_def Let_def by (erule with_op_sound, erule provision_sound) (auto dest: same_version_mem elim: create_new_sound)

lemma image_import_apply_sound: "replay m n (image_import_apply s saved) tr = Some q \<Longrightarrow> sound_apply s saved tr q"
  unfolding image_import_apply_def by (erule with_op_sound) (auto elim: create_new_sound)

lemma vm_apply_sound: "replay m n (vm_apply s saved) tr = Some q \<Longrightarrow> sound_apply s saved tr q"
  unfolding vm_apply_def Let_def
  by (erule with_op_sound, (erule look_sound)+, erule provision_sound) (auto simp: new_vm_def old_vm_def dest: first_item_mem elim: create_new_sound)

lemma ssh_apply_sound: "replay m n (ssh_apply s saved) tr = Some q \<Longrightarrow> sound_apply s saved tr q"
  unfolding ssh_apply_def
proof (erule command_sound, goal_cases)
  case (4 x)
  then show ?case by (cases x) auto
qed simp_all

lemma copy_apply_sound: "replay m n (copy_apply s saved) tr = Some q \<Longrightarrow> sound_apply s saved tr q"
  unfolding copy_apply_def
proof (erule command_sound, goal_cases)
  case (4 x)
  then show ?case by (cases x) auto
qed simp_all

lemma exec_apply_sound: "replay m n (exec_apply s saved) tr = Some q \<Longrightarrow> sound_apply s saved tr q"
proof (cases "in_command (es_input s) = ''''")
  case False
  assume r: "replay m n (exec_apply s saved) tr = Some q"
  show ?thesis using r unfolding exec_apply_def if_not_P [OF False]
    by (rule command_sound) (auto split: response.split option.split)
qed (simp add: exec_apply_def replay_Done sound_apply_def)

interpretation network_type: step_type network_apply network_destroy
  by unfold_locales (rule network_apply_sound network_destroy_sound, assumption)+

interpretation key_type: step_type key_apply key_destroy
  by unfold_locales (rule key_apply_sound key_destroy_sound, assumption)+

interpretation image_type: step_type image_apply pulled_destroy
  by unfold_locales (rule image_apply_sound pulled_destroy_sound, assumption)+

interpretation image_import_type: step_type image_import_apply pulled_destroy
  by unfold_locales (rule image_import_apply_sound pulled_destroy_sound, assumption)+

interpretation kernel_type: step_type kernel_apply pulled_destroy
  by unfold_locales (rule kernel_apply_sound pulled_destroy_sound, assumption)+

interpretation binary_type: step_type binary_apply pulled_destroy
  by unfold_locales (rule binary_apply_sound pulled_destroy_sound, assumption)+

interpretation vm_type: step_type vm_apply vm_destroy
  by unfold_locales (rule vm_apply_sound vm_destroy_sound, assumption)+

interpretation ssh_type: step_type ssh_apply imperative_destroy
  by unfold_locales (rule ssh_apply_sound imperative_destroy_sound, assumption)+

interpretation exec_type: step_type exec_apply imperative_destroy
  by unfold_locales (rule exec_apply_sound imperative_destroy_sound, assumption)+

interpretation copy_type: step_type copy_apply imperative_destroy
  by unfold_locales (rule copy_apply_sound imperative_destroy_sound, assumption)+

text \<open>Whatever a step's type, its methods keep the contract.\<close>

interpretation steps: step_type step_apply step_destroy
proof
  fix m n s saved tr q
  assume "replay m n (step_apply s saved) tr = Some q"
  then show "sound_apply s saved tr q"
    by (auto simp: step_apply_def Registry_def registry_def replay_Done split: if_splits
        intro: network_apply_sound key_apply_sound image_apply_sound kernel_apply_sound binary_apply_sound vm_apply_sound
          ssh_apply_sound exec_apply_sound copy_apply_sound image_import_apply_sound) (simp add: sound_apply_def)
next
  fix m n y s saved tr q
  assume "replay m n (step_destroy y s saved) tr = Some q"
  then show "sound_destroy tr q"
    by (auto simp: step_destroy_def Registry_def registry_def split: if_splits
        intro: network_destroy_sound key_destroy_sound vm_destroy_sound pulled_destroy_sound imperative_destroy_sound fail_sound)
qed

end
