(* ===== verification/EnvOps.thy ===== *)
theory EnvOps
  imports EnvContracts Paths
begin

text \<open>
  Applying and destroying an environment (\<open>Apply\<close>, \<open>Destroy\<close>, \<open>Diff\<close> and \<open>List\<close> of
  \<open>internal/workflow/env/env.go\<close>): what is set up before the pipeline runs, the run itself under
  any schedule, and what is done after it.
\<close>

subsection \<open>Before the run\<close>

definition MergeEnv :: "(string \<rightharpoonup> string) \<Rightarrow> env_step \<Rightarrow> env_step" where
  "MergeEnv kv s = (if es_type s = ''exec'' then s\<lparr>es_input := (es_input s)\<lparr>in_env := in_env (es_input s) ++ kv\<rparr>\<rparr> else s)"

definition step_of :: "env_step list \<Rightarrow> string \<Rightarrow> env_step" where
  "step_of ss n = the (find_first (\<lambda>s. sname s = n) ss)"

definition apply_config :: "(request \<Rightarrow> 'w \<Rightarrow> response \<times> 'w) \<Rightarrow> string \<Rightarrow> string \<Rightarrow> env_step list \<Rightarrow> applied_resource list \<Rightarrow> 'w env_config" where
  "apply_config api i src ss prev = \<lparr>vc_engine = \<lparr>c_mode = Executing, c_saved = saved_by_step prev, c_writer = True\<rparr>,
     vc_body = (\<lambda>n. step_apply (step_of ss n)), vc_step = step_of ss, vc_api = api, vc_id = i, vc_spec = src\<rparr>"

text \<open>The resources of an earlier run, if its state can be read.\<close>

definition previous :: "(string, workflow_state) res \<Rightarrow> applied_resource list" where
  "previous r = (case r of Inl e \<Rightarrow> [] | Inr st \<Rightarrow> wf_resources st)"

definition prepare_apply :: "string \<Rightarrow> (err, env_spec \<times> env_step list) res \<Rightarrow> (string \<rightharpoonup> string) \<Rightarrow>
    (err, env_spec \<times> env_step list \<times> step list list) res" where
  "prepare_apply src resolved kv = (case resolved of
     Inl e \<Rightarrow> Err (WrapMsg ''internal'' (''resolve env spec '' @ src @ '': '' @ err_text e) e)
   | Inr (spec, ss) \<Rightarrow>
       if ss = [] then Err (New ''validation.failed'' ''env spec contains no resources'')
       else (case NewPipeline (map as_step ss) of
         Some (Inr p) \<Rightarrow> Ok (spec, map (MergeEnv kv) ss, p_levels p)
       | _ \<Rightarrow> (let e = Plain ''build DAG'' None in Err (WrapMsg ''internal'' (''build pipeline for '' @ src @ '': '' @ err_text e) e))))"

definition start_apply :: "'w env_config \<Rightarrow> step list list \<Rightarrow> 'w \<Rightarrow> workflow_state option \<Rightarrow> 'w env_run" where
  "start_apply c lev w file = start_env c lev w [] '''' file"

subsection \<open>Removals after the run\<close>

text \<open>What is called for a target, by the type in its name; other types are only warned about.\<close>

definition remove_request :: "string \<Rightarrow> string \<Rightarrow> request option" where
  "remove_request ty n =
     (if ty = ''vm'' then Some (VMRemove n False)
      else if ty = ''image'' \<or> ty = ''image_import'' then Some (ImageRemove n)
      else if ty = ''network'' then Some (NetworkRemove n)
      else if ty = ''volume'' then Some (VolumeRemove n)
      else if ty = ''key'' then Some (KeyRemove n)
      else if ty = ''kernel'' then Some (KernelRemove n)
      else if ty = ''binary'' then Some (BinaryRemove n)
      else if ty = ''snapshot'' then Some (SnapshotRemove n)
      else None)"

definition remove_failed :: "response \<Rightarrow> bool" where
  "remove_failed x \<longleftrightarrow> first_error x \<noteq> None"

text \<open>\<open>disk\<close> says which of the writes of the state file succeed, \<open>now\<close> is the time at each; a failed write is only logged.\<close>

definition remove_target :: "'w env_config \<Rightarrow> (nat \<Rightarrow> bool) \<Rightarrow> (nat \<Rightarrow> string) \<Rightarrow> string \<Rightarrow> nat \<times> 'w env_run \<Rightarrow> nat \<times> 'w env_run" where
  "remove_target c disk now target = (\<lambda>(k, v).
     let ty = InferStepType target; n = BareStepName target ty;
         (failed, w) = (case remove_request ty n of
            None \<Rightarrow> (False, ev_api v)
          | Some r \<Rightarrow> (case vc_api c r (ev_api v) of (x, w) \<Rightarrow> (remove_failed x, w)))
     in if failed then (k, v\<lparr>ev_api := w\<rparr>)
        else let rs = filter (\<lambda>r. ar_name r \<noteq> target) (ev_acc v)
          in (Suc k, v\<lparr>ev_api := w, ev_acc := rs,
               ev_file := (if disk k then Some (wf_state c (ev_created v) (now k) rs) else ev_file v)\<rparr>))"

definition remove_targets :: "'w env_config \<Rightarrow> (nat \<Rightarrow> bool) \<Rightarrow> (nat \<Rightarrow> string) \<Rightarrow> env_step list \<Rightarrow> 'w env_run \<Rightarrow> 'w env_run" where
  "remove_targets c disk now ss v = snd (fold (remove_target c disk now) (concat (map es_removes ss)) (0, v))"

text \<open>What \<open>Apply\<close> answers once the engine has its result.\<close>

definition finish_apply :: "'w env_config \<Rightarrow> string \<Rightarrow> (nat \<Rightarrow> bool) \<Rightarrow> (nat \<Rightarrow> string) \<Rightarrow> env_step list \<Rightarrow> 'w env_run \<Rightarrow> err option \<times> 'w env_run" where
  "finish_apply c src disk now ss v = (case e_result (ev_engine v) of
     Some Nil \<Rightarrow> (None, remove_targets c disk now ss v)
   | Some (Failed n e) \<Rightarrow>
       (let m = ''step '' @ q_text n @ '': '' @ e in (Some (WrapMsg ''internal'' (''env apply '' @ src @ '' failed: '' @ m) (Plain m None)), v))
   | _ \<Rightarrow> (Some (WrapMsg ''internal'' (''env apply '' @ src @ '' failed: context canceled'') (Plain ''context canceled'' None)), v))"

subsection \<open>Destroy\<close>

text \<open>The steps of a saved state; resources of unknown types are skipped.\<close>

fun reconstruct :: "yaml \<Rightarrow> bool \<Rightarrow> applied_resource list \<Rightarrow> (string \<times> string, env_step list) res" where
  "reconstruct y op [] = Ok []"
| "reconstruct y op (r # rs) = (case Registry (ar_type r) of
     None \<Rightarrow> reconstruct y op rs
   | Some f \<Rightarrow> (case sf_from_state f y (ar_type r) (BareStepName (ar_name r) (ar_type r)) (ar_state r) (ar_deps r) op of
       Inl e \<Rightarrow> Err (ar_name r, e)
     | Inr s \<Rightarrow> bind_res (reconstruct y op rs) (\<lambda>ss. Ok (s # ss))))"

definition known_names :: "applied_resource list \<Rightarrow> string list" where
  "known_names rs = map ar_name (filter (\<lambda>r. Registry (ar_type r) \<noteq> None) rs)"

definition destroy_config :: "yaml \<Rightarrow> (request \<Rightarrow> 'w \<Rightarrow> response \<times> 'w) \<Rightarrow> string \<Rightarrow> workflow_state \<Rightarrow> env_step list \<Rightarrow> 'w env_config" where
  "destroy_config y api i st ss = \<lparr>vc_engine = \<lparr>c_mode = Destroying, c_saved = saved_by_step (wf_resources st), c_writer = True\<rparr>,
     vc_body = (\<lambda>n. step_destroy y (step_of ss n)), vc_step = step_of ss, vc_api = api, vc_id = i, vc_spec = wf_spec st\<rparr>"

definition prepare_destroy :: "yaml \<Rightarrow> bool \<Rightarrow> string \<Rightarrow> workflow_state \<Rightarrow> (err, env_step list \<times> step list list) res" where
  "prepare_destroy y op which st = (case reconstruct y op (wf_resources st) of
     Inl (n, e) \<Rightarrow> Err (WrapMsg ''internal'' (''reconstruct step '' @ q_text n @ '': '' @ e) (Plain e None))
   | Inr ss \<Rightarrow>
       if ss = [] then Err (New ''validation.failed'' ''no reconstructable steps in saved state'')
       else (case NewDestroyPipeline (map as_step ss) (\<lambda>n. n \<in> set (known_names (wf_resources st))) of
         Some (Inr p) \<Rightarrow> Ok (ss, p_levels p)
       | _ \<Rightarrow> (let e = Plain ''build DAG'' None in Err (WrapMsg ''internal'' (''build destroy pipeline for '' @ which @ '': '' @ err_text e) e))))"

definition start_destroy :: "'w env_config \<Rightarrow> step list list \<Rightarrow> 'w \<Rightarrow> workflow_state \<Rightarrow> 'w env_run" where
  "start_destroy c lev w st = start_env c lev w (wf_resources st) (wf_created st) (Some st)"

text \<open>After the run the state is removed if everything was destroyed.\<close>

definition finish_destroy :: "string \<Rightarrow> bool \<Rightarrow> 'w env_run \<Rightarrow> err option \<times> 'w env_run" where
  "finish_destroy which removed v = (case e_result (ev_engine v) of
     Some Nil \<Rightarrow> (None, if removed then v\<lparr>ev_file := None\<rparr> else v)
   | Some (Failed n e) \<Rightarrow>
       (let m = ''destroy step '' @ q_text n @ '': '' @ e in (Some (WrapMsg ''internal'' (''env destroy '' @ which @ '' failed: '' @ m) (Plain m None)), v))
   | _ \<Rightarrow> (Some (WrapMsg ''internal'' (''env destroy '' @ which @ '' failed: context canceled'') (Plain ''context canceled'' None)), v))"

subsection \<open>Facts of every run\<close>

lemma step_of_name: "n \<in> sname ` set ss \<Longrightarrow> sname (step_of ss n) = n \<and> step_of ss n \<in> set ss"
  by (cases "find_first (\<lambda>s. sname s = n) ss") (auto simp: step_of_def find_first_None dest: find_first_Some)

lemma names_as_step: "set (names (map as_step ss)) = sname ` set ss"
  by (auto simp: names_def as_step_def)

lemma find_override: "names (map (override_deps ex) steps) = names steps"
  by (simp add: names_def override_deps_def)

text \<open>The pipeline of the steps, as they are or without missing dependencies.\<close>

definition pipeline_of :: "env_step list \<Rightarrow> step list list \<Rightarrow> bool" where
  "pipeline_of ss lev \<longleftrightarrow> (\<exists>steps. build_dag steps = Some (Ok lev) \<and> names steps = map sname ss)"

lemma apply_pipeline: "NewPipeline (map as_step ss) = Some (Ok p) \<Longrightarrow> pipeline_of ss (p_levels p)"
  by (auto simp: pipeline_of_def NewPipeline_def names_def as_step_def comp_def bind_res_eq_Ok intro!: exI [of _ "map as_step ss"])

lemma destroy_pipeline: "NewDestroyPipeline (map as_step ss) ex = Some (Ok p) \<Longrightarrow> pipeline_of ss (p_levels p)"
  by (auto simp: pipeline_of_def NewDestroyPipeline_def NewPipeline_def names_def as_step_def override_deps_def comp_def bind_res_eq_Ok
      intro!: exI [of _ "map (override_deps ex) (map as_step ss)"])

lemma pipeline_distinct: "pipeline_of ss lev \<Longrightarrow> distinct (names (concat (level_order m lev)))"
  by (auto simp: pipeline_of_def names_levels)

lemma pipeline_names: "pipeline_of ss lev \<Longrightarrow> set (names (concat (level_order m lev))) = sname ` set ss"
  unfolding pipeline_of_def using names_levels(2) [where m = m] by (metis list.set_map names_def)

lemma pipeline_steps: "pipeline_of ss lev \<Longrightarrow> distinct (map sname ss)"
  unfolding pipeline_of_def using build_dag_ok_iff by metis

text \<open>A step with a history has been called and has come to where its process is.\<close>

lemma run_history:
  assumes "reach_env c lev (start_env c lev w acc created file) v" "pipeline_of ss lev" "a \<in> set (history v n)"
  shows "n \<in> sname ` set ss \<and> (\<exists>q. ev_procs v n = Some q \<and>
    replay (c_mode (vc_engine c)) n (vc_body c n (c_saved (vc_engine c) n)) (history v n) = Some q)"
proof -
  have F: "follows c v" by (rule reach_follows [OF assms(1) pipeline_distinct [OF assms(2)]])
  have inv: "einv (c_mode (vc_engine c)) (level_order (c_mode (vc_engine c)) lev) (ev_engine v)"
    by (rule reach_inv [OF reach_env_engine [OF assms(1)] pipeline_distinct [OF assms(2)]])
  from assms(3) followsD(1) [OF F] obtain q where q: "ev_procs v n = Some q" by (cases "ev_procs v n") auto
  with followsD(2) [OF F q] called_known [OF inv] pipeline_names [OF assms(2)] followsD(3) [OF F q] show ?thesis by auto
qed

lemma run_finished:
  assumes "reach_env c lev (start_env c lev w acc created file) v" "pipeline_of ss lev"
    and "e_result (ev_engine v) = Some Nil" "n \<in> sname ` set ss"
  shows "replay (c_mode (vc_engine c)) n (vc_body c n (c_saved (vc_engine c) n)) (history v n) = Some (Done None)"
proof -
  obtain steps where steps: "build_dag steps = Some (Ok lev)" "names steps = map sname ss" using assms(2) by (auto simp: pipeline_of_def)
  have F: "follows c v" by (rule reach_follows [OF assms(1) pipeline_distinct [OF assms(2)]])
  obtain s where "s \<in> set steps" "st_name s = n" using assms(4) steps(2) unfolding names_def by (metis (no_types, lifting) image_iff list.set_map)
  with nil_returned [OF steps(1) reach_env_engine [OF assms(1)] assms(3)] have "Returned n None \<in> set (e_log (ev_engine v))" by blast
  with followsD(3,4) [OF F] show ?thesis by blast
qed

subsection \<open>What an apply leaves behind\<close>

lemma apply_config_simps [simp]:
  "c_mode (vc_engine (apply_config api i src ss prev)) = Executing" "vc_step (apply_config api i src ss prev) = step_of ss"
  "vc_body (apply_config api i src ss prev) n = step_apply (step_of ss n)"
  "c_saved (vc_engine (apply_config api i src ss prev)) = saved_by_step prev"
  by (simp_all add: apply_config_def)

lemma history_iff: "a \<in> set (history v n) \<longleftrightarrow> (n, a) \<in> set (ev_hist v)"
  by (force simp: history_def)

lemma apply_trace:
  assumes "pipeline_of ss lev" "reach_env (apply_config api i src ss prev) lev (start_apply (apply_config api i src ss prev) lev w file) v"
    and "(n, a) \<in> set (ev_hist v)"
  obtains q where "n \<in> sname ` set ss" "ev_procs v n = Some q" "sound_apply (step_of ss n) (saved_by_step prev n) (history v n) q"
  using run_history [OF assms(2) [unfolded start_apply_def] assms(1), of a n] assms(3) steps.apply_sound by (auto simp: history_iff)

lemma apply_acc:
  assumes "reach_env (apply_config api i src ss prev) lev (start_apply (apply_config api i src ss prev) lev w file) v"
  shows "ev_acc v = map (\<lambda>(n, d, e). applied (step_of ss n) d) (saves (ev_hist v))"
  using reach_filed [OF assms [unfolded start_apply_def]] by (simp add: acc_Executing)

lemma saved_listed:
  assumes "pipeline_of ss lev" "reach_env (apply_config api i src ss prev) lev (start_apply (apply_config api i src ss prev) lev w file) v"
    and "Saved d e \<in> set (history v n)"
  shows "\<exists>a \<in> set (ev_acc v). ar_name a = n \<and> ar_state a = d"
proof -
  have "n \<in> sname ` set ss" using assms apply_trace [OF assms(1,2)] by (metis history_iff)
  then have "sname (step_of ss n) = n" using step_of_name by blast
  moreover have "(n, d, e) \<in> set (saves (ev_hist v))" using assms(3) by (simp add: history_saves)
  ultimately show ?thesis unfolding apply_acc [OF assms(2)] by (intro bexI [of _ "applied (step_of ss n) d"]) (force simp: applied_def)+
qed


lemma saves_once: "length (filter is_save tr) \<le> 1 \<Longrightarrow> Saved d e \<in> set tr \<Longrightarrow> Saved d' e' \<in> set tr \<Longrightarrow> d' = d \<and> e' = e"
proof (induction tr)
  case (Cons a tr)
  show ?case
  proof (cases "is_save a")
    case True
    with Cons.prems(1) have "filter is_save tr = []" by simp
    then have "Saved d e \<notin> set tr" for d e by (auto simp: filter_empty_conv)
    with Cons.prems show ?thesis by auto
  next
    case False
    with Cons show ?thesis by auto
  qed
qed simp

lemma saves_of: "map (\<lambda>(n, d, e). Saved d e) (filter (\<lambda>(m, d, e). m = n) (saves h)) = filter is_save (map snd (filter (\<lambda>h. fst h = n) h))"
  by (induction h rule: saves.induct) auto

lemma distinct_saves:
  assumes "\<And>n. length (filter is_save (history v n)) \<le> 1"
  shows "distinct (map fst (saves (ev_hist v)))"
proof -
  have "length (filter (\<lambda>(m, d, e). m = n) (saves (ev_hist v))) \<le> 1" for n
    using assms [of n] saves_of [of n "ev_hist v"] unfolding history_def by (metis length_map)
  moreover have "(\<lambda>s. fst s = n) = (\<lambda>(m :: string, d :: resource_state, e :: string option). m = n)" for n by auto
  ultimately have "length (filter (\<lambda>s. fst s = n) (saves (ev_hist v))) \<le> 1" for n by metis
  moreover have "(\<And>n. length (filter (\<lambda>s. fst s = n) xs) \<le> 1) \<Longrightarrow> distinct (map fst xs)" for xs :: "(string \<times> resource_state \<times> string option) list"
  proof (induction xs)
    case (Cons x xs)
    have "length (filter (\<lambda>s. fst s = n) xs) \<le> 1" for n using Cons.prems [of n] by (auto split: if_splits)
    moreover have "filter (\<lambda>s. fst s = fst x) xs = []" using Cons.prems [of "fst x"] by simp
    ultimately show ?case using Cons.IH by (auto simp: filter_empty_conv)
  qed simp
  ultimately show ?thesis by blast
qed

lemma apply_saves_distinct:
  assumes "pipeline_of ss lev" "reach_env (apply_config api i src ss prev) lev (start_apply (apply_config api i src ss prev) lev w file) v"
  shows "distinct (map fst (saves (ev_hist v)))"
proof (rule distinct_saves)
  fix n
  show "length (filter is_save (history v n)) \<le> 1"
  proof (cases "history v n")
    case (Cons a tr)
    then have "(n, a) \<in> set (ev_hist v)" by (metis history_iff list.set_intros(1))
    from apply_trace [OF assms this] show ?thesis unfolding sound_apply_def by blast
  qed simp
qed

lemma listed_names:
  assumes "\<And>n d e. (n, d, e) \<in> set ys \<Longrightarrow> n \<in> sname ` set ss"
  shows "map ar_name (map (\<lambda>(n, d, e). applied (step_of ss n) d) ys) = map fst ys"
  using assms step_of_name by (force simp: applied_def)

lemma no_failed_rest: "all_failed ys \<Longrightarrow> (\<And>n d e. (n, d, e) \<in> set ys \<Longrightarrow> e = None) \<Longrightarrow> ys = []"
  by (cases ys) (auto simp: all_failed_def)

lemma listed_steps:
  assumes "\<And>n d e. (n, d, e) \<in> set (saves h) \<Longrightarrow> n \<in> sname ` set ss \<and> e = None"
  shows "\<forall>a \<in> set (map (\<lambda>(n, d, e). applied (step_of ss n) d) (saves h)). \<exists>s \<in> set ss. ar_name a = sname s \<and>
    ar_type a = es_type s \<and> ar_deps a = es_deps s \<and> (sname s, Saved (ar_state a) None) \<in> set h"
proof
  fix a
  assume "a \<in> set (map (\<lambda>(n, d, e). applied (step_of ss n) d) (saves h))"
  then obtain n d e where h: "(n, d, e) \<in> set (saves h)" "a = applied (step_of ss n) d" by auto
  from assms [OF h(1)] have n: "n \<in> sname ` set ss" and "e = None" by auto
  with h(1) have "(n, Saved d None) \<in> set h" by (simp add: saves_iff)
  with step_of_name [OF n] h(2) show "\<exists>s \<in> set ss. ar_name a = sname s \<and> ar_type a = es_type s \<and> ar_deps a = es_deps s \<and>
      (sname s, Saved (ar_state a) None) \<in> set h"
    by (intro bexI [of _ "step_of ss n"]) (simp_all add: applied_def)
qed


text \<open>
  C34: Applying again starts from an empty list. As soon as one step has been saved, the state file
  has lost every resource of the earlier run whose step has not been saved in this run: if the run
  then fails, the resources are forgotten, and no destroy will remove them.
\<close>

theorem reapply_forgets:
  assumes "NewPipeline (map as_step ss) = Some (Ok p)" "c = apply_config api i src ss prev"
    and "reach_env c (p_levels p) (start_apply c (p_levels p) w (Some old)) v" "prev = wf_resources old"
    and "(m, Saved b None) \<in> set (ev_hist v)" "r \<in> set prev" "\<And>d e. (ar_name r, Saved d e) \<notin> set (ev_hist v)"
  shows "\<exists>st. ev_file v = Some st \<and> ar_name r \<notin> ar_name ` set (wf_resources st)"
proof -
  note pipe = apply_pipeline [OF assms(1)] and run = assms(3) [unfolded assms(2)]
  let ?ss = "saves (ev_hist v)"
  have in_ss: "n \<in> sname ` set ss" if "(n, d, e) \<in> set ?ss" for n d e
    using apply_trace [OF pipe run] that by (metis saves_iff)
  have "(m, b, None) \<in> set ?ss" using assms(5) by (simp add: saves_iff)
  then have some: "\<not> all_failed ?ss" unfolding all_failed_def by fastforce
  have "filed (apply_config api i src ss prev) [] (Some old) ?ss (ev_file v)" using reach_filed [OF run [unfolded start_apply_def]] by blast
  with some obtain pre n d post st where split: "?ss = pre @ (n, d, None) # post" "ev_file v = Some st"
    "wf_resources st = map (\<lambda>(n, d, e). applied (step_of ss n) d) (pre @ [(n, d, None)])"
    unfolding filed_def by (auto simp: acc_Executing)
  have sub: "set (pre @ [(n, d, None)]) \<subseteq> set ?ss" unfolding split(1) by auto
  have "map ar_name (wf_resources st) = map fst (pre @ [(n, d, None)])"
    unfolding split(3) by (rule listed_names) (use in_ss sub in blast)
  then have "ar_name ` set (wf_resources st) = fst ` set (pre @ [(n, d, None)])" by (metis list.set_map)
  moreover have "ar_name r \<notin> fst ` set ?ss" using assms(7) by (auto simp: saves_iff)
  ultimately show ?thesis using split(2) sub by blast
qed

subsection \<open>A concrete environment\<close>

definition demo_key :: "string \<Rightarrow> env_step" where
  "demo_key n = \<lparr>es_type = ''key'', es_name = n, es_deps = [], es_removes = [], es_hash = ''h'', es_input = empty_input\<lparr>in_name := n\<rparr>,
     es_spec = None, es_ignore = False, es_op = True, es_saved = None, es_meta = \<lparr>rm_was_created = False, rm_spec_hash = ''''\<rparr>\<rparr>"

definition demo_keys :: "env_step list" where
  "demo_keys = [demo_key ''a'', demo_key ''b'']"

definition demo_item :: "string \<Rightarrow> item" where
  "demo_item n = \<lparr>it_id = n, it_subnet = '''', it_version = '''', it_present = True, it_rootfs = '''', it_port = None, it_tap = ''''\<rparr>"

text \<open>An API that knows some keys, creates others and removes them.\<close>

definition demo_api :: "request \<Rightarrow> string list \<Rightarrow> response \<times> string list" where
  "demo_api r w = (case r of
     KeyGet n \<Rightarrow> (if n \<in> set w then Gives [demo_item n] else Failure (New ''key.not_found'' n), w)
   | KeyCreate i \<Rightarrow> (Gives [demo_item (in_name i)], in_name i # w)
   | KeyRemove n \<Rightarrow> (if n \<in> set w then (Batch [None], filter (\<lambda>k. k \<noteq> n) w) else (Batch [Some (New ''key.not_found'' n)], w))
   | _ \<Rightarrow> (Failure (Plain ''unavailable'' None), w))"

lemma demo_keys_pipeline: "NewPipeline (map as_step demo_keys) =
    Some (Ok \<lparr>p_steps = map as_step demo_keys, p_levels = [map as_step demo_keys]\<rparr>)"
  by code_simp

definition demo_saved :: "string \<Rightarrow> applied_resource" where
  "demo_saved n = applied (demo_key n) (state_data (demo_key n) (Some (KeyState n)) \<lparr>rm_was_created = True, rm_spec_hash = ''h''\<rparr>)"

definition demo_old :: workflow_state where
  "demo_old = \<lparr>wf_id = ''w'', wf_spec = ''s'', wf_schema = envStateSchemaVersion, wf_created = ''t'', wf_updated = ''t'', wf_hash = '''',
     wf_resources = [demo_saved ''a'', demo_saved ''b'']\<rparr>"

definition demo_config :: "workflow_state option \<Rightarrow> string list env_config" where
  "demo_config file = apply_config demo_api ''w'' ''s'' demo_keys (case file of Some st \<Rightarrow> wf_resources st | None \<Rightarrow> [])"

definition demo_apply :: "string list \<Rightarrow> workflow_state option \<Rightarrow> env_label list \<Rightarrow> string list env_run option" where
  "demo_apply w file ls = fires_env (demo_config file) (start_apply (demo_config file) [map as_step demo_keys] w file) ls"

definition one_key :: "nat \<Rightarrow> env_label list" where
  "one_key i = [Engine (Go i Announce), Engine (Go i Enter), Ask i]"

definition kept :: "nat \<Rightarrow> env_label list" where
  "kept i = [ShareNow i, Save i ''t'' ''u'' None, Leave i, Engine (Go i Report)]"

lemma demo_apply_reach: "demo_apply w file ls = Some v \<Longrightarrow>
    reach_env (demo_config file) [map as_step demo_keys] (start_apply (demo_config file) [map as_step demo_keys] w file) v"
  unfolding demo_apply_def by (blast intro: reach_fires_env reach_env.start)

lemma demo_create: "map_option (\<lambda>v. list_ex (\<lambda>(n, a). n = ''key:a'' \<and> (case a of Asked r x \<Rightarrow> creates r \<and> gives x = Ok [demo_item ''a''] | _ \<Rightarrow> False))
      (ev_hist v)) (demo_apply [] None (Engine Boundary # one_key 0 @ [Ask 0])) = Some True"
  by code_simp

lemma demo_full: "map_option (\<lambda>v. e_result (ev_engine v)) (demo_apply [] None
      (Engine Boundary # one_key 0 @ one_key 1 @ [Ask 1, Ask 0] @ kept 1 @ kept 0 @ [Engine label.Join, Engine Boundary])) = Some (Some Nil)"
  by code_simp

lemma demo_again: "map_option (\<lambda>v. map (\<lambda>(n, d, e). (n, e)) (saves (ev_hist v))) (demo_apply [''a''] (Some demo_old)
      (Engine Boundary # one_key 0 @ kept 0)) = Some [(''key:a'', None)]"
  by code_simp

text \<open>A run that ends in a given state, as the properties take it.\<close>

lemma demo_apply_run:
  assumes "map_option f (demo_apply w file ls) = Some x"
  obtains v where "demo_apply w file ls = Some v" "f v = x"
    "reach_env (demo_config file) (p_levels \<lparr>p_steps = map as_step demo_keys, p_levels = [map as_step demo_keys]\<rparr>)
       (start_apply (demo_config file) (p_levels \<lparr>p_steps = map as_step demo_keys, p_levels = [map as_step demo_keys]\<rparr>) w file) v"
proof -
  obtain v where v: "demo_apply w file ls = Some v" "f v = x" using assms by (cases "demo_apply w file ls") auto
  show thesis by (rule that [OF v]) (simp add: demo_apply_reach [OF v(1)])
qed



theorem reapply_forgets_witness:
  "\<exists>v st. demo_apply [''a''] (Some demo_old) (Engine Boundary # one_key 0 @ kept 0) = Some v \<and>
     ''key:b'' \<in> ar_name ` set (wf_resources demo_old) \<and> ev_file v = Some st \<and> ''key:b'' \<notin> ar_name ` set (wf_resources st)"
proof -
  obtain v where v: "demo_apply [''a''] (Some demo_old) (Engine Boundary # one_key 0 @ kept 0) = Some v"
    and seen: "map (\<lambda>(n, d, e). (n, e)) (saves (ev_hist v)) = [(''key:a'', None)]"
    and r: "reach_env (demo_config (Some demo_old)) (p_levels \<lparr>p_steps = map as_step demo_keys, p_levels = [map as_step demo_keys]\<rparr>)
       (start_apply (demo_config (Some demo_old)) (p_levels \<lparr>p_steps = map as_step demo_keys, p_levels = [map as_step demo_keys]\<rparr>) [''a''] (Some demo_old)) v"
    by (rule demo_apply_run [OF demo_again])
  from seen obtain b where b: "saves (ev_hist v) = [(''key:a'', b, None)]" by auto
  have old: "demo_saved ''b'' \<in> set (wf_resources demo_old)" "ar_name (demo_saved ''b'') = ''key:b''"
    by (simp_all add: demo_old_def demo_saved_def applied_def demo_key_def sname_def FormatStepName_def)
  have s: "(''key:a'', Saved b None) \<in> set (ev_hist v)" and n: "\<And>d e. (ar_name (demo_saved ''b''), Saved d e) \<notin> set (ev_hist v)"
    unfolding old(2) saves_iff [symmetric] b by simp_all
  have c: "demo_config (Some demo_old) = apply_config demo_api ''w'' ''s'' demo_keys (wf_resources demo_old)" by (simp add: demo_config_def)
  from reapply_forgets [OF demo_keys_pipeline c r refl s old(1) n] obtain st
    where "ev_file v = Some st" "ar_name (demo_saved ''b'') \<notin> ar_name ` set (wf_resources st)" by blast
  with v old show ?thesis by (metis imageI)
qed
end
