(* ===== verification/EnvDestroy.thy ===== *)
theory EnvDestroy
  imports EnvOps
begin

text \<open>
  What destroying an environment removes, keeps and forgets: the removals that each step may make,
  what a step that hands in its state has seen to, and the runs of \<open>Destroy\<close> over them.
\<close>

subsection \<open>Rebuilt steps\<close>

definition saved_data :: "yaml \<Rightarrow> applied_resource \<Rightarrow> step_state option" where
  "saved_data y r = (case StateFromMap y (ar_type r) (rs_output (ar_state r)) of
     Some st \<Rightarrow> Some st | None \<Rightarrow> StateFromMap y (ar_type r) (rs_spec (ar_state r)))"

definition was_created :: "applied_resource \<Rightarrow> bool" where
  "was_created r \<longleftrightarrow> rm_was_created (rs_meta (ar_state r))"

definition rebuilt :: "yaml \<Rightarrow> applied_resource \<Rightarrow> env_step" where
  "rebuilt y r = \<lparr>es_type = ar_type r, es_name = BareStepName (ar_name r) (ar_type r), es_deps = ar_deps r, es_removes = [],
     es_hash = '''', es_input = state_input (ar_type r) (BareStepName (ar_name r) (ar_type r)), es_spec = None, es_ignore = False,
     es_op = True, es_saved = saved_data y r, es_meta = rs_meta (ar_state r)\<rparr>"

lemma rebuilt_simps [simp]:
  "es_type (rebuilt y r) = ar_type r" "es_deps (rebuilt y r) = ar_deps r" "es_op (rebuilt y r) = True"
  "es_saved (rebuilt y r) = saved_data y r" "es_meta (rebuilt y r) = rs_meta (ar_state r)"
  "es_name (rebuilt y r) = BareStepName (ar_name r) (ar_type r)"
  by (simp_all add: rebuilt_def)

lemma Registry_from_state: "Registry ty = Some f \<Longrightarrow> sf_from_state f = newStepFromState"
  by (auto simp: Registry_def registry_def split: if_splits)

definition known :: "applied_resource \<Rightarrow> bool" where
  "known r \<longleftrightarrow> Registry (ar_type r) \<noteq> None"

lemma known_names_eq: "known_names rs = map ar_name (filter known rs)"
  unfolding known_names_def known_def by (rule refl)

lemma reconstruct_True: "reconstruct y True rs = Ok (map (rebuilt y) (filter known rs))"
proof (induction rs)
  case (Cons r rs)
  show ?case
  proof (cases "Registry (ar_type r)")
    case None
    then show ?thesis using Cons by (simp add: known_def)
  next
    case (Some f)
    then have "sf_from_state f = newStepFromState" by (rule Registry_from_state)
    then show ?thesis using Cons Some by (simp add: known_def newStepFromState_def rebuilt_def saved_data_def)
  qed
qed simp

text \<open>Names that carry their type, as \<open>Apply\<close> writes them, each once.\<close>

definition well_named :: "applied_resource list \<Rightarrow> bool" where
  "well_named rs \<longleftrightarrow> distinct (map ar_name rs) \<and> (\<forall>r \<in> set rs. FormatStepName (ar_type r) (BareStepName (ar_name r) (ar_type r)) = ar_name r)"

lemma sname_rebuilt: "well_named rs \<Longrightarrow> r \<in> set rs \<Longrightarrow> sname (rebuilt y r) = ar_name r"
  by (simp add: well_named_def sname_def)

lemma saved_by_name:
  assumes "distinct (map ar_name rs)" "r \<in> set rs"
  shows "saved_by_step rs (ar_name r) = ar_state r"
proof -
  obtain r' where "find_first (\<lambda>x. ar_name x = ar_name r) (rev rs) = Some r'"
    using assms(2) by (cases "find_first (\<lambda>x. ar_name x = ar_name r) (rev rs)") (auto simp: find_first_None)
  moreover from find_first_Some [OF this] have "r' \<in> set rs" "ar_name r' = ar_name r" by auto
  with assms have "r' = r" by (meson distinct_map inj_onD)
  ultimately show ?thesis by (simp add: saved_by_step_eq)
qed

lemma step_of_rebuilt:
  assumes "well_named rs" "r \<in> set rs" "known r"
  shows "step_of (map (rebuilt y) (filter known rs)) (ar_name r) = rebuilt y r"
proof -
  let ?ss = "map (rebuilt y) (filter known rs)"
  have r: "rebuilt y r \<in> set ?ss" "sname (rebuilt y r) = ar_name r" using assms sname_rebuilt by auto
  then have "ar_name r \<in> sname ` set ?ss" by force
  from step_of_name [OF this] obtain r' where r': "r' \<in> set rs" "step_of ?ss (ar_name r) = rebuilt y r'" "sname (rebuilt y r') = ar_name r" by auto
  with sname_rebuilt [OF assms(1) r'(1)] assms(1,2) have "r' = r" unfolding well_named_def by (metis distinct_map inj_onD)
  with r'(2) show ?thesis by simp
qed

text \<open>What is rebuilt works on the state and the metadata that were saved.\<close>

lemma recover_rebuilt: "recover y (rebuilt y r) (ar_state r) = (saved_data y r, rs_meta (ar_state r))"
  by (simp add: recover_def saved_data_def split: option.splits)

subsection \<open>What a step may remove\<close>

definition not_found :: "err option \<Rightarrow> bool" where
  "not_found e \<longleftrightarrow> (case e of None \<Rightarrow> False | Some x \<Rightarrow> IsNotFound x)"

definition error_of :: "response \<Rightarrow> err option" where
  "error_of x = (case gives x of Inl e \<Rightarrow> Some e | Inr _ \<Rightarrow> None)"

fun may_remove :: "yaml \<Rightarrow> applied_resource \<Rightarrow> act list \<Rightarrow> request \<Rightarrow> bool" where
  "may_remove y r tr (KeyRemove i) = (was_created r \<and> saved_data y r = Some (KeyState i))"
| "may_remove y r tr (NetworkRemove i) = ((\<exists>sn. saved_data y r = Some (NetworkState i sn)) \<and>
     (was_created r \<or> (\<exists>x z zs. Asked (NetworkGet i True) x \<in> set tr \<and> gives x = Ok (z # zs) \<and> \<not> it_present z)))"
| "may_remove y r tr (VMRemove i f) = (ar_type r = ''vm'' \<and> f \<and> i = vm_to_remove (rebuilt y r) (saved_data y r) \<and> (\<exists>x z zs. Asked (VMGet i) x \<in> set tr \<and> gives x = Ok (z # zs)))"
| "may_remove y r tr _ = False"

text \<open>A machine was looked up and was not there, or was removed.\<close>

definition machine_gone :: "string \<Rightarrow> act list \<Rightarrow> bool" where
  "machine_gone i tr \<longleftrightarrow> (\<exists>x. Asked (VMGet i) x \<in> set tr \<and>
     (not_found (error_of x) \<or> gives x = Ok [] \<or> (\<exists>x'. Asked (VMRemove i True) x' \<in> set tr \<and> first_error x' = None)))"

text \<open>What has been done about a resource when its step hands in its state.\<close>

definition dealt_with :: "yaml \<Rightarrow> applied_resource \<Rightarrow> act list \<Rightarrow> bool" where
  "dealt_with y r tr \<longleftrightarrow>
     (\<forall>i. ar_type r = ''key'' \<longrightarrow> saved_data y r = Some (KeyState i) \<longrightarrow> was_created r \<longrightarrow>
        (\<exists>x. Asked (KeyRemove i) x \<in> set tr \<and> (first_error x = None \<or> not_found (first_error x)))) \<and>
     (\<forall>i sn. ar_type r = ''network'' \<longrightarrow> saved_data y r = Some (NetworkState i sn) \<longrightarrow> was_created r \<longrightarrow>
        (\<exists>x. Asked (NetworkRemove i) x \<in> set tr \<and> (error_of x = None \<or> not_found (error_of x)))) \<and>
     (ar_type r = ''vm'' \<longrightarrow> machine_gone (vm_to_remove (rebuilt y r) (saved_data y r)) tr)"

lemma call_cases:
  assumes "replay m n (Call r k) tr = Some q"
  obtains "tr = []" | x tr' where "tr = Asked r x # tr'" "replay m n (k x) tr' = Some q"
  using assms unfolding replay_Call by blast

lemma after_destroy_asks: "replay m n (after_destroy what s own) tr = Some q \<Longrightarrow> Asked r x \<notin> set tr"
  by (auto simp: after_destroy_def persist_def replay_simps)

lemma failed_trace: "replay m n (Done r) tr = Some q \<Longrightarrow> tr = []"
  by (simp add: replay_Done)

lemmas quiet = after_destroy_asks failed_trace

text \<open>A single call, after which the process asks no more and hands in its state only if the answer is good.\<close>

lemma one_call:
  assumes "replay m n (Call r k) tr = Some q"
    and "\<And>x tr. replay m n (k x) tr = Some q \<Longrightarrow> (\<forall>a z. Asked a z \<notin> set tr) \<and> (\<forall>d e. Saved d e \<in> set tr \<longrightarrow> good x)"
  shows "(\<forall>a z. Asked a z \<in> set tr \<longrightarrow> a = r) \<and> (\<forall>d e. Saved d e \<in> set tr \<longrightarrow> (\<exists>x. Asked r x \<in> set tr \<and> good x))"
  using assms(1)
proof (rule call_cases)
  fix x tr'
  assume tr: "tr = Asked r x # tr'" and "replay m n (k x) tr' = Some q"
  from assms(2) [OF this(2)] tr show ?thesis by auto
qed simp

lemma remove_network_trace:
  assumes "replay m n (remove_network s own i) tr = Some q"
  shows "(\<forall>r x. Asked r x \<in> set tr \<longrightarrow> r = NetworkRemove i) \<and>
    (\<forall>d e. Saved d e \<in> set tr \<longrightarrow> (\<exists>x. Asked (NetworkRemove i) x \<in> set tr \<and> (error_of x = None \<or> not_found (error_of x))))"
proof (rule one_call [OF assms [unfolded remove_network_def]], goal_cases)
  case (1 x tr)
  then show ?case by (cases "gives x") (auto simp: error_of_def not_found_def split: if_splits dest: quiet)
qed

lemma key_destroy_trace:
  assumes "replay m n (key_destroy y (rebuilt y r) (ar_state r)) tr = Some q"
  shows "(\<forall>a x. Asked a x \<in> set tr \<longrightarrow> removes a \<longrightarrow> may_remove y r tr a) \<and>
    (\<forall>d e i. Saved d e \<in> set tr \<longrightarrow> saved_data y r = Some (KeyState i) \<longrightarrow> was_created r \<longrightarrow>
        (\<exists>x. Asked (KeyRemove i) x \<in> set tr \<and> (first_error x = None \<or> not_found (first_error x))))"
proof (cases "\<exists>i. saved_data y r = Some (KeyState i) \<and> was_created r")
  case True
  then obtain i where i: "saved_data y r = Some (KeyState i)" "was_created r" by blast
  let ?own = "(saved_data y r, rs_meta (ar_state r))"
  have body: "replay m n (Call (KeyRemove i) (\<lambda>x. case first_error x of
       Some e \<Rightarrow> if IsNotFound e then after_destroy ''persist step state after destroy skip'' (rebuilt y r) ?own else Done (Some (err_text e))
     | None \<Rightarrow> after_destroy ''persist step state after destroy'' (rebuilt y r) ?own)) tr = Some q"
    using assms i unfolding was_created_def
    by (simp only: key_destroy_def with_op_def Let_def recover_rebuilt fst_conv snd_conv rebuilt_simps if_True option.case step_state.case simp_thms if_False)
  have "(\<forall>a z. Asked a z \<in> set tr \<longrightarrow> a = KeyRemove i) \<and>
    (\<forall>d e. Saved d e \<in> set tr \<longrightarrow> (\<exists>x. Asked (KeyRemove i) x \<in> set tr \<and> (first_error x = None \<or> not_found (first_error x))))"
  proof (rule one_call [OF body], goal_cases)
    case (1 x tr)
    then show ?case by (cases "first_error x") (auto simp: not_found_def split: if_splits dest: quiet)
  qed
  then show ?thesis using i by auto
next
  case False
  with assms have "replay m n (after_destroy ''persist step state after destroy skip'' (rebuilt y r) (saved_data y r, rs_meta (ar_state r))) tr = Some q"
    by (auto simp: key_destroy_def with_op_def Let_def recover_rebuilt was_created_def split: option.splits step_state.splits if_splits)
  with False show ?thesis by (auto dest: after_destroy_asks)
qed

lemma network_destroy_trace:
  assumes "replay m n (network_destroy y (rebuilt y r) (ar_state r)) tr = Some q"
  shows "(\<forall>a x. Asked a x \<in> set tr \<longrightarrow> removes a \<longrightarrow> may_remove y r tr a) \<and>
    (\<forall>d e i sn. Saved d e \<in> set tr \<longrightarrow> saved_data y r = Some (NetworkState i sn) \<longrightarrow> was_created r \<longrightarrow>
        (\<exists>x. Asked (NetworkRemove i) x \<in> set tr \<and> (error_of x = None \<or> not_found (error_of x))))"
proof -
  let ?own = "(saved_data y r, rs_meta (ar_state r))"
  let ?skip = "after_destroy ''persist step state after destroy skip'' (rebuilt y r) ?own"
  consider (skip) "replay m n ?skip tr = Some q" "\<And>i sn. saved_data y r \<noteq> Some (NetworkState i sn) \<or> \<not> was_created r"
    | (own) i sn where "saved_data y r = Some (NetworkState i sn)" "was_created r" "replay m n (remove_network (rebuilt y r) ?own i) tr = Some q"
    | (look) i sn where "saved_data y r = Some (NetworkState i sn)" "\<not> was_created r"
       "replay m n (Call (NetworkGet i True) (\<lambda>x. case gives x of
          Inr (z # _) \<Rightarrow> if \<not> it_present z then remove_network (rebuilt y r) ?own i else ?skip | _ \<Rightarrow> ?skip)) tr = Some q"
    using assms unfolding network_destroy_def with_op_def Let_def recover_rebuilt rebuilt_simps fst_conv snd_conv was_created_def if_True
    by (cases "saved_data y r" rule: option.exhaust; cases "the (saved_data y r)") (auto split: if_splits)
  then show ?thesis
  proof cases
    case skip
    then show ?thesis by (auto dest: after_destroy_asks)
  next
    case own
    from remove_network_trace [OF own(3)] own(1,2) show ?thesis by auto
  next
    case look
    from look(3) show ?thesis
    proof (rule call_cases)
      fix x tr'
      assume tr: "tr = Asked (NetworkGet i True) x # tr'" and rest: "replay m n (case gives x of
          Inr (z # _) \<Rightarrow> if \<not> it_present z then remove_network (rebuilt y r) ?own i else ?skip | _ \<Rightarrow> ?skip) tr' = Some q"
      consider "replay m n ?skip tr' = Some q" | z zs where "gives x = Ok (z # zs)" "\<not> it_present z" "replay m n (remove_network (rebuilt y r) ?own i) tr' = Some q"
        using rest by (cases "gives x") (auto split: list.splits if_splits)
      then show ?thesis
      proof cases
        case 1
        with tr look(1,2) show ?thesis by (auto dest: after_destroy_asks)
      next
        case (2 z zs)
        have "may_remove y r tr (NetworkRemove i)" using 2(1,2) tr look(1) by auto
        moreover have "a = NetworkRemove i" if "Asked a b \<in> set tr" "removes a" for a b using that remove_network_trace [OF 2(3)] tr by auto
        ultimately show ?thesis using look(2) by blast
      qed
    qed simp
  qed
qed

lemma vm_destroy_trace:
  assumes "replay m n (vm_destroy y (rebuilt y r) (ar_state r)) tr = Some q" "ar_type r = ''vm''"
  shows "(\<forall>a x. Asked a x \<in> set tr \<longrightarrow> removes a \<longrightarrow> may_remove y r tr a) \<and>
    (\<forall>d e. Saved d e \<in> set tr \<longrightarrow> machine_gone (vm_to_remove (rebuilt y r) (saved_data y r)) tr)"
proof -
  let ?own = "(saved_data y r, rs_meta (ar_state r))"
  let ?i = "vm_to_remove (rebuilt y r) (saved_data y r)"
  let ?skip = "after_destroy ''persist step state after destroy skip'' (rebuilt y r) ?own"
  let ?remove = "Call (VMRemove ?i True) (\<lambda>x. case first_error x of
       Some e \<Rightarrow> Done (Some (err_text e)) | None \<Rightarrow> after_destroy ''persist step state after destroy'' (rebuilt y r) ?own)"
  have "replay m n (Call (VMGet ?i) (\<lambda>x. case gives x of
       Inl e \<Rightarrow> if \<not> IsNotFound e then Done (Some (''check vm '' @ q_text ?i @ '' for destroy: '' @ err_text e)) else ?skip
     | Inr [] \<Rightarrow> ?skip | Inr (z # _) \<Rightarrow> ?remove)) tr = Some q"
    using assms(1) by (simp only: vm_destroy_def with_op_def Let_def recover_rebuilt fst_conv rebuilt_simps if_True)
  then show ?thesis
  proof (rule call_cases)
    fix x tr'
    assume tr: "tr = Asked (VMGet ?i) x # tr'" and rest: "replay m n (case gives x of
       Inl e \<Rightarrow> if \<not> IsNotFound e then Done (Some (''check vm '' @ q_text ?i @ '' for destroy: '' @ err_text e)) else ?skip
     | Inr [] \<Rightarrow> ?skip | Inr (z # _) \<Rightarrow> ?remove) tr' = Some q"
    consider e where "gives x = Err e" "\<not> IsNotFound e" "tr' = []" | "not_found (error_of x) \<or> gives x = Ok []" "replay m n ?skip tr' = Some q"
      | z zs where "gives x = Ok (z # zs)" "replay m n ?remove tr' = Some q"
      using rest by (cases "gives x") (auto simp: error_of_def not_found_def split: list.splits if_splits dest: failed_trace)
    then show ?thesis
    proof cases
      case 1
      with tr show ?thesis by auto
    next
      case 2
      with tr show ?thesis by (auto simp: machine_gone_def dest: after_destroy_asks)
    next
      case (3 z zs)
      have t: "(\<forall>a b. Asked a b \<in> set tr' \<longrightarrow> a = VMRemove ?i True) \<and>
        (\<forall>d e. Saved d e \<in> set tr' \<longrightarrow> (\<exists>x. Asked (VMRemove ?i True) x \<in> set tr' \<and> first_error x = None))"
      proof (rule one_call [OF 3(2)], goal_cases)
        case (1 x tr)
        then show ?case by (cases "first_error x") (auto dest: quiet)
      qed
      have "may_remove y r tr (VMRemove ?i True)" using 3(1) tr assms(2) by auto
      moreover have "a = VMRemove ?i True" if "Asked a b \<in> set tr" "removes a" for a b using that t tr by auto
      moreover have "Asked (VMGet ?i) x \<in> set tr" using tr by simp
      moreover have "\<exists>x'. Asked (VMRemove ?i True) x' \<in> set tr \<and> first_error x' = None" if "Saved d e \<in> set tr" for d e
        using that t tr by auto
      ultimately show ?thesis unfolding machine_gone_def by blast
    qed
  qed simp
qed

lemma plain_destroy_trace:
  assumes "replay m n (pulled_destroy y (rebuilt y r) (ar_state r)) tr = Some q \<or>
      replay m n (imperative_destroy y (rebuilt y r) (ar_state r)) tr = Some q"
  shows "Asked a x \<notin> set tr"
  using assms by (auto simp: pulled_destroy_def imperative_destroy_def with_op_def dest: after_destroy_asks)

lemma step_destroy_trace:
  assumes "replay m n (step_destroy y (rebuilt y r) (ar_state r)) tr = Some q" "known r"
  shows "(\<forall>a x. Asked a x \<in> set tr \<longrightarrow> removes a \<longrightarrow> may_remove y r tr a) \<and>
    (\<forall>d e. Saved d e \<in> set tr \<longrightarrow> dealt_with y r tr)"
proof -
  consider "ar_type r = ''key''" | "ar_type r = ''network''" | "ar_type r = ''vm''"
    | "ar_type r \<notin> {''key'', ''network'', ''vm''}" by blast
  then show ?thesis
  proof cases
    case 1
    with assms have "replay m n (key_destroy y (rebuilt y r) (ar_state r)) tr = Some q" by (simp add: step_destroy_def Registry_def registry_def)
    from key_destroy_trace [OF this] 1 show ?thesis by (simp add: dealt_with_def)
  next
    case 2
    with assms have "replay m n (network_destroy y (rebuilt y r) (ar_state r)) tr = Some q" by (simp add: step_destroy_def Registry_def registry_def)
    from network_destroy_trace [OF this] 2 show ?thesis by (simp add: dealt_with_def)
  next
    case 3
    with assms have "replay m n (vm_destroy y (rebuilt y r) (ar_state r)) tr = Some q" by (simp add: step_destroy_def Registry_def registry_def)
    from vm_destroy_trace [OF this 3] 3 show ?thesis by (simp add: dealt_with_def)
  next
    case 4
    with assms have "replay m n (pulled_destroy y (rebuilt y r) (ar_state r)) tr = Some q \<or>
      replay m n (imperative_destroy y (rebuilt y r) (ar_state r)) tr = Some q"
      by (auto simp: step_destroy_def known_def Registry_def registry_def split: if_splits)
    from plain_destroy_trace [OF this] 4 show ?thesis by (simp add: dealt_with_def)
  qed
qed

subsection \<open>The runs of \<open>Destroy\<close>\<close>

lemma prepare_destroy_Ok:
  assumes "prepare_destroy y op which st = Ok (ss, lev)"
  shows "pipeline_of ss lev \<and> ss \<noteq> []"
  using assms by (auto simp: prepare_destroy_def Let_def split: sum.splits option.splits if_splits intro: destroy_pipeline)

lemma prepare_destroy_rebuilt: "prepare_destroy y True which st = Ok (ss, lev) \<Longrightarrow> ss = map (rebuilt y) (filter known (wf_resources st))"
  by (auto simp: prepare_destroy_def reconstruct_True Let_def split: sum.splits option.splits if_splits)

lemma destroy_config_simps [simp]:
  "c_mode (vc_engine (destroy_config y api i st ss)) = Destroying" "vc_step (destroy_config y api i st ss) = step_of ss"
  "vc_body (destroy_config y api i st ss) n = step_destroy y (step_of ss n)"
  "c_saved (vc_engine (destroy_config y api i st ss)) = saved_by_step (wf_resources st)"
  by (simp_all add: destroy_config_def)

text \<open>A step of the run is that of a resource, and works on what the resource has saved.\<close>

lemma destroy_history:
  assumes "prepare_destroy y True which st = Ok (ss, lev)" "well_named (wf_resources st)"
    and "c = destroy_config y api i st ss" "reach_env c lev (start_destroy c lev w st) v" "a \<in> set (history v n)"
  obtains r q where "r \<in> set (wf_resources st)" "known r" "ar_name r = n" "ev_procs v n = Some q"
    "replay Destroying n (step_destroy y (rebuilt y r) (ar_state r)) (history v n) = Some q"
proof -
  note pipe = prepare_destroy_Ok [OF assms(1), THEN conjunct1] and run = assms(4) [unfolded assms(3) start_destroy_def]
  from run_history [OF run pipe assms(5)] obtain q where n: "n \<in> sname ` set ss" and q: "ev_procs v n = Some q"
    "replay Destroying n (step_destroy y (step_of ss n) (saved_by_step (wf_resources st) n)) (history v n) = Some q" by auto
  from n obtain r where r: "r \<in> set (wf_resources st)" "known r" "n = sname (rebuilt y r)"
    unfolding prepare_destroy_rebuilt [OF assms(1)] by auto
  have name: "ar_name r = n" using sname_rebuilt [OF assms(2) r(1)] r(3) by simp
  have "step_of ss n = rebuilt y r" using step_of_rebuilt [OF assms(2) r(1,2)] by (simp add: prepare_destroy_rebuilt [OF assms(1)] name)
  moreover have "saved_by_step (wf_resources st) n = ar_state r"
    using saved_by_name r(1) assms(2) unfolding well_named_def name [symmetric] by blast
  ultimately show thesis using that [OF r(1,2) name q(1)] q(2) by simp
qed

text \<open>
  C30: A destroy removes a key only if the saved state marks it as created, a network only if it is
  marked so or is found to be deleted, a machine only after finding it under the saved identifier
  (or the name), whatever the mark says, and nothing else: images, kernels and binaries stay.
\<close>

theorem destroy_spares_existing:
  assumes "prepare_destroy y True which st = Ok (ss, lev)" "well_named (wf_resources st)"
    and "c = destroy_config y api i st ss" "reach_env c lev (start_destroy c lev w st) v"
    and "(n, Asked a x) \<in> set (ev_hist v)" "removes a"
  shows "\<exists>r \<in> set (wf_resources st). ar_name r = n \<and> may_remove y r (history v n) a"
proof -
  have h: "Asked a x \<in> set (history v n)" using assms(5) by (simp add: history_iff)
  obtain r q where "r \<in> set (wf_resources st)" "ar_name r = n"
    and k: "known r" "replay Destroying n (step_destroy y (rebuilt y r) (ar_state r)) (history v n) = Some q"
    using destroy_history [OF assms(1-4) h] .
  with step_destroy_trace [OF k(2,1)] h assms(6) show ?thesis by blast
qed

text \<open>The file holds what is left of the saved list after some of the steps that handed in their state.\<close>

lemma destroy_file:
  assumes "prepare_destroy y True which st = Ok (ss, lev)" "c = destroy_config y api i st ss" "reach_env c lev (start_destroy c lev w st) v"
  shows "\<exists>st' ns. ev_file v = Some st' \<and> wf_resources st' = filter (\<lambda>r. ar_name r \<notin> ns) (wf_resources st) \<and>
    ns \<subseteq> {n. \<exists>d e. Saved d e \<in> set (history v n)}"
proof -
  note pipe = prepare_destroy_Ok [OF assms(1), THEN conjunct1] and run = assms(3) [unfolded assms(2) start_destroy_def]
  have name: "sname (step_of ss n) = n" if "Saved d e \<in> set (history v n)" for n d e
    using run_history [OF run pipe that] step_of_name by blast
  from reach_filed [OF run] have "filed (destroy_config y api i st ss) (wf_resources st) (Some st) (saves (ev_hist v)) (ev_file v)" by blast
  then consider "ev_file v = Some st" | pre n d post st' where "saves (ev_hist v) = pre @ (n, d, None) # post" "ev_file v = Some st'"
    "wf_resources st' = acc_after (destroy_config y api i st ss) (pre @ [(n, d, None)]) (wf_resources st)"
    unfolding filed_def by blast
  then show ?thesis
  proof cases
    case 1
    then show ?thesis by (intro exI [of _ st] exI [of _ "{}"]) simp
  next
    case (2 pre n d post st')
    let ?ns = "(\<lambda>(n, d, e). sname (step_of ss n)) ` set (pre @ [(n, d, None)])"
    have "wf_resources st' = filter (\<lambda>r. ar_name r \<notin> ?ns) (wf_resources st)"
      unfolding 2(3) by (subst acc_Destroying) simp_all
    moreover have "set (pre @ [(n, d, None)]) \<subseteq> set (saves (ev_hist v))" unfolding 2(1) by auto
    then have "?ns \<subseteq> {n. \<exists>d e. Saved d e \<in> set (history v n)}"
      using name by (force simp: history_saves [symmetric])
    ultimately show ?thesis using 2(2) by blast
  qed
qed

lemma success_saved:
  assumes "prepare_destroy y True which st = Ok (ss, lev)" "well_named (wf_resources st)"
    and "c = destroy_config y api i st ss" "reach_env c lev (start_destroy c lev w st) v" "e_result (ev_engine v) = Some Nil"
    and r: "r \<in> set (wf_resources st)" "known r"
  shows "\<exists>d. Saved d None \<in> set (history v (ar_name r))"
proof -
  note pipe = prepare_destroy_Ok [OF assms(1), THEN conjunct1] and run = assms(4) [unfolded assms(3) start_destroy_def]
  have "rebuilt y r \<in> set ss" using r by (simp add: prepare_destroy_rebuilt [OF assms(1)])
  then have "ar_name r \<in> sname ` set ss" using sname_rebuilt [OF assms(2) r(1)] by (metis imageI)
  from run_finished [OF run pipe assms(5) this] show ?thesis using steps.destroy_success by simp
qed

lemma saved_dealt:
  assumes "prepare_destroy y True which st = Ok (ss, lev)" "well_named (wf_resources st)"
    and "c = destroy_config y api i st ss" "reach_env c lev (start_destroy c lev w st) v"
    and "r \<in> set (wf_resources st)" "Saved d e \<in> set (history v (ar_name r))"
  shows "dealt_with y r (history v (ar_name r))"
proof -
  obtain r' q where r': "r' \<in> set (wf_resources st)" "ar_name r' = ar_name r"
    and k: "known r'" "replay Destroying (ar_name r) (step_destroy y (rebuilt y r') (ar_state r')) (history v (ar_name r)) = Some q"
    using destroy_history [OF assms(1-4,6)] .
  from r' assms(5,2) have "r' = r" unfolding well_named_def by (metis distinct_map inj_onD)
  with step_destroy_trace [OF k(2,1)] assms(6) show ?thesis by blast
qed


text \<open>
  C32: When a destroy reports success, every resource it knows of has been dealt with: each key and
  network that was created has been removed or was gone, each machine was removed or was gone; and
  only resources of unknown types are left in the list.
\<close>

theorem destroy_success_removes_all:
  assumes "prepare_destroy y True which st = Ok (ss, lev)" "well_named (wf_resources st)"
    and "c = destroy_config y api i st ss" "reach_env c lev (start_destroy c lev w st) v" "e_result (ev_engine v) = Some Nil"
  shows "(\<forall>r \<in> set (wf_resources st). known r \<longrightarrow> dealt_with y r (history v (ar_name r))) \<and> filter known (ev_acc v) = []"
proof -
  note pipe = prepare_destroy_Ok [OF assms(1), THEN conjunct1] and run = assms(4) [unfolded assms(3) start_destroy_def]
  note saved = success_saved [OF assms]
  have "dealt_with y r (history v (ar_name r))" if r: "r \<in> set (wf_resources st)" "known r" for r
    using saved [OF r] saved_dealt [OF assms(1-4) r(1)] by blast
  moreover have "filter known (ev_acc v) = []"
  proof -
    have name: "sname (step_of ss n) = n" if "Saved d e \<in> set (history v n)" for n d e
      using run_history [OF run pipe that] step_of_name by blast
    have acc: "ev_acc v = filter (\<lambda>r. ar_name r \<notin> (\<lambda>(n, d, e). sname (step_of ss n)) ` set (saves (ev_hist v))) (wf_resources st)"
      using reach_filed [OF run] by (simp add: acc_Destroying)
    have "ar_name r \<in> (\<lambda>(n, d, e). sname (step_of ss n)) ` set (saves (ev_hist v))" if r: "r \<in> set (wf_resources st)" "known r" for r
    proof -
      from saved [OF r] obtain d where s: "Saved d None \<in> set (history v (ar_name r))" ..
      from s have "(ar_name r, d, None) \<in> set (saves (ev_hist v))" by (simp add: history_saves)
      then show ?thesis using name [OF s] by (intro image_eqI [of _ _ "(ar_name r, d, None)"]) simp_all
    qed
    then show ?thesis unfolding acc by (auto simp: filter_empty_conv)
  qed
  ultimately show ?thesis by blast
qed

text \<open>
  A destroy removes a machine that is found under the saved identifier whether or not the
  environment had created it: the mark decides nothing for machines.
\<close>

lemma vm_destroyed_if_found:
  assumes "fst (recover y s saved) = Some (VMState i f p t)" "i \<noteq> ''''" "es_type s = ''vm''" "es_op s" "gives x = Ok (z # zs)"
  shows "\<exists>k. replay Destroying n (step_destroy y s saved) [Asked (VMGet i) x] = Some (Call (VMRemove i True) k)"
proof -
  have "step_destroy y s saved = vm_destroy y s saved" using assms(3) by (simp add: step_destroy_def Registry_def registry_def)
  then show ?thesis using assms by (simp add: vm_destroy_def with_op_def Let_def vm_to_remove_def)
qed

text \<open>
  C36: A resource that an apply lists as created was created: the step asked in this run for its
  creation, the answer was a success, and the saved identifier is that of the item returned (or the
  step is a command, which was carried out); or an earlier run had marked it already and the step
  found, in this run, the item whose identifier is saved. What is only found is never newly marked.
\<close>

theorem apply_marks_only_created:
  assumes "NewPipeline (map as_step ss) = Some (Ok p)" "c = apply_config api i src ss prev"
    and "reach_env c (p_levels p) (start_apply c (p_levels p) w file) v" "a \<in> set (ev_acc v)" "was_created a"
  shows "\<exists>r x. (ar_name a, Asked r x) \<in> set (ev_hist v) \<and>
    (produced (step_of ss (ar_name a)) r x (ar_state a) \<or>
     rm_was_created (rs_meta (saved_by_step prev (ar_name a))) \<and> found_again r x (ar_state a))"
proof -
  note run = apply_pipeline [OF assms(1)] assms(3) [unfolded assms(2)]
  from assms(4) obtain n d e where s: "(n, d, e) \<in> set (saves (ev_hist v))" and a: "a = applied (step_of ss n) d"
    unfolding apply_acc [OF run(2)] by auto
  from s have h: "(n, Saved d e) \<in> set (ev_hist v)" by (simp add: saves_iff)
  obtain q where n: "n \<in> sname ` set ss" and k: "sound_apply (step_of ss n) (saved_by_step prev n) (history v n) q"
    using apply_trace [OF run h] .
  have "Saved d e \<in> set (history v n)" using h by (simp add: history_iff)
  moreover have name: "ar_name a = n" and d: "ar_state a = d" and "rm_was_created (rs_meta d)"
    using step_of_name [OF n] a assms(5) by (simp_all add: applied_def was_created_def)
  ultimately have "\<exists>r x. Asked r x \<in> set (history v n) \<and>
      (produced (step_of ss n) r x d \<or> rm_was_created (rs_meta (saved_by_step prev n)) \<and> found_again r x d)"
    using k unfolding sound_apply_def by blast
  then show ?thesis unfolding name d history_iff .
qed

end
