(* ===== verification/EnvCycle.thy ===== *)
theory EnvCycle
  imports EnvDestroy
begin

text \<open>
  Applying and then destroying: the state that an apply leaves can be destroyed, and what an apply
  has created a destroy removes.
\<close>

subsection \<open>From applying to destroying\<close>

text \<open>Steps that come from a specification have a registered type and a name.\<close>

definition proper :: "env_step \<Rightarrow> bool" where
  "proper s \<longleftrightarrow> Registry (es_type s) \<noteq> None \<and> es_name s \<noteq> ''''"

lemma decoded_Ok: "decoded y ty op m f = Ok s \<longleftrightarrow> op \<and> (\<exists>i. y_input y ty m = Ok i \<and> s = f i)"
  by (auto simp: decoded_def bind_res_eq_Ok)

lemma base_step_simps [simp]: "es_type (base_step y ty n spec h i) = ty" "es_name (base_step y ty n spec h i) = n"
  by (simp_all add: base_step_def)

lemma decoded_names:
  assumes "decoded y ty op m f = Ok s" "\<And>i. es_type (f i) = ty \<and> es_name (f i) = n"
  shows "es_type s = ty \<and> es_name s = n"
  using assms unfolding decoded_Ok by blast

lemma spec_names:
  "newNetworkStepFromSpec y ty n m op = Ok s \<Longrightarrow> es_type s = ty \<and> es_name s = n"
  "newKeyStepFromSpec y ty n m op = Ok s \<Longrightarrow> es_type s = ty \<and> es_name s = n"
  "newImageStepFromSpec y ty n m op = Ok s \<Longrightarrow> es_type s = ty \<and> es_name s = n"
  "newKernelStepFromSpec y ty n m op = Ok s \<Longrightarrow> es_type s = ty \<and> es_name s = n"
  "newBinaryStepFromSpec y ty n m op = Ok s \<Longrightarrow> es_type s = ty \<and> es_name s = n"
  "newVMStepFromSpec y ty n m op = Ok s \<Longrightarrow> es_type s = ty \<and> es_name s = n"
  "newSSHStepFromSpec y ty n m op = Ok s \<Longrightarrow> es_type s = ty \<and> es_name s = n"
  "newExecStepFromSpec y ty n m op = Ok s \<Longrightarrow> es_type s = ty \<and> es_name s = n"
  "newCopyStepFromSpec y ty n m op = Ok s \<Longrightarrow> es_type s = ty \<and> es_name s = n"
  "newImageImportStepFromSpec y ty n m op = Ok s \<Longrightarrow> es_type s = ty \<and> es_name s = n"
  unfolding newNetworkStepFromSpec_def newKeyStepFromSpec_def newImageStepFromSpec_def newKernelStepFromSpec_def newBinaryStepFromSpec_def newVMStepFromSpec_def newSSHStepFromSpec_def newExecStepFromSpec_def newCopyStepFromSpec_def newImageImportStepFromSpec_def Let_def
  by (erule decoded_names, simp)+

lemma from_spec_names:
  assumes "(ty', f) \<in> set registry" "sf_from_spec f y ty n m op = Ok s"
  shows "es_type s = ty \<and> es_name s = n"
proof -
  have "\<forall>e \<in> set registry. sf_from_spec (snd e) \<in> {newNetworkStepFromSpec, newKeyStepFromSpec, newImageStepFromSpec, newKernelStepFromSpec, newBinaryStepFromSpec, newVMStepFromSpec, newSSHStepFromSpec, newExecStepFromSpec, newCopyStepFromSpec, newImageImportStepFromSpec}"
    unfolding registry_def by simp
  with assms(1) have "sf_from_spec f \<in> {newNetworkStepFromSpec, newKeyStepFromSpec, newImageStepFromSpec, newKernelStepFromSpec, newBinaryStepFromSpec, newVMStepFromSpec, newSSHStepFromSpec, newExecStepFromSpec, newCopyStepFromSpec, newImageImportStepFromSpec}"
    by (metis snd_conv)
  then show ?thesis using assms(2) by (elim insertE emptyE) (simp_all only: spec_names)
qed

lemma registry_Registry: "(ty, f) \<in> set registry \<Longrightarrow> Registry ty \<noteq> None"
  unfolding Registry_def map_of_eq_None_iff by force

lemma mapM_res_Ok_mem:
  assumes "mapM_res f xs = Ok ys" "z \<in> set ys"
  obtains x where "f x = Ok z"
  using assms by (induction xs arbitrary: ys) (auto simp: bind_res_eq_Ok)

lemma resolve_entries_proper:
  assumes "resolveSpecV1 y op order spec = Ok ss" "set order \<subseteq> set registry" "s \<in> set ss"
  shows "proper s"
  using assms
proof (induction y op order spec arbitrary: ss rule: resolveSpecV1.induct)
  case (2 y op ty f order spec)
  from "2.prems"(1) obtain xs rest where xs: "mapM_res (resolve_entry y op ty f) (sp_steps spec ty) = Ok xs"
    "resolveSpecV1 y op order spec = Ok rest" "ss = xs @ rest" by (auto simp: bind_res_eq_Ok)
  have mem: "(ty, f) \<in> set registry" using "2.prems"(2) by simp
  show ?case
  proof (cases "s \<in> set xs")
    case True
    with xs(1) obtain e where "resolve_entry y op ty f e = Ok s" by (rule mapM_res_Ok_mem)
    then obtain n m where "n \<noteq> ''''" "sf_from_spec f y ty n (stripSpecRefs m) op = Ok s"
      by (cases e) (auto simp: resolve_entry_def split: if_splits)
    with from_spec_names [OF mem] registry_Registry [OF mem] show ?thesis by (simp add: proper_def)
  next
    case False
    with "2.IH" xs "2.prems" show ?thesis by auto
  qed
qed simp

lemma resolved_proper: "ResolveSpec y order cancelled src data decode = Ok (spec, ss) \<Longrightarrow> set order \<subseteq> set registry \<Longrightarrow> s \<in> set ss \<Longrightarrow> proper s"
  by (auto simp: ResolveSpec_def split: option.splits sum.splits prod.splits if_splits dest: resolve_entries_proper)

lemma applied_well_named:
  assumes "\<And>n d e. (n, d, e) \<in> set ys \<Longrightarrow> n \<in> sname ` set ss" "distinct (map fst ys)" "\<And>s. s \<in> set ss \<Longrightarrow> proper s"
  shows "well_named (map (\<lambda>(n, d, e). applied (step_of ss n) d) ys) \<and> (\<forall>r \<in> set (map (\<lambda>(n, d, e). applied (step_of ss n) d) ys). known r)"
proof -
  have one: "FormatStepName (ar_type r) (BareStepName (ar_name r) (ar_type r)) = ar_name r \<and> known r"
    if r: "r \<in> set (map (\<lambda>(n, d, e). applied (step_of ss n) d) ys)" for r
  proof -
    from r obtain n d e where n: "(n, d, e) \<in> set ys" "r = applied (step_of ss n) d" by auto
    from step_of_name [OF assms(1) [OF n(1)]] assms(3) have "proper (step_of ss n)" by blast
    then show ?thesis using BareStepName_Format by (simp add: n(2) applied_def proper_def known_def sname_def)
  qed
  have "map ar_name (map (\<lambda>(n, d, e). applied (step_of ss n) d) ys) = map fst ys" by (rule listed_names) (rule assms(1))
  with one assms(2) show ?thesis unfolding well_named_def by metis
qed

text \<open>The file that an apply leaves lists, in order, what its steps have saved up to the last success.\<close>

lemma left_state:
  assumes "NewPipeline (map as_step ss) = Some (Ok p)" "\<And>s. s \<in> set ss \<Longrightarrow> proper s" "c = apply_config api i src ss prev"
    and "reach_env c (p_levels p) (start_apply c (p_levels p) w file) v" "ev_file v = Some st" "(m, Saved b None) \<in> set (ev_hist v)"
  obtains ys :: "(string \<times> resource_state \<times> string option) list" where "wf_resources st = map (\<lambda>(n, d, e). applied (step_of ss n) d) ys" "ys \<noteq> []"
    "\<And>k d e. (k, d, e) \<in> set ys \<Longrightarrow> k \<in> sname ` set ss" "well_named (wf_resources st)" "\<forall>r \<in> set (wf_resources st). known r"
proof -
  note pipe = apply_pipeline [OF assms(1)] and run = assms(4) [unfolded assms(3)]
  let ?ss = "saves (ev_hist v)"
  have in_ss: "n \<in> sname ` set ss" if "(n, d, e) \<in> set ?ss" for n d e
    using apply_trace [OF pipe run] that by (metis saves_iff)
  have "(m, b, None) \<in> set ?ss" using assms(6) by (simp add: saves_iff)
  then have some: "\<not> all_failed ?ss" unfolding all_failed_def by fastforce
  have "filed (apply_config api i src ss prev) [] file ?ss (ev_file v)" using reach_filed [OF run [unfolded start_apply_def]] by blast
  with some obtain pre n d post where split: "?ss = (pre @ [(n, d, None)]) @ post"
    and rs: "wf_resources st = map (\<lambda>(n, d, e). applied (step_of ss n) d) (pre @ [(n, d, None)])"
    unfolding filed_def assms(5) by (auto simp: acc_Executing)
  let ?ys = "pre @ [(n, d, None)]"
  have in_ys: "k \<in> sname ` set ss" if "(k, d, e) \<in> set ?ys" for k d e using in_ss [of k d e] that unfolding split set_append by blast
  have "distinct (map fst ?ys)" using apply_saves_distinct [OF pipe run] unfolding split map_append distinct_append by blast
  have "well_named (wf_resources st) \<and> (\<forall>r \<in> set (wf_resources st). known r)"
    unfolding rs by (rule applied_well_named [OF in_ys \<open>distinct (map fst ?ys)\<close> assms(2)])
  with rs in_ys show thesis by (intro that [of ?ys]) auto
qed

text \<open>
  C35: Whatever state an apply leaves, after any schedule and any failures, can be destroyed: its
  resources have distinct names that carry their types, each step can be rebuilt, and the rebuilt
  steps form a pipeline, although steps that others depend on may be missing.
\<close>

theorem applied_state_destroyable:
  assumes "NewPipeline (map as_step ss) = Some (Ok p)" "\<And>s. s \<in> set ss \<Longrightarrow> proper s" "c = apply_config api i src ss prev"
    and "reach_env c (p_levels p) (start_apply c (p_levels p) w file) v" "ev_file v = Some st" "(m, Saved b None) \<in> set (ev_hist v)"
  shows "well_named (wf_resources st) \<and> (\<exists>lev. prepare_destroy y True which st = Ok (map (rebuilt y) (wf_resources st), lev))"
proof -
  obtain ys :: "(string \<times> resource_state \<times> string option) list" where rs: "wf_resources st = map (\<lambda>(n, d, e). applied (step_of ss n) d) ys" and ne: "ys \<noteq> []"
    and in_ys: "\<And>k d e. (k, d, e) \<in> set ys \<Longrightarrow> k \<in> sname ` set ss"
    and wn: "well_named (wf_resources st)" and kn: "\<forall>r \<in> set (wf_resources st). known r"
    by (rule left_state [OF assms]) (assumption, rule that)
  let ?steps = "map (override_deps (\<lambda>n. n \<in> set (known_names (wf_resources st)))) (map as_step (map (rebuilt y) (wf_resources st)))"
  have all: "filter known (wf_resources st) = wf_resources st" "known_names (wf_resources st) = map ar_name (wf_resources st)"
    using kn by (simp_all add: known_names_eq)
  have names: "names ?steps = map ar_name (wf_resources st)"
    using sname_rebuilt [OF wn] by (simp add: names_def override_deps_def as_step_def)
  have "dep_rel ?steps \<subseteq> dep_rel (map as_step ss)"
  proof (rule subrelI)
    fix a z assume "(a, z) \<in> dep_rel ?steps"
    then obtain r where r: "r \<in> set (wf_resources st)" "z = sname (rebuilt y r)" "a \<in> set (ar_deps r)"
      by (auto simp: dep_rel_def override_deps_def as_step_def)
    then obtain k d e where k: "(k, d, e) \<in> set ys" "r = applied (step_of ss k) d" unfolding rs by auto
    from step_of_name [OF in_ys [OF k(1)]] have s: "sname (step_of ss k) = k" "step_of ss k \<in> set ss" by blast+
    have "z = k" using r(2) sname_rebuilt [OF wn r(1)] s(1) by (simp add: k(2) applied_def)
    then have "z = st_name (as_step (step_of ss k))" "a \<in> set (st_deps (as_step (step_of ss k)))"
      using s(1) r(3) by (simp_all add: as_step_def k(2) applied_def)
    moreover have "as_step (step_of ss k) \<in> set (map as_step ss)" using s(2) by simp
    ultimately show "(a, z) \<in> dep_rel (map as_step ss)" unfolding dep_rel_def by blast
  qed
  moreover have "acyclic (dep_rel (map as_step ss))"
    using assms(1) build_dag_ok_iff [of "map as_step ss"] by (auto simp: NewPipeline_def bind_res_eq_Ok)
  ultimately have "acyclic (dep_rel ?steps)" by (rule acyclic_subset [rotated])
  moreover have "distinct (names ?steps)" using wn unfolding names well_named_def by blast
  moreover have "\<forall>s \<in> set ?steps. set (st_deps s) \<subseteq> set (names ?steps)" unfolding names by (auto simp: override_deps_def all(2))
  ultimately obtain lev where "build_dag ?steps = Some (Ok lev)" using build_dag_ok_iff by blast
  moreover have "wf_resources st \<noteq> []" by (simp add: rs ne)
  ultimately have "prepare_destroy y True which st = Ok (map (rebuilt y) (wf_resources st), lev)"
    by (simp add: prepare_destroy_def reconstruct_True all NewDestroyPipeline_def NewPipeline_def)
  with wn show ?thesis by blast
qed

text \<open>What a step that has created an item saves about it.\<close>

lemma create_new_saves:
  assumes "replay m n (create_new s create none new) tr = Some q" "Saved d e \<in> set tr" "Asked create x \<in> set tr"
  shows "\<exists>z zs. gives x = Ok (z # zs) \<and> d = state_data s (Some (new z)) \<lparr>rm_was_created = True, rm_spec_hash = es_hash s\<rparr>"
proof -
  from assms(1) [unfolded create_new_def] show ?thesis
  proof (rule call_cases)
    assume "tr = []"
    with assms(2) show ?thesis by simp
  next
    fix x' tr'
    assume tr: "tr = Asked create x' # tr'" and rest: "replay m n (case gives x' of Inl e \<Rightarrow> Done (Some (err_text e))
       | Inr xs \<Rightarrow> (case first_item xs of None \<Rightarrow> Done (Some none)
         | Some z \<Rightarrow> keep_state ''persist step state'' s (new z) True)) tr' = Some q"
    have "tr' \<noteq> []" using assms(2) tr by auto
    with rest obtain z zs where z: "gives x' = Ok (z # zs)" "replay m n (keep_state ''persist step state'' s (new z) True) tr' = Some q"
      by (cases "gives x'") (auto simp: first_item_def replay_Done split: list.splits)
    from keep_state_sound [OF z(2)] tr assms(2,3) z(1) show ?thesis by auto
  qed
qed

lemma keep_state_asks: "replay m n (keep_state what s st created) tr = Some q \<Longrightarrow> Asked r x \<notin> set tr"
  by (drule keep_state_sound) auto

lemma create_new_asks:
  assumes "replay m n (create_new s create none new) tr = Some q" "Asked r x \<in> set tr"
  shows "r = create"
  using assms(1) [unfolded create_new_def]
proof (rule call_cases)
  fix x' tr'
  assume tr: "tr = Asked create x' # tr'" and rest: "replay m n (case gives x' of Inl e \<Rightarrow> Done (Some (err_text e))
     | Inr xs \<Rightarrow> (case first_item xs of None \<Rightarrow> Done (Some none)
       | Some z \<Rightarrow> keep_state ''persist step state'' s (new z) True)) tr' = Some q"
  from rest have "Asked r x \<notin> set tr'"
    by (cases "gives x'"; cases "first_item (projr (gives x'))") (auto dest: keep_state_asks failed_trace)
  with tr assms(2) show ?thesis by simp
qed (use assms(2) in simp)

lemma provision_asks:
  assumes "replay m n (provision s saved get what pick old (create_new s create none new)) tr = Some q" "Asked r x \<in> set tr"
  shows "r = get \<or> r = create"
  using assms(1) [unfolded provision_def]
proof (rule call_cases)
  fix x' tr'
  assume tr: "tr = Asked get x' # tr'" and rest: "replay m n (case gives x' of
       Inl e \<Rightarrow> if \<not> IsNotFound e then Done (Some (what @ '': '' @ err_text e)) else create_new s create none new
     | Inr xs \<Rightarrow> (case pick xs of
         Some z \<Rightarrow> keep_state ''persist step state after skip'' s (old z) (rm_was_created (rs_meta saved))
       | None \<Rightarrow> create_new s create none new)) tr' = Some q"
  from rest have "Asked r x \<in> set tr' \<Longrightarrow> r = create"
    by (cases "gives x'"; cases "pick (projr (gives x'))") (auto dest: keep_state_asks failed_trace create_new_asks split: if_splits)
  with tr assms(2) show ?thesis by auto
qed (use assms(2) in simp)

lemma provision_saves:
  assumes "replay m n (provision s saved get what pick old (create_new s create none new)) tr = Some q" "Saved d e \<in> set tr"
    and "Asked create x \<in> set tr" "get \<noteq> create"
  shows "\<exists>z zs. gives x = Ok (z # zs) \<and> d = state_data s (Some (new z)) \<lparr>rm_was_created = True, rm_spec_hash = es_hash s\<rparr>"
  using assms(1) [unfolded provision_def]
proof (rule call_cases)
  assume "tr = []"
  with assms(2) show ?thesis by simp
next
  fix x' tr'
  assume tr: "tr = Asked get x' # tr'" and rest: "replay m n (case gives x' of
       Inl e \<Rightarrow> if \<not> IsNotFound e then Done (Some (what @ '': '' @ err_text e)) else create_new s create none new
     | Inr xs \<Rightarrow> (case pick xs of
         Some z \<Rightarrow> keep_state ''persist step state after skip'' s (old z) (rm_was_created (rs_meta saved))
       | None \<Rightarrow> create_new s create none new)) tr' = Some q"
  have asked: "Asked create x \<in> set tr'" "Saved d e \<in> set tr'" using assms(2-4) tr by auto
  have "replay m n (create_new s create none new) tr' = Some q"
  proof (cases "gives x'")
    case (Inl f)
    with rest asked show ?thesis by (auto simp: replay_Done split: if_splits)
  next
    case (Inr xs)
    show ?thesis
    proof (cases "pick xs")
      case None
      with rest Inr show ?thesis by simp
    next
      case (Some z)
      with rest Inr have "replay m n (keep_state ''persist step state after skip'' s (old z) (rm_was_created (rs_meta saved))) tr' = Some q" by simp
      from keep_state_sound [OF this] asked(1) show ?thesis by auto
    qed
  qed
  from create_new_saves [OF this asked(2,1)] show ?thesis .
qed

text \<open>Looking for the references of a machine changes nothing that others see.\<close>

lemma look_peel:
  assumes "replay m n (resolveStepRef ty ref k) tr = Some q" "Saved d e \<in> set tr"
  obtains ref' tr' where "replay m n (k ref') tr' = Some q" "Saved d e \<in> set tr'" "\<And>r x. Asked r x \<in> set tr \<Longrightarrow> Asked r x \<in> set tr'"
proof (cases "ref = None \<or> ref = Some []")
  case True
  then show ?thesis using assms by (intro that [of None tr]) (auto simp: resolveStepRef_def)
next
  case False
  then obtain z where z: "ref = Some z" "z \<noteq> []" by auto
  from assms z obtain l tr' where "tr = Looked (ty @ '':'' @ z) l # tr'" "replay m n (k (Some (step_ref z l))) tr' = Some q"
    by (auto simp: resolveStepRef_def replay_Look)
  with assms(2) show ?thesis by (intro that [of "Some (step_ref z l)" tr']) auto
qed

lemma vm_apply_provision:
  assumes "replay m n (vm_apply s saved) tr = Some q" "Saved d e \<in> set tr" "es_op s"
  obtains i tr' where "Saved d e \<in> set tr'" "\<And>r x. Asked r x \<in> set tr \<Longrightarrow> Asked r x \<in> set tr'"
    "replay m n (provision s saved (VMGet (es_name s)) (''check vm '' @ q_text (es_name s)) first_item old_vm
       (create_new s (VMCreate i) (''vm create returned zero VMs for '' @ q_text (in_name (es_input s))) new_vm)) tr' = Some q"
proof -
  from assms(1,3) have "replay m n (resolveStepRef ''kernel'' (in_kernel (es_input s)) (\<lambda>kern. resolveStepRef ''binary'' (in_binary (es_input s)) (\<lambda>bin.
     resolveStepRef ''image'' (in_image (es_input s)) (\<lambda>img. resolveStepRef ''network'' (in_network (es_input s)) (\<lambda>net.
       provision s saved (VMGet (es_name s)) (''check vm '' @ q_text (es_name s)) first_item old_vm
         (create_new s (VMCreate ((es_input s)\<lparr>in_kernel := kern, in_binary := bin, in_image := img, in_network := net\<rparr>))
           (''vm create returned zero VMs for '' @ q_text (in_name (es_input s))) new_vm)))))) tr = Some q"
    by (simp add: vm_apply_def with_op_def Let_def)
  from look_peel [OF this assms(2)] obtain r1 t1 where 1: "Saved d e \<in> set t1" "\<And>r x. Asked r x \<in> set tr \<Longrightarrow> Asked r x \<in> set t1"
    "replay m n (resolveStepRef ''binary'' (in_binary (es_input s)) (\<lambda>bin.
     resolveStepRef ''image'' (in_image (es_input s)) (\<lambda>img. resolveStepRef ''network'' (in_network (es_input s)) (\<lambda>net.
       provision s saved (VMGet (es_name s)) (''check vm '' @ q_text (es_name s)) first_item old_vm
         (create_new s (VMCreate ((es_input s)\<lparr>in_kernel := r1, in_binary := bin, in_image := img, in_network := net\<rparr>))
           (''vm create returned zero VMs for '' @ q_text (in_name (es_input s))) new_vm))))) t1 = Some q" by metis
  from look_peel [OF 1(3,1)] obtain r2 t2 where 2: "Saved d e \<in> set t2" "\<And>r x. Asked r x \<in> set t1 \<Longrightarrow> Asked r x \<in> set t2"
    "replay m n (resolveStepRef ''image'' (in_image (es_input s)) (\<lambda>img. resolveStepRef ''network'' (in_network (es_input s)) (\<lambda>net.
       provision s saved (VMGet (es_name s)) (''check vm '' @ q_text (es_name s)) first_item old_vm
         (create_new s (VMCreate ((es_input s)\<lparr>in_kernel := r1, in_binary := r2, in_image := img, in_network := net\<rparr>))
           (''vm create returned zero VMs for '' @ q_text (in_name (es_input s))) new_vm)))) t2 = Some q" by metis
  from look_peel [OF 2(3,1)] obtain r3 t3 where 3: "Saved d e \<in> set t3" "\<And>r x. Asked r x \<in> set t2 \<Longrightarrow> Asked r x \<in> set t3"
    "replay m n (resolveStepRef ''network'' (in_network (es_input s)) (\<lambda>net.
       provision s saved (VMGet (es_name s)) (''check vm '' @ q_text (es_name s)) first_item old_vm
         (create_new s (VMCreate ((es_input s)\<lparr>in_kernel := r1, in_binary := r2, in_image := r3, in_network := net\<rparr>))
           (''vm create returned zero VMs for '' @ q_text (in_name (es_input s))) new_vm))) t3 = Some q" by metis
  from look_peel [OF 3(3,1)] obtain r4 t4 where 4: "Saved d e \<in> set t4" "\<And>r x. Asked r x \<in> set t3 \<Longrightarrow> Asked r x \<in> set t4"
    "replay m n (provision s saved (VMGet (es_name s)) (''check vm '' @ q_text (es_name s)) first_item old_vm
         (create_new s (VMCreate ((es_input s)\<lparr>in_kernel := r1, in_binary := r2, in_image := r3, in_network := r4\<rparr>))
           (''vm create returned zero VMs for '' @ q_text (in_name (es_input s))) new_vm)) t4 = Some q" by metis
  show thesis by (rule that [OF 4(1) _ 4(3)]) (intro 4(2) 3(2) 2(2) 1(2))
qed

text \<open>
  The creation of what a destroy takes away again (a key, a network, a machine), the state that is
  saved of it, and what its removal is.
\<close>

fun created_by :: "env_step \<Rightarrow> request \<Rightarrow> bool" where
  "created_by s (KeyCreate i) = (es_type s = ''key'')"
| "created_by s (NetworkCreate i) = (es_type s = ''network'')"
| "created_by s (VMCreate i) = (es_type s = ''vm'')"
| "created_by s _ = False"

fun new_state :: "request \<Rightarrow> item \<Rightarrow> step_state" where
  "new_state (NetworkCreate i) z = network_state z"
| "new_state (VMCreate i) z = new_vm z"
| "new_state _ z = KeyState (it_id z)"

fun undone :: "request \<Rightarrow> string \<Rightarrow> act list \<Rightarrow> bool" where
  "undone (KeyCreate _) i tr = (\<exists>x. Asked (KeyRemove i) x \<in> set tr \<and> (first_error x = None \<or> not_found (first_error x)))"
| "undone (NetworkCreate _) i tr = (\<exists>x. Asked (NetworkRemove i) x \<in> set tr \<and> (error_of x = None \<or> not_found (error_of x)))"
| "undone (VMCreate _) i tr = (i \<noteq> [] \<longrightarrow> machine_gone i tr)"
| "undone _ i tr = False"

lemma created_saves:
  assumes "replay m n (step_apply s saved) tr = Some q" "Saved d e \<in> set tr" "Asked r x \<in> set tr" "created_by s r"
  shows "\<exists>z zs. gives x = Ok (z # zs) \<and> d = state_data s (Some (new_state r z)) \<lparr>rm_was_created = True, rm_spec_hash = es_hash s\<rparr>"
proof -
  have op: "es_op s"
  proof (rule ccontr)
    assume "\<not> es_op s"
    with assms(1,4) have "tr = []" by (cases r) (auto simp: step_apply_def Registry_def registry_def key_apply_def network_apply_def vm_apply_def with_op_def replay_Done)
    with assms(2) show False by simp
  qed
  from assms(4) consider i where "es_type s = ''key''" "r = KeyCreate i" | i where "es_type s = ''network''" "r = NetworkCreate i"
    | i where "es_type s = ''vm''" "r = VMCreate i"
    by (cases r) auto
  then show ?thesis
  proof cases
    case 1
    with assms(1) op have r: "replay m n (provision s saved (KeyGet (in_name (es_input s))) (''check key '' @ q_text (in_name (es_input s))) first_item (KeyState \<circ> it_id)
       (create_new s (KeyCreate (es_input s)) nil_pointer (KeyState \<circ> it_id))) tr = Some q"
      by (simp add: step_apply_def Registry_def registry_def key_apply_def with_op_def Let_def)
    from provision_asks [OF r assms(3)] 1(2) have "r = KeyCreate (es_input s)" by auto
    with provision_saves [OF r assms(2)] assms(3) show ?thesis by simp
  next
    case 2
    with assms(1) op have r: "replay m n (provision s saved (NetworkGet (in_name (es_input s)) False) (''check network '' @ q_text (in_name (es_input s))) first_item network_state
       (create_new s (NetworkCreate (es_input s)) nil_pointer network_state)) tr = Some q"
      by (simp add: step_apply_def Registry_def registry_def network_apply_def with_op_def Let_def)
    from provision_asks [OF r assms(3)] 2(2) have "r = NetworkCreate (es_input s)" by auto
    with provision_saves [OF r assms(2)] assms(3) show ?thesis by simp
  next
    case (3 i)
    with assms(1) have "replay m n (vm_apply s saved) tr = Some q" by (simp add: step_apply_def Registry_def registry_def)
    from vm_apply_provision [OF this assms(2) op] obtain j tr' where j: "Saved d e \<in> set tr'" "Asked r x \<in> set tr'"
      and r: "replay m n (provision s saved (VMGet (es_name s)) (''check vm '' @ q_text (es_name s)) first_item old_vm
       (create_new s (VMCreate j) (''vm create returned zero VMs for '' @ q_text (in_name (es_input s))) new_vm)) tr' = Some q"
      using assms(3) by metis
    from provision_asks [OF r j(2)] 3(2) have "r = VMCreate j" by auto
    with provision_saves [OF r j(1)] j(2) show ?thesis by simp
  qed
qed

lemma created_saved_data:
  assumes "yaml_ok y" "created_by s r"
  shows "saved_data y (applied s (state_data s (Some (new_state r z)) meta)) = Some (new_state r z)"
  using assms(2) state_roundtrip [OF assms(1), of "KeyState (it_id z)"] state_roundtrip [OF assms(1), of "network_state z"]
    state_roundtrip [OF assms(1), of "new_vm z"]
  by (cases r) (simp_all add: saved_data_def applied_def state_data_def network_state_def new_vm_def)

text \<open>
  The state of a machine's step is that of the first machine of the answer: when a specification
  asks for several (\<open>count\<close>), nothing is saved of the others and no destroy will look for them.
\<close>

lemma batch_first_only:
  assumes "replay m n (step_apply s saved) tr = Some q" "es_type s = ''vm''" "Asked (VMCreate i) x \<in> set tr"
    and "gives x = Ok (z # others)" "Saved d e \<in> set tr"
  shows "rs_output d = Some (StructToMap (new_vm z))"
  using created_saves [OF assms(1,5,3)] assms(2,4) by (auto simp: state_data_def)

text \<open>After a successful apply the file lists the state that a step has saved.\<close>

lemma success_listed:
  assumes "NewPipeline (map as_step ss) = Some (Ok p)" "c = apply_config api i src ss prev"
    and "reach_env c (p_levels p) (start_apply c (p_levels p) w file) v" "e_result (ev_engine v) = Some Nil" "n \<in> sname ` set ss"
  obtains d q where "Saved d None \<in> set (history v n)" "replay Executing n (step_apply (step_of ss n) (saved_by_step prev n)) (history v n) = Some q"
    "\<And>st. ev_file v = Some st \<Longrightarrow> applied (step_of ss n) d \<in> set (wf_resources st)"
proof -
  note pipe = apply_pipeline [OF assms(1)] and run = assms(3) [unfolded assms(2)]
  have fin: "replay Executing k (step_apply (step_of ss k) (saved_by_step prev k)) (history v k) = Some (Done None)" if "k \<in> sname ` set ss" for k
    using run_finished [OF run [unfolded start_apply_def] pipe assms(4) that] by simp
  from steps.apply_success [OF fin [OF assms(5)]] obtain d where d: "Saved d None \<in> set (history v n)" ..
  let ?ss = "saves (ev_hist v)"
  have ok: "e = None" if h: "(k, d, e) \<in> set ?ss" for k d e
  proof -
    from h have a: "(k, Saved d e) \<in> set (ev_hist v)" by (simp add: saves_iff)
    have "k \<in> sname ` set ss" using apply_trace [OF pipe run a] .
    from steps.apply_sound [OF fin [OF this]] a show ?thesis unfolding sound_apply_def history_iff [symmetric] by (cases e) auto
  qed
  have "(n, d, None) \<in> set ?ss" using d by (simp add: history_saves)
  moreover from this have some: "\<not> all_failed ?ss" unfolding all_failed_def by fastforce
  have "filed (apply_config api i src ss prev) [] file ?ss (ev_file v)" using reach_filed [OF run [unfolded start_apply_def]] by blast
  with some obtain pre k b post st where split: "?ss = pre @ (k, b, None) # post" "all_failed post" "ev_file v = Some st"
    "wf_resources st = map (\<lambda>(n, d, e). applied (step_of ss n) d) (pre @ [(k, b, None)])"
    unfolding filed_def by (auto simp: acc_Executing)
  have "set post \<subseteq> set ?ss" unfolding split(1) by auto
  then have "post = []" using ok by (intro no_failed_rest [OF split(2)]) blast
  ultimately have "applied (step_of ss n) d \<in> set (wf_resources st)" unfolding split(1,4) by force
  with split(3) d fin [OF assms(5)] show thesis by (intro that) auto
qed

text \<open>
  C28: Up and down again: when an apply has succeeded and a destroy of the state it left has
  succeeded, then every key, network and machine that the apply created has been dealt with under
  the identifier under which it was created: the key or network was asked to be removed, and was
  removed or was gone; the machine was looked up, and was not there or was removed. (Of an answer
  with several machines this holds of the first. What was pulled or imported stays.)
\<close>

theorem created_then_removed:
  assumes "NewPipeline (map as_step ss) = Some (Ok p)" "\<And>s. s \<in> set ss \<Longrightarrow> proper s" "c = apply_config api i src ss prev"
    and "reach_env c (p_levels p) (start_apply c (p_levels p) w file) v" "e_result (ev_engine v) = Some Nil" "ev_file v = Some st"
    and "yaml_ok y" "prepare_destroy y True which st = Ok (ss', lev)" "c' = destroy_config y api' i st ss'"
    and "reach_env c' lev (start_destroy c' lev w' st) v'" "e_result (ev_engine v') = Some Nil"
    and "(n, Asked r x) \<in> set (ev_hist v)" "created_by (step_of ss n) r"
  shows "\<exists>z zs. gives x = Ok (z # zs) \<and> undone r (it_id z) (history v' n)"
proof -
  let ?s = "step_of ss n"
  note pipe = apply_pipeline [OF assms(1)] and run = assms(4) [unfolded assms(3)]
  have n: "n \<in> sname ` set ss" using apply_trace [OF pipe run assms(12)] .
  from success_listed [OF assms(1,3,4,5) n] assms(6) obtain d q where d: "Saved d None \<in> set (history v n)"
    and q: "replay Executing n (step_apply ?s (saved_by_step prev n)) (history v n) = Some q" and listed: "applied ?s d \<in> set (wf_resources st)" by blast
  have asked: "Asked r x \<in> set (history v n)" using assms(12) by (simp add: history_iff)
  from created_saves [OF q d asked assms(13)] obtain z zs where z: "gives x = Ok (z # zs)"
    "d = state_data ?s (Some (new_state r z)) \<lparr>rm_was_created = True, rm_spec_hash = es_hash ?s\<rparr>" by blast
  let ?r = "applied ?s d"
  have data: "saved_data y ?r = Some (new_state r z)" "was_created ?r" "ar_name ?r = n" "ar_type ?r = es_type ?s"
    using created_saved_data [OF assms(7,13)] step_of_name [OF n] by (simp_all add: z(2) was_created_def applied_def state_data_def)
  have "known ?r" using step_of_name [OF n] assms(2) by (auto simp: known_def data(4) proper_def)
  moreover have wn: "well_named (wf_resources st)" using left_state [OF assms(1-4,6)] d by (metis history_iff)
  ultimately have "dealt_with y ?r (history v' (ar_name ?r))"
    using success_saved [OF assms(8) wn assms(9-11) listed] saved_dealt [OF assms(8) wn assms(9,10) listed] by blast
  then have "dealt_with y ?r (history v' n)" unfolding data(3) .
  then have "undone r (it_id z) (history v' n)" using data assms(13)
    by (cases r) (auto simp: dealt_with_def network_state_def new_vm_def vm_to_remove_def)
  with z(1) show ?thesis by blast
qed

subsection \<open>The concrete environment, destroyed\<close>

definition demo_yaml :: yaml where
  "demo_yaml = \<lparr>y_text = (\<lambda>a. case a of AStr s \<Rightarrow> Some s | _ \<Rightarrow> None), y_int = (\<lambda>a. case a of AInt i \<Rightarrow> Some i | _ \<Rightarrow> None),
     y_input = (\<lambda>_ _. Ok empty_input), y_hash = (\<lambda>_. ''h'')\<rparr>"

definition demo_rebuilt :: "workflow_state \<Rightarrow> env_step list" where
  "demo_rebuilt st = map (rebuilt demo_yaml) (wf_resources st)"

definition demo_levels_down :: "workflow_state \<Rightarrow> step list list" where
  "demo_levels_down st = [map as_step (demo_rebuilt st)]"

lemma demo_well_named: "well_named (wf_resources demo_old)"
  by code_simp

lemma demo_prepared:
  assumes "list_all known (wf_resources st)" "wf_resources st \<noteq> []"
    and "NewDestroyPipeline (map as_step (demo_rebuilt st)) (\<lambda>n. n \<in> set (map ar_name (wf_resources st))) =
      Some (Ok \<lparr>p_steps = map as_step (demo_rebuilt st), p_levels = demo_levels_down st\<rparr>)"
  shows "prepare_destroy demo_yaml True ''w'' st = Ok (demo_rebuilt st, demo_levels_down st)"
proof -
  have "filter known (wf_resources st) = wf_resources st" using assms(1) by (simp add: list_all_iff)
  then have "reconstruct demo_yaml True (wf_resources st) = Ok (demo_rebuilt st)" "known_names (wf_resources st) = map ar_name (wf_resources st)"
    by (simp_all add: reconstruct_True demo_rebuilt_def known_names_eq)
  moreover have "demo_rebuilt st \<noteq> []" using assms(2) by (simp add: demo_rebuilt_def)
  ultimately show ?thesis using assms(3) by (simp add: prepare_destroy_def)
qed

lemma demo_old_known: "list_all known (wf_resources demo_old)"
  by code_simp

lemma demo_old_prepared: "prepare_destroy demo_yaml True ''w'' demo_old = Ok (demo_rebuilt demo_old, demo_levels_down demo_old)"
proof (rule demo_prepared [OF demo_old_known])
  show "wf_resources demo_old \<noteq> []" by (simp add: demo_old_def)
qed code_simp

definition down_config :: "workflow_state \<Rightarrow> string list env_config" where
  "down_config st = destroy_config demo_yaml demo_api ''w'' st (demo_rebuilt st)"

definition demo_destroy :: "workflow_state \<Rightarrow> string list \<Rightarrow> env_label list \<Rightarrow> string list env_run option" where
  "demo_destroy st w ls = fires_env (down_config st) (start_destroy (down_config st) (demo_levels_down st) w st) ls"

lemma demo_destroy_run:
  assumes "map_option f (demo_destroy st w ls) = Some x"
  obtains v where "demo_destroy st w ls = Some v" "f v = x"
    "reach_env (down_config st) (demo_levels_down st) (start_destroy (down_config st) (demo_levels_down st) w st) v"
proof -
  obtain v where v: "demo_destroy st w ls = Some v" "f v = x" using assms by (cases "demo_destroy st w ls") auto
  then have "reach_env (down_config st) (demo_levels_down st) (start_destroy (down_config st) (demo_levels_down st) w st) v"
    unfolding demo_destroy_def by (blast intro: reach_fires_env reach_env.start)
  with v that show thesis by blast
qed

definition removed :: "nat \<Rightarrow> env_label list" where
  "removed i = [Save i ''t'' ''u'' None, Leave i, Engine (Go i Report)]"

definition demo_down :: "env_label list" where
  "demo_down = Engine Boundary # one_key 0 @ one_key 1 @ removed 1 @ removed 0 @ [Engine label.Join, Engine Boundary]"

lemma demo_removal: "map_option (\<lambda>v. list_ex (\<lambda>(n, a). n = ''key:a'' \<and> (case a of Asked r x \<Rightarrow> removes r | _ \<Rightarrow> False)) (ev_hist v))
    (demo_destroy demo_old [''a'', ''b''] (Engine Boundary # one_key 0)) = Some True"
  by code_simp

lemma demo_down_full: "map_option (\<lambda>v. e_result (ev_engine v)) (demo_destroy demo_old [''a'', ''b''] demo_down) = Some (Some Nil)"
  by code_simp

theorem destroy_spares_existing_witness:
  "\<exists>v a x r. demo_destroy demo_old [''a'', ''b''] (Engine Boundary # one_key 0) = Some v \<and> (''key:a'', Asked a x) \<in> set (ev_hist v) \<and> removes a \<and>
     r \<in> set (wf_resources demo_old) \<and> ar_name r = ''key:a'' \<and> may_remove demo_yaml r (history v ''key:a'') a"
proof -
  obtain v where v: "demo_destroy demo_old [''a'', ''b''] (Engine Boundary # one_key 0) = Some v"
    and seen: "list_ex (\<lambda>(n, a). n = ''key:a'' \<and> (case a of Asked r x \<Rightarrow> removes r | _ \<Rightarrow> False)) (ev_hist v) = True"
    and r: "reach_env (down_config demo_old) (demo_levels_down demo_old) (start_destroy (down_config demo_old) (demo_levels_down demo_old) [''a'', ''b''] demo_old) v"
    by (rule demo_destroy_run [OF demo_removal])
  obtain b where "(''key:a'', b) \<in> set (ev_hist v)" "case b of Asked r x \<Rightarrow> removes r | _ \<Rightarrow> False"
    using seen by (auto simp: list_ex_iff)
  then obtain a x where a: "(''key:a'', Asked a x) \<in> set (ev_hist v)" "removes a" by (cases b) auto
  from destroy_spares_existing [OF demo_old_prepared demo_well_named down_config_def r a] v a show ?thesis by blast
qed


theorem destroy_success_removes_all_witness:
  "\<exists>v. demo_destroy demo_old [''a'', ''b''] demo_down = Some v \<and> (\<forall>r \<in> set (wf_resources demo_old). dealt_with demo_yaml r (history v (ar_name r)))"
proof -
  obtain v where v: "demo_destroy demo_old [''a'', ''b''] demo_down = Some v" and nil: "e_result (ev_engine v) = Some Nil"
    and r: "reach_env (down_config demo_old) (demo_levels_down demo_old) (start_destroy (down_config demo_old) (demo_levels_down demo_old) [''a'', ''b''] demo_old) v"
    by (rule demo_destroy_run [OF demo_down_full])
  have "known r" if "r \<in> set (wf_resources demo_old)" for r using that demo_old_known by (simp add: list_all_iff)
  with destroy_success_removes_all [OF demo_old_prepared demo_well_named down_config_def r nil] v show ?thesis by blast
qed

lemma vm_destroyed_if_found_witness:
  "\<exists>k. replay Destroying ''vm:a'' (step_destroy demo_yaml
      ((demo_key ''a'')\<lparr>es_type := ''vm'', es_saved := Some (VMState ''i'' '''' 0 ''''), es_meta := \<lparr>rm_was_created = False, rm_spec_hash = ''''\<rparr>\<rparr>) zero_state)
      [Asked (VMGet ''i'') (Gives [demo_item ''i''])] = Some (Call (VMRemove ''i'' True) k)"
  by (rule vm_destroyed_if_found [where z = "demo_item ''i''" and zs = "[]"]) (simp_all add: recover_def demo_key_def)

lemma demo_proper: "s \<in> set demo_keys \<Longrightarrow> proper s"
  by (auto simp: demo_keys_def demo_key_def proper_def Registry_def registry_def)

definition demo_up :: "env_label list" where
  "demo_up = Engine Boundary # one_key 0 @ one_key 1 @ [Ask 1, Ask 0] @ kept 1 @ kept 0 @ [Engine label.Join, Engine Boundary]"

definition demo_left :: workflow_state where
  "demo_left = the (ev_file (the (demo_apply [] None demo_up)))"

lemma demo_up_full: "map_option (\<lambda>v. (e_result (ev_engine v), list_ex (\<lambda>(n, a). n = ''key:a'' \<and> (case a of Asked r x \<Rightarrow>
      created_by (demo_key ''a'') r \<and> gives x = Ok [demo_item ''a''] | _ \<Rightarrow> False)) (ev_hist v), map ar_name (filter was_created (ev_acc v)),
      map (\<lambda>(n, d, e). (n, e)) (saves (ev_hist v)), ev_file v \<noteq> None)) (demo_apply [] None demo_up) =
    Some (Some Nil, True, [''key:b'', ''key:a''], [(''key:b'', None), (''key:a'', None)], True)"
  by code_simp

text \<open>The step of a rebuilt resource is given by its name, type and dependencies.\<close>

definition resource_step :: "string \<times> string \<times> string list \<Rightarrow> step" where
  "resource_step = (\<lambda>(n, ty, deps). \<lparr>st_name = FormatStepName ty (BareStepName n ty), st_type = ty, st_deps = deps, st_removes = [], st_spec_hash = ''''\<rparr>)"

lemma as_step_rebuilt: "as_step (rebuilt y r) = resource_step (ar_name r, ar_type r, ar_deps r)"
  by (simp add: as_step_def rebuilt_def sname_def resource_step_def)

lemma demo_left_seen: "map (\<lambda>r. (ar_name r, ar_type r, ar_deps r)) (wf_resources demo_left) = [(''key:b'', ''key'', []), (''key:a'', ''key'', [])]"
  by code_simp

lemma demo_left_steps: "NewDestroyPipeline (map resource_step [(''key:b'', ''key'', []), (''key:a'', ''key'', [])]) (\<lambda>n. n \<in> set [''key:b'', ''key:a'']) =
    Some (Ok \<lparr>p_steps = map resource_step [(''key:b'', ''key'', []), (''key:a'', ''key'', [])],
      p_levels = [map resource_step [(''key:b'', ''key'', []), (''key:a'', ''key'', [])]]\<rparr>)"
  by code_simp

lemma demo_left_prepared: "prepare_destroy demo_yaml True ''w'' demo_left = Ok (demo_rebuilt demo_left, demo_levels_down demo_left)"
proof (rule demo_prepared)
  from demo_left_seen obtain r1 r2 where rs: "wf_resources demo_left = [r1, r2]" and r: "ar_type r1 = ''key''" "ar_type r2 = ''key''" by auto
  show "wf_resources demo_left \<noteq> []" by (simp add: rs)
  show "list_all known (wf_resources demo_left)" by (simp add: rs r known_def Registry_def registry_def)
  have steps: "map as_step (demo_rebuilt demo_left) = map resource_step [(''key:b'', ''key'', []), (''key:a'', ''key'', [])]"
    unfolding demo_left_seen [symmetric] demo_rebuilt_def map_map comp_def as_step_rebuilt ..
  have names: "map ar_name (wf_resources demo_left) = [''key:b'', ''key:a'']"
    using demo_left_seen by (simp add: rs)
  show "NewDestroyPipeline (map as_step (demo_rebuilt demo_left)) (\<lambda>n. n \<in> set (map ar_name (wf_resources demo_left))) =
      Some (Ok \<lparr>p_steps = map as_step (demo_rebuilt demo_left), p_levels = demo_levels_down demo_left\<rparr>)"
    unfolding demo_levels_down_def steps names by (rule demo_left_steps)
qed

lemma demo_left_down: "map_option (\<lambda>v. e_result (ev_engine v)) (demo_destroy demo_left [''a'', ''b''] demo_down) = Some (Some Nil)"
  by code_simp

text \<open>The apply, with what was seen of it.\<close>

lemma demo_up_run:
  obtains v r x b where "demo_apply [] None demo_up = Some v" "e_result (ev_engine v) = Some Nil"
    "reach_env (demo_config None) (p_levels \<lparr>p_steps = map as_step demo_keys, p_levels = [map as_step demo_keys]\<rparr>)
       (start_apply (demo_config None) (p_levels \<lparr>p_steps = map as_step demo_keys, p_levels = [map as_step demo_keys]\<rparr>) [] None) v"
    "(''key:a'', Asked r x) \<in> set (ev_hist v)" "created_by (demo_key ''a'') r" "gives x = Ok [demo_item ''a'']"
    "(''key:a'', Saved b None) \<in> set (ev_hist v)" "\<exists>a \<in> set (ev_acc v). was_created a \<and> ar_name a = ''key:a''" "ev_file v = Some demo_left"
proof -
  obtain v where v: "demo_apply [] None demo_up = Some v"
    and seen: "(e_result (ev_engine v), list_ex (\<lambda>(n, a). n = ''key:a'' \<and> (case a of Asked r x \<Rightarrow>
        created_by (demo_key ''a'') r \<and> gives x = Ok [demo_item ''a''] | _ \<Rightarrow> False)) (ev_hist v), map ar_name (filter was_created (ev_acc v)),
        map (\<lambda>(n, d, e). (n, e)) (saves (ev_hist v)), ev_file v \<noteq> None) =
      (Some Nil, True, [''key:b'', ''key:a''], [(''key:b'', None), (''key:a'', None)], True)"
    and r: "reach_env (demo_config None) (p_levels \<lparr>p_steps = map as_step demo_keys, p_levels = [map as_step demo_keys]\<rparr>)
       (start_apply (demo_config None) (p_levels \<lparr>p_steps = map as_step demo_keys, p_levels = [map as_step demo_keys]\<rparr>) [] None) v"
    by (rule demo_apply_run [OF demo_up_full])
  from seen obtain a where "(''key:a'', a) \<in> set (ev_hist v)"
    "case a of Asked r x \<Rightarrow> created_by (demo_key ''a'') r \<and> gives x = Ok [demo_item ''a''] | _ \<Rightarrow> False" by (auto simp: list_ex_iff)
  then obtain q x where q: "(''key:a'', Asked q x) \<in> set (ev_hist v)" "created_by (demo_key ''a'') q" "gives x = Ok [demo_item ''a'']" by (cases a) auto
  from seen have "map (\<lambda>(n, d, e). (n, e)) (saves (ev_hist v)) = [(''key:b'', None), (''key:a'', None)]" by blast
  then obtain b where "(''key:a'', b, None) \<in> set (saves (ev_hist v))" by auto
  then have b: "(''key:a'', Saved b None) \<in> set (ev_hist v)" by (simp add: saves_iff)
  from seen have "''key:a'' \<in> set (map ar_name (filter was_created (ev_acc v)))" by simp
  then have m: "\<exists>a \<in> set (ev_acc v). was_created a \<and> ar_name a = ''key:a''" by auto
  from seen have "ev_file v = Some demo_left" by (auto simp: demo_left_def v)
  with v seen r q b m show thesis by (intro that) auto
qed

theorem apply_marks_only_created_witness:
  "\<exists>v r x d. demo_apply [] None demo_up = Some v \<and> (''key:a'', Asked r x) \<in> set (ev_hist v) \<and>
     produced (step_of demo_keys ''key:a'') r x d"
proof -
  obtain v a where v: "demo_apply [] None demo_up = Some v" and a: "a \<in> set (ev_acc v)" "was_created a" "ar_name a = ''key:a''"
    and r: "reach_env (demo_config None) (p_levels \<lparr>p_steps = map as_step demo_keys, p_levels = [map as_step demo_keys]\<rparr>)
       (start_apply (demo_config None) (p_levels \<lparr>p_steps = map as_step demo_keys, p_levels = [map as_step demo_keys]\<rparr>) [] None) v"
    using demo_up_run by metis
  have "\<not> rm_was_created (rs_meta (saved_by_step [] ''key:a''))" by (simp add: saved_by_step_def zero_state_def)
  with apply_marks_only_created [OF demo_keys_pipeline demo_config_def r a(1,2)] a(3)
  have "\<exists>r x. (''key:a'', Asked r x) \<in> set (ev_hist v) \<and>
      produced (step_of demo_keys ''key:a'') r x (ar_state a)" by simp
  with v show ?thesis by blast
qed

theorem applied_state_destroyable_witness:
  "\<exists>lev. prepare_destroy demo_yaml True ''w'' demo_left = Ok (map (rebuilt demo_yaml) (wf_resources demo_left), lev)"
proof -
  obtain v b where "ev_file v = Some demo_left" "(''key:a'', Saved b None) \<in> set (ev_hist v)"
    and r: "reach_env (demo_config None) (p_levels \<lparr>p_steps = map as_step demo_keys, p_levels = [map as_step demo_keys]\<rparr>)
       (start_apply (demo_config None) (p_levels \<lparr>p_steps = map as_step demo_keys, p_levels = [map as_step demo_keys]\<rparr>) [] None) v"
    using demo_up_run by metis
  from applied_state_destroyable [OF demo_keys_pipeline demo_proper demo_config_def r this(1,2)] show ?thesis by blast
qed

theorem created_then_removed_witness:
  "\<exists>v x. demo_destroy demo_left [''a'', ''b''] demo_down = Some v \<and>
    Asked (KeyRemove ''a'') x \<in> set (history v ''key:a'') \<and> (first_error x = None \<or> not_found (first_error x))"
proof -
  obtain v r x where up: "e_result (ev_engine v) = Some Nil" "(''key:a'', Asked r x) \<in> set (ev_hist v)" "created_by (demo_key ''a'') r"
      "gives x = Ok [demo_item ''a'']" "ev_file v = Some demo_left"
    and run: "reach_env (demo_config None) (p_levels \<lparr>p_steps = map as_step demo_keys, p_levels = [map as_step demo_keys]\<rparr>)
       (start_apply (demo_config None) (p_levels \<lparr>p_steps = map as_step demo_keys, p_levels = [map as_step demo_keys]\<rparr>) [] None) v"
    using demo_up_run by metis
  obtain v' where v': "demo_destroy demo_left [''a'', ''b''] demo_down = Some v'" "e_result (ev_engine v') = Some Nil"
    and down: "reach_env (down_config demo_left) (demo_levels_down demo_left) (start_destroy (down_config demo_left) (demo_levels_down demo_left) [''a'', ''b''] demo_left) v'"
    by (rule demo_destroy_run [OF demo_left_down])
  have "step_of demo_keys ''key:a'' = demo_key ''a''" by (simp add: step_of_def demo_keys_def demo_key_def sname_def FormatStepName_def)
  with up(3) have by_a: "created_by (step_of demo_keys ''key:a'') r" by simp
  have y: "yaml_ok demo_yaml" by (simp add: yaml_ok_def demo_yaml_def)
  from created_then_removed [OF demo_keys_pipeline demo_proper demo_config_def run up(1,5) y demo_left_prepared down_config_def down v'(2) up(2) by_a]
  obtain z zs where z: "gives x = Ok (z # zs)" "undone r (it_id z) (history v' ''key:a'')" by blast
  from z(1) have "it_id z = ''a''" by (auto simp: up(4) demo_item_def)
  moreover from up(3) obtain j where "r = KeyCreate j" by (cases r) (simp_all add: demo_key_def)
  ultimately show ?thesis using v'(1) z(2) by auto
qed

end
