(* ===== verification/EnvDiff.thy ===== *)
theory EnvDiff
  imports EnvCycle Sorting
begin

text \<open>
  Finding, listing and comparing saved environments (\<open>List\<close> and \<open>Diff\<close> of
  \<open>internal/workflow/env/env.go\<close>, \<open>ResolveWorkflowID\<close> and \<open>resolveDiffInput\<close> of \<open>utils.go\<close>).
\<close>

subsection \<open>The order of strings\<close>

fun str_less :: "string \<Rightarrow> string \<Rightarrow> bool" where
  "str_less xs [] = False"
| "str_less [] (y # ys) = True"
| "str_less (x # xs) (y # ys) = (of_char x < (of_char y :: nat) \<or> (x = y \<and> str_less xs ys))"

lemma str_less_linear: "str_less xs ys \<or> xs = ys \<or> str_less ys xs"
proof (induction xs ys rule: str_less.induct)
  case (3 x xs y ys)
  have "of_char x < (of_char y :: nat) \<or> x = y \<or> of_char y < (of_char x :: nat)" by (metis linorder_neqE_nat of_char_eq_iff)
  with 3 show ?case by auto
qed (metis neq_Nil_conv str_less.simps(2), simp)

lemma str_less_irrefl: "\<not> str_less xs xs"
  by (induction xs) auto

lemma str_less_trans: "str_less xs ys \<Longrightarrow> str_less ys zs \<Longrightarrow> str_less xs zs"
proof (induction xs zs arbitrary: ys rule: str_less.induct)
  case (1 xs)
  then show ?case by simp
next
  case (3 x xs z zs)
  then show ?case by (cases ys) auto
qed simp

interpretation string_order: weak_order str_less
proof
  fix x y z
  show "\<not> str_less x x" by (rule str_less_irrefl)
  show "str_less x y \<Longrightarrow> str_less y z \<Longrightarrow> str_less x z" by (rule str_less_trans)
  show "str_less x z \<Longrightarrow> str_less x y \<or> str_less y z" using str_less_linear str_less_trans by metis
qed

text \<open>Sorting different strings gives one result, whatever order they came in.\<close>

lemma sorted_strings_unique:
  assumes "set xs = set ys" "distinct xs" "distinct ys" "sorted_wrt (\<lambda>x y. \<not> str_less y x) xs" "sorted_wrt (\<lambda>x y. \<not> str_less y x) ys"
  shows "xs = ys"
  using assms
proof (induction xs arbitrary: ys)
  case (Cons x xs)
  then obtain y ys' where ys: "ys = y # ys'" by (cases ys) auto
  have "x = y"
  proof (rule ccontr)
    assume "x \<noteq> y"
    with Cons.prems(1) ys have "x \<in> set ys'" "y \<in> set xs" by auto
    with Cons.prems(4,5) ys have "\<not> str_less y x" "\<not> str_less x y" by auto
    with \<open>x \<noteq> y\<close> show False using str_less_linear by blast
  qed
  moreover from this Cons.prems ys have "set xs = set ys'" by (metis distinct.simps(2) insert_ident list.simps(15))
  ultimately show ?case using Cons ys by simp
qed simp

lemma distinct_sort_by: "distinct (sort_by lt xs) = distinct xs"
  by (rule mset_eq_imp_distinct_iff [OF mset_sort_by])

lemma sort_strings_unique:
  assumes "mset xs = mset ys" "distinct xs"
  shows "sort_by str_less xs = sort_by str_less ys"
proof (rule sorted_strings_unique)
  have d: "distinct ys" using assms mset_eq_imp_distinct_iff by blast
  show "distinct (sort_by str_less xs)" "distinct (sort_by str_less ys)"
    using assms(2) d by (simp_all add: distinct_sort_by)
  show "set (sort_by str_less xs) = set (sort_by str_less ys)" using mset_eq_setD [OF assms(1)] by simp
qed (rule string_order.sorted_sort)+

subsection \<open>The directory of the saved states\<close>

text \<open>A listing has the entries by name, with whether each is a directory.\<close>

datatype listing = Missing | Unreadable string | Listed "(string \<times> bool) list"

record states =
  sd_listing :: listing
  sd_exists :: "string \<Rightarrow> bool"
  sd_read :: "string \<Rightarrow> (string, workflow_state) res"

text \<open>\<open>hash_id\<close> is \<open>crypto.WorkflowID\<close>: the start of the SHA-256 of the absolute path.\<close>

definition ResolveWorkflowID :: "(string \<Rightarrow> string) \<Rightarrow> states \<Rightarrow> string \<Rightarrow> string" where
  "ResolveWorkflowID hash_id sd which =
     (if Contains which ''/'' \<or> Contains which [CHR 0x5C] \<or> Contains which ''.'' then hash_id which
      else if sd_exists sd which then which
      else (case sd_listing sd of
        Listed es \<Rightarrow> (case find_first (\<lambda>(n, dir). dir \<and> HasPrefix n which) es of Some (n, _) \<Rightarrow> n | None \<Rightarrow> which)
      | _ \<Rightarrow> which))"

definition resolveDiffInput :: "(string \<Rightarrow> string) \<Rightarrow> states \<Rightarrow> string \<Rightarrow> string \<times> string option" where
  "resolveDiffInput hash_id sd which = (let i = ResolveWorkflowID hash_id sd which in
     if sd_exists sd i then (case sd_read sd i of
       Inr st \<Rightarrow> if wf_spec st \<noteq> '''' then (wf_spec st, Some i) else (which, None)
     | Inl e \<Rightarrow> (which, None))
     else (which, None))"

text \<open>The state that a destroy works on.\<close>

definition destroy_state :: "(string \<Rightarrow> string) \<Rightarrow> states \<Rightarrow> (string \<Rightarrow> bool) \<Rightarrow> (string \<Rightarrow> string) \<Rightarrow> string \<Rightarrow> (err, string \<times> workflow_state) res" where
  "destroy_state hash_id sd not_exist dir_of which = (let i = ResolveWorkflowID hash_id sd which in case sd_read sd i of
     Inr st \<Rightarrow> Ok (i, st)
   | Inl e \<Rightarrow> if not_exist e then Err (NotFound ''validation.failed'' (''no saved workflow state found for '' @ q_text which))
       else Err (WrapMsg ''internal'' (''read workflow state '' @ dir_of i @ '': '' @ e) (Plain e None)))"

subsection \<open>List\<close>

record list_summary =
  ls_id :: string
  ls_spec :: string
  ls_created :: string
  ls_updated :: string
  ls_resources :: nat

definition summary :: "string \<Rightarrow> workflow_state \<Rightarrow> list_summary" where
  "summary i st = \<lparr>ls_id = i, ls_spec = wf_spec st, ls_created = wf_created st, ls_updated = wf_updated st,
     ls_resources = length (wf_resources st)\<rparr>"

text \<open>\<open>cancelled k\<close>: the context is cancelled when entry \<open>k\<close> is reached.\<close>

fun list_entries :: "states \<Rightarrow> (nat \<Rightarrow> bool) \<Rightarrow> nat \<Rightarrow> (string \<times> bool) list \<Rightarrow> (err, list_summary list) res" where
  "list_entries sd cancelled k [] = Ok []"
| "list_entries sd cancelled k ((n, dir) # es) =
     (if cancelled k then Err (Plain ''context canceled'' None)
      else if \<not> dir then list_entries sd cancelled (Suc k) es
      else (case sd_read sd n of
        Inl e \<Rightarrow> list_entries sd cancelled (Suc k) es
      | Inr st \<Rightarrow> bind_res (list_entries sd cancelled (Suc k) es) (\<lambda>rest. Ok (summary n st # rest))))"

definition ListEnvs :: "states \<Rightarrow> (nat \<Rightarrow> bool) \<Rightarrow> (err, list_summary list) res" where
  "ListEnvs sd cancelled = (case sd_listing sd of
     Missing \<Rightarrow> Ok []
   | Unreadable e \<Rightarrow> Err (WrapMsg ''internal'' (''list env states: '' @ e) (Plain e None))
   | Listed es \<Rightarrow> list_entries sd cancelled 0 es)"

subsection \<open>Diff\<close>

record diff_result =
  d_new :: "string list"
  d_removed :: "string list"
  d_existing :: "string list"
  d_drifted :: "string list"

definition drifted :: "string \<Rightarrow> string \<Rightarrow> bool" where
  "drifted spec saved \<longleftrightarrow> spec \<noteq> '''' \<and> saved \<noteq> '''' \<and> spec \<noteq> saved"

text \<open>
  The comparison of the two maps from names to hashes, built from lists in which a later entry
  replaces an earlier one; \<open>iter\<close> is the order in which a map is iterated.
\<close>

definition by_name :: "(string \<times> string) list \<Rightarrow> string \<rightharpoonup> string" where
  "by_name xs = map_of (rev xs)"

definition compare_names :: "(string list \<Rightarrow> string list) \<Rightarrow> (string \<times> string) list \<Rightarrow> (string \<times> string) list \<Rightarrow> diff_result" where
  "compare_names iter spec saved =
     (let ns = iter (remdups (map fst spec)); ms = iter (remdups (map fst saved));
          hash = (\<lambda>n. the (by_name spec n)); was = by_name saved;
          drift = (\<lambda>n. case was n of None \<Rightarrow> False | Some h \<Rightarrow> drifted (hash n) h)
      in \<lparr>d_new = sort_by str_less (filter (\<lambda>n. was n = None) ns),
          d_removed = sort_by str_less (filter (\<lambda>n. by_name spec n = None) ms),
          d_existing = sort_by str_less (filter (\<lambda>n. was n \<noteq> None \<and> \<not> drift n) ns),
          d_drifted = sort_by str_less (filter drift ns)\<rparr>)"

definition Diff :: "yaml \<Rightarrow> (string \<times> step_factory) list \<Rightarrow> (string list \<Rightarrow> string list) \<Rightarrow> (string \<Rightarrow> string) \<Rightarrow> states \<Rightarrow> string option \<Rightarrow>
    (string \<Rightarrow> (bool \<times> string, string) res) \<Rightarrow> (string \<Rightarrow> (string, env_spec) res) \<Rightarrow> string \<Rightarrow> (err, diff_result) res" where
  "Diff y order iter hash_id sd cancelled read_spec decode which = (case resolveDiffInput hash_id sd which of (src, dir) \<Rightarrow>
     bind_res (ResolveSpec y order cancelled src (read_spec src) decode) (\<lambda>(spec, ss).
       Ok (compare_names iter (map (\<lambda>s. (sname s, es_hash s)) ss)
         (case dir of None \<Rightarrow> [] | Some i \<Rightarrow> (case sd_read sd i of
            Inl e \<Rightarrow> []
          | Inr st \<Rightarrow> map (\<lambda>r. (ar_name r, rm_spec_hash (rs_meta (ar_state r)))) (wf_resources st))))))"

lemma by_name_None: "by_name xs n = None \<longleftrightarrow> n \<notin> fst ` set xs"
  by (simp add: by_name_def map_of_eq_None_iff)

lemma sort_strings_strict: "distinct xs \<Longrightarrow> sorted_wrt str_less (sort_by str_less xs)"
proof -
  assume "distinct xs"
  moreover have "sorted_wrt (\<lambda>x y. \<not> str_less y x) zs \<Longrightarrow> distinct zs \<Longrightarrow> sorted_wrt str_less zs" for zs
    by (induction zs) (use str_less_linear in auto)
  ultimately show ?thesis using string_order.sorted_sort [of xs] by (simp add: distinct_sort_by)
qed

text \<open>
  C38: Diff puts each name of the specification into exactly one of three lists: new, when the saved
  state does not have it; drifted, exactly when both sides have a hash for it and the two hashes
  differ; existing otherwise. It reports as removed exactly the saved names that the specification
  does not have. All four lists are sorted without repetition and do not depend on the order in
  which the maps are iterated. (Of entries with one name the last one counts.)
\<close>

theorem diff_partition:
  assumes "\<And>xs. mset (iter xs) = mset xs" "d = compare_names iter spec saved"
  shows "set (d_new d) = {n. by_name spec n \<noteq> None \<and> by_name saved n = None} \<and>
    set (d_removed d) = {n. by_name spec n = None \<and> by_name saved n \<noteq> None} \<and>
    set (d_drifted d) = {n. \<exists>h h'. by_name spec n = Some h \<and> by_name saved n = Some h' \<and> h \<noteq> [] \<and> h' \<noteq> [] \<and> h \<noteq> h'} \<and>
    set (d_existing d) = {n. \<exists>h h'. by_name spec n = Some h \<and> by_name saved n = Some h' \<and> (h = [] \<or> h' = [] \<or> h = h')} \<and>
    distinct (d_new d @ d_existing d @ d_drifted d) \<and>
    sorted_wrt str_less (d_new d) \<and> sorted_wrt str_less (d_removed d) \<and>
    sorted_wrt str_less (d_existing d) \<and> sorted_wrt str_less (d_drifted d) \<and> d = compare_names id spec saved"
proof -
  let ?ns = "iter (remdups (map fst spec))" and ?ms = "iter (remdups (map fst saved))"
  have "set ?ns = fst ` set spec" "set ?ms = fst ` set saved" by (metis assms(1) mset_eq_setD set_remdups list.set_map)+
  then have sets: "n \<in> set ?ns \<longleftrightarrow> by_name spec n \<noteq> None" "n \<in> set ?ms \<longleftrightarrow> by_name saved n \<noteq> None" for n
    by (simp_all add: by_name_None)
  have dist: "distinct ?ns" "distinct ?ms" by (metis assms(1) distinct_remdups mset_eq_imp_distinct_iff)+
  let ?drift = "\<lambda>n. case by_name saved n of None \<Rightarrow> False | Some h \<Rightarrow> drifted (the (by_name spec n)) h"
  have d: "d_new d = sort_by str_less (filter (\<lambda>n. by_name saved n = None) ?ns)"
    "d_removed d = sort_by str_less (filter (\<lambda>n. by_name spec n = None) ?ms)"
    "d_existing d = sort_by str_less (filter (\<lambda>n. by_name saved n \<noteq> None \<and> \<not> ?drift n) ?ns)"
    "d_drifted d = sort_by str_less (filter ?drift ?ns)"
    unfolding assms(2) compare_names_def Let_def by simp_all
  have parts: "set (d_new d) = {n. by_name spec n \<noteq> None \<and> by_name saved n = None}"
    "set (d_removed d) = {n. by_name spec n = None \<and> by_name saved n \<noteq> None}"
    "set (d_drifted d) = {n. \<exists>h h'. by_name spec n = Some h \<and> by_name saved n = Some h' \<and> h \<noteq> [] \<and> h' \<noteq> [] \<and> h \<noteq> h'}"
    "set (d_existing d) = {n. \<exists>h h'. by_name spec n = Some h \<and> by_name saved n = Some h' \<and> (h = [] \<or> h' = [] \<or> h = h')}"
    unfolding d by (auto simp: sets drifted_def split: option.splits)
  have "distinct (d_new d @ d_existing d @ d_drifted d)"
  proof -
    have "distinct (d_new d)" "distinct (d_existing d)" "distinct (d_drifted d)"
      unfolding d using dist by (auto simp: distinct_sort_by)
    then show ?thesis by (auto simp: parts)
  qed
  moreover have "sorted_wrt str_less (d_new d)" "sorted_wrt str_less (d_removed d)"
    "sorted_wrt str_less (d_existing d)" "sorted_wrt str_less (d_drifted d)"
    unfolding d using dist by (simp_all add: sort_strings_strict)
  moreover have "d = compare_names id spec saved"
  proof -
    have "sort_by str_less (filter P (iter xs)) = sort_by str_less (filter P xs)" if "distinct xs" for P xs
      using that assms(1) by (intro sort_strings_unique) (simp_all add: mset_eq_imp_distinct_iff [OF assms(1)])
    then show ?thesis unfolding assms(2) compare_names_def Let_def by simp
  qed
  ultimately show ?thesis using parts by blast
qed

theorem diff_partition_witness:
  "compare_names rev [(''key:a'', ''h1''), (''key:b'', ''h2''), (''vm:c'', ''h3'')] [(''key:b'', ''h2''), (''vm:c'', ''h4''), (''exec:d'', '''')] =
     compare_names id [(''key:a'', ''h1''), (''key:b'', ''h2''), (''vm:c'', ''h3'')] [(''key:b'', ''h2''), (''vm:c'', ''h4''), (''exec:d'', '''')] \<and>
   d_drifted (compare_names id [(''key:a'', ''h1''), (''key:b'', ''h2''), (''vm:c'', ''h3'')] [(''key:b'', ''h2''), (''vm:c'', ''h4''), (''exec:d'', '''')]) = [''vm:c'']"
proof -
  have "mset (rev xs) = mset xs" for xs :: "string list" by simp
  from diff_partition [OF this refl] show ?thesis
    by (simp add: compare_names_def by_name_def drifted_def)
qed

text \<open>Listing shows each readable state once, in the order of the directory.\<close>

lemma list_entries_all:
  assumes "\<And>k. \<not> cancelled k"
  shows "list_entries sd cancelled k es =
    Ok (concat (map (\<lambda>(n, dir). case sd_read sd n of Inr st \<Rightarrow> if dir then [summary n st] else [] | Inl e \<Rightarrow> []) es))"
  using assms by (induction sd cancelled k es rule: list_entries.induct) (auto split: sum.splits)

text \<open>An identifier that is given in part stands for the first directory that starts with it.\<close>

lemma resolved_id_prefix:
  assumes "\<not> Contains which ''/''" "\<not> Contains which [CHR 0x5C]" "\<not> Contains which ''.''"
  shows "ResolveWorkflowID hash_id sd which = which \<or>
    (\<exists>es. sd_listing sd = Listed es \<and> (ResolveWorkflowID hash_id sd which, True) \<in> set es \<and> HasPrefix (ResolveWorkflowID hash_id sd which) which)"
proof (cases "sd_exists sd which \<or> (\<forall>es. sd_listing sd \<noteq> Listed es)")
  case True
  with assms show ?thesis by (auto simp: ResolveWorkflowID_def split: listing.splits)
next
  case False
  then obtain es where es: "sd_listing sd = Listed es" "\<not> sd_exists sd which" by blast
  show ?thesis
  proof (cases "find_first (\<lambda>(n, dir). dir \<and> HasPrefix n which) es")
    case None
    with es assms show ?thesis by (simp add: ResolveWorkflowID_def)
  next
    case (Some e)
    with find_first_Some [OF Some] es assms show ?thesis by (cases e) (auto simp: ResolveWorkflowID_def)
  qed
qed

subsection \<open>A destroy whose context is cancelled\<close>

text \<open>
  An ephemeral environment is destroyed when \<open>Apply\<close> returns, with the context that \<open>Apply\<close> had.
\<close>

definition idle :: "step list list \<Rightarrow> engine \<Rightarrow> bool" where
  "idle order p \<longleftrightarrow> e_cancelled p \<and> e_gos p = None \<and> e_log p = [] \<and> e_todo p = order \<and> e_err p = None \<and>
     (e_result p = None \<or> e_result p = Some (if order = [] then Nil else Cancelled))"

lemma idle_fire: "idle order p \<Longrightarrow> fire c p l = Some p' \<Longrightarrow> idle order p'"
  by (cases l) (auto simp: idle_def outcome_of_def split: list.splits if_splits)

lemma idle_env:
  assumes "idle order (ev_engine v)" "fire_env c v l = Some v'"
  shows "idle order (ev_engine v') \<and> ev_file v' = ev_file v \<and> ev_hist v' = ev_hist v \<and> ev_api v' = ev_api v \<and> ev_acc v' = ev_acc v"
proof -
  have none: "running v i = None" for i using assms(1) by (simp add: running_def idle_def)
  show ?thesis
  proof (cases l)
    case (Engine m)
    have "fire (vc_engine c) (ev_engine v) (Go i q) = None" for i q using assms(1) by (simp add: idle_def split: option.splits)
    with assms Engine show ?thesis
      by (cases "(c, v, m)" rule: engine_move.cases) (auto simp del: fire.simps dest: idle_fire)
  qed (use assms(2) none in simp_all)
qed

text \<open>
  C39: A destroy that is started with a cancelled context removes nothing, calls nothing and leaves
  the state file as it was, and unless there is nothing to do it reports the cancellation: an
  ephemeral environment whose apply was interrupted stays as it is.
\<close>

theorem cancelled_destroy_removes_nothing:
  assumes "fire_env c (start_destroy c lev w st) (Engine Cancel) = Some v0" "reach_env c lev v0 v" "c_mode (vc_engine c) = Destroying"
  shows "ev_hist v = [] \<and> ev_api v = w \<and> ev_file v = Some st \<and> ev_acc v = wf_resources st \<and>
    (\<forall>r. e_result (ev_engine v) = Some r \<longrightarrow> r = (if lev = [] then Nil else Cancelled))"
proof -
  have start: "idle (rev lev) (ev_engine v0)" "ev_hist v0 = []" "ev_api v0 = w" "ev_file v0 = Some st" "ev_acc v0 = wf_resources st"
    using assms(1,3) by (auto simp: start_destroy_def start_env_def start_engine_def idle_def)
  from assms(2) have "idle (rev lev) (ev_engine v) \<and> ev_hist v = [] \<and> ev_api v = w \<and> ev_file v = Some st \<and> ev_acc v = wf_resources st"
  proof (induction rule: reach_env.induct)
    case start
    show ?case using \<open>idle (rev lev) (ev_engine v0)\<close> \<open>ev_hist v0 = []\<close> \<open>ev_api v0 = w\<close> \<open>ev_file v0 = Some st\<close> \<open>ev_acc v0 = wf_resources st\<close> by blast
  next
    case (move v l v')
    with idle_env [of "rev lev" v c l v'] show ?case by simp
  qed
  then show ?thesis by (auto simp: idle_def)
qed

theorem cancelled_destroy_removes_nothing_witness:
  "\<exists>v. fires_env (down_config demo_old) (start_destroy (down_config demo_old) (demo_levels_down demo_old) [''a''] demo_old) [Engine Cancel, Engine Boundary] = Some v \<and>
     e_result (ev_engine v) = Some Cancelled \<and> ev_hist v = [] \<and> ev_file v = Some demo_old"
proof -
  let ?c = "down_config demo_old" and ?lev = "demo_levels_down demo_old"
  obtain v0 where v0: "fire_env ?c (start_destroy ?c ?lev [''a''] demo_old) (Engine Cancel) = Some v0" by simp
  have "map_option (\<lambda>v. e_result (ev_engine v)) (fires_env ?c (start_destroy ?c ?lev [''a''] demo_old) [Engine Cancel, Engine Boundary]) = Some (Some Cancelled)"
    by code_simp
  then obtain v where v: "fires_env ?c (start_destroy ?c ?lev [''a''] demo_old) [Engine Cancel, Engine Boundary] = Some v" "e_result (ev_engine v) = Some Cancelled"
    unfolding map_option_eq_Some by blast
  from v(1) v0 have "fires_env ?c v0 [Engine Boundary] = Some v" by (simp del: fire_env.simps)
  then have "reach_env ?c ?lev v0 v" by (rule reach_fires_env [OF reach_env.start])
  moreover have "c_mode (vc_engine ?c) = Destroying" by (simp add: down_config_def)
  ultimately show ?thesis using cancelled_destroy_removes_nothing [OF v0] v by blast
qed

end
