(* ===== verification/EnvTypes.thy ===== *)
theory EnvTypes
  imports EnvCycle
begin

text \<open>
  The states that steps save have the type of their step: whatever an apply has put into the state
  file can be read back by the steps that a later run rebuilds from it.
\<close>

text \<open>A process that saves only states of a type.\<close>

definition typed :: "string \<Rightarrow> proc \<Rightarrow> bool" where
  "typed ty p \<longleftrightarrow> (\<forall>m n tr q d e. replay m n p tr = Some q \<longrightarrow> Saved d e \<in> set tr \<longrightarrow>
     (\<exists>st. state_type st = ty \<and> rs_output d = Some (StructToMap st)))"

named_theorems typed_intros \<open>how the parts of a step keep to its type\<close>

lemma typed_Done [typed_intros]: "typed ty (Done r)"
  by (simp add: typed_def replay_Done)

lemma typed_Call [typed_intros]: "(\<And>x. typed ty (k x)) \<Longrightarrow> typed ty (Call r k)"
  unfolding typed_def replay_Call by fastforce

lemma typed_Look [typed_intros]: "(\<And>x. typed ty (k x)) \<Longrightarrow> typed ty (Look key k)"
  unfolding typed_def replay_Look by fastforce

lemma typed_with_op [typed_intros]: "typed ty p \<Longrightarrow> typed ty (with_op s p)"
  by (simp add: with_op_def typed_Done)

lemma typed_keep_state [typed_intros]: "state_type st = ty \<Longrightarrow> typed ty (keep_state what s st created)"
  unfolding typed_def by (auto dest!: keep_state_sound simp: state_data_def)

lemma typed_create_new [typed_intros]: "(\<And>x. state_type (new x) = ty) \<Longrightarrow> typed ty (create_new s create none new)"
  unfolding create_new_def by (intro typed_Call) (auto split: sum.split option.split intro: typed_intros)

lemma typed_provision [typed_intros]:
  "(\<And>x. state_type (old x) = ty) \<Longrightarrow> typed ty p \<Longrightarrow> typed ty (provision s saved get what pick old p)"
  unfolding provision_def by (intro typed_Call) (auto split: sum.split option.split intro: typed_intros)

lemma typed_ref [typed_intros]: "(\<And>x. typed ty (k x)) \<Longrightarrow> typed ty (resolveStepRef t r k)"
  unfolding resolveStepRef_def by (auto split: option.split intro: typed_intros)

lemma typed_types:
  "typed ''network'' (network_apply s saved)" "typed ''key'' (key_apply s saved)" "typed ''image'' (image_apply s saved)"
  "typed ''image_import'' (image_import_apply s saved)" "typed ''kernel'' (kernel_apply s saved)" "typed ''binary'' (binary_apply s saved)"
  "typed ''vm'' (vm_apply s saved)" "typed ''ssh'' (ssh_apply s saved)" "typed ''copy'' (copy_apply s saved)"
  unfolding network_apply_def key_apply_def image_apply_def image_import_apply_def kernel_apply_def binary_apply_def vm_apply_def
    ssh_apply_def copy_apply_def Let_def
  by (intro typed_intros; auto simp: network_state_def new_vm_def old_vm_def split: sum.split intro: typed_intros)+

lemma typed_exec: "typed ''exec'' (exec_apply s saved)"
  unfolding exec_apply_def
  by (auto split: response.split option.split intro!: typed_Call typed_Done typed_keep_state)

lemma typed_apply: "typed (es_type s) (step_apply s saved)"
  by (auto simp: step_apply_def Registry_def registry_def typed_Done intro: typed_types typed_exec)

text \<open>
  C37: Each resource that an apply lists has a saved state of its own type, which reading back from
  the file gives again: no destroy or later apply meets a resource whose state it cannot read.
\<close>

theorem saved_states_typed:
  assumes "NewPipeline (map as_step ss) = Some (Ok p)" "c = apply_config api i src ss prev"
    and "reach_env c (p_levels p) (start_apply c (p_levels p) w file) v" "a \<in> set (ev_acc v)" "yaml_ok y"
  shows "\<exists>st. state_type st = ar_type a \<and> rs_output (ar_state a) = Some (StructToMap st) \<and> saved_data y a = Some st"
proof -
  note run = apply_pipeline [OF assms(1)] assms(3) [unfolded assms(2)]
  from assms(4) obtain n d e where s: "(n, d, e) \<in> set (saves (ev_hist v))" and a: "a = applied (step_of ss n) d"
    unfolding apply_acc [OF run(2)] by auto
  from s have h: "Saved d e \<in> set (history v n)" by (simp add: history_saves)
  obtain q where "replay Executing n (step_apply (step_of ss n) (saved_by_step prev n)) (history v n) = Some q"
    using run_history [OF run(2) [unfolded start_apply_def] run(1) h] by auto
  with h typed_apply [of "step_of ss n" "saved_by_step prev n"] obtain st where st: "state_type st = es_type (step_of ss n)" "rs_output d = Some (StructToMap st)"
    unfolding typed_def by blast
  then have "saved_data y a = Some st" using state_roundtrip [OF assms(5), of st] by (simp add: saved_data_def a applied_def)
  with st show ?thesis by (simp add: a applied_def)
qed

theorem saved_states_typed_witness:
  "\<exists>v a st. demo_apply [] None demo_up = Some v \<and> a \<in> set (ev_acc v) \<and> state_type st = ar_type a \<and> saved_data demo_yaml a = Some st"
proof -
  obtain v a where v: "demo_apply [] None demo_up = Some v" and a: "a \<in> set (ev_acc v)"
    and r: "reach_env (demo_config None) (p_levels \<lparr>p_steps = map as_step demo_keys, p_levels = [map as_step demo_keys]\<rparr>)
       (start_apply (demo_config None) (p_levels \<lparr>p_steps = map as_step demo_keys, p_levels = [map as_step demo_keys]\<rparr>) [] None) v"
    using demo_up_run by metis
  have "yaml_ok demo_yaml" by (simp add: yaml_ok_def demo_yaml_def)
  from saved_states_typed [OF demo_keys_pipeline demo_config_def r a this] v a show ?thesis by blast
qed

end
