(* ===== verification/StateFile.thy ===== *)
theory StateFile
  imports EnvData GoStrings
begin

text \<open>
  The state file of a workflow (\<open>internal/lib/workflow/persist.go\<close>): the operations on its directory
  that a write makes, one after the other, each of which may fail or be the last before the process
  dies, and the reading of the file with the check of its content hash.
\<close>

subsection \<open>The directory\<close>

type_synonym wf_dir = "(string \<rightharpoonup> string) option"

datatype disk_op = MakeDir | TakeLock | SetFile string string | DropFile string | Rename string string

fun disk :: "disk_op \<Rightarrow> wf_dir \<Rightarrow> wf_dir" where
  "disk MakeDir d = (case d of None \<Rightarrow> Some Map.empty | Some fs \<Rightarrow> Some fs)"
| "disk TakeLock d = map_option (\<lambda>fs. if fs ''.lock'' = None then fs(''.lock'' \<mapsto> '''') else fs) d"
| "disk (SetFile n c) d = map_option (\<lambda>fs. fs(n \<mapsto> c)) d"
| "disk (DropFile n) d = map_option (\<lambda>fs. fs(n := None)) d"
| "disk (Rename a b) d = map_option (\<lambda>fs. fs(b := fs a, a := None)) d"

definition content :: "wf_dir \<Rightarrow> string \<Rightarrow> string option" where
  "content d n = (case d of None \<Rightarrow> None | Some fs \<Rightarrow> fs n)"

abbreviation "state_file \<equiv> ''state.yaml''"
abbreviation "backup_file \<equiv> ''state.yaml.backup''"
abbreviation "tmp_file \<equiv> ''state.yaml.tmp''"

text \<open>
  Operations in order, each with what an error of it is reported as; \<open>fails k\<close> is the error of
  operation number \<open>k\<close>, if it has one. Removing a file that is not there is not an error that counts.
  The result has the directories that the operations went through, the last one included.
\<close>

fun attempt :: "(nat \<Rightarrow> string option) \<Rightarrow> nat \<Rightarrow> (disk_op \<times> string) list \<Rightarrow> wf_dir \<Rightarrow> string option \<times> wf_dir list" where
  "attempt fails k [] d = (None, [d])"
| "attempt fails k ((op, what) # ops) d = (case (fails k, op) of
     (Some e, DropFile n) \<Rightarrow> attempt fails (Suc k) ops d
   | (Some e, _) \<Rightarrow> (Some (what @ e), [d])
   | (None, _) \<Rightarrow> (case attempt fails (Suc k) ops (disk op d) of (r, ds) \<Rightarrow> (r, d # ds)))"

subsection \<open>Writing\<close>

text \<open>The contents that the backup and the temporary file go through on the way are \<open>bs\<close> and \<open>ts\<close>.\<close>

definition save_old :: "string \<Rightarrow> string list \<Rightarrow> wf_dir \<Rightarrow> (disk_op \<times> string) list" where
  "save_old dir bs d = [(MakeDir, ''create workflow state dir '' @ dir @ '': ''), (TakeLock, ''lock workflow state: '')] @
     (case content d state_file of None \<Rightarrow> []
      | Some old \<Rightarrow> map (\<lambda>c. (SetFile backup_file c, ''backup state file '' @ dir @ ''/state.yaml: '')) (bs @ [old]))"

definition put_new :: "string \<Rightarrow> string list \<Rightarrow> string \<Rightarrow> (disk_op \<times> string) list" where
  "put_new dir ts data = (DropFile tmp_file, '''') #
     map (\<lambda>c. (SetFile tmp_file c, ''write temp state file '' @ dir @ ''/state.yaml.tmp: '')) (ts @ [data]) @
     [(Rename tmp_file state_file, ''rename state file '' @ dir @ ''/state.yaml.tmp -> '' @ dir @ ''/state.yaml: '')]"

definition WriteWorkflowState :: "string \<Rightarrow> (nat \<Rightarrow> string option) \<Rightarrow> string list \<Rightarrow> string list \<Rightarrow> (string, string) res \<Rightarrow> wf_dir \<Rightarrow>
    string option \<times> wf_dir list" where
  "WriteWorkflowState dir fails bs ts marshalled d = (case attempt fails 0 (save_old dir bs d) d of
     (Some e, ds) \<Rightarrow> (Some e, ds)
   | (None, ds) \<Rightarrow> (case marshalled of
       Inl e \<Rightarrow> (Some (''marshal workflow state: '' @ e), ds)
     | Inr data \<Rightarrow> (case attempt fails (length (save_old dir bs d)) (put_new dir ts data) (last ds) of
         (None, ds') \<Rightarrow> (None, ds @ ds')
       | (Some e, ds') \<Rightarrow> (Some e, ds @ ds' @ [disk (DropFile tmp_file) (last ds')]))))"

subsection \<open>Reading\<close>

definition ReadWorkflowState :: "(string \<Rightarrow> (string, workflow_state) res) \<Rightarrow> (workflow_state \<Rightarrow> (string, string) res) \<Rightarrow>
    (string \<Rightarrow> string) \<Rightarrow> string option \<Rightarrow> wf_dir \<Rightarrow> (string, workflow_state) res" where
  "ReadWorkflowState dec enc sha lock_error d =
     (if content d ''.lock'' \<noteq> None \<and> lock_error \<noteq> None then Err (''acquire shared lock: '' @ the lock_error)
      else (case content d state_file of
        None \<Rightarrow> Err ''no such file or directory''
      | Some txt \<Rightarrow> (case dec txt of
          Inl e \<Rightarrow> Err (''unmarshal workflow state: '' @ e)
        | Inr st \<Rightarrow>
            if wf_hash st = '''' then Ok st
            else (case enc (st\<lparr>wf_hash := ''''\<rparr>) of
              Inl e \<Rightarrow> Err (''compute content hash: '' @ e)
            | Inr data \<Rightarrow>
                if wf_hash st \<noteq> sha data then Err (''state file integrity check failed: content hash mismatch (file='' @
                  wf_hash st @ '' computed='' @ sha data @ '')'')
                else Ok st))))"

definition RemoveWorkflowState :: "wf_dir \<Rightarrow> wf_dir" where
  "RemoveWorkflowState d = None"

subsection \<open>Properties\<close>

text \<open>Operations that leave the state file alone.\<close>

fun spares :: "disk_op \<Rightarrow> bool" where
  "spares (SetFile n c) = (n \<noteq> state_file)"
| "spares (DropFile n) = (n \<noteq> state_file)"
| "spares (Rename a b) = (a \<noteq> state_file \<and> b \<noteq> state_file)"
| "spares _ = True"

lemma disk_spares: "spares op \<Longrightarrow> content (disk op d) state_file = content d state_file"
  by (cases op) (auto simp: content_def split: option.splits)

lemma attempt_last: "snd (attempt fails k ops d) \<noteq> []"
  by (induction fails k ops d rule: attempt.induct) (auto split: option.splits disk_op.splits prod.splits)

lemma attempt_spares:
  "list_all (\<lambda>(op, _). spares op) ops \<Longrightarrow> d' \<in> set (snd (attempt fails k ops d)) \<Longrightarrow> content d' state_file = content d state_file"
  by (induction fails k ops d rule: attempt.induct) (auto simp: disk_spares split: option.splits disk_op.splits prod.splits)

lemma attempt_append:
  "attempt fails k (xs @ ys) d = (case attempt fails k xs d of
     (Some e, ds) \<Rightarrow> (Some e, ds)
   | (None, ds) \<Rightarrow> (case attempt fails (k + length xs) ys (last ds) of (r, ds') \<Rightarrow> (r, butlast ds @ ds')))"
proof (induction fails k xs d rule: attempt.induct)
  case (2 fails k op what ops d)
  show ?case
  proof (cases "fails k")
    case None
    have ne: "snd (attempt fails (Suc k) ops (disk op d)) \<noteq> []" by (rule attempt_last)
    show ?thesis
    proof (cases "attempt fails (Suc k) ops (disk op d)")
      case (Pair r ds)
      with None 2 ne show ?thesis by (cases r; cases op) (auto split: prod.splits)
    qed
  next
    case (Some e)
    with 2 show ?thesis by (cases op) (auto split: option.splits prod.splits)
  qed
qed simp

text \<open>The operations before the rename, and where they lead if none fails.\<close>

lemma save_old_spares: "list_all (\<lambda>(op, _). spares op) (save_old dir bs d)"
  by (auto simp: save_old_def list_all_iff split: option.splits)

definition fill_tmp :: "string \<Rightarrow> string list \<Rightarrow> string \<Rightarrow> (disk_op \<times> string) list" where
  "fill_tmp dir ts data = (DropFile tmp_file, '''') #
     map (\<lambda>c. (SetFile tmp_file c, ''write temp state file '' @ dir @ ''/state.yaml.tmp: '')) (ts @ [data])"

lemma put_new_eq: "put_new dir ts data = fill_tmp dir ts data @
    [(Rename tmp_file state_file, ''rename state file '' @ dir @ ''/state.yaml.tmp -> '' @ dir @ ''/state.yaml: '')]"
  by (simp add: put_new_def fill_tmp_def)

lemma fill_tmp_spares: "list_all (\<lambda>(op, _). spares op) (fill_tmp dir ts data)"
  by (auto simp: fill_tmp_def list_all_iff)

lemma attempt_exists: "d \<noteq> None \<Longrightarrow> d' \<in> set (snd (attempt fails k ops d)) \<Longrightarrow> d' \<noteq> None"
proof (induction fails k ops d rule: attempt.induct)
  case (2 fails k op what ops d)
  then have "disk op d \<noteq> None" by (cases op) auto
  with 2 show ?case by (auto split: option.splits disk_op.splits prod.splits)
qed simp

lemma attempt_last_set:
  assumes "attempt fails k (ops @ [(SetFile n c, what)]) d = (None, ds)" "d \<noteq> None"
  shows "content (last ds) n = Some c"
proof -
  from assms(1) obtain ds0 where a: "attempt fails k ops d = (None, ds0)" "fails (k + length ops) = None" "last ds = disk (SetFile n c) (last ds0)"
    by (auto simp: attempt_append split: option.splits prod.splits)
  have "last ds0 \<noteq> None" using attempt_exists [OF assms(2), of "last ds0" fails k ops] a(1) attempt_last [of fails k ops d] by simp
  with a(3) show ?thesis by (auto simp: content_def)
qed

lemma attempt_made: "attempt fails 0 (save_old dir bs d) d = (None, ds) \<Longrightarrow> last ds \<noteq> None"
proof -
  assume a: "attempt fails 0 (save_old dir bs d) d = (None, ds)"
  then obtain ds' where ds: "ds = d # ds'" "attempt fails (Suc 0) (tl (save_old dir bs d)) (disk MakeDir d) = (None, ds')"
    by (auto simp: save_old_def split: option.splits prod.splits)
  have "disk MakeDir d \<noteq> None" by (cases d) auto
  from attempt_exists [OF this, of "last ds'"] attempt_last [of fails "Suc 0" "tl (save_old dir bs d)" "disk MakeDir d"] ds
  show "last ds \<noteq> None" by (metis last.simps last_in_set snd_conv)
qed

text \<open>
  Whether a write succeeds, fails or is cut off by the death of the process, the state file has its
  old content or all of the new one; it has the new one exactly when the write succeeds.
\<close>

lemma write_atomic:
  assumes "WriteWorkflowState dir fails bs ts (Ok data) d = (r, ds)"
  shows "(\<forall>d' \<in> set ds. content d' state_file = content d state_file \<or> (r = None \<and> content d' state_file = Some data)) \<and>
    (r = None \<longrightarrow> content (last ds) state_file = Some data)"
proof (cases "attempt fails 0 (save_old dir bs d) d")
  case (Pair e ds0)
  have old: "content d' state_file = content d state_file" if "d' \<in> set ds0" for d'
    using attempt_spares [where ops = "save_old dir bs d", OF save_old_spares, where fails = fails and k = 0 and d = d] that Pair by simp
  have ne: "ds0 \<noteq> []" using attempt_last [of fails 0 "save_old dir bs d" d] Pair by simp
  show ?thesis
  proof (cases e)
    case (Some x)
    with assms Pair old show ?thesis by (auto simp: WriteWorkflowState_def)
  next
    case None
    let ?k = "length (save_old dir bs d)"
    obtain e1 ds1 where fill: "attempt fails ?k (fill_tmp dir ts data) (last ds0) = (e1, ds1)" by (metis surj_pair)
    have last0: "content (last ds0) state_file = content d state_file" using old ne by simp
    have mid: "content d' state_file = content d state_file" if "d' \<in> set ds1" for d'
      using attempt_spares [OF fill_tmp_spares, of d' fails ?k dir ts data "last ds0"] that fill last0 by simp
    have ne1: "ds1 \<noteq> []" using attempt_last [of fails ?k "fill_tmp dir ts data" "last ds0"] fill by simp
    have drop: "content (disk (DropFile tmp_file) (last ds1)) state_file = content d state_file"
      using disk_spares [of "DropFile tmp_file"] mid ne1 by simp
    show ?thesis
    proof (cases "e1 = None \<and> fails (?k + length (fill_tmp dir ts data)) = None")
      case True
      have tmp: "content (last ds1) tmp_file = Some data"
      proof (rule attempt_last_set)
        show "attempt fails ?k (((DropFile tmp_file, '''') # map (\<lambda>c. (SetFile tmp_file c, ''write temp state file '' @ dir @ ''/state.yaml.tmp: '')) ts) @
            [(SetFile tmp_file data, ''write temp state file '' @ dir @ ''/state.yaml.tmp: '')]) (last ds0) = (None, ds1)"
          using fill True by (simp add: fill_tmp_def)
        show "last ds0 \<noteq> None" using attempt_made Pair None by blast
      qed
      let ?new = "disk (Rename tmp_file state_file) (last ds1)"
      have new: "content ?new state_file = Some data" using tmp by (auto simp: content_def split: option.splits)
      have "attempt fails ?k (put_new dir ts data) (last ds0) = (None, butlast ds1 @ [last ds1, ?new])"
        using True fill by (simp add: put_new_eq attempt_append)
      then have "r = None" "ds = ds0 @ ds1 @ [?new]" using assms Pair None ne1 by (auto simp: WriteWorkflowState_def)
      with old mid new show ?thesis by auto
    next
      case False
      then obtain x ds2 where "attempt fails ?k (put_new dir ts data) (last ds0) = (Some x, ds2)" "set ds2 = set ds1" "last ds2 = last ds1"
        using fill ne1 by (cases e1; cases "fails (?k + length (fill_tmp dir ts data))") (auto simp: put_new_eq attempt_append)
      then have "r = Some x" "ds = ds0 @ ds2 @ [disk (DropFile tmp_file) (last ds1)]" "set ds2 = set ds1"
        using assms Pair None by (auto simp: WriteWorkflowState_def)
      with old mid drop show ?thesis by auto
    qed
  qed
qed

lemma attempt_old: "attempt fails k ops d = (r, ds) \<Longrightarrow> hd ds = d"
  by (induction fails k ops d arbitrary: r ds rule: attempt.induct) (auto split: option.splits disk_op.splits prod.splits)

lemma read_same: "content d state_file = content d' state_file \<Longrightarrow> ReadWorkflowState dec enc sha None d = ReadWorkflowState dec enc sha None d'"
  by (simp add: ReadWorkflowState_def)

text \<open>
  C40: A write that succeeds is read back as it was written. At every moment of a write, so also if
  it fails or the process dies, a reader finds what it would have found before or the new state,
  never a part of it.
\<close>

theorem read_during_write:
  assumes "enc st = Ok data" "dec data = Ok st" "wf_hash st = ''''" "WriteWorkflowState dir fails bs ts (enc st) d = (r, ds)"
  shows "(\<forall>d' \<in> set ds. ReadWorkflowState dec enc sha None d' = ReadWorkflowState dec enc sha None d \<or>
        ReadWorkflowState dec enc sha None d' = Ok st) \<and>
    (r = None \<longrightarrow> ReadWorkflowState dec enc sha None (last ds) = Ok st) \<and>
    (r \<noteq> None \<longrightarrow> (\<forall>d' \<in> set ds. ReadWorkflowState dec enc sha None d' = ReadWorkflowState dec enc sha None d))"
proof -
  note whole = write_atomic [OF assms(4) [unfolded assms(1)]]
  have new: "ReadWorkflowState dec enc sha None d' = Ok st" if "content d' state_file = Some data" for d'
    using assms(2,3) that by (simp add: ReadWorkflowState_def)
  from whole new read_same show ?thesis by blast
qed

text \<open>
  The check of the content hash: a state that names one is read only if it is that of the state, but
  a state that names none is not checked at all, and no state that is written names one.
\<close>

lemma hash_checked:
  "ReadWorkflowState dec enc sha None d = Ok st \<Longrightarrow> wf_hash st \<noteq> '''' \<Longrightarrow> \<exists>data. enc (st\<lparr>wf_hash := ''''\<rparr>) = Ok data \<and> wf_hash st = sha data"
  by (auto simp: ReadWorkflowState_def split: option.splits sum.splits if_splits)

lemma unhashed_accepted: "content d state_file = Some txt \<Longrightarrow> dec txt = Ok st \<Longrightarrow> wf_hash st = '''' \<Longrightarrow> ReadWorkflowState dec enc sha None d = Ok st"
  by (simp add: ReadWorkflowState_def)

theorem read_during_write_witness:
  "\<exists>ds. WriteWorkflowState ''/w'' (\<lambda>_. None) [''o''] [''ne''] (Ok ''new'') (Some [state_file \<mapsto> ''old'']) = (None, ds) \<and>
    ReadWorkflowState (\<lambda>t. Ok \<lparr>wf_id = t, wf_spec = '''', wf_schema = '''', wf_created = '''', wf_updated = '''', wf_hash = '''', wf_resources = []\<rparr>)
      (\<lambda>st. Ok (wf_id st)) id None (last ds) =
    Ok \<lparr>wf_id = ''new'', wf_spec = '''', wf_schema = '''', wf_created = '''', wf_updated = '''', wf_hash = '''', wf_resources = []\<rparr>"
proof -
  let ?st = "\<lambda>t. \<lparr>wf_id = t, wf_spec = '''', wf_schema = '''', wf_created = '''', wf_updated = '''', wf_hash = '''', wf_resources = []\<rparr> :: workflow_state"
  let ?enc = "\<lambda>st. Ok (wf_id st) :: (string, string) res"
  obtain ds where w: "WriteWorkflowState ''/w'' (\<lambda>_. None) [''o''] [''ne''] (?enc (?st ''new'')) (Some [state_file \<mapsto> ''old'']) = (None, ds)"
    by (simp add: WriteWorkflowState_def save_old_def put_new_def content_def)
  from read_during_write [of ?enc "?st ''new''" "''new''" "\<lambda>t. Ok (?st t)", OF _ _ _ w] w show ?thesis by auto
qed

end
