(* ===== verification/Spec2Isabelle.thy ===== *)
theory Spec2Isabelle
  imports Pipeline Semver Validators Leases Resolvers Machines Drives Spawning Networks Delivery EnvDiff EnvTypes StateFile
begin

text \<open>
  A verification development for mvmctl, a manager of Firecracker micro virtual machines written
  in Go. A user's command reaches \<open>pkg/api\<close>, which resolves what it names, and drives the services
  of \<open>internal/core\<close>: they keep their state in a SQLite database, run \<open>ip\<close>, \<open>iptables\<close>, \<open>nft\<close>
  and Firecracker on the host, and talk to Firecracker over its HTTP socket and to an agent in
  each machine over vsock. \<open>internal/lib\<close> holds what the services share, among it the pipeline
  engine on which the environments of \<open>internal/workflow\<close> are built.

  \<^bold>\<open>Foundations.\<close> \<open>Prelude\<close>: results for \<open>(value, error)\<close>, 64-bit integers, lists. \<open>GoStrings\<close>: the parts
  of \<open>strings\<close>, \<open>strconv\<close> and \<open>unicode/utf8\<close> that are used. \<open>Sorting\<close>: the stable sort under a
  caller's order (locale \<open>weak_order\<close>). \<open>Errs\<close>: \<open>pkg/errs\<close>. \<open>Tables\<close>: a table with a unique key
  (a locale with the list of rows as its model). \<open>Statements\<close>: programs that issue one database
  statement or host action at a time while other processes change the state, any statement may
  fail and the clock moves; the Hoare-style predicates \<open>post\<close>, \<open>within\<close>, \<open>surely\<close> and \<open>blind\<close> with
  the locales that carry them. \<open>Store\<close>: the schema of
  \<open>internal/lib/db/migrations\<close> for networks, leases and machines, and the repositories over it.

  \<^bold>\<open>Versions, names, addresses.\<close> \<open>Semver\<close>: \<open>internal/lib/version\<close>, comparison (a total preorder,
  by its key), specifications and selection. \<open>Validators\<close>: names and what is derived from them.
  \<open>NetAddr\<close>: addresses and networks of both families as Go parses them, IPv4 arithmetic on 32-bit
  words, allocation of the lowest free address, the checks of addresses, gateways and subnets,
  overlap of subnets. \<open>Leases\<close>: \<open>internal/core/network/lease_*.go\<close>; a lease is granted to one machine only,
  whatever other processes do meanwhile. \<open>Resolvers\<close>: from names, prefixes and addresses to rows.

  \<^bold>\<open>Machines.\<close> \<open>Processes\<close>: processes with their signals and exit codes, and the Firecracker client
  with its retries. \<open>Machines\<close>: the controller of \<open>internal/core/vm/controller.go\<close>, refined to the
  life cycle \<open>move\<close>; snapshots pause and resume around the copy. \<open>BootConfig\<close> and \<open>Drives\<close>: the kernel
  command line, the devices and the configuration file of \<open>internal/core/vm/firecracker.go\<close>.
  \<open>Spawning\<close>: the start of the process there, call by call, and what each of its ends leaves behind.

  \<^bold>\<open>Network.\<close> \<open>Firewall\<close>, \<open>Nftables\<close>, \<open>Tracker\<close>: \<open>internal/lib/firewall\<close>, the rows of rules against
  the kernel's chains, through commands and through atomic batches. \<open>Networks\<close>: bridges, TAP devices
  and address translation of \<open>internal/lib/network/netops.go\<close> and \<open>internal/core/network/service.go\<close>.

  \<^bold>\<open>Copying files.\<close> \<open>Paths\<close> (\<open>path/filepath\<close>), \<open>Frames\<close> (the binary frames), \<open>Links\<close> (the connection
  between the two sides), \<open>Sources\<close> (which files a copy takes), \<open>Agent\<close> (\<open>internal/service/agent\<close>, the
  machine's side), \<open>Copying\<close> (\<open>internal/core/vsock/file_transfer.go\<close>, the host's side) and \<open>Delivery\<close>
  (both together: what is reported as copied has arrived, and no side waits for ever).

  \<^bold>\<open>Workflows.\<close> \<open>Dag\<close> and \<open>Pipeline\<close>: \<open>internal/lib/workflow\<close>, the levels of the dependency graph and
  the engine's goroutines under every interleaving. \<open>EnvData\<close> and \<open>EnvSteps\<close>: \<open>internal/workflow/env\<close>, the
  specification and each type of step as a process over the calls of the API. \<open>EnvRun\<close>: those
  processes inside the engine. \<open>EnvContracts\<close>: what every step promises the engine, as a locale with
  an interpretation for each type. \<open>EnvOps\<close>, \<open>EnvDestroy\<close>, \<open>EnvCycle\<close>: what applying records, what
  destroying removes and forgets, and the two in sequence. \<open>EnvTypes\<close>: states keep the type of their
  step. \<open>EnvDiff\<close>: listing and comparing. \<open>StateFile\<close>: \<open>persist.go\<close> operation by operation, with
  failures, interruptions and readers in between.

  \<^bold>\<open>Parameters.\<close> What the host's commands do and print (\<open>sy_exec\<close>), Go's order of iteration over maps
  (\<open>sy_order\<close>, or a permutation), the operating system's answers and the file contents of a copy, the JSON and YAML codecs
  where only their round trip matters, SHA-256, how a kernel reads its command line (\<open>reads_params\<close>), the answers of Firecracker and of the API to the
  steps. Concurrency is a list of labels that names the next move, quantified over; database
  contention is \<open>e_step\<close>, which may replace the state before every statement. The two sides of a
  copy are composed in order of arrival, and an agent's write succeeds while its connection is open.

  \<^bold>\<open>Bounds.\<close> \<open>wait_loop\<close> polls every 100 ms, so \<open>timeout div 100 + 2\<close> rounds reach the deadline
  (\<open>wait_fuel\<close>); requests are tried 5 times and leases 10 times, as in the code. A walk over
  a tree has as many levels as there are directories, since a link is never followed twice on one path. Programs that
  read frames are given one unit for each frame that can still arrive, and the theorems on
  them prove that this is enough.

  \<^bold>\<open>Not modelled.\<close> The command line and its output (parsing and formatting only), downloads, archives
  and the provisioning inside guest file systems (external tools do the work), the console,
  cloud-init and remote execution servers (streams of bytes between descriptors), host
  initialisation, caches and updates (sequences of system calls without state of their own).
\<close>

end
